(* ===== verification/Prelude.thy ===== *)
theory Prelude
  imports Main "HOL-Library.Word" "HOL-Library.Char_ord" "HOL-Library.List_Lexorder"
    "HOL-Library.Signed_Division"
begin

text \<open>
  What the components share: the machine integers of the ESP32 (\<open>unsigned long\<close> is 32 bits
  wide there), Arduino strings and fixed char buffers, the last elements of a list and ring
  buffers over an array, \<open>std::map\<close> as an association list sorted by key, and bounded
  FreeRTOS queues. The laws of rings, maps and queues are stated as locales; each is
  interpreted here on the shared definitions and again in the components that keep such a
  structure of their own.
\<close>

unbundle bit_operations_syntax

named_theorems step_simps \<open>unfolding rules of the components' step functions\<close>
named_theorems inv_intros \<open>preservation rules of the components' invariants\<close>

type_synonym u8 = "8 word"
type_synonym u16 = "16 word"
type_synonym u32 = "32 word"
type_synonym u64 = "64 word"

abbreviation MILLIS_PER_MINUTE :: nat where "MILLIS_PER_MINUTE \<equiv> 60000"

section \<open>Strings and char buffers\<close>

definition upper_char :: "char \<Rightarrow> char" where
  "upper_char c = (if CHR ''a'' \<le> c \<and> c \<le> CHR ''z'' then char_of (of_char c - (32::nat)) else c)"

definition lower_char :: "char \<Rightarrow> char" where
  "lower_char c = (if CHR ''A'' \<le> c \<and> c \<le> CHR ''Z'' then char_of (of_char c + (32::nat)) else c)"

definition to_upper :: "string \<Rightarrow> string" where "to_upper s = map upper_char s"
definition to_lower :: "string \<Rightarrow> string" where "to_lower s = map lower_char s"

text \<open>A string copied into \<open>char buf[n]\<close> by \<open>strncpy\<close> with a terminating NUL, read back.\<close>

definition cstr :: "nat \<Rightarrow> string \<Rightarrow> string" where
  "cstr n s = take (n - 1) (takeWhile (\<lambda>c. c \<noteq> CHR 0x00) s)"

definition starts_with :: "string \<Rightarrow> string \<Rightarrow> bool" where
  "starts_with p s \<longleftrightarrow> take (length p) s = p"

definition ends_with :: "string \<Rightarrow> string \<Rightarrow> bool" where
  "ends_with p s \<longleftrightarrow> starts_with (rev p) (rev s)"

text \<open>\<open>String::indexOf\<close>: \<open>None\<close> stands for its -1.\<close>

fun index_of :: "string \<Rightarrow> string \<Rightarrow> nat option" where
  "index_of p [] = (if p = [] then Some 0 else None)"
| "index_of p (c # s) =
     (if starts_with p (c # s) then Some 0 else map_option Suc (index_of p s))"

definition index_of_from :: "string \<Rightarrow> nat \<Rightarrow> string \<Rightarrow> nat option" where
  "index_of_from p a s = map_option (\<lambda>i. i + a) (index_of p (drop a s))"

definition substring :: "nat \<Rightarrow> nat \<Rightarrow> string \<Rightarrow> string" where
  "substring a b s = take (b - a) (drop a s)"

definition is_space :: "char \<Rightarrow> bool" where
  "is_space c \<longleftrightarrow> c \<in> {CHR '' '', CHR 0x09, CHR 0x0A, CHR 0x0B, CHR 0x0C, CHR 0x0D}"

definition trim :: "string \<Rightarrow> string" where
  "trim s = rev (dropWhile is_space (rev (dropWhile is_space s)))"

definition is_digit :: "char \<Rightarrow> bool" where
  "is_digit c \<longleftrightarrow> CHR ''0'' \<le> c \<and> c \<le> CHR ''9''"

definition digit_val :: "char \<Rightarrow> nat" where "digit_val c = of_char c - 48"

definition digits_val :: "string \<Rightarrow> int" where
  "digits_val s = foldl (\<lambda>a c. 10 * a + int (digit_val c)) 0 (takeWhile is_digit s)"

text \<open>\<open>strtol\<close> with base 10: leading blanks, an optional sign, then digits; 0 without digits.\<close>

definition decimal :: "string \<Rightarrow> int" where
  "decimal s = (case dropWhile is_space s of
       [] \<Rightarrow> 0
     | c # r \<Rightarrow> (if c = CHR ''-'' then - digits_val r
                else if c = CHR ''+'' then digits_val r
                else digits_val (c # r)))"

text \<open>\<open>atol\<close>, \<open>atoi\<close> and \<open>String::toInt\<close> of the platform: a value outside the 32 bits of \<open>long\<close> is cut off.\<close>

definition atol :: "string \<Rightarrow> int" where
  "atol s = max (- (2 ^ 31)) (min (2 ^ 31 - 1) (decimal s))"

fun dec_fuel :: "nat \<Rightarrow> nat \<Rightarrow> string" where
  "dec_fuel 0 n = []"
| "dec_fuel (Suc f) n =
     (if n < 10 then [char_of (48 + n)] else dec_fuel f (n div 10) @ [char_of (48 + n mod 10)])"

definition dec :: "nat \<Rightarrow> string" where "dec n = dec_fuel (Suc n) n"

definition dec_int :: "int \<Rightarrow> string" where
  "dec_int i = (if i < 0 then CHR ''-'' # dec (nat (- i)) else dec (nat i))"

definition replace_char :: "char \<Rightarrow> string \<Rightarrow> string \<Rightarrow> string" where
  "replace_char c r s = concat (map (\<lambda>x. if x = c then r else [x]) s)"

lemma length_to_upper [simp]: "length (to_upper s) = length s"
  by (simp add: to_upper_def)

lemma length_cstr: "0 < n \<Longrightarrow> length (cstr n s) < n"
  by (simp add: cstr_def)

lemma cstr_no_nul: "CHR 0x00 \<notin> set (cstr n s)"
proof
  assume "CHR 0x00 \<in> set (cstr n s)"
  then have "CHR 0x00 \<in> set (takeWhile (\<lambda>c. c \<noteq> CHR 0x00) s)"
    unfolding cstr_def by (rule in_set_takeD)
  then show False by (auto dest: set_takeWhileD)
qed

lemma cstr_id: "CHR 0x00 \<notin> set s \<Longrightarrow> length s < n \<Longrightarrow> cstr n s = s"
  unfolding cstr_def by (subst takeWhile_eq_all_conv [THEN iffD2]) auto

lemma cstr_cstr [simp]: "cstr n (cstr n s) = cstr n s"
proof -
  let ?t = "take (n - 1) (takeWhile (\<lambda>c. c \<noteq> CHR 0x00) s)"
  have "\<forall>c \<in> set ?t. c \<noteq> CHR 0x00"
    by (auto dest!: in_set_takeD set_takeWhileD)
  then have "takeWhile (\<lambda>c. c \<noteq> CHR 0x00) ?t = ?t"
    by (simp only: takeWhile_eq_all_conv)
  then show ?thesis
    unfolding cstr_def by (simp only: take_take min.idem)
qed

lemma upper_upper [simp]: "upper_char (upper_char c) = upper_char c"
proof (cases "CHR ''a'' \<le> c \<and> c \<le> CHR ''z''")
  case True
  let ?d = "char_of (of_char c - (32::nat))"
  from True have b: "97 \<le> (of_char c :: nat)" "(of_char c :: nat) \<le> 122"
    by (simp_all add: less_eq_char_def)
  then have "of_char ?d = (of_char c - (32::nat)) mod 256" by simp
  with b have "of_char ?d < (97::nat)" by simp
  then have "\<not> CHR ''a'' \<le> ?d" by (simp add: less_eq_char_def)
  with True show ?thesis by (simp add: upper_char_def)
next
  case False
  then have "upper_char c = c" by (auto simp: upper_char_def)
  then show ?thesis by simp
qed

lemma upper_char_0: "upper_char c = CHR 0x00 \<Longrightarrow> c = CHR 0x00"
proof -
  assume u: "upper_char c = CHR 0x00"
  have "\<not> (CHR ''a'' \<le> c \<and> c \<le> CHR ''z'')"
  proof
    assume "CHR ''a'' \<le> c \<and> c \<le> CHR ''z''"
    then have b: "97 \<le> (of_char c :: nat)" "(of_char c :: nat) \<le> 122" and
      e: "char_of (of_char c - (32::nat)) = CHR 0x00"
      using u by (simp_all add: less_eq_char_def upper_char_def)
    have "(of_char c - (32::nat)) mod 256 = 0" using arg_cong [OF e, of "of_char :: char \<Rightarrow> nat"] by simp
    with b show False by simp
  qed
  with u show ?thesis by (auto simp: upper_char_def)
qed

lemma to_upper_to_upper [simp]: "to_upper (to_upper s) = to_upper s"
  by (simp add: to_upper_def)

lemma index_of_Some:
  "index_of p s = Some i \<Longrightarrow> i \<le> length s \<and> starts_with p (drop i s)"
  by (induction p s arbitrary: i rule: index_of.induct)
    (auto simp: starts_with_def split: if_splits)

lemma fold_inv: "P a \<Longrightarrow> (\<And>x b. P b \<Longrightarrow> P (f x b)) \<Longrightarrow> P (fold f xs a)"
  by (induction xs arbitrary: a) simp_all

text \<open>Decimal text read back.\<close>

lemma is_digit_dec: "d < 10 \<Longrightarrow> is_digit (char_of (48 + d)) \<and> digit_val (char_of (48 + d)) = (d::nat)"
  by (simp add: is_digit_def digit_val_def less_eq_char_def)

lemma dec_fuel_digits:
  "n < f \<Longrightarrow> dec_fuel f n \<noteq> [] \<and> list_all is_digit (dec_fuel f n)
     \<and> foldl (\<lambda>a c. 10 * a + int (digit_val c)) 0 (dec_fuel f n) = int n"
proof (induction f n rule: dec_fuel.induct)
  case (2 f n)
  show ?case
  proof (cases "n < 10")
    case True
    then show ?thesis by (simp add: is_digit_dec)
  next
    case False
    then have "n div 10 < f" using "2.prems" by linarith
    with 2 False have ih: "list_all is_digit (dec_fuel f (n div 10))"
      "foldl (\<lambda>a c. 10 * a + int (digit_val c)) 0 (dec_fuel f (n div 10)) = int (n div 10)" by simp_all
    have d: "is_digit (char_of (48 + n mod 10)) \<and> digit_val (char_of (48 + n mod 10)) = n mod 10"
      by (rule is_digit_dec) simp
    have "10 * int (n div 10) + int (n mod 10) = int n" by presburger
    with False ih d show ?thesis by (simp del: of_nat_mod of_nat_div)
  qed
qed simp

lemma dec_digits: "dec n \<noteq> []" "list_all is_digit (dec n)"
  using dec_fuel_digits [of n "Suc n"] by (simp_all add: dec_def)

lemma digits_val_dec [simp]: "digits_val (dec n) = int n"
proof -
  have "takeWhile is_digit (dec n) = dec n"
    using dec_digits [of n] by (simp add: takeWhile_eq_all_conv list_all_iff)
  then show ?thesis
    using dec_fuel_digits [of n "Suc n"] unfolding digits_val_def by (simp only: dec_def)
qed

section \<open>Ring buffers\<close>

definition last_n :: "nat \<Rightarrow> 'a list \<Rightarrow> 'a list" where
  "last_n n xs = drop (length xs - n) xs"

lemma length_last_n [simp]: "length (last_n n xs) = min n (length xs)"
  by (simp add: last_n_def)

lemma last_n_all [simp]: "length xs \<le> n \<Longrightarrow> last_n n xs = xs"
  by (simp add: last_n_def)

lemma set_last_n: "set (last_n n xs) \<subseteq> set xs"
  by (simp add: last_n_def set_drop_subset)

lemma nth_last_n: "i < min n (length xs) \<Longrightarrow> last_n n xs ! i = xs ! (length xs - min n (length xs) + i)"
  by (cases "length xs \<le> n") (simp_all add: last_n_def)

lemma last_n_append_last_n: "last_n n (last_n n xs @ ys) = last_n n (xs @ ys)"
  by (cases "length xs \<le> n") (simp_all add: last_n_def add.commute)

lemma last_n_suffix: "length ys \<le> n \<Longrightarrow> last_n n (xs @ ys) = last_n (n - length ys) xs @ ys"
  by (simp add: last_n_def)

text \<open>
  An array \<open>slots\<close> with the next write position \<open>head\<close> and \<open>cnt\<close> live entries, read from
  the oldest: \<open>(head - cnt + N + i) % N\<close>.
\<close>

definition ring_window :: "'a list \<Rightarrow> nat \<Rightarrow> nat \<Rightarrow> 'a list" where
  "ring_window slots head cnt =
     map (\<lambda>i. slots ! ((head + length slots - cnt + i) mod length slots)) [0..<cnt]"

definition ring_ok :: "nat \<Rightarrow> 'a list \<Rightarrow> nat \<Rightarrow> nat \<Rightarrow> bool" where
  "ring_ok n slots head cnt \<longleftrightarrow> 0 < n \<and> length slots = n \<and> head < n \<and> cnt \<le> n"

lemma length_ring_window [simp]: "length (ring_window slots head cnt) = cnt"
  by (simp add: ring_window_def)

lemma ring_window_empty [simp]: "ring_window slots head 0 = []"
  by (simp add: ring_window_def)

lemma ring_index_before:
  assumes h: "head < (n::nat)" and d: "Suc d \<le> n" and i: "i < d"
  shows "(Suc head mod n + n - Suc d + i) mod n = (head + n - d + i) mod n"
    and "(head + n - d + i) mod n \<noteq> head"
proof -
  show "(Suc head mod n + n - Suc d + i) mod n = (head + n - d + i) mod n"
  proof (cases "Suc head = n")
    case True
    with d have "head + n - d + i = (n - Suc d + i) + n" by simp
    moreover from True have "Suc head mod n + n - Suc d + i = n - Suc d + i" by simp
    ultimately show ?thesis by (simp only: mod_add_self2)
  next
    case False
    with h have "Suc head mod n + n - Suc d + i = head + n - d + i" by simp
    then show ?thesis by simp
  qed
  from i obtain k where k: "d = i + k" "0 < k" by (metis less_imp_add_positive)
  show "(head + n - d + i) mod n \<noteq> head"
  proof (cases "k \<le> head")
    case True
    with k d have "head + n - d + i = (head - k) + n" by simp
    moreover have "((head - k) + n) mod n = head - k" using h by (simp only: mod_add_self2) simp
    ultimately have "(head + n - d + i) mod n = head - k" by (simp only:)
    with k(2) True show ?thesis by simp
  next
    case False
    with k d h have "head + n - d + i = head + (n - k)" "head + (n - k) < n" by simp_all
    moreover have "0 < n - k" using d k by simp
    ultimately show ?thesis by simp
  qed
qed

lemma ring_window_push:
  assumes ok: "ring_ok n slots head cnt"
  shows "ring_window (slots[head := x]) (Suc head mod n) (min n (Suc cnt))
           = last_n n (ring_window slots head cnt @ [x])"
proof (rule nth_equalityI)
  show "length (ring_window (slots[head := x]) (Suc head mod n) (min n (Suc cnt)))
          = length (last_n n (ring_window slots head cnt @ [x]))"
    by simp
next
  fix i
  assume "i < length (ring_window (slots[head := x]) (Suc head mod n) (min n (Suc cnt)))"
  then have i: "i < min n (Suc cnt)" by simp
  from ok have n: "0 < n" "length slots = n" "head < n" "cnt \<le> n"
    by (simp_all add: ring_ok_def)
  let ?c = "min n (Suc cnt)"
  let ?w = "ring_window slots head cnt"
  have R: "last_n n (?w @ [x]) ! i = (?w @ [x]) ! (Suc cnt - ?c + i)"
    using i by (subst nth_last_n) simp_all
  have L: "ring_window (slots[head := x]) (Suc head mod n) ?c ! i
             = slots[head := x] ! ((Suc head mod n + n - ?c + i) mod n)"
    using i n by (simp add: ring_window_def)
  show "ring_window (slots[head := x]) (Suc head mod n) ?c ! i = last_n n (?w @ [x]) ! i"
  proof (cases "i = ?c - 1")
    case True
    have "(Suc head mod n + n - ?c + i) mod n = head"
      using True n by (cases "Suc head = n") auto
    moreover have "Suc cnt - ?c + i = cnt" using True n by auto
    ultimately show ?thesis using L R n by (simp add: nth_append)
  next
    case False
    with i have i': "i < ?c - 1" by arith
    have c: "Suc (?c - 1) = ?c" and c': "Suc (?c - 1) \<le> n" using n by auto
    note idx = ring_index_before [OF n(3) c' i', unfolded c]
    have j: "Suc cnt - ?c + i < cnt" using i' by auto
    have e: "head + n - (?c - 1) + i = head + n - cnt + (Suc cnt - ?c + i)"
    proof (cases "cnt < n")
      case True
      then have "?c = Suc cnt" by simp
      then show ?thesis by simp
    next
      case False
      with n(4) have "cnt = n" by simp
      then show ?thesis using n(1) by simp
    qed
    have "ring_window (slots[head := x]) (Suc head mod n) ?c ! i
            = slots ! ((head + n - cnt + (Suc cnt - ?c + i)) mod n)"
      unfolding L idx(1) e [symmetric] using idx(2) by (rule nth_list_update_neq [OF not_sym])
    also have "\<dots> = ?w ! (Suc cnt - ?c + i)"
      using j unfolding ring_window_def n(2) by (subst nth_map) simp_all
    also have "\<dots> = last_n n (?w @ [x]) ! i"
      unfolding R using j by (simp only: nth_append length_ring_window if_True)
    finally show ?thesis .
  qed
qed

lemma ring_ok_push:
  "ring_ok n slots head cnt \<Longrightarrow> ring_ok n (slots[head := x]) (Suc head mod n) (min n (Suc cnt))"
  by (simp add: ring_ok_def)

text \<open>The contract of a history of bounded length: it holds the last \<open>n\<close> of what was pushed.\<close>

locale recent_history =
  fixes cap :: nat and push :: "'a \<Rightarrow> 'r \<Rightarrow> 'r" and contents :: "'r \<Rightarrow> 'a list"
    and ok :: "'r \<Rightarrow> bool"
  assumes ok_push: "ok r \<Longrightarrow> ok (push x r)"
    and contents_push: "ok r \<Longrightarrow> contents (push x r) = last_n cap (contents r @ [x])"
    and contents_cap: "ok r \<Longrightarrow> length (contents r) \<le> cap"
begin

lemma ok_fold: "ok r \<Longrightarrow> ok (fold push xs r)"
  by (induction xs arbitrary: r) (simp_all add: ok_push)

lemma contents_fold: "ok r \<Longrightarrow> contents (fold push xs r) = last_n cap (contents r @ xs)"
proof (induction xs arbitrary: r)
  case Nil
  then show ?case by (simp add: contents_cap)
next
  case (Cons x xs)
  then have "contents (fold push (x # xs) r) = last_n cap (last_n cap (contents r @ [x]) @ xs)"
    by (simp add: ok_push contents_push)
  then show ?case by (simp add: last_n_append_last_n)
qed

lemma recent_kept:
  assumes "ok r" and "length xs < cap"
  shows "x \<in> set (contents (fold push xs (push x r)))"
proof -
  have "contents (fold push (x # xs) r) = last_n cap (contents r @ (x # xs))"
    using assms(1) by (rule contents_fold)
  also have "\<dots> = last_n (cap - Suc (length xs)) (contents r) @ x # xs"
    using assms(2) by (subst last_n_suffix) simp_all
  finally show ?thesis by simp
qed

end

interpretation array_ring: recent_history n "\<lambda>x (slots, head, cnt). (slots[head := x], Suc head mod n, min n (Suc cnt))"
    "\<lambda>(slots, head, cnt). ring_window slots head cnt" "\<lambda>(slots, head, cnt). ring_ok n slots head cnt"
  for n :: nat
  by unfold_locales (auto simp: ring_ok_push ring_window_push ring_ok_def)

section \<open>Signed 32-bit integers\<close>

text \<open>The value that a 32-bit \<open>int\<close> or \<open>long\<close> holds after arithmetic with the result \<open>n\<close>: two's complement.\<close>

definition long32 :: "int \<Rightarrow> int" where "long32 n = signed_take_bit 31 n"

definition in_long :: "int \<Rightarrow> bool" where "in_long n \<longleftrightarrow> - (2 ^ 31) \<le> n \<and> n < 2 ^ 31"

lemma in_long_long32 [simp]: "in_long (long32 n)"
  unfolding in_long_def long32_def using signed_take_bit_int_greater_eq_minus_exp [of 31 n] signed_take_bit_int_less_exp [of 31 n] by simp

lemma long32_id [simp]: "in_long n \<Longrightarrow> long32 n = n"
  unfolding in_long_def long32_def by (simp add: signed_take_bit_int_eq_self)

lemma in_long_0 [simp]: "in_long 0"
  by (simp add: in_long_def)

lemma long32_0 [simp]: "long32 0 = 0"
  by simp

lemma long32_add [simp]: "long32 (long32 a + b) = long32 (a + b)" "long32 (a + long32 b) = long32 (a + b)"
  unfolding long32_def using signed_take_bit_add [of 31 a b] signed_take_bit_add [of 31 "signed_take_bit 31 a" b]
    signed_take_bit_add [of 31 a "signed_take_bit 31 b"] by simp_all

lemma long32_mult [simp]: "long32 (long32 a * b) = long32 (a * b)" "long32 (a * long32 b) = long32 (a * b)"
  unfolding long32_def using signed_take_bit_mult [of 31 a b] signed_take_bit_mult [of 31 "signed_take_bit 31 a" b]
    signed_take_bit_mult [of 31 a "signed_take_bit 31 b"] by simp_all

lemma long32_add_assoc [simp]: "long32 (a + (long32 b + c)) = long32 (a + (b + c))"
  using long32_add(2) [of a "long32 b + c"] long32_add(2) [of a "b + c"] by simp

lemma in_long_mono: "in_long n \<Longrightarrow> 0 \<le> m \<Longrightarrow> m \<le> n \<Longrightarrow> in_long m"
  by (simp add: in_long_def)

end
