(* ===== verification/Containers.thy ===== *)
theory Containers
  imports Prelude
begin

text \<open>
  The containers of the C++ standard library and of FreeRTOS that several components keep:
  \<open>std::map\<close> (iterated in key order, so an association list sorted by key) and the bounded
  FIFO queue of \<open>xQueueSend\<close> with no wait, which refuses an element when it is full.
  Their contracts are the locales \<open>std_map\<close> and \<open>bounded_queue\<close>.
\<close>

section \<open>Ordered maps\<close>

fun omap_update :: "'k::linorder \<Rightarrow> 'v \<Rightarrow> ('k \<times> 'v) list \<Rightarrow> ('k \<times> 'v) list" where
  "omap_update k v [] = [(k, v)]"
| "omap_update k v ((a, b) # m) =
     (if k < a then (k, v) # (a, b) # m
      else if k = a then (k, v) # m
      else (a, b) # omap_update k v m)"

definition omap_ok :: "('k::linorder \<times> 'v) list \<Rightarrow> bool" where
  "omap_ok m \<longleftrightarrow> sorted_wrt (<) (map fst m)"

definition omap_get :: "'v \<Rightarrow> ('k \<times> 'v) list \<Rightarrow> 'k \<Rightarrow> 'v" where
  "omap_get d m k = (case map_of m k of None \<Rightarrow> d | Some v \<Rightarrow> v)"

text \<open>\<open>m[k] += n\<close>: an absent key starts at 0.\<close>

definition omap_add :: "'k::linorder \<Rightarrow> 'v::{plus,zero} \<Rightarrow> ('k \<times> 'v) list \<Rightarrow> ('k \<times> 'v) list" where
  "omap_add k n m = omap_update k (omap_get 0 m k + n) m"

locale std_map =
  fixes empty :: "'m" and update :: "'k \<Rightarrow> 'v \<Rightarrow> 'm \<Rightarrow> 'm" and lookup :: "'m \<Rightarrow> 'k \<Rightarrow> 'v option"
    and ok :: "'m \<Rightarrow> bool"
  assumes ok_empty: "ok empty" and lookup_empty: "lookup empty k = None"
    and ok_update: "ok m \<Longrightarrow> ok (update k v m)"
    and lookup_update: "ok m \<Longrightarrow> lookup (update k v m) = (lookup m)(k \<mapsto> v)"
begin

lemma ok_fold_update: "ok m \<Longrightarrow> ok (fold (\<lambda>x. update (f x) (g x)) xs m)"
  by (induction xs arbitrary: m) (simp_all add: ok_update)

lemma lookup_fold_update:
  "ok m \<Longrightarrow> lookup (fold (\<lambda>x. update (f x) (g x)) xs m) k
     = (case map_of (rev (map (\<lambda>x. (f x, g x)) xs)) k of None \<Rightarrow> lookup m k | Some v \<Rightarrow> Some v)"
  by (induction xs arbitrary: m)
    (auto simp: ok_update lookup_update map_add_def split: option.splits)

lemma lookup_update_same: "ok m \<Longrightarrow> lookup (update k v m) k = Some v"
  and lookup_update_other: "ok m \<Longrightarrow> k' \<noteq> k \<Longrightarrow> lookup (update k v m) k' = lookup m k'"
  by (simp_all add: lookup_update)

end

lemma keys_omap_update: "set (map fst (omap_update k v m)) = insert k (set (map fst m))"
  by (induction k v m rule: omap_update.induct) auto

lemma omap_ok_update: "omap_ok m \<Longrightarrow> omap_ok (omap_update k v m)"
proof (induction k v m rule: omap_update.induct)
  case (2 k v a b m)
  then show ?case
    using keys_omap_update [of k v m] by (fastforce simp: omap_ok_def)
qed (simp add: omap_ok_def)

lemma map_of_None_below: "omap_ok ((a, b) # m) \<Longrightarrow> k \<le> a \<Longrightarrow> map_of m k = None"
  by (auto simp: omap_ok_def map_of_eq_None_iff)

lemma map_of_omap_update: "omap_ok m \<Longrightarrow> map_of (omap_update k v m) = (map_of m)(k \<mapsto> v)"
proof (induction k v m rule: omap_update.induct)
  case (2 k v a b m)
  have "omap_ok m" using "2.prems" by (simp add: omap_ok_def)
  with 2 show ?case by (auto simp: fun_eq_iff)
qed simp

interpretation omap: std_map "[]" "omap_update" "map_of" "omap_ok"
  by unfold_locales (simp_all add: omap_ok_def [of "[]"] omap_ok_update map_of_omap_update)

lemma omap_ok_Nil [simp]: "omap_ok []"
  by (rule omap.ok_empty)

lemma omap_ok_add: "omap_ok m \<Longrightarrow> omap_ok (omap_add k n m)"
  by (simp add: omap_add_def omap_ok_update)

lemma omap_get_add:
  "omap_ok m \<Longrightarrow> omap_get 0 (omap_add k n m) j = omap_get 0 m j + (if j = k then n else (0::'v::monoid_add))"
  by (simp add: omap_get_def omap_add_def map_of_omap_update)

lemma sum_omap_update:
  fixes v :: "'v::ab_group_add"
  assumes "omap_ok m"
  shows "sum_list (map snd (omap_update k v m)) = sum_list (map snd m) - omap_get 0 m k + v"
  using assms
proof (induction k v m rule: omap_update.induct)
  case (2 k v a b m)
  have ok: "omap_ok m" using "2.prems" by (simp add: omap_ok_def)
  show ?case
    using 2 ok map_of_None_below [OF "2.prems", of k]
    by (auto simp: omap_get_def algebra_simps)
qed (simp add: omap_get_def)

lemma sum_omap_add:
  fixes n :: "'v::ab_group_add"
  shows "omap_ok m \<Longrightarrow> sum_list (map snd (omap_add k n m)) = sum_list (map snd m) + n"
  by (simp add: omap_add_def sum_omap_update)

text \<open>\<open>m[k] += n\<close> where the values are 32-bit integers.\<close>

definition omap_add_long :: "'k::linorder \<Rightarrow> int \<Rightarrow> ('k \<times> int) list \<Rightarrow> ('k \<times> int) list" where
  "omap_add_long k n m = omap_update k (long32 (omap_get 0 m k + n)) m"

lemma omap_ok_add_long: "omap_ok m \<Longrightarrow> omap_ok (omap_add_long k n m)"
  by (simp add: omap_add_long_def omap_ok_update)

lemma omap_get_add_long:
  "omap_ok m \<Longrightarrow> omap_get 0 (omap_add_long k n m) j = (if j = k then long32 (omap_get 0 m j + n) else omap_get 0 m j)"
  by (simp add: omap_get_def omap_add_long_def map_of_omap_update)

text \<open>Adding many: what a key ends with is the 32-bit value of the sum of what was meant for it.\<close>

lemma fold_omap_add_long_get:
  "omap_ok acc \<Longrightarrow> in_long (omap_get 0 acc k) \<Longrightarrow> omap_ok (fold (\<lambda>x. omap_add_long (f x) (g x)) xs acc)
     \<and> omap_get 0 (fold (\<lambda>x. omap_add_long (f x) (g x)) xs acc) k
         = long32 (omap_get 0 acc k + (\<Sum>x\<leftarrow>xs. if f x = k then g x else 0))"
  by (induction xs arbitrary: acc) (auto simp: omap_ok_add_long omap_get_add_long algebra_simps)

section \<open>JSON objects\<close>

text \<open>Members of a JSON object in the order of their first insertion: setting a known key keeps
  its place, a new one goes to the end.\<close>

fun obj_set :: "'k \<Rightarrow> 'v \<Rightarrow> ('k \<times> 'v) list \<Rightarrow> ('k \<times> 'v) list" where
  "obj_set k v [] = [(k, v)]"
| "obj_set k v ((a, b) # m) = (if k = a then (k, v) # m else (a, b) # obj_set k v m)"

definition obj_ok :: "('k \<times> 'v) list \<Rightarrow> bool" where "obj_ok m \<longleftrightarrow> distinct (map fst m)"

lemma keys_obj_set: "set (map fst (obj_set k v m)) = insert k (set (map fst m))"
  by (induction k v m rule: obj_set.induct) auto

lemma map_of_obj_set [simp]: "map_of (obj_set k v m) = (map_of m)(k \<mapsto> v)"
  by (induction k v m rule: obj_set.induct) (auto simp: fun_eq_iff)

lemma obj_ok_set: "obj_ok m \<Longrightarrow> obj_ok (obj_set k v m)"
proof (induction k v m rule: obj_set.induct)
  case (2 k v a b m)
  then show ?case using keys_obj_set [of k v m] by (auto simp: obj_ok_def)
qed (simp add: obj_ok_def)

interpretation obj: std_map "[]" obj_set map_of obj_ok
  by unfold_locales (simp_all add: obj_ok_def [of "[]"] obj_ok_set)

text \<open>A property of every value of a map, through one update.\<close>

definition all_values :: "('v \<Rightarrow> bool) \<Rightarrow> ('k \<times> 'v) list \<Rightarrow> bool" where
  "all_values P m \<longleftrightarrow> (\<forall>(k, v) \<in> set m. P v)"

lemma all_values_Nil [simp]: "all_values P []"
  by (simp add: all_values_def)

lemma all_values_set: "all_values P m \<Longrightarrow> P v \<Longrightarrow> all_values P (obj_set k v m)"
  by (induction k v m rule: obj_set.induct) (auto simp: all_values_def)

lemma all_values_map:
  "all_values P m \<Longrightarrow> (\<And>k v. P v \<Longrightarrow> P (f k v)) \<Longrightarrow> all_values P (map (\<lambda>(k, v). (k, f k v)) m)"
  by (auto simp: all_values_def)

lemma all_values_map_of: "all_values P m \<Longrightarrow> map_of m k = Some v \<Longrightarrow> P v"
  by (auto simp: all_values_def dest: map_of_SomeD)

lemma obj_ok_map_values [simp]: "obj_ok (map (\<lambda>(k, v). (k, f k v)) m) = obj_ok m"
proof -
  have "map fst (map (\<lambda>(k, v). (k, f k v)) m) = map fst m" by (induction m) auto
  then show ?thesis by (simp only: obj_ok_def)
qed

lemma obj_set_same: "map_of m k = Some v \<Longrightarrow> obj_set k v m = m"
  by (induction k v m rule: obj_set.induct) auto

lemma map_of_map_values: "map_of (map (\<lambda>(k, v). (k, f k v)) m) k = map_option (f k) (map_of m k)"
  by (induction m) auto

section \<open>Bounded queues\<close>

definition q_send :: "nat \<Rightarrow> 'a \<Rightarrow> 'a list \<Rightarrow> 'a list option" where
  "q_send cap x q = (if length q < cap then Some (q @ [x]) else None)"

definition q_post :: "nat \<Rightarrow> 'a \<Rightarrow> 'a list \<Rightarrow> 'a list" where
  "q_post cap x q = (case q_send cap x q of None \<Rightarrow> q | Some q' \<Rightarrow> q')"

definition q_receive :: "'a list \<Rightarrow> ('a \<times> 'a list) option" where
  "q_receive q = (case q of [] \<Rightarrow> None | x # q' \<Rightarrow> Some (x, q'))"

locale bounded_queue =
  fixes cap :: nat and send :: "'a \<Rightarrow> 'q \<Rightarrow> 'q option" and receive :: "'q \<Rightarrow> ('a \<times> 'q) option"
    and items :: "'q \<Rightarrow> 'a list"
  assumes send_items: "send x q = Some q' \<Longrightarrow> items q' = items q @ [x]"
    and send_refused: "send x q = None \<longleftrightarrow> cap \<le> length (items q)"
    and receive_items: "receive q = Some (x, q') \<Longrightarrow> items q = x # items q'"
    and receive_empty: "receive q = None \<longleftrightarrow> items q = []"
begin

lemma send_count: "send x q = Some q' \<Longrightarrow>
    length (filter P (items q')) = length (filter P (items q)) + (if P x then 1 else 0)"
  by (simp add: send_items)

lemma receive_count: "receive q = Some (x, q') \<Longrightarrow>
    length (filter P (items q)) = length (filter P (items q')) + (if P x then 1 else 0)"
  by (simp add: receive_items)

lemma send_bound: "send x q = Some q' \<Longrightarrow> length (items q') \<le> cap"
proof -
  assume s: "send x q = Some q'"
  then have "\<not> cap \<le> length (items q)" using send_refused [of x q] by simp
  with send_items [OF s] show ?thesis by simp
qed

end

interpretation fifo: bounded_queue cap "q_send cap" q_receive "\<lambda>q. q" for cap
  by unfold_locales (auto simp: q_send_def q_receive_def split: if_splits list.splits)

lemma q_post_count:
  "length (filter P (q_post cap x q)) = length (filter P q) + (if P x \<and> length q < cap then 1 else 0)"
  by (simp add: q_post_def q_send_def)

end
