(* ===== verification/CoinPulse.thy ===== *)
theory CoinPulse
  imports Containers
begin

text \<open>
  Coin pulses (\<open>src/coin.cpp\<close>): the two interrupt handlers that measure the width of a pulse,
  the network entry, the acceptor boot test, and one iteration of \<open>coinPulseTask\<close>, which
  rejects spikes and too fast pulses and turns the others into coins. The values the task
  reads from the platform and from other tasks (role, own MAC, \<open>millis()\<close>, the insertion
  window) are a record of its environment; what it sends is a list of actions.
\<close>

section \<open>Constants of src/globals.h\<close>

abbreviation COIN_DEBOUNCE_MILLIS :: u32 where "COIN_DEBOUNCE_MILLIS \<equiv> 300"
abbreviation COINSLOT_MIN_PULSE_INTERVAL_MILLIS :: u32 where
  "COINSLOT_MIN_PULSE_INTERVAL_MILLIS \<equiv> 100"
abbreviation COINSLOT_MIN_PULSE_WIDTH_MICROS :: u32 where
  "COINSLOT_MIN_PULSE_WIDTH_MICROS \<equiv> 3000"
abbreviation COINSLOT_MAX_FRAUD_PER_SESSION :: nat where
  "COINSLOT_MAX_FRAUD_PER_SESSION \<equiv> 3"

abbreviation COIN_PULSE_QUEUE_SIZE :: nat where "COIN_PULSE_QUEUE_SIZE \<equiv> 32"

datatype pulse_source = PULSE_COINSLOT | PULSE_BUTTON | PULSE_NETWORK

record coin_pulse =
  source :: pulse_source
  widthMicros :: u32
  timestampMicros :: u32
  pulse_mac :: string

section \<open>Interrupt handlers and network entry\<close>

record isr_state =
  COINBUTTON_FALL_TIME :: u32
  COINSLOT_FALL_TIME :: u32
  LAST_COIN_PULSE_TIME :: u32

definition coinButtonPulse :: "u32 \<Rightarrow> bool \<Rightarrow> isr_state \<Rightarrow> isr_state \<times> coin_pulse option" where
  "coinButtonPulse now low s =
     (if low then
        (let nowMs = now div 1000
         in if nowMs - LAST_COIN_PULSE_TIME s < COIN_DEBOUNCE_MILLIS then (s, None)
            else (s\<lparr>LAST_COIN_PULSE_TIME := nowMs, COINBUTTON_FALL_TIME := now\<rparr>, None))
      else (s\<lparr>COINBUTTON_FALL_TIME := 0\<rparr>,
            if COINBUTTON_FALL_TIME s > 0
            then Some \<lparr>source = PULSE_BUTTON, widthMicros = now - COINBUTTON_FALL_TIME s,
                       timestampMicros = COINBUTTON_FALL_TIME s, pulse_mac = []\<rparr>
            else None))"

definition coinSlotPulse :: "u32 \<Rightarrow> bool \<Rightarrow> isr_state \<Rightarrow> isr_state \<times> coin_pulse option" where
  "coinSlotPulse now low s =
     (if low then (s\<lparr>COINSLOT_FALL_TIME := now\<rparr>, None)
      else (s\<lparr>COINSLOT_FALL_TIME := 0\<rparr>,
            if COINSLOT_FALL_TIME s > 0
            then Some \<lparr>source = PULSE_COINSLOT, widthMicros = now - COINSLOT_FALL_TIME s,
                       timestampMicros = COINSLOT_FALL_TIME s, pulse_mac = []\<rparr>
            else None))"

definition masterRecvCoinInserted :: "u32 \<Rightarrow> string \<Rightarrow> coin_pulse" where
  "masterRecvCoinInserted now senderMac =
     \<lparr>source = PULSE_NETWORK, widthMicros = 0, timestampMicros = now, pulse_mac = cstr 18 senderMac\<rparr>"

section \<open>The acceptor boot test\<close>

abbreviation BOOTTEST_MAX_PULSES :: nat where "BOOTTEST_MAX_PULSES \<equiv> 200"
abbreviation BOOTTEST_MAX_CYCLES :: int where "BOOTTEST_MAX_CYCLES \<equiv> 64"

record boot_test =
  BOOT_TEST_RUNNING :: bool
  BOOT_TEST_CYCLE :: int
  BOOT_TEST_TOTAL :: int
  BOOT_TEST_POWERON_US :: u32
  BOOT_TEST_PULSES :: "(int \<times> u32 \<times> u32) list"
  BOOT_TEST_STUCK :: "bool list"

definition coinBootTestStart :: "int \<Rightarrow> bool \<Rightarrow> boot_test \<Rightarrow> boot_test \<times> bool" where
  "coinBootTestStart cycles accepting b =
     (if accepting \<or> BOOT_TEST_RUNNING b then (b, False)
      else (b\<lparr>BOOT_TEST_TOTAL := (if cycles < 1 then 1
                                 else if cycles > BOOTTEST_MAX_CYCLES then BOOTTEST_MAX_CYCLES
                                 else cycles),
              BOOT_TEST_PULSES := [], BOOT_TEST_CYCLE := 0,
              BOOT_TEST_STUCK := replicate (nat BOOTTEST_MAX_CYCLES) False,
              BOOT_TEST_RUNNING := True\<rparr>, True))"

text \<open>The phases of one cycle of \<open>coinBootTestTask\<close>: power off, power on, end of the window.\<close>

datatype boot_event = PowerOff int | PowerOn u32 | WindowEnd int bool | TestDone

fun coinBootTestTask :: "boot_event \<Rightarrow> boot_test \<Rightarrow> boot_test" where
  "coinBootTestTask (PowerOff c) b = b\<lparr>BOOT_TEST_CYCLE := c, BOOT_TEST_POWERON_US := 0\<rparr>"
| "coinBootTestTask (PowerOn us) b = b\<lparr>BOOT_TEST_POWERON_US := us\<rparr>"
| "coinBootTestTask (WindowEnd c low) b =
     b\<lparr>BOOT_TEST_STUCK := (BOOT_TEST_STUCK b)[nat (c - 1) := low]\<rparr>"
| "coinBootTestTask TestDone b = b\<lparr>BOOT_TEST_RUNNING := False\<rparr>"

definition bootTestCapture :: "coin_pulse \<Rightarrow> boot_test \<Rightarrow> boot_test" where
  "bootTestCapture p b =
     (if source p = PULSE_COINSLOT \<and> BOOT_TEST_POWERON_US b \<noteq> 0
          \<and> length (BOOT_TEST_PULSES b) < BOOTTEST_MAX_PULSES
      then b\<lparr>BOOT_TEST_PULSES := BOOT_TEST_PULSES b @
               [(BOOT_TEST_CYCLE b, (timestampMicros p - BOOT_TEST_POWERON_US b) div 1000, widthMicros p)]\<rparr>
      else b)"

definition stuckLowCycles :: "boot_test \<Rightarrow> int list" where
  "stuckLowCycles b =
     map (\<lambda>c. int c + 1)
       (filter (\<lambda>c. BOOT_TEST_STUCK b ! c)
          [0..<nat (min (BOOT_TEST_TOTAL b) BOOTTEST_MAX_CYCLES)])"

section \<open>One iteration of coinPulseTask\<close>

record pulse_env =
  is_master :: bool
  own_mac :: string
  now_millis :: u32
  accepting :: bool
  slot_ready_millis :: u32

record pulse_task =
  prevAcceptedTimestampMicros :: u32
  fraudCountThisSession :: nat
  COIN_REJECT_WIDTH_COUNT :: u16
  COIN_REJECT_INTERVAL_COUNT :: u16
  boot :: boot_test

datatype pulse_action = PostCoin string | SendCoinInserted | PostFraudEnd

definition fraud_action :: "pulse_env \<Rightarrow> nat \<Rightarrow> pulse_action list" where
  "fraud_action e n = (if is_master e \<and> n \<ge> COINSLOT_MAX_FRAUD_PER_SESSION then [PostFraudEnd] else [])"

definition reject_width :: "pulse_env \<Rightarrow> pulse_task \<Rightarrow> pulse_task \<times> pulse_action list" where
  "reject_width e s =
     (s\<lparr>fraudCountThisSession := Suc (fraudCountThisSession s),
        COIN_REJECT_WIDTH_COUNT := COIN_REJECT_WIDTH_COUNT s + 1\<rparr>,
      fraud_action e (Suc (fraudCountThisSession s)))"

definition reject_interval :: "pulse_env \<Rightarrow> pulse_task \<Rightarrow> pulse_task \<times> pulse_action list" where
  "reject_interval e s =
     (s\<lparr>fraudCountThisSession := Suc (fraudCountThisSession s),
        COIN_REJECT_INTERVAL_COUNT := COIN_REJECT_INTERVAL_COUNT s + 1,
        prevAcceptedTimestampMicros := 0\<rparr>,
      fraud_action e (Suc (fraudCountThisSession s)))"

definition accept_pulse :: "pulse_env \<Rightarrow> coin_pulse \<Rightarrow> pulse_task \<Rightarrow> pulse_task \<times> pulse_action list" where
  "accept_pulse e p s =
     (s\<lparr>prevAcceptedTimestampMicros := timestampMicros p\<rparr>,
      if is_master e
      then [PostCoin (cstr 18 (to_upper (if pulse_mac p \<noteq> [] then pulse_mac p else own_mac e)))]
      else [SendCoinInserted])"

definition too_narrow :: "coin_pulse \<Rightarrow> bool" where
  "too_narrow p \<longleftrightarrow> (source p = PULSE_COINSLOT \<or> source p = PULSE_BUTTON)
     \<and> widthMicros p < COINSLOT_MIN_PULSE_WIDTH_MICROS"

definition too_fast :: "coin_pulse \<Rightarrow> pulse_task \<Rightarrow> bool" where
  "too_fast p s \<longleftrightarrow> source p = PULSE_COINSLOT \<and> prevAcceptedTimestampMicros s > 0
     \<and> timestampMicros p - prevAcceptedTimestampMicros s < COINSLOT_MIN_PULSE_INTERVAL_MILLIS * 1000"

definition coinPulseTask :: "pulse_env \<Rightarrow> coin_pulse \<Rightarrow> pulse_task \<Rightarrow> pulse_task \<times> pulse_action list" where
  "coinPulseTask e p s =
     (if BOOT_TEST_RUNNING (boot s) then (s\<lparr>boot := bootTestCapture p (boot s)\<rparr>, [])
      else if \<not> accepting e
        then (s\<lparr>prevAcceptedTimestampMicros := 0, fraudCountThisSession := 0\<rparr>, [])
      else if now_millis e < slot_ready_millis e then (s, [])
      else if too_narrow p then reject_width e s
      else if too_fast p s then reject_interval e s
      else accept_pulse e p s)"

fun run_pulses :: "(pulse_env \<times> coin_pulse) list \<Rightarrow> pulse_task \<Rightarrow> pulse_task \<times> pulse_action list" where
  "run_pulses [] s = (s, [])"
| "run_pulses ((e, p) # ps) s =
     (let (s', a) = coinPulseTask e p s; (s'', b) = run_pulses ps s' in (s'', a @ b))"

text \<open>Pulses of one open insertion window: coins are accepted and the acceptor has started.\<close>

definition in_window :: "pulse_env \<times> coin_pulse \<Rightarrow> bool" where
  "in_window ep \<longleftrightarrow> accepting (fst ep) \<and> \<not> now_millis (fst ep) < slot_ready_millis (fst ep)"

definition is_credit :: "pulse_action \<Rightarrow> bool" where
  "is_credit a \<longleftrightarrow> a \<noteq> PostFraudEnd"

definition credits :: "pulse_action list \<Rightarrow> nat" where
  "credits as = length (filter is_credit as)"

lemmas pulse_step_defs = coinPulseTask_def reject_width_def reject_interval_def accept_pulse_def
  fraud_action_def

lemma credits_simps [simp]:
  "credits [] = 0" "credits (a # as) = (if a = PostFraudEnd then credits as else Suc (credits as))"
  "credits (as @ bs) = credits as + credits bs"
  by (simp_all add: credits_def is_credit_def)

section \<open>Lemmas on one iteration\<close>

lemma window_step:
  assumes "in_window (e, p)" and "\<not> BOOT_TEST_RUNNING (boot s)"
  shows "credits (snd (coinPulseTask e p s)) + fraudCountThisSession (fst (coinPulseTask e p s))
           = Suc (fraudCountThisSession s)"
    and "\<not> BOOT_TEST_RUNNING (boot (fst (coinPulseTask e p s)))"
    and "PostFraudEnd \<in> set (snd (coinPulseTask e p s)) \<longleftrightarrow> is_master e
           \<and> fraudCountThisSession (fst (coinPulseTask e p s)) = Suc (fraudCountThisSession s)
           \<and> 3 \<le> fraudCountThisSession (fst (coinPulseTask e p s))"
  using assms by (auto simp: pulse_step_defs in_window_def)

lemma narrow_no_credit: "too_narrow p \<Longrightarrow> credits (snd (coinPulseTask e p s)) = 0"
  by (simp add: pulse_step_defs)

lemma fast_no_credit: "too_fast p s \<Longrightarrow> credits (snd (coinPulseTask e p s)) = 0"
  by (simp add: pulse_step_defs)

lemma boot_no_action: "BOOT_TEST_RUNNING (boot s) \<Longrightarrow> snd (coinPulseTask e p s) = []"
  by (simp add: coinPulseTask_def)

lemma run_pulses_Cons:
  "fst (run_pulses ((e, p) # ps) s) = fst (run_pulses ps (fst (coinPulseTask e p s)))"
  "snd (run_pulses ((e, p) # ps) s) =
     snd (coinPulseTask e p s) @ snd (run_pulses ps (fst (coinPulseTask e p s)))"
  by (simp_all split: prod.splits)

declare run_pulses.simps(2) [simp del]
declare run_pulses_Cons [simp]

lemma run_narrow_no_credit:
  "list_all (\<lambda>ep. too_narrow (snd ep)) ps \<Longrightarrow> credits (snd (run_pulses ps s)) = 0"
  by (induction ps arbitrary: s) (auto simp: narrow_no_credit)

lemma run_window_fraud_mono:
  assumes "list_all in_window ps" and "\<not> BOOT_TEST_RUNNING (boot s)"
  shows "fraudCountThisSession s \<le> fraudCountThisSession (fst (run_pulses ps s))"
  using assms
proof (induction ps arbitrary: s)
  case (Cons ep ps)
  obtain e p where ep: "ep = (e, p)" by (cases ep)
  with Cons.prems have w: "in_window (e, p)" by simp
  note step = window_step [OF w Cons.prems(2)]
  have "fraudCountThisSession s \<le> fraudCountThisSession (fst (coinPulseTask e p s))"
    using Cons.prems(2) w by (auto simp: pulse_step_defs in_window_def)
  also have "\<dots> \<le> fraudCountThisSession (fst (run_pulses ps (fst (coinPulseTask e p s))))"
    using Cons.prems(1) step(2) by (intro Cons.IH) simp_all
  finally show ?case by (simp add: ep)
qed simp

section \<open>Properties\<close>

text \<open>C4: Anti-fraud end to end. A spike that holds a pin low for less than the minimum width,
  seen by the coin slot interrupt as a falling and a rising edge, never becomes a coin,
  whatever the state of the task and of the node.\<close>
theorem spike_never_credited:
  assumes "t1 - t0 < COINSLOT_MIN_PULSE_WIDTH_MICROS"
    and "coinSlotPulse t1 False (fst (coinSlotPulse t0 True isr)) = (isr', Some p)"
  shows "credits (snd (coinPulseTask e p s)) = 0"
proof -
  from assms have "too_narrow p"
    by (auto simp: coinSlotPulse_def too_narrow_def split: if_splits)
  then show ?thesis by (rule narrow_no_credit)
qed

definition demo_boot :: boot_test where
  "demo_boot = \<lparr>BOOT_TEST_RUNNING = False, BOOT_TEST_CYCLE = 0, BOOT_TEST_TOTAL = 0,
     BOOT_TEST_POWERON_US = 0, BOOT_TEST_PULSES = [], BOOT_TEST_STUCK = replicate 64 False\<rparr>"

definition fresh_task :: pulse_task where
  "fresh_task = \<lparr>prevAcceptedTimestampMicros = 0, fraudCountThisSession = 0,
     COIN_REJECT_WIDTH_COUNT = 0, COIN_REJECT_INTERVAL_COUNT = 0, boot = demo_boot\<rparr>"

definition demo_env :: pulse_env where
  "demo_env = \<lparr>is_master = True, own_mac = ''aa:bb:cc:dd:ee:ff'', now_millis = 20000,
     accepting = True, slot_ready_millis = 10500\<rparr>"

definition demo_pulse :: "pulse_source \<Rightarrow> u32 \<Rightarrow> u32 \<Rightarrow> coin_pulse" where
  "demo_pulse src w t = \<lparr>source = src, widthMicros = w, timestampMicros = t, pulse_mac = []\<rparr>"

lemmas demo_defs = demo_boot_def fresh_task_def demo_env_def demo_pulse_def

theorem spike_never_credited_witness:
  "credits (snd (coinPulseTask demo_env (demo_pulse PULSE_COINSLOT 100 5000000) fresh_task)) = 0"
proof (rule spike_never_credited)
  show "(5000100 :: u32) - 5000000 < COINSLOT_MIN_PULSE_WIDTH_MICROS" by simp
  show "coinSlotPulse 5000100 False (fst (coinSlotPulse 5000000 True
           \<lparr>COINBUTTON_FALL_TIME = 0, COINSLOT_FALL_TIME = 0, LAST_COIN_PULSE_TIME = 0\<rparr>))
         = (\<lparr>COINBUTTON_FALL_TIME = 0, COINSLOT_FALL_TIME = 0, LAST_COIN_PULSE_TIME = 0\<rparr>,
            Some (demo_pulse PULSE_COINSLOT 100 5000000))"
    by (simp add: coinSlotPulse_def demo_pulse_def)
qed

text \<open>C5: Every pulse of an insertion window is either credited as exactly one coin or counted as
  fraud: over any run of the window, coins plus the growth of the fraud counter is the number
  of pulses, so no coin is lost or doubled by the filters.\<close>
theorem window_pulses_conserved:
  assumes "list_all in_window ps" and "\<not> BOOT_TEST_RUNNING (boot s)"
  shows "credits (snd (run_pulses ps s)) + fraudCountThisSession (fst (run_pulses ps s))
           = fraudCountThisSession s + length ps"
  using assms
proof (induction ps arbitrary: s)
  case (Cons ep ps)
  obtain e p where ep: "ep = (e, p)" by (cases ep)
  with Cons.prems have w: "in_window (e, p)" by simp
  note step = window_step [OF w Cons.prems(2)]
  have "credits (snd (run_pulses ps (fst (coinPulseTask e p s))))
          + fraudCountThisSession (fst (run_pulses ps (fst (coinPulseTask e p s))))
        = fraudCountThisSession (fst (coinPulseTask e p s)) + length ps"
    using Cons.prems(1) step(2) by (intro Cons.IH) simp_all
  with step(1) show ?case by (simp add: ep)
qed simp

theorem window_pulses_conserved_witness:
  "credits (snd (run_pulses [(demo_env, demo_pulse PULSE_COINSLOT 20000 5000000),
                             (demo_env, demo_pulse PULSE_COINSLOT 20000 5050000)] fresh_task))
   + fraudCountThisSession (fst (run_pulses [(demo_env, demo_pulse PULSE_COINSLOT 20000 5000000),
                             (demo_env, demo_pulse PULSE_COINSLOT 20000 5050000)] fresh_task)) = 2"
proof -
  let ?ps = "[(demo_env, demo_pulse PULSE_COINSLOT 20000 5000000),
              (demo_env, demo_pulse PULSE_COINSLOT 20000 5050000)]"
  have "list_all in_window ?ps" by (simp add: in_window_def demo_defs)
  moreover have "\<not> BOOT_TEST_RUNNING (boot fresh_task)" by (simp add: demo_defs)
  ultimately have "credits (snd (run_pulses ?ps fresh_task))
      + fraudCountThisSession (fst (run_pulses ?ps fresh_task))
      = fraudCountThisSession fresh_task + length ?ps"
    by (rule window_pulses_conserved)
  then show ?thesis by (simp add: fresh_task_def)
qed

text \<open>The fraud limit. On the master, a run of one insertion window posts the fraud abort
  exactly when it rejected a pulse and the fraud counter has reached the limit of three.\<close>
theorem fraud_abort_iff:
  assumes "list_all in_window ps" and "list_all (\<lambda>ep. is_master (fst ep)) ps"
    and "\<not> BOOT_TEST_RUNNING (boot s)"
  shows "PostFraudEnd \<in> set (snd (run_pulses ps s)) \<longleftrightarrow>
      fraudCountThisSession s < fraudCountThisSession (fst (run_pulses ps s))
      \<and> COINSLOT_MAX_FRAUD_PER_SESSION \<le> fraudCountThisSession (fst (run_pulses ps s))"
  using assms
proof (induction ps arbitrary: s)
  case (Cons ep ps)
  obtain e p where ep: "ep = (e, p)" by (cases ep)
  with Cons.prems have w: "in_window (e, p)" and m: "is_master e" by simp_all
  let ?s = "fst (coinPulseTask e p s)"
  note step = window_step [OF w Cons.prems(3)]
  have IH: "PostFraudEnd \<in> set (snd (run_pulses ps ?s)) \<longleftrightarrow>
      fraudCountThisSession ?s < fraudCountThisSession (fst (run_pulses ps ?s))
      \<and> 3 \<le> fraudCountThisSession (fst (run_pulses ps ?s))"
    using Cons.prems(1,2) step(2) by (intro Cons.IH) simp_all
  have mono: "fraudCountThisSession ?s \<le> fraudCountThisSession (fst (run_pulses ps ?s))"
    using Cons.prems(1) step(2) by (intro run_window_fraud_mono) simp_all
  have one: "fraudCountThisSession ?s = fraudCountThisSession s
      \<or> fraudCountThisSession ?s = Suc (fraudCountThisSession s)"
    using Cons.prems(3) w by (auto simp: pulse_step_defs in_window_def)
  show ?case using one mono m by (auto simp: ep IH step(3))
qed simp

theorem fraud_abort_iff_witness:
  "PostFraudEnd \<in> set (snd (run_pulses (replicate 3 (demo_env, demo_pulse PULSE_COINSLOT 100 5000000)) fresh_task))"
proof -
  let ?ps = "replicate 3 (demo_env, demo_pulse PULSE_COINSLOT 100 5000000)"
  have w: "list_all in_window ?ps" "list_all (\<lambda>ep. is_master (fst ep)) ?ps"
    by (simp_all add: in_window_def demo_defs list_all_iff)
  have b: "\<not> BOOT_TEST_RUNNING (boot fresh_task)" by (simp add: demo_defs)
  have "fraudCountThisSession (fst (run_pulses ?ps fresh_task)) = 3" by code_simp
  then show ?thesis
    using fraud_abort_iff [OF w b] by (simp add: fresh_task_def)
qed

text \<open>The fraud counter outlives its session. It is reset only by a pulse that arrives while
  no window is open; when none does, spikes of one session (here two) count against the next
  one, whose first spike then aborts it although the limit is three per session.\<close>
theorem fraud_count_survives_session:
  assumes A: "list_all in_window A" "list_all (\<lambda>ep. too_narrow (snd ep)) A" "length A = 2"
    and B: "in_window (e, p)" "too_narrow p" "is_master e"
    and s: "\<not> BOOT_TEST_RUNNING (boot s)"
  shows "PostFraudEnd \<in> set (snd (coinPulseTask e p (fst (run_pulses A s))))"
proof -
  obtain e1 p1 e2 p2 where "A = [(e1, p1), (e2, p2)]"
    using A(3) by (cases A; cases "tl A") (auto simp: length_Suc_conv numeral_2_eq_2)
  with A B s show ?thesis
    by (auto simp: pulse_step_defs in_window_def)
qed

theorem fraud_count_survives_session_witness:
  "PostFraudEnd \<in> set (snd (coinPulseTask demo_env (demo_pulse PULSE_COINSLOT 100 9000000)
      (fst (run_pulses (replicate 2 (demo_env, demo_pulse PULSE_COINSLOT 100 5000000)) fresh_task))))"
  by (rule fraud_count_survives_session)
    (simp_all add: in_window_def too_narrow_def demo_defs list_all_iff)

text \<open>A coin reported by another node blocks the master's own slot: within the minimum interval
  after an accepted network coin, a genuine coin of the node's own acceptor is rejected as
  interval fraud.\<close>
theorem network_coin_blocks_own_slot:
  assumes "in_window (e, n)" "source n = PULSE_NETWORK" "0 < timestampMicros n"
    and "in_window (e', p)" "source p = PULSE_COINSLOT" "\<not> too_narrow p"
    and "timestampMicros p - timestampMicros n < COINSLOT_MIN_PULSE_INTERVAL_MILLIS * 1000"
    and "\<not> BOOT_TEST_RUNNING (boot s)"
  shows "credits (snd (coinPulseTask e n s)) = 1
       \<and> credits (snd (coinPulseTask e' p (fst (coinPulseTask e n s)))) = 0
       \<and> fraudCountThisSession (fst (coinPulseTask e' p (fst (coinPulseTask e n s))))
           = Suc (fraudCountThisSession s)"
  using assms
  by (auto simp: pulse_step_defs in_window_def too_narrow_def [of n] too_fast_def)

theorem network_coin_blocks_own_slot_witness:
  "credits (snd (coinPulseTask demo_env (demo_pulse PULSE_COINSLOT 20000 5060000)
     (fst (coinPulseTask demo_env (masterRecvCoinInserted 5000000 ''11:22:33:44:55:66'') fresh_task)))) = 0"
proof -
  let ?n = "masterRecvCoinInserted 5000000 ''11:22:33:44:55:66''"
  let ?p = "demo_pulse PULSE_COINSLOT 20000 5060000"
  have "credits (snd (coinPulseTask demo_env ?n fresh_task)) = 1
       \<and> credits (snd (coinPulseTask demo_env ?p (fst (coinPulseTask demo_env ?n fresh_task)))) = 0
       \<and> fraudCountThisSession (fst (coinPulseTask demo_env ?p (fst (coinPulseTask demo_env ?n fresh_task))))
           = Suc (fraudCountThisSession fresh_task)"
    by (rule network_coin_blocks_own_slot)
      (simp_all add: in_window_def too_narrow_def masterRecvCoinInserted_def demo_defs)
  then show ?thesis by simp
qed

text \<open>The boot test is isolated: while it runs no pulse becomes a coin or a fraud, no more than
  the capacity of its capture array is ever recorded, and a test can neither start while coins
  are accepted nor run outside 1 to 64 cycles.\<close>
theorem boot_test_isolated:
  "(BOOT_TEST_RUNNING (boot s) \<longrightarrow> snd (coinPulseTask e p s) = []
      \<and> fraudCountThisSession (fst (coinPulseTask e p s)) = fraudCountThisSession s)
   \<and> (length (BOOT_TEST_PULSES b) \<le> BOOTTEST_MAX_PULSES \<longrightarrow>
        length (BOOT_TEST_PULSES (bootTestCapture p b)) \<le> BOOTTEST_MAX_PULSES)
   \<and> (snd (coinBootTestStart n acc b) \<longrightarrow> \<not> acc \<and> \<not> BOOT_TEST_RUNNING b
        \<and> 1 \<le> BOOT_TEST_TOTAL (fst (coinBootTestStart n acc b))
        \<and> BOOT_TEST_TOTAL (fst (coinBootTestStart n acc b)) \<le> BOOTTEST_MAX_CYCLES)"
  by (auto simp: coinPulseTask_def bootTestCapture_def coinBootTestStart_def)

theorem boot_test_isolated_witness:
  "snd (coinPulseTask demo_env (demo_pulse PULSE_COINSLOT 20000 5060000)
      (fresh_task\<lparr>boot := fst (coinBootTestStart 99 False demo_boot)\<rparr>)) = []"
proof -
  have "BOOT_TEST_RUNNING (boot (fresh_task\<lparr>boot := fst (coinBootTestStart 99 False demo_boot)\<rparr>))"
    by (simp add: coinBootTestStart_def demo_defs)
  then show ?thesis
    using boot_test_isolated [of "fresh_task\<lparr>boot := fst (coinBootTestStart 99 False demo_boot)\<rparr>"
        demo_env "demo_pulse PULSE_COINSLOT 20000 5060000" demo_boot 99 False]
    by blast
qed

end
