(* ===== verification/SessionCache.thy ===== *)
theory SessionCache
  imports Containers
begin

text \<open>
  The in-memory session store of \<open>src/omada.h\<close>: \<open>SessionParams\<close> objects owned by a map keyed
  by client MAC, and an index from the current IP to the MAC. The invariant says that the
  index points only at sessions whose \<open>clientIp\<close> is that IP, so a DHCP change of address
  never leaves two addresses leading to one session. The store's contract for its clients
  (finalize, pause and resume, cache refresh) is the locale \<open>session_store\<close>.
\<close>

record session_params =
  clientMac :: string
  clientIp :: string
  apMac :: string
  ssidName :: string
  radioId :: string
  sessionStartMillis :: u64
  sessionEndMillis :: u64
  clientId :: string
  pausedRemainingMillis :: u32
  socketFd :: int

definition default_session :: session_params where
  "default_session = \<lparr>clientMac = [], clientIp = [], apMac = [], ssidName = [], radioId = [],
     sessionStartMillis = 0, sessionEndMillis = 0, clientId = [], pausedRemainingMillis = 0,
     socketFd = - 1\<rparr>"

record session_cache =
  byMac :: "(string \<times> session_params) list"
  ipToMac :: "(string \<times> string) list"

definition empty_cache :: session_cache where
  "empty_cache = \<lparr>byMac = [], ipToMac = []\<rparr>"

section \<open>Operations\<close>

definition upsert_key :: "string \<Rightarrow> string \<Rightarrow> session_cache \<Rightarrow> string" where
  "upsert_key ip mac c =
     (if mac = [] then (case map_of (ipToMac c) ip of Some m \<Rightarrow> m | None \<Rightarrow> ip) else mac)"

text \<open>\<open>_ipToMac\<close> after the previous address of the session is dropped, only if still ours.\<close>

definition drop_old_ip :: "string \<Rightarrow> string \<Rightarrow> string \<Rightarrow> (string \<times> string) list \<Rightarrow> (string \<times> string) list" where
  "drop_old_ip old ip key idx =
     (if old \<noteq> ip \<and> old \<noteq> [] \<and> map_of idx old = Some key
      then filter (\<lambda>e. fst e \<noteq> old) idx else idx)"

definition upsert :: "string \<Rightarrow> string \<Rightarrow> session_cache \<Rightarrow> session_cache \<times> string" where
  "upsert ip mac c =
     (let key = upsert_key ip mac c;
          s = (case map_of (byMac c) key of Some s \<Rightarrow> s | None \<Rightarrow> default_session)\<lparr>clientMac := key\<rparr>
      in if ip = [] then (c\<lparr>byMac := omap_update key s (byMac c)\<rparr>, key)
         else (\<lparr>byMac = omap_update key (s\<lparr>clientIp := ip\<rparr>) (byMac c),
                ipToMac = omap_update ip key (drop_old_ip (clientIp s) ip key (ipToMac c))\<rparr>, key))"

definition findByMac :: "session_cache \<Rightarrow> string \<Rightarrow> session_params option" where
  "findByMac c mac = (if mac = [] then None else map_of (byMac c) mac)"

definition findByIp :: "session_cache \<Rightarrow> string \<Rightarrow> session_params option" where
  "findByIp c ip =
     (if ip = [] then None
      else case map_of (ipToMac c) ip of None \<Rightarrow> None | Some m \<Rightarrow> map_of (byMac c) m)"

text \<open>A write through the pointer that a find returned.\<close>

definition modify_session :: "string \<Rightarrow> (session_params \<Rightarrow> session_params) \<Rightarrow> session_cache \<Rightarrow> session_cache" where
  "modify_session mac f c =
     (case map_of (byMac c) mac of None \<Rightarrow> c
      | Some s \<Rightarrow> c\<lparr>byMac := omap_update mac (f s) (byMac c)\<rparr>)"

section \<open>Invariant\<close>

definition cache_ok :: "session_cache \<Rightarrow> bool" where
  "cache_ok c \<longleftrightarrow> omap_ok (byMac c) \<and> omap_ok (ipToMac c) \<and> map_of (ipToMac c) [] = None
     \<and> (\<forall>mac s. map_of (byMac c) mac = Some s \<longrightarrow> clientMac s = mac)
     \<and> (\<forall>ip mac. map_of (ipToMac c) ip = Some mac \<longrightarrow>
          (\<exists>s. map_of (byMac c) mac = Some s \<and> clientIp s = ip))"

definition keeps_identity :: "(session_params \<Rightarrow> session_params) \<Rightarrow> bool" where
  "keeps_identity f \<longleftrightarrow> (\<forall>s. clientMac (f s) = clientMac s \<and> clientIp (f s) = clientIp s)"

lemma omap_ok_filter: "omap_ok m \<Longrightarrow> omap_ok (filter P m)"
  by (induction m) (auto simp: omap_ok_def)

lemma map_of_filter_key: "map_of (filter (\<lambda>e. fst e \<noteq> k) m) = (map_of m)(k := None)"
  by (induction m) (auto simp: fun_eq_iff)

lemma omap_ok_drop_old_ip [intro]: "omap_ok idx \<Longrightarrow> omap_ok (drop_old_ip old ip key idx)"
  by (simp add: drop_old_ip_def omap_ok_filter)

lemma map_of_drop_old_ip:
  "map_of (drop_old_ip old ip key idx) =
     (if old \<noteq> ip \<and> old \<noteq> [] \<and> map_of idx old = Some key then (map_of idx)(old := None) else map_of idx)"
  by (simp add: drop_old_ip_def map_of_filter_key)

lemma cache_ok_empty [inv_intros]: "cache_ok empty_cache"
  by (simp add: cache_ok_def empty_cache_def)

lemma cache_okD_mac: "cache_ok c \<Longrightarrow> map_of (byMac c) mac = Some s \<Longrightarrow> clientMac s = mac"
  by (simp add: cache_ok_def)

lemma cache_okD_ip:
  "cache_ok c \<Longrightarrow> map_of (ipToMac c) ip = Some mac \<Longrightarrow>
     \<exists>s. map_of (byMac c) mac = Some s \<and> clientIp s = ip"
  by (simp add: cache_ok_def)

definition upsert_entry :: "string \<Rightarrow> string \<Rightarrow> session_cache \<Rightarrow> session_params" where
  "upsert_entry ip key c =
     (let s = (case map_of (byMac c) key of Some s \<Rightarrow> s | None \<Rightarrow> default_session)
      in s\<lparr>clientMac := key, clientIp := (if ip = [] then clientIp s else ip)\<rparr>)"

lemma byMac_upsert:
  "omap_ok (byMac c) \<Longrightarrow>
     map_of (byMac (fst (upsert ip mac c)))
       = (map_of (byMac c))(upsert_key ip mac c \<mapsto> upsert_entry ip (upsert_key ip mac c) c)"
  by (simp add: upsert_def upsert_entry_def Let_def map_of_omap_update)

lemma ipToMac_upsert:
  "omap_ok (ipToMac c) \<Longrightarrow>
     map_of (ipToMac (fst (upsert ip mac c))) =
       (if ip = [] then map_of (ipToMac c)
        else (map_of (drop_old_ip (clientIp (upsert_entry [] (upsert_key ip mac c) c)) ip
                        (upsert_key ip mac c) (ipToMac c)))(ip \<mapsto> upsert_key ip mac c))"
  by (simp add: upsert_def upsert_entry_def Let_def map_of_omap_update omap_ok_drop_old_ip)

lemma cache_ok_upsert [inv_intros]:
  assumes ok: "cache_ok c"
  shows "cache_ok (fst (upsert ip mac c))"
proof -
  let ?k = "upsert_key ip mac c" and ?c = "fst (upsert ip mac c)"
  from ok have o: "omap_ok (byMac c)" "omap_ok (ipToMac c)" by (simp_all add: cache_ok_def)
  have "omap_ok (byMac ?c) \<and> omap_ok (ipToMac ?c)"
    using o by (auto simp: upsert_def Let_def omap_ok_update omap_ok_drop_old_ip)
  moreover have "map_of (ipToMac ?c) [] = None"
    using ok o by (simp add: ipToMac_upsert map_of_drop_old_ip cache_ok_def)
  moreover have "clientMac s = m" if "map_of (byMac ?c) m = Some s" for m s
    using that ok by (auto simp: byMac_upsert o upsert_entry_def Let_def cache_okD_mac split: if_splits)
  moreover have "\<exists>s. map_of (byMac ?c) m = Some s \<and> clientIp s = i"
    if i: "map_of (ipToMac ?c) i = Some m" for i m
  proof (cases "ip \<noteq> [] \<and> i = ip")
    case True
    with i have "m = ?k" by (simp add: ipToMac_upsert o)
    with True show ?thesis by (simp add: byMac_upsert o upsert_entry_def Let_def)
  next
    case False
    with i have old: "map_of (ipToMac c) i = Some m"
      by (auto simp: ipToMac_upsert o map_of_drop_old_ip split: if_splits)
    then obtain s where s: "map_of (byMac c) m = Some s" "clientIp s = i"
      using cache_okD_ip [OF ok] by blast
    show ?thesis
    proof (cases "m = ?k")
      case False
      with s show ?thesis by (simp add: byMac_upsert o)
    next
      case True
      from ok old have "i \<noteq> []" by (auto simp: cache_ok_def)
      with i False True s old have "ip = []"
        by (auto simp: ipToMac_upsert o map_of_drop_old_ip upsert_entry_def split: if_splits)
      with True s show ?thesis by (simp add: byMac_upsert o upsert_entry_def Let_def)
    qed
  qed
  ultimately show ?thesis by (simp add: cache_ok_def)
qed

lemma cache_ok_modify [inv_intros]:
  assumes ok: "cache_ok c" and f: "keeps_identity f"
  shows "cache_ok (modify_session mac f c)"
proof (cases "map_of (byMac c) mac")
  case None
  with ok show ?thesis by (simp add: modify_session_def)
next
  case (Some s)
  from ok have "omap_ok (byMac c)" by (simp add: cache_ok_def)
  then have "map_of (byMac (modify_session mac f c)) = (map_of (byMac c))(mac \<mapsto> f s)"
    using Some by (simp add: modify_session_def map_of_omap_update)
  with Some ok f show ?thesis
    by (force simp: cache_ok_def modify_session_def keeps_identity_def omap_ok_update)
qed

section \<open>The contract of the store\<close>

locale session_store =
  fixes find :: "'c \<Rightarrow> string \<Rightarrow> session_params option"
    and modify :: "string \<Rightarrow> (session_params \<Rightarrow> session_params) \<Rightarrow> 'c \<Rightarrow> 'c"
    and ok :: "'c \<Rightarrow> bool"
  assumes modify_same: "ok c \<Longrightarrow> find (modify m f c) m = map_option f (find c m)"
    and modify_other: "ok c \<Longrightarrow> m' \<noteq> m \<Longrightarrow> find (modify m f c) m' = find c m'"
    and modify_ok: "ok c \<Longrightarrow> keeps_identity f \<Longrightarrow> ok (modify m f c)"
begin

lemma modify_absent: "ok c \<Longrightarrow> find c m = None \<Longrightarrow> find (modify m f c) m' = find c m'"
  by (cases "m' = m") (simp_all add: modify_same modify_other)

lemma modify_some_iff: "ok c \<Longrightarrow> find (modify m f c) m' = None \<longleftrightarrow> find c m' = None"
  by (cases "m' = m") (simp_all add: modify_same modify_other)

lemma modify_field:
  "ok c \<Longrightarrow> find c m = Some s \<Longrightarrow> find (modify m f c) m = Some (f s)"
  by (simp add: modify_same)

end

lemma map_of_modify:
  "omap_ok (byMac c) \<Longrightarrow> map_of (byMac (modify_session m f c)) k =
     (if k = m then map_option f (map_of (byMac c) m) else map_of (byMac c) k)"
  by (cases "map_of (byMac c) m") (auto simp: modify_session_def map_of_omap_update)

interpretation cache: session_store findByMac modify_session cache_ok
proof unfold_locales
  fix c m f
  assume "cache_ok c"
  then have o: "omap_ok (byMac c)" by (simp add: cache_ok_def)
  show "findByMac (modify_session m f c) m = map_option f (findByMac c m)"
    by (simp add: findByMac_def map_of_modify o)
  show "findByMac (modify_session m f c) m' = findByMac c m'" if "m' \<noteq> m" for m'
    using that by (simp add: findByMac_def map_of_modify o)
qed (rule cache_ok_modify)

lemma findByMac_SomeD: "cache_ok c \<Longrightarrow> findByMac c m = Some s \<Longrightarrow> clientMac s = m \<and> m \<noteq> []"
  by (auto simp: findByMac_def cache_okD_mac split: if_splits)

lemma findByIp_SomeD:
  "cache_ok c \<Longrightarrow> findByIp c ip = Some s \<Longrightarrow> clientIp s = ip \<and> map_of (byMac c) (clientMac s) = Some s"
  using cache_okD_ip [of c ip] cache_okD_mac [of c _ s]
  by (fastforce simp: findByIp_def split: if_splits option.splits)

section \<open>Properties\<close>

text \<open>An IP address resolves to the session that last claimed it, and to no other: right
  after an upsert the address leads to the entry of that MAC, whose \<open>clientMac\<close> and
  \<open>clientIp\<close> are the ones given.\<close>
theorem upsert_then_findByIp:
  assumes "cache_ok c" and "ip \<noteq> []" and "mac \<noteq> []"
  shows "findByIp (fst (upsert ip mac c)) ip = findByMac (fst (upsert ip mac c)) mac
       \<and> (\<exists>s. findByIp (fst (upsert ip mac c)) ip = Some s \<and> clientMac s = mac \<and> clientIp s = ip)"
proof -
  from assms have o: "omap_ok (byMac c)" "omap_ok (ipToMac c)" and k: "upsert_key ip mac c = mac"
    by (simp_all add: cache_ok_def upsert_key_def)
  then show ?thesis
    using assms
    by (simp add: findByIp_def findByMac_def ipToMac_upsert byMac_upsert upsert_entry_def Let_def)
qed

theorem upsert_then_findByIp_witness:
  "cache_ok empty_cache \<and>
   findByIp (fst (upsert ''10.0.0.7'' ''AA'' empty_cache)) ''10.0.0.7''
     = findByMac (fst (upsert ''10.0.0.7'' ''AA'' empty_cache)) ''AA''"
  using upsert_then_findByIp [OF cache_ok_empty, of "''10.0.0.7''" "''AA''"] cache_ok_empty by simp

text \<open>A DHCP change of address keeps the session: moving a known client to a new address
  preserves every field but \<open>clientIp\<close>, leaves every other client's entry alone, and the old
  address no longer leads to it.\<close>
theorem upsert_moves_ip:
  assumes ok: "cache_ok c" and old: "findByMac c mac = Some s" and ip: "ip \<noteq> []" "ip \<noteq> clientIp s"
  shows "findByMac (fst (upsert ip mac c)) mac = Some (s\<lparr>clientIp := ip\<rparr>)
       \<and> (\<forall>m. m \<noteq> mac \<longrightarrow> findByMac (fst (upsert ip mac c)) m = findByMac c m)
       \<and> findByIp (fst (upsert ip mac c)) (clientIp s) \<noteq> Some (s\<lparr>clientIp := ip\<rparr>)"
proof -
  from ok have o: "omap_ok (byMac c)" by (simp add: cache_ok_def)
  from findByMac_SomeD [OF ok old] have m: "clientMac s = mac" "mac \<noteq> []" by simp_all
  then have k: "upsert_key ip mac c = mac" by (simp add: upsert_key_def)
  from old m have s: "map_of (byMac c) mac = Some s" by (simp add: findByMac_def)
  from m have "s\<lparr>clientMac := mac, clientIp := ip\<rparr> = s\<lparr>clientIp := ip\<rparr>" by (cases s) simp
  then have e: "upsert_entry ip mac c = s\<lparr>clientIp := ip\<rparr>"
    using s ip by (simp add: upsert_entry_def)
  have "findByIp (fst (upsert ip mac c)) (clientIp s) \<noteq> Some (s\<lparr>clientIp := ip\<rparr>)"
    using findByIp_SomeD [OF cache_ok_upsert [OF ok], of ip mac "clientIp s" "s\<lparr>clientIp := ip\<rparr>"] ip
    by auto
  then show ?thesis
    using m by (simp add: findByMac_def byMac_upsert o k e)
qed

theorem upsert_moves_ip_witness:
  "findByMac (fst (upsert ''10.0.0.9'' ''AA'' (fst (upsert ''10.0.0.7'' ''AA'' empty_cache)))) ''AA''
     = Some (default_session\<lparr>clientMac := ''AA'', clientIp := ''10.0.0.9''\<rparr>)"
proof -
  have f: "findByMac (fst (upsert ''10.0.0.7'' ''AA'' empty_cache)) ''AA''
      = Some (default_session\<lparr>clientMac := ''AA'', clientIp := ''10.0.0.7''\<rparr>)"
    by (simp add: upsert_def upsert_key_def empty_cache_def findByMac_def drop_old_ip_def
        default_session_def Let_def)
  show ?thesis
    using upsert_moves_ip [OF cache_ok_upsert [OF cache_ok_empty] f, of "''10.0.0.9''"] by simp
qed

text \<open>Every sequence of upserts and field writes that the program makes on the store.\<close>

datatype cache_op = OpUpsert string string | OpWrite string "session_params \<Rightarrow> session_params"

fun run_op :: "cache_op \<Rightarrow> session_cache \<Rightarrow> session_cache" where
  "run_op (OpUpsert ip mac) c = fst (upsert ip mac c)"
| "run_op (OpWrite mac f) c = modify_session mac f c"

definition op_legal :: "cache_op \<Rightarrow> bool" where
  "op_legal op = (case op of OpUpsert ip mac \<Rightarrow> True | OpWrite mac f \<Rightarrow> keeps_identity f)"

lemma cache_ok_run_op [inv_intros]: "cache_ok c \<Longrightarrow> op_legal op \<Longrightarrow> cache_ok (run_op op c)"
  by (cases op) (auto simp: op_legal_def intro: cache_ok_upsert cache_ok_modify)

lemma cache_ok_run: "cache_ok c \<Longrightarrow> list_all op_legal ops \<Longrightarrow> cache_ok (fold run_op ops c)"
  by (induction ops arbitrary: c) (auto intro: cache_ok_run_op)

text \<open>C3: After any sequence of upserts and field writes from the empty store, no session can be
  reached under two addresses: a client can never be served, charged or paused through an
  address that now belongs to somebody else.\<close>
theorem one_address_per_session:
  assumes "list_all op_legal ops"
    and "findByIp (fold run_op ops empty_cache) ip1 = Some s"
    and "findByIp (fold run_op ops empty_cache) ip2 = Some s"
  shows "ip1 = ip2"
proof -
  have "cache_ok (fold run_op ops empty_cache)"
    using cache_ok_empty assms(1) by (rule cache_ok_run)
  from findByIp_SomeD [OF this assms(2)] findByIp_SomeD [OF this assms(3)] show ?thesis by simp
qed

theorem one_address_per_session_witness:
  "let c = fold run_op [OpUpsert ''10.0.0.7'' ''AA'', OpUpsert ''10.0.0.9'' ''AA''] empty_cache
   in (\<exists>s. findByIp c ''10.0.0.9'' = Some s) \<and> findByIp c ''10.0.0.7'' \<noteq> findByIp c ''10.0.0.9''"
proof -
  let ?ops = "[OpUpsert ''10.0.0.7'' ''AA'', OpUpsert ''10.0.0.9'' ''AA'']"
  have l: "list_all op_legal ?ops" by (simp add: op_legal_def)
  have "findByIp (fold run_op ?ops empty_cache) ''10.0.0.9'' \<noteq> None"
    by (simp add: upsert_def upsert_key_def empty_cache_def findByIp_def drop_old_ip_def
        default_session_def Let_def)
  then have ex: "\<exists>s. findByIp (fold run_op ?ops empty_cache) ''10.0.0.9'' = Some s" by simp
  then obtain s where s: "findByIp (fold run_op ?ops empty_cache) ''10.0.0.9'' = Some s" ..
  have "findByIp (fold run_op ?ops empty_cache) ''10.0.0.7'' \<noteq> Some s"
    using one_address_per_session [OF l _ s, of "''10.0.0.7''"] by auto
  with s ex show ?thesis by (simp add: Let_def)
qed

end
