(* ===== verification/CoinSession.thy ===== *)
theory CoinSession
  imports SessionCache
begin

text \<open>
  The owner of a coin session (\<open>src/coin.cpp\<close>): the slot claim made by the web handlers, the
  event loop of \<open>coinSessionTask\<close>, and \<open>finalizeSession\<close>, which settles the coins with the
  controller. \<open>IPAddress\<close> (parsing and printing of addresses), the controller calls, the
  WebSocket registry and the random refund code are parameters. The tasks that share
  \<open>COIN_INSERT_ACTIVE\<close> and the event queue are put together in an interleaving step relation;
  its invariant shows that one claim at most is alive.
\<close>

abbreviation COIN_INSERT_TIMEOUT_MILLIS :: u32 where "COIN_INSERT_TIMEOUT_MILLIS \<equiv> 10000"
abbreviation COINSLOT_BOOT_SUPPRESS_MILLIS :: u32 where "COINSLOT_BOOT_SUPPRESS_MILLIS \<equiv> 500"
abbreviation SESSION_QUEUE_SIZE :: nat where "SESSION_QUEUE_SIZE \<equiv> 16"

section \<open>State and events\<close>

record coin_slot =
  clientIpV4 :: u32
  slotFd :: int

definition no_slot :: coin_slot where "no_slot = \<lparr>clientIpV4 = 0, slotFd = - 1\<rparr>"

record coin_state =
  COIN_INSERT_ACTIVE :: bool
  COIN_COUNT :: int
  COIN_SESSION_SLOT :: coin_slot
  COIN_DEADLINE_MILLIS :: u32
  COIN_SLOT_READY_MILLIS :: u32

datatype coin_event =
    COIN_SESSION_START int string
  | COIN_SESSION_COIN string
  | COIN_SESSION_FRAUD_END

fun is_start :: "coin_event \<Rightarrow> bool" where
  "is_start (COIN_SESSION_START _ _) = True"
| "is_start _ = False"

datatype ws_message =
    WsAuthenticated
  | WsFraud
  | WsError (err_subtype: string) (err_message: string) (err_detail: string) (err_refundCode: string)

datatype session_action =
    LedStart | LedStop | BroadcastStart | BroadcastEnd | NotifyUpdateClient
  | SaleLog int int string
  | ActivityLog string string int int
  | RefundLog string int int string
  | WsSend int ws_message
  | WsClose int
  | PostRefreshCache

section \<open>Session API for the web handlers\<close>

definition coinIpToU32 :: "(string \<Rightarrow> u32 option) \<Rightarrow> string \<Rightarrow> u32" where
  "coinIpToU32 parse ip = (case parse ip of Some v \<Rightarrow> v | None \<Rightarrow> 0)"

definition claim_cas :: "coin_state \<Rightarrow> coin_state option" where
  "claim_cas s = (if COIN_INSERT_ACTIVE s then None else Some (s\<lparr>COIN_INSERT_ACTIVE := True\<rparr>))"

definition claim_post ::
  "int \<Rightarrow> string \<Rightarrow> coin_event list \<Rightarrow> coin_state \<Rightarrow> coin_event list \<times> coin_state \<times> bool" where
  "claim_post fd ip q s =
     (case q_send SESSION_QUEUE_SIZE (COIN_SESSION_START fd (cstr 16 ip)) q of
        None \<Rightarrow> (q, s\<lparr>COIN_INSERT_ACTIVE := False\<rparr>, False)
      | Some q' \<Rightarrow> (q', s, True))"

definition coinSessionTryClaim ::
  "bool \<Rightarrow> int \<Rightarrow> string \<Rightarrow> coin_event list \<Rightarrow> coin_state \<Rightarrow> coin_event list \<times> coin_state \<times> bool" where
  "coinSessionTryClaim bootRunning fd ip q s =
     (if bootRunning then (q, s, False)
      else case claim_cas s of None \<Rightarrow> (q, s, False) | Some s' \<Rightarrow> claim_post fd ip q s')"

definition coinSessionUpdateSocket ::
  "(string \<Rightarrow> u32 option) \<Rightarrow> string \<Rightarrow> int \<Rightarrow> coin_state \<Rightarrow> coin_state \<times> bool" where
  "coinSessionUpdateSocket parse ip fd s =
     (if clientIpV4 (COIN_SESSION_SLOT s) \<noteq> coinIpToU32 parse ip then (s, False)
      else (s\<lparr>COIN_SESSION_SLOT := \<lparr>clientIpV4 = coinIpToU32 parse ip, slotFd = fd\<rparr>\<rparr>, True))"

record coin_status =
  st_accepting :: bool
  st_count :: int
  st_socketFd :: int
  st_clientIpV4 :: u32
  st_deadlineMs :: u32

definition coinSessionSnapshot :: "coin_state \<Rightarrow> coin_status" where
  "coinSessionSnapshot s =
     \<lparr>st_accepting = COIN_INSERT_ACTIVE s, st_count = COIN_COUNT s,
      st_socketFd = slotFd (COIN_SESSION_SLOT s), st_clientIpV4 = clientIpV4 (COIN_SESSION_SLOT s),
      st_deadlineMs = COIN_DEADLINE_MILLIS s\<rparr>"

text \<open>A slave node opens and closes its window when the master says so.\<close>

definition slaveRecvCoinInsertStart :: "coin_state \<Rightarrow> coin_state \<times> session_action list" where
  "slaveRecvCoinInsertStart s = (s\<lparr>COIN_INSERT_ACTIVE := True\<rparr>, [LedStart])"

definition slaveRecvCoinInsertEnd :: "coin_state \<Rightarrow> coin_state \<times> session_action list" where
  "slaveRecvCoinInsertEnd s = (s\<lparr>COIN_INSERT_ACTIVE := False\<rparr>, [LedStop])"

section \<open>The event loop\<close>

definition session_start ::
  "(string \<Rightarrow> u32 option) \<Rightarrow> u32 \<Rightarrow> int \<Rightarrow> string \<Rightarrow> coin_state \<Rightarrow> coin_state \<times> session_action list" where
  "session_start parse now fd ip s =
     (s\<lparr>COIN_COUNT := 0, COIN_SESSION_SLOT := \<lparr>clientIpV4 = coinIpToU32 parse ip, slotFd = fd\<rparr>,
        COIN_SLOT_READY_MILLIS := now + COINSLOT_BOOT_SUPPRESS_MILLIS,
        COIN_DEADLINE_MILLIS := now + COIN_INSERT_TIMEOUT_MILLIS\<rparr>,
      [LedStart, BroadcastStart, NotifyUpdateClient])"

definition session_coin ::
  "u32 \<Rightarrow> string \<Rightarrow> (string \<times> int) list \<Rightarrow> coin_state
     \<Rightarrow> (string \<times> int) list \<times> coin_state \<times> session_action list" where
  "session_coin now mac nodeCounts s =
     (omap_add mac 1 nodeCounts,
      s\<lparr>COIN_COUNT := COIN_COUNT s + 1, COIN_DEADLINE_MILLIS := now + COIN_INSERT_TIMEOUT_MILLIS\<rparr>,
      [NotifyUpdateClient])"

datatype phase =
    Idle
  | Open "(string \<times> int) list"
  | Closing bool "(string \<times> int) list"
  | Finalizing bool "(string \<times> int) list"

text \<open>What the task does with an event: outside a session only a start counts.\<close>

fun session_event ::
  "(string \<Rightarrow> u32 option) \<Rightarrow> u32 \<Rightarrow> coin_event \<Rightarrow> phase \<Rightarrow> coin_state
     \<Rightarrow> phase \<times> coin_state \<times> session_action list" where
  "session_event parse now (COIN_SESSION_START fd ip) Idle s =
     (let (s', a) = session_start parse now fd ip s in (Open [], s', a))"
| "session_event parse now _ Idle s = (Idle, s, [])"
| "session_event parse now (COIN_SESSION_COIN mac) (Open nc) s =
     (let (nc', s', a) = session_coin now mac nc s in (Open nc', s', a))"
| "session_event parse now COIN_SESSION_FRAUD_END (Open nc) s = (Closing True nc, s, [])"
| "session_event parse now (COIN_SESSION_START _ _) (Open nc) s = (Open nc, s, [])"
| "session_event parse now _ ph s = (ph, s, [])"

definition session_timeout :: "phase \<Rightarrow> phase" where
  "session_timeout ph = (case ph of Open nc \<Rightarrow> Closing False nc | _ \<Rightarrow> ph)"

definition session_release :: "phase \<Rightarrow> coin_state \<Rightarrow> phase \<times> coin_state \<times> session_action list" where
  "session_release ph s =
     (case ph of Closing f nc \<Rightarrow> (Finalizing f nc, s\<lparr>COIN_INSERT_ACTIVE := False\<rparr>, [LedStop])
      | _ \<Rightarrow> (ph, s, []))"

section \<open>Settlement\<close>

record settle_env =
  ip_render :: "u32 \<Rightarrow> string"
  minutes_per_coin :: int
  now_epoch :: u64
  extend_call :: "session_params \<Rightarrow> u64 \<Rightarrow> session_params \<times> string option"
  auth_call :: "session_params \<Rightarrow> u64 \<Rightarrow> session_params \<times> string option"
  fd_after :: int
  ws_alive :: "int \<Rightarrow> bool"
  refund_code :: string

datatype settle_result =
    Settled
  | Failed (res_message: string) (res_detail: string) (res_subtype: string)

definition ERR_SUBTYPE_REFUNDABLE :: string where "ERR_SUBTYPE_REFUNDABLE = ''refundable''"
definition ERR_SUBTYPE_NO_SESSION :: string where "ERR_SUBTYPE_NO_SESSION = ''no_session''"

definition coin_millis :: "int \<Rightarrow> int \<Rightarrow> u64" where
  "coin_millis minutes coins = word_of_int coins * word_of_int minutes * 60000"

definition to_minutes :: "u64 \<Rightarrow> int" where
  "to_minutes ms = sint (ucast (ms div 60000) :: 32 word)"

definition sale_logs :: "int \<Rightarrow> (string \<times> int) list \<Rightarrow> session_action list" where
  "sale_logs minutes nc = map (\<lambda>(mac, n). SaleLog n (n * minutes) mac) nc"

definition session_active :: "u64 \<Rightarrow> session_params \<Rightarrow> bool" where
  "session_active now s \<longleftrightarrow> sessionEndMillis s > now \<and> clientId s \<noteq> []"

definition settle ::
  "settle_env \<Rightarrow> int \<Rightarrow> (string \<times> int) list \<Rightarrow> session_params option
     \<Rightarrow> session_params option \<times> settle_result \<times> session_action list" where
  "settle e coins nc sess =
     (case sess of
        Some s \<Rightarrow>
          if coins > 0 then
            (if session_active (now_epoch e) s then
               (case extend_call e s (coin_millis (minutes_per_coin e) coins) of
                  (s', None) \<Rightarrow>
                    (Some s', Settled,
                     ActivityLog ''EXTEND'' (clientMac s') coins
                       (to_minutes (sessionEndMillis s' - now_epoch e) + coins * minutes_per_coin e)
                     # sale_logs (minutes_per_coin e) nc)
                | (s', Some d) \<Rightarrow>
                    (Some s', Failed ''Failed to extend session'' d ERR_SUBTYPE_REFUNDABLE, []))
             else
               (case auth_call e s (coin_millis (minutes_per_coin e) coins) of
                  (s', None) \<Rightarrow>
                    (Some s', Settled,
                     ActivityLog ''AUTH'' (clientMac s') coins (coins * minutes_per_coin e)
                     # sale_logs (minutes_per_coin e) nc)
                | (s', Some d) \<Rightarrow>
                    (Some s', Failed ''Failed to connect to controller'' d ERR_SUBTYPE_REFUNDABLE, [])))
          else if coins = 0 then (Some s, Failed ''No coins inserted'' [] [], [])
          else (Some s, Failed ''No portal session found for this device'' [] ERR_SUBTYPE_NO_SESSION, [])
      | None \<Rightarrow>
          if coins = 0 then (None, Failed ''No coins inserted'' [] [], [])
          else (None, Failed ''No portal session found for this device'' [] ERR_SUBTYPE_NO_SESSION, []))"

definition deliver ::
  "settle_env \<Rightarrow> int \<Rightarrow> session_params option \<Rightarrow> settle_result \<Rightarrow> session_action list" where
  "deliver e coins sess r =
     (if fd_after e \<ge> 0 \<and> ws_alive e (fd_after e) then
        (case r of
           Settled \<Rightarrow> [WsSend (fd_after e) WsAuthenticated, PostRefreshCache]
         | Failed msg detail sub \<Rightarrow>
             (case sess of
                Some s \<Rightarrow>
                  if sub = ERR_SUBTYPE_REFUNDABLE then
                    [RefundLog (clientMac s) coins (coins * minutes_per_coin e) (refund_code e),
                     ActivityLog ''REFUND'' (clientMac s) coins (- 1),
                     WsSend (fd_after e) (WsError sub msg detail (refund_code e))]
                  else [WsSend (fd_after e) (WsError sub msg detail [])]
              | None \<Rightarrow> [WsSend (fd_after e) (WsError sub msg detail [])]))
        @ [WsClose (fd_after e)]
      else [])"

definition finalizeSession ::
  "settle_env \<Rightarrow> bool \<Rightarrow> (string \<times> int) list \<Rightarrow> session_cache \<Rightarrow> coin_state
     \<Rightarrow> session_cache \<times> coin_state \<times> session_action list" where
  "finalizeSession e fraudEnded nc c s =
     (let coins = (if fraudEnded then 0 else COIN_COUNT s);
          slot = COIN_SESSION_SLOT s;
          s' = s\<lparr>COIN_COUNT := 0, COIN_SESSION_SLOT := no_slot\<rparr>
      in if fraudEnded then
           (c, s', BroadcastEnd #
              (if slotFd slot \<ge> 0 \<and> ws_alive e (slotFd slot)
               then [WsSend (slotFd slot) WsFraud, WsClose (slotFd slot)] else []))
         else
           (let sess = findByIp c (ip_render e (clientIpV4 slot));
                (sess', r, acts) = settle e coins nc sess;
                c' = (case (sess, sess') of
                        (Some old, Some new) \<Rightarrow> modify_session (clientMac old) (\<lambda>_. new) c
                      | _ \<Rightarrow> c)
            in (c', s', BroadcastEnd # acts @ deliver e coins sess' r)))"

section \<open>The tasks together\<close>

text \<open>
  One step is one atomic action of one task: a web handler's compare-and-swap, its post (or
  roll back when the queue is full), a post of the pulse task (at any time: it read the
  window flag earlier), a receive of the session task, its timeout (only when its queue is
  empty), the release of the slot, and the end of \<open>finalizeSession\<close>. \<open>pending\<close> are the claims
  between their compare-and-swap and their post.
\<close>

record system =
  coin :: coin_state
  queue :: "coin_event list"
  phase :: phase
  pending :: "(int \<times> string) list"

definition init_system :: system where
  "init_system = \<lparr>coin = \<lparr>COIN_INSERT_ACTIVE = False, COIN_COUNT = 0, COIN_SESSION_SLOT = no_slot,
       COIN_DEADLINE_MILLIS = 0, COIN_SLOT_READY_MILLIS = 0\<rparr>,
     queue = [], phase = Idle, pending = []\<rparr>"

inductive sys_step :: "(string \<Rightarrow> u32 option) \<Rightarrow> system \<Rightarrow> system \<Rightarrow> bool" for parse where
  claim_cas: "claim_cas (coin y) = Some s' \<Longrightarrow>
     sys_step parse y (y\<lparr>coin := s', pending := (fd, ip) # pending y\<rparr>)"
| claim_post: "(fd, ip) \<in> set (pending y) \<Longrightarrow> claim_post fd ip (queue y) (coin y) = (q', s', okay) \<Longrightarrow>
     sys_step parse y (y\<lparr>coin := s', queue := q', pending := remove1 (fd, ip) (pending y)\<rparr>)"
| pulse_post: "\<not> is_start ev \<Longrightarrow>
     sys_step parse y (y\<lparr>queue := q_post SESSION_QUEUE_SIZE ev (queue y)\<rparr>)"
| update_socket: "coinSessionUpdateSocket parse ip fd (coin y) = (s', okay) \<Longrightarrow>
     sys_step parse y (y\<lparr>coin := s'\<rparr>)"
| receive: "phase y = Idle \<or> (\<exists>nc. phase y = Open nc) \<Longrightarrow> q_receive (queue y) = Some (ev, q') \<Longrightarrow>
     session_event parse now ev (phase y) (coin y) = (ph', s', a) \<Longrightarrow>
     sys_step parse y (y\<lparr>coin := s', queue := q', phase := ph'\<rparr>)"
| timeout: "phase y = Open nc \<Longrightarrow> queue y = [] \<Longrightarrow>
     sys_step parse y (y\<lparr>phase := session_timeout (phase y)\<rparr>)"
| release: "phase y = Closing f nc \<Longrightarrow> session_release (phase y) (coin y) = (ph', s', a) \<Longrightarrow>
     sys_step parse y (y\<lparr>coin := s', phase := ph'\<rparr>)"
| finalize: "phase y = Finalizing f nc \<Longrightarrow> finalizeSession e f nc c (coin y) = (c', s', a) \<Longrightarrow>
     sys_step parse y (y\<lparr>coin := s', phase := Idle\<rparr>)"

inductive reachable :: "(string \<Rightarrow> u32 option) \<Rightarrow> system \<Rightarrow> bool" for parse where
  reach_init: "reachable parse init_system"
| reach_step: "reachable parse y \<Longrightarrow> sys_step parse y z \<Longrightarrow> reachable parse z"

definition starts :: "coin_event list \<Rightarrow> nat" where "starts q = length (filter is_start q)"

fun holds_slot :: "phase \<Rightarrow> bool" where
  "holds_slot (Open nc) = True"
| "holds_slot (Closing f nc) = True"
| "holds_slot _ = False"

fun phase_counts :: "phase \<Rightarrow> (string \<times> int) list option" where
  "phase_counts (Open nc) = Some nc"
| "phase_counts (Closing f nc) = Some nc"
| "phase_counts (Finalizing f nc) = Some nc"
| "phase_counts Idle = None"

definition counts_ok :: "phase \<Rightarrow> int \<Rightarrow> bool" where
  "counts_ok ph n \<longleftrightarrow>
     (case phase_counts ph of None \<Rightarrow> True | Some nc \<Rightarrow> omap_ok nc \<and> sum_list (map snd nc) = n)"

text \<open>The flag counts the claims alive: in flight, queued, or held by the open session; and the
  coins per node add up to the coin count.\<close>

definition sys_inv :: "system \<Rightarrow> bool" where
  "sys_inv y \<longleftrightarrow>
     (if COIN_INSERT_ACTIVE (coin y) then 1 else 0)
       = length (pending y) + starts (queue y) + (if holds_slot (phase y) then 1 else (0::nat))
   \<and> counts_ok (phase y) (COIN_COUNT (coin y))"

lemma counts_ok_simps [simp]:
  "counts_ok Idle n" "counts_ok (Open nc) n \<longleftrightarrow> omap_ok nc \<and> sum_list (map snd nc) = n"
  "counts_ok (Closing f nc) n \<longleftrightarrow> omap_ok nc \<and> sum_list (map snd nc) = n"
  "counts_ok (Finalizing f nc) n \<longleftrightarrow> omap_ok nc \<and> sum_list (map snd nc) = n"
  by (simp_all add: counts_ok_def)

inductive_cases sys_stepE: "sys_step parse y z"

lemma starts_simps [simp]:
  "starts [] = 0" "starts (ev # q) = (if is_start ev then Suc (starts q) else starts q)"
  "starts (q @ r) = starts q + starts r"
  by (simp_all add: starts_def)

lemma starts_post: "\<not> is_start ev \<Longrightarrow> starts (q_post cap ev q) = starts q"
  by (simp add: starts_def q_post_count)

lemma claim_post_cases:
  "claim_post fd ip q s = (q', s', okay) \<Longrightarrow>
     (okay \<and> starts q' = Suc (starts q) \<and> s' = s)
     \<or> (\<not> okay \<and> q' = q \<and> s' = s\<lparr>COIN_INSERT_ACTIVE := False\<rparr>)"
  by (auto simp: claim_post_def q_send_def split: if_splits)

lemma session_event_inv:
  assumes "session_event parse now ev ph s = (ph', s', a)"
    and "ph = Idle \<or> (\<exists>nc. ph = Open nc)"
    and "counts_ok ph (COIN_COUNT s)"
  shows "COIN_INSERT_ACTIVE s' = COIN_INSERT_ACTIVE s"
    and "holds_slot ph' \<longleftrightarrow> holds_slot ph \<or> is_start ev"
    and "counts_ok ph' (COIN_COUNT s')"
  using assms
  by (induction parse now ev ph s rule: session_event.induct)
    (auto simp: session_start_def session_coin_def omap_ok_add sum_omap_add)

lemma coin_count_update_socket:
  "coinSessionUpdateSocket parse ip fd s = (s', b) \<Longrightarrow>
     COIN_INSERT_ACTIVE s' = COIN_INSERT_ACTIVE s \<and> COIN_COUNT s' = COIN_COUNT s"
  by (auto simp: coinSessionUpdateSocket_def split: if_splits)

lemma finalize_state:
  "finalizeSession e f nc c s = (c', s', a) \<Longrightarrow>
     s' = s\<lparr>COIN_COUNT := 0, COIN_SESSION_SLOT := no_slot\<rparr>"
  by (auto simp: finalizeSession_def Let_def split: if_splits prod.splits)

lemma sys_inv_init [inv_intros]: "sys_inv init_system"
  by (simp add: sys_inv_def init_system_def)

lemma sys_inv_step [inv_intros]: "sys_step parse y z \<Longrightarrow> sys_inv y \<Longrightarrow> sys_inv z"
proof (induction rule: sys_step.induct)
  case (claim_cas y s' fd ip)
  then show ?case
    by (auto simp: sys_inv_def CoinSession.claim_cas_def split: if_splits option.splits)
next
  case (claim_post fd ip y q' s' okay)
  have "length (pending y) = Suc (length (remove1 (fd, ip) (pending y)))"
    using claim_post.hyps(1) by (simp add: length_remove1) (metis Suc_pred length_pos_if_in_set)
  with claim_post_cases [OF claim_post.hyps(2)] claim_post.prems show ?case
    by (auto simp: sys_inv_def split: if_splits option.splits)
next
  case (pulse_post ev y)
  then show ?case by (auto simp: sys_inv_def starts_post)
next
  case (update_socket ip fd y s' okay)
  then show ?case
    using coin_count_update_socket [OF update_socket.hyps]
    by (auto simp: sys_inv_def)
next
  case (receive y ev q' now ph' s' a)
  from receive.prems have "counts_ok (phase y) (COIN_COUNT (coin y))"
    by (simp add: sys_inv_def)
  note ev = session_event_inv [OF receive.hyps(3) receive.hyps(1) this]
  have q: "queue y = ev # q'" using receive.hyps(2) by (auto simp: q_receive_def split: list.splits)
  show ?case
    using ev receive.prems receive.hyps(1) q
    by (auto simp: sys_inv_def split: if_splits)
next
  case (timeout y nc)
  then show ?case by (auto simp: sys_inv_def session_timeout_def)
next
  case (release y f nc ph' s' a)
  then show ?case by (auto simp: sys_inv_def session_release_def split: if_splits)
next
  case (finalize y f nc e c c' s' a)
  then show ?case using finalize_state [OF finalize.hyps(2)] by (simp add: sys_inv_def)
qed

lemma reachable_inv: "reachable parse y \<Longrightarrow> sys_inv y"
  by (induction rule: reachable.induct) (auto intro: sys_inv_init sys_inv_step)

section \<open>Accounting of one settlement\<close>

fun sale_coins :: "session_action \<Rightarrow> int" where
  "sale_coins (SaleLog n m mac) = n"
| "sale_coins _ = 0"

fun refund_coins :: "session_action \<Rightarrow> int" where
  "refund_coins (RefundLog mac n m code) = n"
| "refund_coins _ = 0"

definition sold :: "session_action list \<Rightarrow> int" where "sold as = sum_list (map sale_coins as)"
definition refunded :: "session_action list \<Rightarrow> int" where "refunded as = sum_list (map refund_coins as)"

lemma accounting_simps [simp]:
  "sold [] = 0" "sold (a # as) = sale_coins a + sold as" "sold (as @ bs) = sold as + sold bs"
  "refunded [] = 0" "refunded (a # as) = refund_coins a + refunded as"
  "refunded (as @ bs) = refunded as + refunded bs"
  by (simp_all add: sold_def refunded_def)

lemma sale_logs_accounting [simp]:
  "sold (sale_logs m nc) = sum_list (map snd nc)" "refunded (sale_logs m nc) = 0"
  by (induction nc) (auto simp: sale_logs_def)

lemma settle_accounting:
  assumes "settle e coins nc sess = (sess', r, acts)"
  shows "refunded acts = 0" and "sold acts = (if r = Settled then sum_list (map snd nc) else 0)"
    and "sess' = None \<longleftrightarrow> sess = None"
    and "r = Settled \<or> res_subtype r = ERR_SUBTYPE_REFUNDABLE \<Longrightarrow> coins > 0 \<and> sess \<noteq> None"
  using assms
  by (auto simp: settle_def ERR_SUBTYPE_REFUNDABLE_def ERR_SUBTYPE_NO_SESSION_def
      split: option.splits if_splits prod.splits)

lemma deliver_accounting:
  "sold (deliver e coins sess r) = 0"
  "refunded (deliver e coins sess r) =
     (if fd_after e \<ge> 0 \<and> ws_alive e (fd_after e) \<and> r \<noteq> Settled
         \<and> res_subtype r = ERR_SUBTYPE_REFUNDABLE \<and> sess \<noteq> None then coins else 0)"
  by (auto simp: deliver_def split: settle_result.splits option.splits)

definition client_connected :: "settle_env \<Rightarrow> bool" where
  "client_connected e \<longleftrightarrow> fd_after e \<ge> 0 \<and> ws_alive e (fd_after e)"

definition settlement :: "settle_env \<Rightarrow> (string \<times> int) list \<Rightarrow> session_cache \<Rightarrow> coin_state \<Rightarrow> settle_result" where
  "settlement e nc c s =
     fst (snd (settle e (COIN_COUNT s) nc (findByIp c (ip_render e (clientIpV4 (COIN_SESSION_SLOT s))))))"

lemma finalize_accounting:
  assumes fin: "finalizeSession e False nc c s = (c', s', a)"
    and sum: "sum_list (map snd nc) = COIN_COUNT s"
  shows "sold a = (if settlement e nc c s = Settled then COIN_COUNT s else 0)"
    and "refunded a = (if settlement e nc c s \<noteq> Settled
           \<and> res_subtype (settlement e nc c s) = ERR_SUBTYPE_REFUNDABLE \<and> client_connected e
           then COIN_COUNT s else 0)"
proof -
  let ?sess = "findByIp c (ip_render e (clientIpV4 (COIN_SESSION_SLOT s)))"
  obtain sess' r acts where st: "settle e (COIN_COUNT s) nc ?sess = (sess', r, acts)"
    by (metis prod_cases3)
  then have r: "settlement e nc c s = r" by (simp add: settlement_def)
  have a: "a = BroadcastEnd # acts @ deliver e (COIN_COUNT s) sess' r"
    using fin st by (auto simp: finalizeSession_def Let_def)
  note acc = settle_accounting [OF st]
  show "sold a = (if settlement e nc c s = Settled then COIN_COUNT s else 0)"
    using acc(2) sum by (simp add: a r deliver_accounting)
  have "res_subtype r = ERR_SUBTYPE_REFUNDABLE \<Longrightarrow> sess' \<noteq> None" using acc(3,4) by blast
  then show "refunded a = (if settlement e nc c s \<noteq> Settled
           \<and> res_subtype (settlement e nc c s) = ERR_SUBTYPE_REFUNDABLE \<and> client_connected e
           then COIN_COUNT s else 0)"
    using acc(1) by (auto simp: a r deliver_accounting client_connected_def)
qed

section \<open>A concrete run\<close>

definition demo_parse :: "string \<Rightarrow> u32 option" where
  "demo_parse ip = (if ip = ''10.0.0.7'' then Some 7 else None)"

definition demo_coin :: coin_state where
  "demo_coin = \<lparr>COIN_INSERT_ACTIVE = True, COIN_COUNT = 1,
     COIN_SESSION_SLOT = \<lparr>clientIpV4 = 7, slotFd = 5\<rparr>,
     COIN_DEADLINE_MILLIS = 13000, COIN_SLOT_READY_MILLIS = 1500\<rparr>"

definition demo_closing :: "bool \<Rightarrow> system" where
  "demo_closing f = \<lparr>coin = demo_coin, queue = [], phase = Closing f [(''AA'', 1)], pending = []\<rparr>"

lemma reachable_claimed:
  "reachable demo_parse (init_system\<lparr>coin := (coin init_system)\<lparr>COIN_INSERT_ACTIVE := True\<rparr>,
     pending := [(5, ''10.0.0.7'')]\<rparr>)"
  by (rule reach_step [OF reach_init])
    (use sys_step.claim_cas [of init_system _ demo_parse 5 "''10.0.0.7''"] in
      \<open>simp add: init_system_def claim_cas_def\<close>)

lemma reachable_started:
  "reachable demo_parse (init_system\<lparr>coin := (coin init_system)\<lparr>COIN_INSERT_ACTIVE := True\<rparr>,
     queue := [COIN_SESSION_START 5 ''10.0.0.7'']\<rparr>)" (is "reachable _ ?z")
proof -
  let ?y = "init_system\<lparr>coin := (coin init_system)\<lparr>COIN_INSERT_ACTIVE := True\<rparr>,
     pending := [(5, ''10.0.0.7'')]\<rparr>"
  have "claim_post 5 ''10.0.0.7'' (queue ?y) (coin ?y)
      = ([COIN_SESSION_START 5 ''10.0.0.7''], coin ?y, True)"
    by (simp add: claim_post_def q_send_def init_system_def cstr_def)
  from sys_step.claim_post [OF _ this, of demo_parse] have "sys_step demo_parse ?y ?z"
    by (simp add: init_system_def)
  with reachable_claimed show ?thesis by (rule reach_step)
qed

lemma reachable_open:
  "reachable demo_parse \<lparr>coin = demo_coin\<lparr>COIN_COUNT := 0, COIN_DEADLINE_MILLIS := 11000\<rparr>,
     queue = [], phase = Open [], pending = []\<rparr>" (is "reachable _ ?z")
proof -
  let ?y = "init_system\<lparr>coin := (coin init_system)\<lparr>COIN_INSERT_ACTIVE := True\<rparr>,
     queue := [COIN_SESSION_START 5 ''10.0.0.7'']\<rparr>"
  have "session_event demo_parse 1000 (COIN_SESSION_START 5 ''10.0.0.7'') (phase ?y) (coin ?y)
      = (Open [], coin ?z, [LedStart, BroadcastStart, NotifyUpdateClient])"
    by (simp add: init_system_def session_start_def coinIpToU32_def demo_parse_def demo_coin_def)
  from sys_step.receive [OF _ _ this] have "sys_step demo_parse ?y ?z"
    by (simp add: init_system_def q_receive_def)
  with reachable_started show ?thesis by (rule reach_step)
qed

lemma reachable_one_coin:
  "reachable demo_parse \<lparr>coin = demo_coin, queue = [], phase = Open [(''AA'', 1)], pending = []\<rparr>"
  (is "reachable _ ?z")
proof -
  let ?x = "\<lparr>coin = demo_coin\<lparr>COIN_COUNT := 0, COIN_DEADLINE_MILLIS := 11000\<rparr>,
     queue = [], phase = Open [], pending = []\<rparr>"
  let ?y = "?x\<lparr>queue := [COIN_SESSION_COIN ''AA'']\<rparr>"
  from sys_step.pulse_post [of "COIN_SESSION_COIN ''AA''" demo_parse ?x]
  have y: "reachable demo_parse ?y"
    using reachable_open by (auto intro: reach_step simp: q_post_def q_send_def)
  have "session_event demo_parse 3000 (COIN_SESSION_COIN ''AA'') (phase ?y) (coin ?y)
      = (Open [(''AA'', 1)], demo_coin, [NotifyUpdateClient])"
    by (simp add: session_coin_def demo_coin_def omap_add_def omap_get_def)
  from sys_step.receive [OF _ _ this] have "sys_step demo_parse ?y ?z"
    by (simp add: q_receive_def)
  with y show ?thesis by (rule reach_step)
qed

lemma reachable_closing: "reachable demo_parse (demo_closing False)"
  by (rule reach_step [OF reachable_one_coin])
    (use sys_step.timeout [of "\<lparr>coin = demo_coin, queue = [], phase = Open [(''AA'', 1)], pending = []\<rparr>"]
      in \<open>simp add: demo_closing_def session_timeout_def\<close>)

definition demo_finalizing :: system where
  "demo_finalizing = (demo_closing False)
     \<lparr>coin := demo_coin\<lparr>COIN_INSERT_ACTIVE := False\<rparr>, phase := Finalizing False [(''AA'', 1)]\<rparr>"

lemma reachable_finalizing: "reachable demo_parse demo_finalizing"
proof -
  have "session_release (phase (demo_closing False)) (coin (demo_closing False))
      = (Finalizing False [(''AA'', 1)], demo_coin\<lparr>COIN_INSERT_ACTIVE := False\<rparr>, [LedStop])"
    by (simp add: demo_closing_def session_release_def)
  from sys_step.release [OF _ this, of False "[(''AA'', 1)]" demo_parse]
  have "sys_step demo_parse (demo_closing False) demo_finalizing"
    by (simp add: demo_closing_def demo_finalizing_def)
  with reachable_closing show ?thesis by (rule reach_step)
qed

definition demo_settle :: "bool \<Rightarrow> string option \<Rightarrow> settle_env" where
  "demo_settle connected err = \<lparr>ip_render = (\<lambda>v. if v = 7 then ''10.0.0.7'' else []),
     minutes_per_coin = 24, now_epoch = 1700000000000,
     extend_call = (\<lambda>s d. (s, err)), auth_call = (\<lambda>s d. (s, err)),
     fd_after = 5, ws_alive = (\<lambda>fd. connected), refund_code = ''ABC234''\<rparr>"

definition demo_cache :: session_cache where
  "demo_cache = fst (upsert ''10.0.0.7'' ''CC'' empty_cache)"

section \<open>Properties\<close>

text \<open>One coin session at a time. In every reachable state of the interleaved tasks, the slot
  flag is up exactly when one claim is alive, be it in flight, queued or open; so while a
  session is open no other start is queued or in flight, and the branch of the task that
  ignores a second start is never taken.\<close>
theorem one_claim_at_a_time:
  assumes "reachable parse y"
  shows "length (pending y) + starts (queue y) + (if holds_slot (phase y) then 1 else 0) \<le> 1
    \<and> (COIN_INSERT_ACTIVE (coin y) \<longleftrightarrow>
           pending y \<noteq> [] \<or> starts (queue y) \<noteq> 0 \<or> holds_slot (phase y))"
proof -
  from reachable_inv [OF assms] have i: "(if COIN_INSERT_ACTIVE (coin y) then 1 else 0)
       = length (pending y) + starts (queue y) + (if holds_slot (phase y) then 1 else (0::nat))"
    by (simp add: sys_inv_def)
  then have "length (pending y) + starts (queue y) + (if holds_slot (phase y) then 1 else 0) \<le> 1"
    by (simp split: if_splits)
  moreover from i have "COIN_INSERT_ACTIVE (coin y) \<longleftrightarrow>
      pending y \<noteq> [] \<or> starts (queue y) \<noteq> 0 \<or> holds_slot (phase y)"
    by (auto split: if_splits)
  ultimately show ?thesis by (rule conjI)
qed

theorem one_claim_at_a_time_witness:
  "reachable demo_parse (demo_closing False) \<and> holds_slot (phase (demo_closing False))
   \<and> length (pending (demo_closing False)) + starts (queue (demo_closing False)) + 1 \<le> 1
   \<and> COIN_INSERT_ACTIVE (coin (demo_closing False))"
  using one_claim_at_a_time [OF reachable_closing] reachable_closing
  by (simp add: demo_closing_def)

text \<open>C8: Every coin of a session is settled once. When a session that was not ended by fraud is
  finalized, the coins are all logged as sales when the controller granted the time; otherwise
  none is, and all of them are written to the refund log exactly when the failure is
  refundable and the client is still connected. The count is then zero and the slot free.\<close>
theorem coins_settled_once:
  assumes "reachable parse y" and "phase y = Finalizing False nc"
    and "finalizeSession e False nc c (coin y) = (c', s', a)"
  shows "sold a = (if settlement e nc c (coin y) = Settled then COIN_COUNT (coin y) else 0)
    \<and> refunded a = (if settlement e nc c (coin y) \<noteq> Settled
         \<and> res_subtype (settlement e nc c (coin y)) = ERR_SUBTYPE_REFUNDABLE \<and> client_connected e
         then COIN_COUNT (coin y) else 0)
    \<and> COIN_COUNT s' = 0 \<and> COIN_SESSION_SLOT s' = no_slot"
proof -
  from reachable_inv [OF assms(1)] assms(2)
  have "sum_list (map snd nc) = COIN_COUNT (coin y)" by (simp add: sys_inv_def)
  with finalize_accounting [OF assms(3)] finalize_state [OF assms(3)] show ?thesis by simp
qed

theorem coins_settled_once_witness:
  "sold (snd (snd (finalizeSession (demo_settle True None) False [(''AA'', 1)] demo_cache
     (coin demo_finalizing)))) = 1"
proof -
  let ?f = "finalizeSession (demo_settle True None) False [(''AA'', 1)] demo_cache (coin demo_finalizing)"
  have "?f = (fst ?f, fst (snd ?f), snd (snd ?f))" by simp
  moreover have "phase demo_finalizing = Finalizing False [(''AA'', 1)]"
    by (simp add: demo_finalizing_def)
  moreover have "settlement (demo_settle True None) [(''AA'', 1)] demo_cache (coin demo_finalizing) = Settled"
    by code_simp
  moreover have "COIN_COUNT (coin demo_finalizing) = 1"
    by (simp add: demo_finalizing_def demo_coin_def)
  ultimately show ?thesis
    using coins_settled_once [OF reachable_finalizing, of "[(''AA'', 1)]" "demo_settle True None"
        demo_cache "fst ?f" "fst (snd ?f)" "snd (snd ?f)"] by simp
qed

text \<open>C12: Money without a trace. If the controller refuses the time and the client has lost its
  WebSocket, the coins are neither sold nor written to the refund log: no refund code exists,
  although the failure is one the code calls refundable.\<close>
theorem refund_lost_when_disconnected:
  assumes "\<not> client_connected e" and "settlement e nc c s \<noteq> Settled"
    and "sum_list (map snd nc) = COIN_COUNT s"
    and "finalizeSession e False nc c s = (c', s', a)"
  shows "sold a = 0 \<and> refunded a = 0 \<and> a = [BroadcastEnd]"
proof -
  let ?sess = "findByIp c (ip_render e (clientIpV4 (COIN_SESSION_SLOT s)))"
  obtain sess' r acts where st: "settle e (COIN_COUNT s) nc ?sess = (sess', r, acts)"
    by (metis prod_cases3)
  with assms(2) have "r \<noteq> Settled" by (simp add: settlement_def)
  with st have "acts = []"
    by (auto simp: settle_def split: option.splits if_splits prod.splits)
  moreover have "deliver e (COIN_COUNT s) sess' r = []"
    using assms(1) by (auto simp: deliver_def client_connected_def)
  ultimately have "a = [BroadcastEnd]"
    using assms(4) st by (auto simp: finalizeSession_def Let_def)
  then show ?thesis by simp
qed

theorem refund_lost_when_disconnected_witness:
  "let e = demo_settle False (Some ''Auth: timeout'') in
   res_subtype (settlement e [(''AA'', 1)] demo_cache (coin demo_finalizing)) = ERR_SUBTYPE_REFUNDABLE
   \<and> snd (snd (finalizeSession e False [(''AA'', 1)] demo_cache (coin demo_finalizing))) = [BroadcastEnd]"
proof -
  let ?e = "demo_settle False (Some ''Auth: timeout'')"
  let ?f = "finalizeSession ?e False [(''AA'', 1)] demo_cache (coin demo_finalizing)"
  have sub: "res_subtype (settlement ?e [(''AA'', 1)] demo_cache (coin demo_finalizing)) = ERR_SUBTYPE_REFUNDABLE"
    by code_simp
  have ns: "settlement ?e [(''AA'', 1)] demo_cache (coin demo_finalizing) \<noteq> Settled"
    by code_simp
  have "sold (snd (snd ?f)) = 0 \<and> refunded (snd (snd ?f)) = 0 \<and> snd (snd ?f) = [BroadcastEnd]"
  proof (rule refund_lost_when_disconnected)
    show "\<not> client_connected ?e" by (simp add: client_connected_def demo_settle_def)
    show "settlement ?e [(''AA'', 1)] demo_cache (coin demo_finalizing) \<noteq> Settled" by (rule ns)
    show "sum_list (map snd [(''AA'', 1)]) = COIN_COUNT (coin demo_finalizing)"
      by (simp add: demo_finalizing_def demo_coin_def)
    show "?f = (fst ?f, fst (snd ?f), snd (snd ?f))" by simp
  qed
  with sub show ?thesis by (simp add: Let_def)
qed

text \<open>A coin can be lost in the claim race: there is a reachable state in which the window
  flag is up and an accepted coin stands at the head of the queue, but the session task is
  still idle, so that its next receive drops the coin and the session that follows starts
  without it.\<close>
theorem coin_lost_in_claim_race:
  "\<exists>y. reachable demo_parse y \<and> COIN_INSERT_ACTIVE (coin y) \<and> phase y = Idle
     \<and> hd (queue y) = COIN_SESSION_COIN ''AA''
     \<and> (\<exists>z. sys_step demo_parse y z \<and> phase z = Idle \<and> queue z = tl (queue y)
            \<and> COIN_COUNT (coin z) = 0)"
proof -
  let ?x = "init_system\<lparr>coin := (coin init_system)\<lparr>COIN_INSERT_ACTIVE := True\<rparr>,
     pending := [(5, ''10.0.0.7'')]\<rparr>"
  let ?y = "?x\<lparr>queue := [COIN_SESSION_COIN ''AA'']\<rparr>"
  let ?z = "?x\<lparr>queue := []\<rparr>"
  from sys_step.pulse_post [of "COIN_SESSION_COIN ''AA''" demo_parse ?x]
  have "sys_step demo_parse ?x ?y" by (simp add: q_post_def q_send_def init_system_def)
  with reachable_claimed have r: "reachable demo_parse ?y" by (rule reach_step)
  have ev: "session_event demo_parse 0 (COIN_SESSION_COIN ''AA'') (phase ?y) (coin ?y) = (Idle, coin ?y, [])"
    by (simp add: init_system_def)
  from sys_step.receive [OF _ _ ev] have "sys_step demo_parse ?y ?z"
    by (simp add: init_system_def q_receive_def)
  with r show ?thesis
    by (intro exI [of _ ?y] conjI exI [of _ ?z]) (simp_all add: init_system_def)
qed

end
