(* ===== verification/Wire.thy ===== *)
theory Wire
  imports Containers
begin

text \<open>
  Packed structs as bytes: little-endian integers of a fixed width and \<open>char\<close> arrays padded
  with NUL, as \<open>memcpy\<close> of a packed struct lays them out on the ESP32, with their decoders and
  the round trips that the UDP messages rest on.
\<close>

section \<open>Little-endian integers\<close>

fun le_bytes :: "nat \<Rightarrow> nat \<Rightarrow> u8 list" where
  "le_bytes 0 v = []"
| "le_bytes (Suc n) v = word_of_nat (v mod 256) # le_bytes n (v div 256)"

fun le_value :: "u8 list \<Rightarrow> nat" where
  "le_value [] = 0"
| "le_value (b # bs) = unat b + 256 * le_value bs"

definition put_word :: "nat \<Rightarrow> 'a::len word \<Rightarrow> u8 list" where
  "put_word n w = le_bytes n (unat w)"

definition get_word :: "nat \<Rightarrow> nat \<Rightarrow> u8 list \<Rightarrow> 'a::len word" where
  "get_word off n bs = word_of_nat (le_value (take n (drop off bs)))"

lemma length_le_bytes [simp]: "length (le_bytes n v) = n"
  by (induction n arbitrary: v) simp_all

lemma length_put_word [simp]: "length (put_word n w) = n"
  by (simp add: put_word_def)

lemma le_value_le_bytes: "le_value (le_bytes n v) = v mod 256 ^ n"
proof (induction n arbitrary: v)
  case (Suc n)
  have "unat (word_of_nat (v mod 256) :: u8) = v mod 256"
    by (simp add: unat_of_nat)
  with Suc show ?case by (simp add: mod_mult2_eq)
qed simp

lemma get_put_word:
  assumes "256 ^ n = (2 ^ LENGTH('a) :: nat)"
  shows "word_of_nat (le_value (put_word n (w :: 'a::len word))) = w"
proof -
  have "unat w < 256 ^ n" using assms by simp
  then show ?thesis by (simp add: put_word_def le_value_le_bytes)
qed

lemma le_bytes_le_value: "le_bytes (length bs) (le_value bs) = bs"
proof (induction bs)
  case (Cons b bs)
  have "unat b < 2 ^ LENGTH(8)" by (rule unsigned_less)
  then have "(unat b + 256 * le_value bs) mod 256 = unat b"
    "(unat b + 256 * le_value bs) div 256 = le_value bs" by simp_all
  with Cons show ?case by simp
qed simp

lemma le_value_bound: "le_value bs < 256 ^ length bs"
proof (induction bs)
  case (Cons b bs)
  have "unat b < 2 ^ LENGTH(8)" by (rule unsigned_less)
  then have "unat b < 256" by simp
  moreover have "256 * le_value bs + 256 \<le> 256 * 256 ^ length bs"
    using Cons by (simp add: Suc_leI flip: mult_Suc_right)
  ultimately show ?case by simp
qed simp

lemma put_get_word:
  assumes "256 ^ n = (2 ^ LENGTH('a) :: nat)" and "length bs = n"
  shows "put_word n (word_of_nat (le_value bs) :: 'a::len word) = bs"
proof -
  have "le_value bs < 2 ^ LENGTH('a)" using le_value_bound [of bs] assms by simp
  then have "unat (word_of_nat (le_value bs) :: 'a word) = le_value bs"
    by (simp add: unat_of_nat)
  then show ?thesis by (simp add: put_word_def le_bytes_le_value flip: assms(2))
qed

section \<open>Char arrays\<close>

definition byte_of :: "char \<Rightarrow> u8" where "byte_of c = word_of_nat (of_char c)"

definition char_at :: "u8 \<Rightarrow> char" where "char_at b = char_of (unat b)"

definition put_chars :: "nat \<Rightarrow> string \<Rightarrow> u8 list" where
  "put_chars n s = map byte_of (cstr n s) @ replicate (n - length (cstr n s)) 0"

text \<open>Reading after \<open>buf[sizeof(buf) - 1] = 0\<close>: the last byte never counts.\<close>

definition get_chars :: "nat \<Rightarrow> nat \<Rightarrow> u8 list \<Rightarrow> string" where
  "get_chars off n bs = map char_at (takeWhile (\<lambda>b. b \<noteq> 0) (take (n - 1) (drop off bs)))"

lemma char_at_byte_of [simp]: "char_at (byte_of c) = c"
  by (simp add: char_at_def byte_of_def unat_of_nat)

lemma byte_of_eq_0_iff [simp]: "byte_of c = 0 \<longleftrightarrow> c = CHR 0x00"
proof
  assume z: "byte_of c = 0"
  have "c = char_at (byte_of c)" by (simp only: char_at_byte_of)
  also have "\<dots> = CHR 0x00" unfolding z by (simp add: char_at_def char_of_def)
  finally show "c = CHR 0x00" .
next
  assume "c = CHR 0x00"
  then show "byte_of c = 0" by (simp add: byte_of_def)
qed

lemma length_put_chars [simp]: "0 < n \<Longrightarrow> length (put_chars n s) = n"
  using length_cstr [of n s] by (simp add: put_chars_def)

lemma takeWhile_pad:
  "\<forall>x \<in> set xs. P x \<Longrightarrow> \<not> P y \<Longrightarrow> takeWhile P (xs @ replicate k y) = xs"
  by (induction xs) (cases k, auto)

lemma takeWhile_bytes_cstr:
  "takeWhile (\<lambda>b. b \<noteq> 0) (map byte_of (cstr n s) @ replicate k 0) = map byte_of (cstr n s)"
  using cstr_no_nul [of n s] by (intro takeWhile_pad) auto

lemma get_put_chars:
  assumes "0 < n"
  shows "map char_at (takeWhile (\<lambda>b. b \<noteq> 0) (take (n - 1) (put_chars n s))) = cstr n s"
proof -
  have "take (n - 1) (put_chars n s)
      = map byte_of (cstr n s) @ replicate (n - 1 - length (cstr n s)) 0"
    using length_cstr [OF assms, of s] by (simp add: put_chars_def)
  then show ?thesis by (simp add: takeWhile_bytes_cstr comp_def)
qed

lemma get_chars_length: "length (get_chars off n bs) \<le> n - 1"
  unfolding get_chars_def length_map
  by (rule order_trans [OF length_takeWhile_le]) simp

lemma byte_of_char_at [simp]: "byte_of (char_at b) = b"
proof -
  have "unat b < 2 ^ LENGTH(8)" by (rule unsigned_less)
  then show ?thesis by (simp add: byte_of_def char_at_def)
qed

lemma get_chars_no_nul: "CHR 0x00 \<notin> set (get_chars off n bs)"
proof
  assume "CHR 0x00 \<in> set (get_chars off n bs)"
  then obtain b where b: "b \<in> set (takeWhile (\<lambda>b. b \<noteq> 0) (take (n - 1) (drop off bs)))"
      "char_at b = CHR 0x00"
    by (auto simp: get_chars_def)
  from set_takeWhileD [OF b(1)] have "b \<noteq> 0" by simp
  moreover have "byte_of (char_at b) = 0" unfolding b(2) by simp
  ultimately show False by simp
qed

text \<open>Fields of a concatenation, read at their offset.\<close>

lemma get_word_at:
  "length pre = off \<Longrightarrow> 256 ^ n = (2 ^ LENGTH('a) :: nat) \<Longrightarrow>
     get_word off n (pre @ put_word n (w :: 'a::len word) @ post) = w"
  by (simp add: get_word_def get_put_word)

lemma get_chars_at:
  "length pre = off \<Longrightarrow> 0 < n \<Longrightarrow> get_chars off n (pre @ put_chars n s @ post) = cstr n s"
  by (simp add: get_chars_def get_put_chars [symmetric])

text \<open>The same by position: skip what comes before, then read the field at the front.\<close>

lemma get_word_skip: "length xs \<le> off \<Longrightarrow> get_word off n (xs @ ys) = get_word (off - length xs) n ys"
  by (simp add: get_word_def)

lemma get_chars_skip: "length xs \<le> off \<Longrightarrow> get_chars off n (xs @ ys) = get_chars (off - length xs) n ys"
  by (simp add: get_chars_def)

lemma get_word_head:
  "256 ^ n = (2 ^ LENGTH('a) :: nat) \<Longrightarrow> get_word 0 n (put_word n (w :: 'a::len word) @ post) = w"
  using get_word_at [of "[]" 0 n w post] by simp

lemma get_chars_head: "0 < n \<Longrightarrow> get_chars 0 n (put_chars n s @ post) = cstr n s"
  using get_chars_at [of "[]" 0 n s post] by simp

lemma get_chars_last: "0 < n \<Longrightarrow> get_chars 0 n (put_chars n s) = cstr n s"
  using get_chars_at [of "[]" 0 n s "[]"] by simp

lemmas get_fields = get_word_skip get_chars_skip get_word_head get_chars_head get_chars_last

section \<open>Constant-time comparison and hexadecimal text\<close>

lemma foldl_or_eq_0:
  "foldl (\<lambda>d i. d OR f i) (a :: 'a::len word) xs = 0 \<longleftrightarrow> a = 0 \<and> (\<forall>i \<in> set xs. f i = 0)"
  by (induction xs arbitrary: a) (auto simp: or_eq_0_iff)

lemma xor_eq_0_iff_eq: "a XOR b = 0 \<longleftrightarrow> a = (b :: 'a::len word)"
proof
  assume z: "a XOR b = 0"
  have "a = (a XOR b) XOR b" by (simp add: xor.assoc)
  then show "a = b" by (simp add: z)
qed simp

text \<open>\<open>%02x\<close> of one byte, and of a buffer.\<close>

definition hex_digit :: "nat \<Rightarrow> char" where
  "hex_digit n = (if n < 10 then char_of (48 + n) else char_of (87 + n))"

definition hex_byte :: "u8 \<Rightarrow> string" where
  "hex_byte b = [hex_digit (unat b div 16), hex_digit (unat b mod 16)]"

definition hex_text :: "u8 list \<Rightarrow> string" where "hex_text bs = concat (map hex_byte bs)"

lemma length_hex_text [simp]: "length (hex_text bs) = 2 * length bs"
  by (induction bs) (simp_all add: hex_text_def hex_byte_def)

definition hex_alphabet :: "char list" where "hex_alphabet = ''0123456789abcdef''"

lemma hex_digit_alphabet: "n < 16 \<Longrightarrow> hex_digit n \<in> set hex_alphabet"
proof -
  assume "n < 16"
  then have "n \<in> set [0..<16]" by simp
  moreover have "list_all (\<lambda>n. hex_digit n \<in> set hex_alphabet) [0..<16]" by code_simp
  ultimately show ?thesis by (simp add: list_all_iff)
qed

lemma set_hex_text: "set (hex_text bs) \<subseteq> set hex_alphabet"
proof -
  have "unat b div 16 < 16" for b :: u8 using unsigned_less [of b, where ?'a = nat] by simp
  then show ?thesis by (auto simp: hex_text_def hex_byte_def intro: hex_digit_alphabet)
qed

end
