(* ===== verification/LogBuffer.thy ===== *)
theory LogBuffer
  imports Containers
begin

text \<open>
  The log ring of \<open>src/log_buffer.cpp\<close>: an array of 200 entries with a head, a count and a
  32-bit sequence number. \<open>log_put\<close> is the array write, and an interpretation of the contract
  \<open>recent_history\<close>; the lemmas below turn it into what a client that polls with the last
  sequence number it saw gets back.
\<close>

abbreviation LOG_BUF_ENTRIES :: nat where "LOG_BUF_ENTRIES \<equiv> 200"
abbreviation LOG_BUF_TAG_LEN :: nat where "LOG_BUF_TAG_LEN \<equiv> 16"
abbreviation LOG_BUF_MSG_LEN :: nat where "LOG_BUF_MSG_LEN \<equiv> 128"

record log_entry =
  le_seq :: u32
  le_uptimeMs :: u32
  le_ts :: int
  le_level :: char
  le_tag :: string
  le_msg :: string

record log_buffer =
  LOG_RING :: "log_entry list"
  LOG_HEAD :: nat
  LOG_COUNT :: nat
  LOG_SEQUENCE :: u32

definition blank_entry :: log_entry where
  "blank_entry = \<lparr>le_seq = 0, le_uptimeMs = 0, le_ts = 0, le_level = CHR 0x00, le_tag = [], le_msg = []\<rparr>"

definition empty_log :: log_buffer where
  "empty_log = \<lparr>LOG_RING = replicate LOG_BUF_ENTRIES blank_entry, LOG_HEAD = 0, LOG_COUNT = 0,
     LOG_SEQUENCE = 0\<rparr>"

definition log_put :: "log_entry \<Rightarrow> log_buffer \<Rightarrow> log_buffer" where
  "log_put x b = b\<lparr>LOG_RING := (LOG_RING b)[LOG_HEAD b := x],
     LOG_HEAD := Suc (LOG_HEAD b) mod LOG_BUF_ENTRIES,
     LOG_COUNT := (if LOG_COUNT b < LOG_BUF_ENTRIES then Suc (LOG_COUNT b) else LOG_COUNT b)\<rparr>"

definition make_entry :: "u32 \<Rightarrow> u32 \<Rightarrow> int \<Rightarrow> char \<Rightarrow> string \<Rightarrow> string \<Rightarrow> log_entry" where
  "make_entry n ms t level tag msg =
     \<lparr>le_seq = n, le_uptimeMs = ms, le_ts = t, le_level = level,
      le_tag = cstr LOG_BUF_TAG_LEN tag, le_msg = cstr LOG_BUF_MSG_LEN msg\<rparr>"

text \<open>\<open>locked\<close>: the mutex exists and was taken within its timeout.\<close>

definition logDirect ::
  "bool \<Rightarrow> u32 \<Rightarrow> int \<Rightarrow> char \<Rightarrow> string \<Rightarrow> string \<Rightarrow> log_buffer \<Rightarrow> log_buffer" where
  "logDirect locked ms t level tag msg b =
     (if \<not> locked then b
      else log_put (make_entry (LOG_SEQUENCE b + 1) ms t level tag msg)
             (b\<lparr>LOG_SEQUENCE := LOG_SEQUENCE b + 1\<rparr>))"

definition log_contents :: "log_buffer \<Rightarrow> log_entry list" where
  "log_contents b = ring_window (LOG_RING b) (LOG_HEAD b) (LOG_COUNT b)"

definition logBufferSnapshot :: "bool \<Rightarrow> nat \<Rightarrow> u32 \<Rightarrow> log_buffer \<Rightarrow> log_entry list" where
  "logBufferSnapshot locked maxOut sinceSeq b =
     (if \<not> locked then []
      else take maxOut (filter (\<lambda>e. le_seq e > sinceSeq) (log_contents b)))"

definition logBufferLastSeq :: "bool \<Rightarrow> log_buffer \<Rightarrow> u32" where
  "logBufferLastSeq locked b = (if \<not> locked then 0 else LOG_SEQUENCE b)"

section \<open>Ring contract\<close>

definition log_ring_ok :: "log_buffer \<Rightarrow> bool" where
  "log_ring_ok b \<longleftrightarrow> ring_ok LOG_BUF_ENTRIES (LOG_RING b) (LOG_HEAD b) (LOG_COUNT b)"

lemma log_count_min: "log_ring_ok b \<Longrightarrow>
    (if LOG_COUNT b < LOG_BUF_ENTRIES then Suc (LOG_COUNT b) else LOG_COUNT b)
      = min LOG_BUF_ENTRIES (Suc (LOG_COUNT b))"
  by (auto simp: log_ring_ok_def ring_ok_def)

interpretation log_ring: recent_history LOG_BUF_ENTRIES log_put log_contents log_ring_ok
proof unfold_locales
  fix b x
  assume ok: "log_ring_ok b"
  then have r: "ring_ok LOG_BUF_ENTRIES (LOG_RING b) (LOG_HEAD b) (LOG_COUNT b)"
    by (simp add: log_ring_ok_def)
  show "log_ring_ok (log_put x b)"
    using ring_ok_push [OF r, of x] unfolding log_ring_ok_def log_put_def log_count_min [OF ok] by simp
  show "log_contents (log_put x b) = last_n LOG_BUF_ENTRIES (log_contents b @ [x])"
    using ring_window_push [OF r, of x]
    unfolding log_contents_def log_put_def log_count_min [OF ok] by simp
  show "length (log_contents b) \<le> LOG_BUF_ENTRIES"
    using r by (simp add: log_contents_def ring_ok_def)
qed

definition log_ok :: "log_buffer \<Rightarrow> bool" where
  "log_ok b \<longleftrightarrow> log_ring_ok b \<and> (\<forall>e \<in> set (log_contents b). le_seq e \<le> LOG_SEQUENCE b)"

lemma log_ok_empty [inv_intros]: "log_ok empty_log"
  by (simp add: log_ok_def log_ring_ok_def ring_ok_def log_contents_def empty_log_def)

lemma contents_set_seq [simp]: "log_contents (b\<lparr>LOG_SEQUENCE := n\<rparr>) = log_contents b"
  by (simp add: log_contents_def)

lemma ring_ok_set_seq [simp]: "log_ring_ok (b\<lparr>LOG_SEQUENCE := n\<rparr>) = log_ring_ok b"
  by (simp add: log_ring_ok_def)

section \<open>Several writes\<close>

type_synonym log_write = "u32 \<times> int \<times> char \<times> string \<times> string"

fun write_one :: "log_write \<Rightarrow> log_buffer \<Rightarrow> log_buffer" where
  "write_one (ms, t, level, tag, msg) b = logDirect True ms t level tag msg b"

fun entries_from :: "u32 \<Rightarrow> log_write list \<Rightarrow> log_entry list" where
  "entries_from n [] = []"
| "entries_from n ((ms, t, level, tag, msg) # ws) =
     make_entry (n + 1) ms t level tag msg # entries_from (n + 1) ws"

lemma length_entries_from [simp]: "length (entries_from n ws) = length ws"
  by (induction n ws rule: entries_from.induct) simp_all

lemma writes_contents:
  "log_ring_ok b \<Longrightarrow> log_ring_ok (fold write_one ws b)
     \<and> log_contents (fold write_one ws b)
         = last_n LOG_BUF_ENTRIES (log_contents b @ entries_from (LOG_SEQUENCE b) ws)"
proof (induction ws arbitrary: b)
  case Nil
  then show ?case by (simp add: log_ring.contents_cap)
next
  case (Cons w ws)
  obtain ms t l tag msg where w: "w = (ms, t, l, tag, msg)" by (cases w) auto
  let ?b = "b\<lparr>LOG_SEQUENCE := LOG_SEQUENCE b + 1\<rparr>"
  let ?x = "make_entry (LOG_SEQUENCE b + 1) ms t l tag msg"
  have ok: "log_ring_ok ?b" using Cons.prems by simp
  have "LOG_SEQUENCE (log_put ?x ?b) = LOG_SEQUENCE b + 1" by (simp add: log_put_def)
  then show ?case
    using Cons.IH [OF log_ring.ok_push [OF ok, of ?x]] log_ring.contents_push [OF ok, of ?x]
    by (simp add: logDirect_def w last_n_append_last_n)
qed

lemma entries_from_newer:
  "unat n + length ws < 2 ^ 32 \<Longrightarrow> e \<in> set (entries_from n ws) \<Longrightarrow> n < le_seq e"
proof (induction n ws rule: entries_from.induct)
  case (2 n ms t l tag msg ws)
  then have s: "unat (n + 1) = Suc (unat n)"
    by (subst unat_add_lem [THEN iffD1]) simp_all
  then have lt: "n < n + 1" by (simp add: word_less_nat_alt)
  show ?case
  proof (cases "e \<in> set (entries_from (n + 1) ws)")
    case True
    with 2 s have "n + 1 < le_seq e" by simp
    with lt show ?thesis by (rule less_trans)
  next
    case False
    with 2 lt show ?thesis by (simp add: make_entry_def)
  qed
qed simp

lemma new_entries:
  assumes "log_ok b" and "length ws \<le> LOG_BUF_ENTRIES" and "unat (LOG_SEQUENCE b) + length ws < 2 ^ 32"
  shows "filter (\<lambda>e. le_seq e > LOG_SEQUENCE b) (log_contents (fold write_one ws b)) = entries_from (LOG_SEQUENCE b) ws"
proof -
  let ?n = "LOG_SEQUENCE b" and ?E = "entries_from (LOG_SEQUENCE b) ws"
  let ?old = "last_n (LOG_BUF_ENTRIES - length ws) (log_contents b)"
  from assms(1) have "log_contents (fold write_one ws b) = last_n LOG_BUF_ENTRIES (log_contents b @ ?E)"
    by (simp add: writes_contents log_ok_def)
  also have "\<dots> = ?old @ ?E"
    using assms(2) by (subst last_n_suffix) simp_all
  finally have c: "log_contents (fold write_one ws b) = ?old @ ?E" .
  have "filter (\<lambda>e. le_seq e > ?n) ?old = []"
    using assms(1) set_last_n [of "LOG_BUF_ENTRIES - length ws" "log_contents b"]
    by (auto simp: filter_empty_conv log_ok_def dest!: subsetD)
  moreover have "filter (\<lambda>e. le_seq e > ?n) ?E = ?E"
    using entries_from_newer [OF assms(3)] by (auto simp: filter_id_conv)
  ultimately show ?thesis by (simp add: c)
qed

lemma sequence_writes: "LOG_SEQUENCE (fold write_one ws b) = LOG_SEQUENCE b + word_of_nat (length ws)"
proof (induction ws arbitrary: b)
  case (Cons w ws)
  have "LOG_SEQUENCE (write_one w b) = LOG_SEQUENCE b + 1" by (cases w) (simp add: logDirect_def log_put_def)
  with Cons show ?case by simp
qed simp

lemma unat_sequence: "unat (n :: u32) + k < 2 ^ 32 \<Longrightarrow> unat (n + word_of_nat k) = unat n + k"
  by (simp add: unat_word_ariths(1) unsigned_of_nat take_bit_nat_eq_self)

lemma entries_from_upto:
  "unat n + length ws < 2 ^ 32 \<Longrightarrow> e \<in> set (entries_from n ws) \<Longrightarrow> unat (le_seq e) \<le> unat n + length ws"
proof (induction n ws rule: entries_from.induct)
  case (2 n ms t l tag msg ws)
  then have s: "unat (n + 1) = Suc (unat n)" by (subst unat_add_lem [THEN iffD1]) simp_all
  with 2 show ?case by (auto simp: make_entry_def)
qed simp

lemma log_ok_writes:
  assumes "log_ok b" and "unat (LOG_SEQUENCE b) + length ws < 2 ^ 32"
  shows "log_ok (fold write_one ws b)"
proof -
  let ?n = "LOG_SEQUENCE b" and ?m = "LOG_SEQUENCE (fold write_one ws b)"
  have m: "unat ?m = unat ?n + length ws" using assms(2) by (simp add: sequence_writes unat_sequence)
  have w: "log_ring_ok (fold write_one ws b)" "log_contents (fold write_one ws b) = last_n LOG_BUF_ENTRIES (log_contents b @ entries_from ?n ws)"
    using writes_contents [of b ws] assms(1) by (simp_all add: log_ok_def)
  have "le_seq e \<le> ?m" if "e \<in> set (log_contents (fold write_one ws b))" for e
  proof -
    have "e \<in> set (log_contents b) \<or> e \<in> set (entries_from ?n ws)"
      using that set_last_n [of LOG_BUF_ENTRIES "log_contents b @ entries_from ?n ws"] by (auto simp: w(2))
    then have "unat (le_seq e) \<le> unat ?m"
      using assms(1) entries_from_upto [OF assms(2), of e] m by (auto simp: log_ok_def word_le_nat_alt)
    then show ?thesis by (simp add: word_le_nat_alt)
  qed
  with w(1) show ?thesis by (simp add: log_ok_def)
qed

section \<open>Properties\<close>

text \<open>A log viewer misses nothing. A client that has read up to the current sequence number
  and polls again after at most 200 more entries gets exactly those entries, in order, with
  nothing repeated, whatever the ring held before.\<close>
theorem poll_sees_every_new_entry:
  assumes "log_ok b" and "length ws \<le> LOG_BUF_ENTRIES" and "unat (LOG_SEQUENCE b) + length ws < 2 ^ 32"
  shows "logBufferSnapshot True LOG_BUF_ENTRIES (LOG_SEQUENCE b) (fold write_one ws b)
           = entries_from (LOG_SEQUENCE b) ws"
  using new_entries [OF assms] assms(2) by (simp add: logBufferSnapshot_def)

theorem poll_sees_every_new_entry_witness:
  "map le_msg (logBufferSnapshot True LOG_BUF_ENTRIES 0
     (fold write_one [(5, 0, CHR ''W'', ''net'', ''a''), (6, 0, CHR ''E'', ''coin'', ''b'')] empty_log))
   = [''a'', ''b'']"
proof -
  let ?ws = "[(5, 0, CHR ''W'', ''net'', ''a''), (6, 0, CHR ''E'', ''coin'', ''b'')] :: log_write list"
  have s: "LOG_SEQUENCE empty_log = 0" by (simp add: empty_log_def)
  have "logBufferSnapshot True LOG_BUF_ENTRIES 0 (fold write_one ?ws empty_log)
      = entries_from 0 ?ws"
    using poll_sees_every_new_entry [OF log_ok_empty, of ?ws] unfolding s by simp
  then show ?thesis by (simp add: make_entry_def cstr_def)
qed

end
