(* ===== verification/Network.thy ===== *)
theory Network
  imports Wire LogBuffer CoinPulse CoinSession
begin

text \<open>
  The UDP protocol between the nodes (\<open>src/network.cpp\<close>): the packet format
  \<open>[type][timestamp][body][tag]\<close>, its authentication and freshness checks, the message bodies,
  and one iteration of \<open>networkLoop\<close> with the handler of every message type. HMAC-SHA256 is a
  parameter of the environment (key and data to 32 bytes); of it the theorems use the length
  of the result. Addresses are 32-bit values.
\<close>

abbreviation NET_MSG_COIN_INSERTED :: u16 where "NET_MSG_COIN_INSERTED \<equiv> 1"
abbreviation NET_MSG_SESSION_START :: u16 where "NET_MSG_SESSION_START \<equiv> 2"
abbreviation NET_MSG_SESSION_END :: u16 where "NET_MSG_SESSION_END \<equiv> 3"
abbreviation NET_MSG_HEARTBEAT :: u16 where "NET_MSG_HEARTBEAT \<equiv> 4"
abbreviation NET_MSG_OTA_AVAILABLE :: u16 where "NET_MSG_OTA_AVAILABLE \<equiv> 5"
abbreviation NET_MSG_LOG_ENTRY :: u16 where "NET_MSG_LOG_ENTRY \<equiv> 6"
abbreviation NET_MSG_REBOOT :: u16 where "NET_MSG_REBOOT \<equiv> 7"

abbreviation NET_HMAC_LEN :: nat where "NET_HMAC_LEN \<equiv> 16"
abbreviation NET_HEADER_LEN :: nat where "NET_HEADER_LEN \<equiv> 10"
abbreviation HeartbeatBody_size :: nat where "HeartbeatBody_size \<equiv> 67"
abbreviation OtaCmdBody_size :: nat where "OtaCmdBody_size \<equiv> 18"
abbreviation CoinInsertedBody_size :: nat where "CoinInsertedBody_size \<equiv> 18"
abbreviation LogEntryBody_size :: nat where "LogEntryBody_size \<equiv> 163"
abbreviation NET_MAX_PACKET :: nat where "NET_MAX_PACKET \<equiv> 189"
abbreviation NET_FRESH_WINDOW_MS :: u64 where "NET_FRESH_WINDOW_MS \<equiv> 5000"
abbreviation BROADCAST_IP :: u32 where "BROADCAST_IP \<equiv> 0xFFFFFFFF"

section \<open>Node information and packet bodies\<close>

record node_info =
  ni_mac :: string
  ni_ip :: string
  ni_version :: string
  ni_buildNumber :: u32
  ni_uptimeSec :: u32
  ni_freeHeap :: u32
  ni_rssi :: u8
  ni_rejectWidth :: u16
  ni_rejectInterval :: u16
  ni_lastSeenMs :: u32
  ni_otaSentCount :: u32
  ni_lastOtaSentMs :: u32

definition default_node :: node_info where
  "default_node = \<lparr>ni_mac = [], ni_ip = [], ni_version = [], ni_buildNumber = 0, ni_uptimeSec = 0,
     ni_freeHeap = 0, ni_rssi = 0, ni_rejectWidth = 0, ni_rejectInterval = 0, ni_lastSeenMs = 0,
     ni_otaSentCount = 0, ni_lastOtaSentMs = 0\<rparr>"

record heartbeat_body =
  hb_buildNumber :: u32
  hb_uptimeSec :: u32
  hb_freeHeap :: u32
  hb_rssi :: u8
  hb_rejectWidth :: u16
  hb_rejectInterval :: u16
  hb_version :: string
  hb_ip :: string
  hb_mac :: string

definition put_heartbeat :: "heartbeat_body \<Rightarrow> u8 list" where
  "put_heartbeat b = put_word 4 (hb_buildNumber b) @ put_word 4 (hb_uptimeSec b)
     @ put_word 4 (hb_freeHeap b) @ put_word 1 (hb_rssi b) @ put_word 2 (hb_rejectWidth b)
     @ put_word 2 (hb_rejectInterval b) @ put_chars 16 (hb_version b) @ put_chars 16 (hb_ip b)
     @ put_chars 18 (hb_mac b)"

definition get_heartbeat :: "u8 list \<Rightarrow> heartbeat_body" where
  "get_heartbeat bs =
     \<lparr>hb_buildNumber = get_word 0 4 bs, hb_uptimeSec = get_word 4 4 bs, hb_freeHeap = get_word 8 4 bs,
      hb_rssi = get_word 12 1 bs, hb_rejectWidth = get_word 13 2 bs, hb_rejectInterval = get_word 15 2 bs,
      hb_version = get_chars 17 16 bs, hb_ip = get_chars 33 16 bs, hb_mac = get_chars 49 18 bs\<rparr>"

definition put_log_entry :: "char \<Rightarrow> string \<Rightarrow> string \<Rightarrow> string \<Rightarrow> u8 list" where
  "put_log_entry level tag msg mac =
     [byte_of level] @ put_chars 16 tag @ put_chars 128 msg @ put_chars 18 mac"

section \<open>Packets\<close>

record net_env =
  hmac :: "u8 list \<Rightarrow> u8 list \<Rightarrow> u8 list"
  NET_KEY :: u64
  MASTER_MAC :: string
  IS_MASTER :: bool
  net_own_mac :: string
  netNowMs :: u64
  net_millis :: u32
  net_micros :: u32
  net_epoch :: int
  FIRMWARE_BUILD :: u32
  FIRMWARE_VERSION :: string
  net_local_ip :: string
  net_free_heap :: u32
  net_rssi :: u8
  net_reject_width :: u16
  net_reject_interval :: u16
  wifi_connected :: bool
  node_lock1 :: bool
  node_lock2 :: bool
  log_lock :: bool
  malloc_ok :: bool
  task_ok :: bool

definition netHmac :: "net_env \<Rightarrow> u8 list \<Rightarrow> u8 list" where
  "netHmac e bs = take NET_HMAC_LEN (hmac e (put_word 8 (NET_KEY e)) bs)"

text \<open>The constant-time comparison: the OR of the XOR of the bytes.\<close>

definition netTagEqual :: "u8 list \<Rightarrow> u8 list \<Rightarrow> bool" where
  "netTagEqual a b \<longleftrightarrow> foldl (\<lambda>d i. d OR (a ! i XOR b ! i)) 0 [0..<NET_HMAC_LEN] = 0"

definition net_header :: "u16 \<Rightarrow> u64 \<Rightarrow> u8 list" where
  "net_header typ ts = put_word 2 typ @ put_word 8 ts"

definition netTransmit :: "net_env \<Rightarrow> u16 \<Rightarrow> u8 list \<Rightarrow> u8 list option" where
  "netTransmit e typ body =
     (if length body > LogEntryBody_size then None
      else let buf = net_header typ (netNowMs e) @ body in Some (buf @ netHmac e buf))"

definition isMaster :: "string \<Rightarrow> string \<Rightarrow> bool" where
  "isMaster own cfg \<longleftrightarrow> to_upper cfg \<noteq> [] \<and> to_upper own = to_upper cfg"

definition broadcastHeartbeat :: "net_env \<Rightarrow> u8 list option" where
  "broadcastHeartbeat e = netTransmit e NET_MSG_HEARTBEAT (put_heartbeat
     \<lparr>hb_buildNumber = FIRMWARE_BUILD e, hb_uptimeSec = net_millis e div 1000,
      hb_freeHeap = net_free_heap e, hb_rssi = net_rssi e, hb_rejectWidth = net_reject_width e,
      hb_rejectInterval = net_reject_interval e, hb_version = FIRMWARE_VERSION e,
      hb_ip = net_local_ip e, hb_mac = net_own_mac e\<rparr>)"

definition masterSendOtaToNode :: "net_env \<Rightarrow> string \<Rightarrow> u8 list option" where
  "masterSendOtaToNode e target = netTransmit e NET_MSG_OTA_AVAILABLE (put_chars 18 target)"

definition slaveSendCoinInserted :: "net_env \<Rightarrow> u8 list option" where
  "slaveSendCoinInserted e = netTransmit e NET_MSG_COIN_INSERTED (put_chars 18 (net_own_mac e))"

definition masterBroadcastSessionStart :: "net_env \<Rightarrow> u8 list option" where
  "masterBroadcastSessionStart e = netTransmit e NET_MSG_SESSION_START []"

definition masterBroadcastSessionEnd :: "net_env \<Rightarrow> u8 list option" where
  "masterBroadcastSessionEnd e = netTransmit e NET_MSG_SESSION_END []"

definition masterBroadcastReboot :: "net_env \<Rightarrow> u8 list option" where
  "masterBroadcastReboot e = netTransmit e NET_MSG_REBOOT []"

text \<open>The callback that \<open>setupNetwork\<close> installs on a slave.\<close>

definition forwardLog :: "net_env \<Rightarrow> char \<Rightarrow> string \<Rightarrow> string \<Rightarrow> u8 list option" where
  "forwardLog e level tag msg =
     (if isMaster (net_own_mac e) (MASTER_MAC e) then None
      else netTransmit e NET_MSG_LOG_ENTRY (put_log_entry level tag msg (net_own_mac e)))"

section \<open>Receiving\<close>

datatype net_reject = NoPacket | BadPacket | BadHmac | Stale

definition net_receive :: "net_env \<Rightarrow> u8 list \<Rightarrow> net_reject + (u16 \<times> u64 \<times> u8 list)" where
  "net_receive e pkt =
     (let size = length pkt;
          got = (if size \<le> NET_MAX_PACKET then size else 0);
          signed = take (size - NET_HMAC_LEN) pkt;
          ts = get_word 2 8 pkt :: u64;
          skew = (if netNowMs e > ts then netNowMs e - ts else ts - netNowMs e)
      in if size = 0 then Inl NoPacket
         else if size < NET_HEADER_LEN + NET_HMAC_LEN \<or> got \<noteq> size then Inl BadPacket
         else if \<not> netTagEqual (netHmac e signed) (drop (size - NET_HMAC_LEN) pkt) then Inl BadHmac
         else if skew > NET_FRESH_WINDOW_MS then Inl Stale
         else Inr (get_word 0 2 pkt, ts, drop NET_HEADER_LEN signed))"

section \<open>Handlers\<close>

abbreviation COIN_SEEN_N :: nat where "COIN_SEEN_N \<equiv> 64"

record net_node =
  lastWifiDiag :: u32
  NODE_MAP :: "(string \<times> node_info) list"
  OTA_IN_PROGRESS :: bool
  COIN_SEEN :: "(string \<times> u64) list"
  COIN_SEEN_IDX :: nat
  net_log :: log_buffer
  net_coin :: coin_state

datatype net_action =
    WifiReconnect
  | NetSend u32 "u8 list option"
  | SpawnSlaveOta u32
  | AppendErrorLog string string
  | PostPulse coin_pulse
  | NetSession session_action
  | Restart

definition seen_push :: "string \<times> u64 \<Rightarrow> (string \<times> u64) list \<times> nat \<Rightarrow> (string \<times> u64) list \<times> nat" where
  "seen_push x r = ((fst r)[snd r := x], Suc (snd r) mod COIN_SEEN_N)"

definition coinIsReplay ::
  "string \<Rightarrow> u64 \<Rightarrow> (string \<times> u64) list \<times> nat \<Rightarrow> bool \<times> (string \<times> u64) list \<times> nat" where
  "coinIsReplay mac ts r =
     (if (mac, ts) \<in> set (fst r) then (True, r) else (False, seen_push (mac, ts) r))"

definition wifi_health :: "net_env \<Rightarrow> net_node \<Rightarrow> net_node \<times> net_action list" where
  "wifi_health e s =
     (if net_millis e - lastWifiDiag s > 30000
      then (s\<lparr>lastWifiDiag := net_millis e\<rparr>, if wifi_connected e then [] else [WifiReconnect])
      else (s, []))"

definition node_at :: "net_node \<Rightarrow> string \<Rightarrow> node_info" where
  "node_at s mac = (case map_of (NODE_MAP s) mac of Some n \<Rightarrow> n | None \<Rightarrow> default_node)"

definition record_heartbeat :: "net_env \<Rightarrow> string \<Rightarrow> heartbeat_body \<Rightarrow> net_node \<Rightarrow> net_node" where
  "record_heartbeat e mac b s =
     (if \<not> node_lock1 e then s
      else s\<lparr>NODE_MAP := omap_update mac ((node_at s mac)
               \<lparr>ni_mac := mac, ni_ip := hb_ip b, ni_version := hb_version b,
                ni_buildNumber := hb_buildNumber b, ni_uptimeSec := hb_uptimeSec b,
                ni_freeHeap := hb_freeHeap b, ni_rssi := hb_rssi b,
                ni_rejectWidth := hb_rejectWidth b, ni_rejectInterval := hb_rejectInterval b,
                ni_lastSeenMs := net_millis e\<rparr>) (NODE_MAP s)\<rparr>)"

definition count_ota_sent :: "net_env \<Rightarrow> string \<Rightarrow> net_node \<Rightarrow> net_node" where
  "count_ota_sent e mac s =
     (if \<not> node_lock2 e then s
      else s\<lparr>NODE_MAP := omap_update mac ((node_at s mac)
               \<lparr>ni_otaSentCount := ni_otaSentCount (node_at s mac) + 1,
                ni_lastOtaSentMs := net_millis e\<rparr>) (NODE_MAP s)\<rparr>)"

definition recv_heartbeat :: "net_env \<Rightarrow> u32 \<Rightarrow> u8 list \<Rightarrow> net_node \<Rightarrow> net_node \<times> net_action list" where
  "recv_heartbeat e ip body s =
     (if \<not> IS_MASTER e \<or> length body < HeartbeatBody_size then (s, [])
      else let b = get_heartbeat body; mac = to_upper (hb_mac b)
           in if mac = to_upper (net_own_mac e) then (s, [])
              else let s1 = record_heartbeat e mac b s
                   in if hb_buildNumber b < FIRMWARE_BUILD e
                      then (count_ota_sent e mac s1, [NetSend ip (masterSendOtaToNode e mac)])
                      else (s1, []))"

definition recv_ota_available :: "net_env \<Rightarrow> u32 \<Rightarrow> u8 list \<Rightarrow> net_node \<Rightarrow> net_node \<times> net_action list" where
  "recv_ota_available e ip body s =
     (if IS_MASTER e \<or> length body < OtaCmdBody_size then (s, [])
      else if OTA_IN_PROGRESS s then (s, [])
      else if to_upper (get_chars 0 18 body) \<noteq> to_upper (net_own_mac e) then (s, [])
      else if \<not> malloc_ok e then (s, [])
      else if task_ok e then (s\<lparr>OTA_IN_PROGRESS := True\<rparr>, [SpawnSlaveOta ip])
      else (s\<lparr>OTA_IN_PROGRESS := False\<rparr>, []))"

definition recv_log_entry :: "net_env \<Rightarrow> u8 list \<Rightarrow> net_node \<Rightarrow> net_node \<times> net_action list" where
  "recv_log_entry e body s =
     (if \<not> IS_MASTER e \<or> length body < LogEntryBody_size then (s, [])
      else let level = char_at (hd body); tag = get_chars 1 16 body; msg = get_chars 17 128 body;
               mac = get_chars 145 18 body; text = cstr 160 (''['' @ mac @ ''] '' @ msg)
           in (s\<lparr>net_log := logDirect (log_lock e) (net_millis e) (net_epoch e) level tag text (net_log s)\<rparr>,
               if level = CHR ''W'' \<or> level = CHR ''E'' then [AppendErrorLog tag text] else []))"

definition recv_coin_inserted :: "net_env \<Rightarrow> u64 \<Rightarrow> u8 list \<Rightarrow> net_node \<Rightarrow> net_node \<times> net_action list" where
  "recv_coin_inserted e ts body s =
     (if length body < CoinInsertedBody_size then (s, [])
      else let mac = get_chars 0 18 body in
           case coinIsReplay mac ts (COIN_SEEN s, COIN_SEEN_IDX s) of
             (True, r) \<Rightarrow> (s, [])
           | (False, r) \<Rightarrow>
               (s\<lparr>COIN_SEEN := fst r, COIN_SEEN_IDX := snd r\<rparr>,
                [PostPulse (masterRecvCoinInserted (net_micros e) mac)]))"

definition net_dispatch ::
  "net_env \<Rightarrow> u32 \<Rightarrow> u16 \<Rightarrow> u64 \<Rightarrow> u8 list \<Rightarrow> net_node \<Rightarrow> net_node \<times> net_action list" where
  "net_dispatch e ip typ ts body s =
     (if typ = NET_MSG_HEARTBEAT then recv_heartbeat e ip body s
      else if typ = NET_MSG_OTA_AVAILABLE then recv_ota_available e ip body s
      else if typ = NET_MSG_LOG_ENTRY then recv_log_entry e body s
      else if IS_MASTER e then
        (if typ = NET_MSG_COIN_INSERTED then recv_coin_inserted e ts body s else (s, []))
      else if typ = NET_MSG_SESSION_START then
        (let (c, a) = slaveRecvCoinInsertStart (net_coin s) in (s\<lparr>net_coin := c\<rparr>, map NetSession a))
      else if typ = NET_MSG_SESSION_END then
        (let (c, a) = slaveRecvCoinInsertEnd (net_coin s) in (s\<lparr>net_coin := c\<rparr>, map NetSession a))
      else if typ = NET_MSG_REBOOT then (s, [Restart])
      else (s, []))"

definition networkLoop :: "net_env \<Rightarrow> u32 \<Rightarrow> u8 list \<Rightarrow> net_node \<Rightarrow> net_node \<times> net_action list" where
  "networkLoop e ip pkt s =
     (let (s1, a) = wifi_health e s in
      case net_receive e pkt of
        Inl r \<Rightarrow> (s1, a)
      | Inr (typ, ts, body) \<Rightarrow>
          (let (s2, b) = net_dispatch e ip typ ts body s1 in (s2, a @ b)))"

definition getKnownNodes :: "bool \<Rightarrow> net_node \<Rightarrow> node_info list" where
  "getKnownNodes locked s = (if locked then map snd (NODE_MAP s) else [])"

section \<open>The packet format\<close>

definition sound_hmac :: "net_env \<Rightarrow> bool" where
  "sound_hmac e \<longleftrightarrow> (\<forall>k d. length (hmac e k d) = 32)"

definition fresh :: "u64 \<Rightarrow> u64 \<Rightarrow> bool" where
  "fresh now ts \<longleftrightarrow> \<bar>uint now - uint ts\<bar> \<le> 5000"

lemma length_netHmac: "sound_hmac e \<Longrightarrow> length (netHmac e bs) = NET_HMAC_LEN"
  by (simp add: netHmac_def sound_hmac_def)

lemma length_header [simp]: "length (net_header typ ts) = NET_HEADER_LEN"
  by (simp add: net_header_def)

lemma netTagEqual_iff:
  "length a = NET_HMAC_LEN \<Longrightarrow> length b = NET_HMAC_LEN \<Longrightarrow> netTagEqual a b \<longleftrightarrow> a = b"
  by (auto simp: netTagEqual_def foldl_or_eq_0 list_eq_iff_nth_eq xor_eq_0_iff_eq)

lemma skew_fresh:
  "(if now > ts then now - ts else ts - now) \<le> NET_FRESH_WINDOW_MS \<longleftrightarrow> fresh now ts"
proof (cases "now > ts")
  case True
  then have "uint (now - ts) = uint now - uint ts"
    by (intro uint_minus_simple_alt [THEN iffD1]) simp
  with True show ?thesis by (simp add: fresh_def word_le_def word_less_def)
next
  case False
  then have "uint (ts - now) = uint ts - uint now"
    by (intro uint_minus_simple_alt [THEN iffD1]) simp
  with False show ?thesis by (simp add: fresh_def word_le_def word_less_def)
qed

lemma header_fields:
  "get_word 0 2 (net_header typ ts @ rest) = typ"
  "get_word 2 8 (net_header typ ts @ rest) = ts"
proof -
  show "get_word 0 2 (net_header typ ts @ rest) = typ"
    using get_word_at [of "[]" 0 2 "typ" "put_word 8 ts @ rest"] by (simp add: net_header_def)
  show "get_word 2 8 (net_header typ ts @ rest) = ts"
    using get_word_at [of "put_word 2 typ" 2 8 ts rest] by (simp add: net_header_def)
qed

lemma header_of_bytes:
  assumes "NET_HEADER_LEN \<le> length bs"
  shows "bs = net_header (get_word 0 2 bs) (get_word 2 8 bs) @ drop NET_HEADER_LEN bs"
proof -
  have 2: "put_word 2 (get_word 0 2 bs :: u16) = take 2 bs"
    using assms by (simp add: get_word_def put_get_word)
  have 8: "put_word 8 (get_word 2 8 bs :: u64) = take 8 (drop 2 bs)"
    using assms by (simp add: get_word_def put_get_word)
  have "bs = take 2 bs @ take 8 (drop 2 bs) @ drop 8 (drop 2 bs)"
    by (simp only: append_take_drop_id)
  then show ?thesis by (simp add: net_header_def 2 8)
qed

lemma receive_iff:
  assumes h: "sound_hmac e"
  shows "net_receive e pkt = Inr (t, ts, body) \<longleftrightarrow>
     pkt = net_header t ts @ body @ netHmac e (net_header t ts @ body)
     \<and> length body \<le> LogEntryBody_size \<and> fresh (netNowMs e) ts" (is "?L \<longleftrightarrow> ?R")
proof
  assume L: ?L
  let ?s = "take (length pkt - NET_HMAC_LEN) pkt" and ?tag = "drop (length pkt - NET_HMAC_LEN) pkt"
  have c: "length pkt \<le> NET_MAX_PACKET" "NET_HEADER_LEN + NET_HMAC_LEN \<le> length pkt"
      "netTagEqual (netHmac e ?s) ?tag" "t = get_word 0 2 pkt" "ts = get_word 2 8 pkt"
      "body = drop NET_HEADER_LEN ?s"
    using L unfolding net_receive_def Let_def by (simp_all split: if_splits)
  have fr: "fresh (netNowMs e) ts"
    using L unfolding skew_fresh [symmetric] net_receive_def Let_def by (simp split: if_splits)
  have s: "?s = net_header (get_word 0 2 ?s) (get_word 2 8 ?s) @ drop NET_HEADER_LEN ?s"
    using c(2) by (intro header_of_bytes) simp
  have "get_word 0 2 ?s = t" "get_word 2 8 ?s = ts"
    using c(2) unfolding c(4,5) by (simp_all add: get_word_def min_absorb1 take_drop)
  with s c(6) have "?s = net_header t ts @ body" by (simp only:)
  moreover have "netHmac e ?s = ?tag"
    using c(2,3) by (simp add: netTagEqual_iff length_netHmac [OF h])
  moreover have "pkt = ?s @ ?tag" by (simp only: append_take_drop_id)
  moreover have "length body \<le> LogEntryBody_size" using c(1,6) by simp
  ultimately show ?R using fr by simp
next
  assume R: ?R
  let ?h = "net_header t ts @ body"
  from R have pkt: "pkt = ?h @ netHmac e ?h" by simp
  from pkt have len: "length pkt = NET_HEADER_LEN + length body + NET_HMAC_LEN"
    by (simp add: length_netHmac [OF h])
  then have s: "take (length pkt - NET_HMAC_LEN) pkt = ?h" "drop (length pkt - NET_HMAC_LEN) pkt = netHmac e ?h"
    using pkt by simp_all
  have f: "get_word 0 2 pkt = t" "get_word 2 8 pkt = ts"
    using pkt by (simp_all add: header_fields)
  have "\<not> (if netNowMs e > ts then netNowMs e - ts else ts - netNowMs e) > NET_FRESH_WINDOW_MS"
    using R by (simp only: not_less skew_fresh)
  moreover have "netTagEqual (netHmac e ?h) (netHmac e ?h)"
    by (simp add: netTagEqual_iff length_netHmac [OF h])
  moreover have "length pkt \<noteq> 0" "\<not> length pkt < NET_HEADER_LEN + NET_HMAC_LEN" "length pkt \<le> NET_MAX_PACKET"
    using len R by simp_all
  ultimately show ?L
    unfolding net_receive_def Let_def s f by simp
qed

lemma transmit_received:
  assumes "sound_hmac e" and "netTransmit e' t body = Some pkt"
    and "hmac e = hmac e'" and "NET_KEY e = NET_KEY e'" and "fresh (netNowMs e) (netNowMs e')"
  shows "net_receive e pkt = Inr (t, netNowMs e', body)"
proof -
  have "netHmac e = netHmac e'" using assms(3,4) by (simp add: netHmac_def fun_eq_iff)
  with assms(2) have "pkt = net_header t (netNowMs e') @ body @ netHmac e (net_header t (netNowMs e') @ body)"
    "length body \<le> LogEntryBody_size"
    by (auto simp: netTransmit_def Let_def split: if_splits)
  with assms(1,5) show ?thesis by (simp add: receive_iff)
qed

section \<open>Lemmas on one iteration\<close>

lemma loop_accepted:
  "net_receive e pkt = Inr (t, ts, body) \<Longrightarrow>
     networkLoop e ip pkt s =
       (fst (net_dispatch e ip t ts body (fst (wifi_health e s))),
        snd (wifi_health e s) @ snd (net_dispatch e ip t ts body (fst (wifi_health e s))))"
  by (simp add: networkLoop_def split: prod.splits)

lemma loop_rejected: "net_receive e pkt = Inl r \<Longrightarrow> networkLoop e ip pkt s = wifi_health e s"
  by (simp add: networkLoop_def split: prod.splits)

lemma wifi_health_fields [simp]:
  "NODE_MAP (fst (wifi_health e s)) = NODE_MAP s"
  "OTA_IN_PROGRESS (fst (wifi_health e s)) = OTA_IN_PROGRESS s"
  "COIN_SEEN (fst (wifi_health e s)) = COIN_SEEN s"
  "COIN_SEEN_IDX (fst (wifi_health e s)) = COIN_SEEN_IDX s"
  "net_coin (fst (wifi_health e s)) = net_coin s"
  "net_log (fst (wifi_health e s)) = net_log s"
  by (simp_all add: wifi_health_def)

lemma wifi_health_action: "a \<in> set (snd (wifi_health e s)) \<Longrightarrow> a = WifiReconnect"
  by (auto simp: wifi_health_def split: if_splits)

lemma length_put_heartbeat [simp]: "length (put_heartbeat b) = HeartbeatBody_size"
  by (simp add: put_heartbeat_def)

lemma heartbeat_roundtrip:
  "get_heartbeat (put_heartbeat b) =
     b\<lparr>hb_version := cstr 16 (hb_version b), hb_ip := cstr 16 (hb_ip b), hb_mac := cstr 18 (hb_mac b)\<rparr>"
  by (cases b) (simp add: put_heartbeat_def get_heartbeat_def get_fields)

lemma node_at_update:
  "omap_ok (NODE_MAP s) \<Longrightarrow>
     node_at (s\<lparr>NODE_MAP := omap_update mac n (NODE_MAP s)\<rparr>) m = (if m = mac then n else node_at s m)"
  by (simp add: node_at_def map_of_omap_update)

lemma node_at_put [simp]:
  "omap_ok m \<Longrightarrow> node_at (s\<lparr>NODE_MAP := omap_update mac n m\<rparr>) mac = n"
  by (simp add: node_at_def map_of_omap_update)

section \<open>Replays\<close>

definition seen_ok :: "(string \<times> u64) list \<times> nat \<Rightarrow> bool" where
  "seen_ok r \<longleftrightarrow> ring_ok COIN_SEEN_N (fst r) (snd r) COIN_SEEN_N"

definition seen_window :: "(string \<times> u64) list \<times> nat \<Rightarrow> (string \<times> u64) list" where
  "seen_window r = ring_window (fst r) (snd r) COIN_SEEN_N"

interpretation seen: recent_history COIN_SEEN_N seen_push seen_window seen_ok
proof unfold_locales
  fix r x
  assume ok: "seen_ok r"
  then have r: "ring_ok COIN_SEEN_N (fst r) (snd r) COIN_SEEN_N" by (simp add: seen_ok_def)
  show "seen_ok (seen_push x r)"
    using ring_ok_push [OF r, of x] by (simp add: seen_ok_def seen_push_def)
  show "seen_window (seen_push x r) = last_n COIN_SEEN_N (seen_window r @ [x])"
    using ring_window_push [OF r, of x] by (simp add: seen_window_def seen_push_def)
  show "length (seen_window r) \<le> COIN_SEEN_N" by (simp add: seen_window_def)
qed

lemma set_seen_window: "seen_ok r \<Longrightarrow> set (seen_window r) = set (fst r)"
proof -
  assume ok: "seen_ok r"
  have "seen_window r = rotate (snd r) (fst r)"
  proof (rule nth_equalityI)
    fix i assume "i < length (seen_window r)"
    then show "seen_window r ! i = rotate (snd r) (fst r) ! i"
      using ok by (simp add: seen_window_def ring_window_def seen_ok_def ring_ok_def nth_rotate)
  qed (use ok in \<open>simp add: seen_window_def seen_ok_def ring_ok_def\<close>)
  then show ?thesis by simp
qed

definition seen_ring :: "net_node \<Rightarrow> (string \<times> u64) list \<times> nat" where
  "seen_ring s = (COIN_SEEN s, COIN_SEEN_IDX s)"

lemma seen_ring_wifi [simp]: "seen_ring (fst (wifi_health e s)) = seen_ring s"
  by (simp add: seen_ring_def)

text \<open>What the handlers leave alone, by role.\<close>

lemma recv_slave [simp]:
  "\<not> IS_MASTER e \<Longrightarrow> recv_heartbeat e ip b s = (s, [])"
  "\<not> IS_MASTER e \<Longrightarrow> recv_log_entry e b s = (s, [])"
  by (simp_all add: recv_heartbeat_def recv_log_entry_def)

lemma recv_master [simp]: "IS_MASTER e \<Longrightarrow> recv_ota_available e ip b s = (s, [])"
  by (simp add: recv_ota_available_def)

lemma recv_ota_frame:
  "NODE_MAP (fst (recv_ota_available e ip b s)) = NODE_MAP s"
  "set (snd (recv_ota_available e ip b s)) \<subseteq> {SpawnSlaveOta ip}"
  by (simp_all add: recv_ota_available_def)

lemma recv_master_frame:
  "net_coin (fst (recv_heartbeat e ip b s)) = net_coin s"
  "set (snd (recv_heartbeat e ip b s)) \<subseteq> range (\<lambda>p. NetSend ip p)"
  "net_coin (fst (recv_log_entry e b s)) = net_coin s"
  "set (snd (recv_log_entry e b s)) \<subseteq> {a. \<exists>t m. a = AppendErrorLog t m}"
  "net_coin (fst (recv_coin_inserted e ts b s)) = net_coin s"
  "set (snd (recv_coin_inserted e ts b s)) \<subseteq> range PostPulse"
  by (auto simp: recv_heartbeat_def record_heartbeat_def count_ota_sent_def recv_log_entry_def
      recv_coin_inserted_def coinIsReplay_def Let_def split: prod.splits)

lemma dispatch_master:
  "IS_MASTER e \<Longrightarrow> net_coin (fst (net_dispatch e ip t ts b s)) = net_coin s
     \<and> Restart \<notin> set (snd (net_dispatch e ip t ts b s))
     \<and> SpawnSlaveOta m \<notin> set (snd (net_dispatch e ip t ts b s))"
  using recv_master_frame(1,2) [of e ip b s] recv_master_frame(3,4) [of e b s]
    recv_master_frame(5,6) [of e ts b s]
  by (auto simp: net_dispatch_def)

lemma dispatch_slave:
  "\<not> IS_MASTER e \<Longrightarrow> NODE_MAP (fst (net_dispatch e ip t ts b s)) = NODE_MAP s
     \<and> PostPulse p \<notin> set (snd (net_dispatch e ip t ts b s))
     \<and> (SpawnSlaveOta m \<in> set (snd (net_dispatch e ip t ts b s))
          \<longrightarrow> SpawnSlaveOta m \<in> set (snd (recv_ota_available e ip b s))
            \<and> fst (net_dispatch e ip t ts b s) = fst (recv_ota_available e ip b s))"
  using recv_ota_frame [of e ip b s]
  by (auto simp: net_dispatch_def slaveRecvCoinInsertStart_def slaveRecvCoinInsertEnd_def)

text \<open>A coin is posted only by an accepted packet whose sender and time were not in the ring.\<close>

lemma dispatch_seen:
  "seen_ring (fst (net_dispatch e ip t ts body s)) = seen_ring s
       \<and> (\<forall>p. PostPulse p \<notin> set (snd (net_dispatch e ip t ts body s)))
   \<or> seen_ring (fst (net_dispatch e ip t ts body s)) = seen_push (get_chars 0 18 body, ts) (seen_ring s)
       \<and> (get_chars 0 18 body, ts) \<notin> set (COIN_SEEN s) \<and> IS_MASTER e"
  by (auto simp: net_dispatch_def recv_heartbeat_def record_heartbeat_def count_ota_sent_def
      recv_ota_available_def recv_log_entry_def recv_coin_inserted_def coinIsReplay_def seen_ring_def
      slaveRecvCoinInsertStart_def slaveRecvCoinInsertEnd_def Let_def split: prod.splits)

fun net_run :: "(net_env \<times> u32 \<times> u8 list) list \<Rightarrow> net_node \<Rightarrow> net_node" where
  "net_run [] s = s"
| "net_run ((e, ip, pkt) # steps) s = net_run steps (fst (networkLoop e ip pkt s))"

lemma loop_seen:
  "\<exists>xs. length xs \<le> 1 \<and> seen_ring (fst (networkLoop e ip pkt s)) = fold seen_push xs (seen_ring s)"
proof (cases "net_receive e pkt")
  case (Inl r)
  then show ?thesis by (intro exI [of _ "[]"]) (simp add: loop_rejected)
next
  case (Inr a)
  then obtain t ts b where "net_receive e pkt = Inr (t, ts, b)" by (metis prod_cases3)
  then show ?thesis
    using dispatch_seen [of e ip t ts b "fst (wifi_health e s)"]
    by (elim disjE conjE)
      (auto simp: loop_accepted intro: exI [of _ "[]"] exI [of _ "[(get_chars 0 18 b, ts)]"])
qed

lemma run_seen:
  "\<exists>xs. length xs \<le> length steps \<and> seen_ring (net_run steps s) = fold seen_push xs (seen_ring s)"
proof (induction steps s rule: net_run.induct)
  case (2 e ip pkt steps s)
  then obtain xs where xs: "length xs \<le> length steps"
    "seen_ring (net_run steps (fst (networkLoop e ip pkt s))) = fold seen_push xs (seen_ring (fst (networkLoop e ip pkt s)))"
    by blast
  obtain ys where ys: "length ys \<le> 1"
    "seen_ring (fst (networkLoop e ip pkt s)) = fold seen_push ys (seen_ring s)"
    using loop_seen by blast
  show ?case
    by (rule exI [of _ "ys @ xs"]) (use xs ys in simp)
qed simp

lemma loop_post_fresh:
  assumes "PostPulse p \<in> set (snd (networkLoop e ip pkt s))"
  obtains t ts b where "net_receive e pkt = Inr (t, ts, b)" "IS_MASTER e"
    "(get_chars 0 18 b, ts) \<notin> set (COIN_SEEN s)"
    "seen_ring (fst (networkLoop e ip pkt s)) = seen_push (get_chars 0 18 b, ts) (seen_ring s)"
proof (cases "net_receive e pkt")
  case (Inl r)
  with assms show ?thesis by (auto simp: loop_rejected dest: wifi_health_action)
next
  case (Inr a)
  then obtain t ts b where r: "net_receive e pkt = Inr (t, ts, b)" by (metis prod_cases3)
  with assms
  have "PostPulse p \<in> set (snd (net_dispatch e ip t ts b (fst (wifi_health e s))))"
    by (auto simp: loop_accepted dest: wifi_health_action)
  with dispatch_seen [of e ip t ts b "fst (wifi_health e s)"] r that show ?thesis
    by (auto simp: loop_accepted)
qed

lemma receive_same:
  "net_receive e pkt = Inr (t, ts, b) \<Longrightarrow> net_receive e' pkt = Inr (t', ts', b') \<Longrightarrow>
     t' = t \<and> ts' = ts \<and> b' = b"
  by (simp add: net_receive_def Let_def split: if_splits)

lemma receive_body:
  assumes "net_receive e pkt = Inr (t, ts, b)" and "18 \<le> length b"
  shows "get_chars 0 18 b = get_chars 10 18 pkt"
proof -
  from assms(1) have b: "b = drop 10 (take (length pkt - 16) pkt)"
    by (simp add: net_receive_def Let_def split: if_splits)
  with assms(2) have "17 \<le> length pkt - 16 - 10" by simp
  then have "take 17 b = take 17 (drop 10 pkt)"
    unfolding b drop_take by (simp add: min_absorb1)
  then show ?thesis by (simp add: get_chars_def)
qed

lemma loop_coin_posted:
  assumes "net_receive e pkt = Inr (NET_MSG_COIN_INSERTED, ts, put_chars 18 mac)" and "IS_MASTER e"
    and "(cstr 18 mac, ts) \<notin> set (COIN_SEEN s)"
  shows "PostPulse (masterRecvCoinInserted (net_micros e) (cstr 18 mac)) \<in> set (snd (networkLoop e ip pkt s))"
proof -
  have "get_chars 0 18 (put_chars 18 mac) = cstr 18 mac" by (simp add: get_fields)
  then have "snd (recv_coin_inserted e ts (put_chars 18 mac) (fst (wifi_health e s)))
      = [PostPulse (masterRecvCoinInserted (net_micros e) (cstr 18 mac))]"
    using assms(3) by (simp add: recv_coin_inserted_def coinIsReplay_def Let_def)
  then show ?thesis using assms(2) by (simp add: loop_accepted [OF assms(1)] net_dispatch_def)
qed

section \<open>A concrete pair of nodes\<close>

text \<open>Witness environments; the tag function stands for HMAC and only has its length.\<close>

definition demo_hmac :: "u8 list \<Rightarrow> u8 list \<Rightarrow> u8 list" where
  "demo_hmac k d = replicate 32 (word_of_nat (length d) + foldl (+) 0 d + foldl (+) 0 k)"

definition demo_net :: "bool \<Rightarrow> string \<Rightarrow> u32 \<Rightarrow> u64 \<Rightarrow> net_env" where
  "demo_net master mac build now = \<lparr>hmac = demo_hmac, NET_KEY = 77, MASTER_MAC = ''AA'', IS_MASTER = master,
     net_own_mac = mac, netNowMs = now, net_millis = 20000, net_micros = 20000000, net_epoch = 1700000000,
     FIRMWARE_BUILD = build, FIRMWARE_VERSION = ''v1'', net_local_ip = ''10.0.0.2'', net_free_heap = 90000,
     net_rssi = 200, net_reject_width = 0, net_reject_interval = 0, wifi_connected = True,
     node_lock1 = True, node_lock2 = True, log_lock = True, malloc_ok = True, task_ok = True\<rparr>"

definition demo_node :: net_node where
  "demo_node = \<lparr>lastWifiDiag = 0, NODE_MAP = [], OTA_IN_PROGRESS = False,
     COIN_SEEN = replicate COIN_SEEN_N ([], 0), COIN_SEEN_IDX = 0, net_log = empty_log,
     net_coin = coin init_system\<rparr>"

lemma sound_demo [simp]: "sound_hmac (demo_net m a b n)"
  by (simp add: sound_hmac_def demo_net_def demo_hmac_def)

lemma seen_ok_demo [simp]: "seen_ok (seen_ring demo_node)"
  by (simp add: seen_ok_def seen_ring_def demo_node_def ring_ok_def)

definition demo_coin_packet :: "u8 list" where
  "demo_coin_packet = the (slaveSendCoinInserted (demo_net False ''BB'' 1 1000))"

lemma demo_coin_sent: "netTransmit (demo_net False ''BB'' 1 1000) NET_MSG_COIN_INSERTED (put_chars 18 ''BB'')
    = Some demo_coin_packet"
  by (simp add: demo_coin_packet_def slaveSendCoinInserted_def netTransmit_def Let_def) (simp add: demo_net_def)

lemma demo_coin_received:
  assumes "\<bar>uint n - 1000\<bar> \<le> 5000"
  shows "net_receive (demo_net True ''AA'' 1 n) demo_coin_packet
           = Inr (NET_MSG_COIN_INSERTED, 1000, put_chars 18 ''BB'')"
proof -
  have f: "netNowMs (demo_net False ''BB'' 1 1000) = 1000" by (simp add: demo_net_def)
  show ?thesis
    using transmit_received [OF sound_demo demo_coin_sent, of True "''AA''" 1 n] assms unfolding f
    by (simp add: fresh_def) (simp add: demo_net_def)
qed

lemma demo_coin_posted:
  "snd (networkLoop (demo_net True ''AA'' 1 1400) 9 demo_coin_packet demo_node)
     = [PostPulse (masterRecvCoinInserted 20000000 ''BB'')]"
proof -
  have "get_chars 0 18 (put_chars 18 ''BB'') = ''BB''" by (simp add: get_fields cstr_def)
  moreover have "(''BB'', 1000) \<notin> set (COIN_SEEN demo_node)" by (simp add: demo_node_def)
  ultimately show ?thesis
    by (simp add: loop_accepted [OF demo_coin_received] net_dispatch_def recv_coin_inserted_def
        coinIsReplay_def) (simp add: wifi_health_def demo_net_def demo_node_def Let_def)
qed

section \<open>Properties\<close>

text \<open>C13: Wire round trip. What a node transmits is received by every node with the same key as the
  same type, time and body, exactly while the receiver's clock is within five seconds of the
  sender's; later (or earlier) it is refused as stale.\<close>
theorem transmitted_packet_received:
  assumes "sound_hmac e" and "hmac e = hmac e'" and "NET_KEY e = NET_KEY e'"
    and "netTransmit e' t body = Some pkt"
  shows "net_receive e pkt =
     (if \<bar>uint (netNowMs e) - uint (netNowMs e')\<bar> \<le> 5000 then Inr (t, netNowMs e', body) else Inl Stale)"
proof (cases "fresh (netNowMs e) (netNowMs e')")
  case True
  with assms show ?thesis by (simp add: transmit_received) (simp add: fresh_def)
next
  case False
  let ?e = "e\<lparr>netNowMs := netNowMs e'\<rparr>"
  have "net_receive ?e pkt = Inr (t, netNowMs e', body)"
    by (rule transmit_received) (use assms in \<open>simp_all add: sound_hmac_def fresh_def\<close>)
  then have "net_receive e pkt \<noteq> Inl NoPacket \<and> net_receive e pkt \<noteq> Inl BadPacket
      \<and> net_receive e pkt \<noteq> Inl BadHmac \<and> get_word 2 8 pkt = netNowMs e'"
    by (auto simp: net_receive_def netHmac_def Let_def split: if_splits)
  moreover have "net_receive e pkt \<noteq> Inr (t', get_word 2 8 pkt, b')" for t' b'
    using False calculation receive_iff [OF assms(1)] by auto
  moreover have "net_receive e pkt \<in> {Inl NoPacket, Inl BadPacket, Inl BadHmac, Inl Stale}
      \<or> (\<exists>t' b'. net_receive e pkt = Inr (t', get_word 2 8 pkt, b'))"
    by (auto simp: net_receive_def Let_def)
  ultimately show ?thesis using False by (auto simp: fresh_def)
qed

theorem transmitted_packet_received_witness:
  "\<exists>pkt. netTransmit (demo_net False ''BB'' 1 1000) NET_MSG_COIN_INSERTED (put_chars 18 ''BB'') = Some pkt
     \<and> net_receive (demo_net True ''AA'' 1 5900) pkt = Inr (NET_MSG_COIN_INSERTED, 1000, put_chars 18 ''BB'')"
proof -
  let ?e = "demo_net True ''AA'' 1 5900" and ?e' = "demo_net False ''BB'' 1 1000"
  obtain pkt where p: "netTransmit ?e' NET_MSG_COIN_INSERTED (put_chars 18 ''BB'') = Some pkt"
    by (simp add: netTransmit_def Let_def)
  have "hmac ?e = hmac ?e'" "NET_KEY ?e = NET_KEY ?e'" "netNowMs ?e = 5900" "netNowMs ?e' = 1000"
    by (simp_all add: demo_net_def)
  with transmitted_packet_received [OF sound_demo _ _ p, of True "''AA''" 1 5900] p show ?thesis by simp
qed

text \<open>C14: Authentic traffic only. A packet that changes a node or makes it act, beyond its WiFi
  check, is byte for byte what a holder of the key would have transmitted with that type, body
  and timestamp, and the timestamp is at most five seconds off the receiver's clock.\<close>
theorem acts_only_on_authentic:
  assumes "sound_hmac e" and "networkLoop e ip pkt s \<noteq> wifi_health e s"
  shows "\<exists>t ts body. netTransmit (e\<lparr>netNowMs := ts\<rparr>) t body = Some pkt
     \<and> \<bar>uint (netNowMs e) - uint ts\<bar> \<le> 5000 \<and> net_receive e pkt = Inr (t, ts, body)"
proof -
  from assms(2) have "\<not> (\<exists>r. net_receive e pkt = Inl r)" by (auto simp: loop_rejected)
  then obtain t ts body where r: "net_receive e pkt = Inr (t, ts, body)"
    by (metis prod_cases3 sum.exhaust)
  have "netHmac (e\<lparr>netNowMs := ts\<rparr>) = netHmac e" by (simp add: netHmac_def fun_eq_iff)
  then have "netTransmit (e\<lparr>netNowMs := ts\<rparr>) t body = Some pkt"
    using r by (simp add: receive_iff [OF assms(1)] netTransmit_def Let_def)
  moreover have "\<bar>uint (netNowMs e) - uint ts\<bar> \<le> 5000"
    using r by (simp add: receive_iff [OF assms(1)] fresh_def)
  ultimately show ?thesis using r by blast
qed

theorem acts_only_on_authentic_witness:
  "\<exists>t ts body. netTransmit ((demo_net True ''AA'' 1 1400)\<lparr>netNowMs := ts\<rparr>) t body = Some demo_coin_packet"
proof -
  let ?e = "demo_net True ''AA'' 1 1400"
  have "PostPulse (masterRecvCoinInserted 20000000 ''BB'') \<notin> set (snd (wifi_health ?e demo_node))"
    by (auto dest: wifi_health_action)
  then have "networkLoop ?e 9 demo_coin_packet demo_node \<noteq> wifi_health ?e demo_node"
    using demo_coin_posted by auto
  from acts_only_on_authentic [OF sound_demo this] show ?thesis by blast
qed

text \<open>C15: No coin is paid twice by a repeated packet. Once the master has credited a packet of a
  slave, the same packet received again, at any time, from any address, and after any other
  traffic of fewer than 64 datagrams, is not credited.\<close>
theorem replay_not_credited:
  assumes "seen_ok (seen_ring s)" and "PostPulse p \<in> set (snd (networkLoop e ip pkt s))"
    and "length steps < COIN_SEEN_N"
  shows "PostPulse q \<notin> set (snd (networkLoop e' ip' pkt (net_run steps (fst (networkLoop e ip pkt s)))))"
proof
  let ?s1 = "fst (networkLoop e ip pkt s)"
  let ?s2 = "net_run steps ?s1"
  assume "PostPulse q \<in> set (snd (networkLoop e' ip' pkt ?s2))"
  then obtain t' ts' b' where r': "net_receive e' pkt = Inr (t', ts', b')"
    "(get_chars 0 18 b', ts') \<notin> set (COIN_SEEN ?s2)" by (rule loop_post_fresh)
  from assms(2) obtain t ts b where r: "net_receive e pkt = Inr (t, ts, b)"
    "seen_ring ?s1 = seen_push (get_chars 0 18 b, ts) (seen_ring s)" by (rule loop_post_fresh)
  obtain xs where xs: "length xs \<le> length steps" "seen_ring ?s2 = fold seen_push xs (seen_ring ?s1)"
    using run_seen by blast
  have "(get_chars 0 18 b, ts) \<in> set (seen_window (seen_ring ?s2))"
    unfolding xs(2) r(2) using assms xs(1) by (intro seen.recent_kept) simp_all
  moreover have "seen_ok (seen_ring ?s2)"
    unfolding xs(2) r(2) using assms(1) by (intro seen.ok_fold seen.ok_push)
  ultimately have "(get_chars 0 18 b, ts) \<in> set (COIN_SEEN ?s2)"
    by (simp add: set_seen_window) (simp add: seen_ring_def)
  with r'(2) receive_same [OF r(1) r'(1)] show False by simp
qed

theorem replay_not_credited_witness:
  "(\<forall>q. PostPulse q \<notin> set (snd (networkLoop (demo_net True ''AA'' 1 1500) 9 demo_coin_packet
      (fst (networkLoop (demo_net True ''AA'' 1 1400) 9 demo_coin_packet demo_node)))))
   \<and> net_receive (demo_net True ''AA'' 1 1500) demo_coin_packet = Inr (NET_MSG_COIN_INSERTED, 1000, put_chars 18 ''BB'')"
proof -
  have "PostPulse (masterRecvCoinInserted 20000000 ''BB'')
      \<in> set (snd (networkLoop (demo_net True ''AA'' 1 1400) 9 demo_coin_packet demo_node))"
    by (simp add: demo_coin_posted)
  from replay_not_credited [OF seen_ok_demo this, of "[]"] demo_coin_received [of 1500]
  show ?thesis by simp
qed

text \<open>Roles. A slave never credits a coin and keeps no node map; a master never restarts on a
  message, never flashes itself and never opens its own window on one. An update worker is
  started only when none is running, for this node's own address, and then one is running.\<close>
theorem roles_respected:
  "(\<not> IS_MASTER e \<longrightarrow> (\<forall>p. PostPulse p \<notin> set (snd (networkLoop e ip pkt s)))
       \<and> NODE_MAP (fst (networkLoop e ip pkt s)) = NODE_MAP s)
   \<and> (IS_MASTER e \<longrightarrow> Restart \<notin> set (snd (networkLoop e ip pkt s))
       \<and> net_coin (fst (networkLoop e ip pkt s)) = net_coin s)
   \<and> (\<forall>m. SpawnSlaveOta m \<in> set (snd (networkLoop e ip pkt s)) \<longrightarrow>
        \<not> IS_MASTER e \<and> \<not> OTA_IN_PROGRESS s \<and> OTA_IN_PROGRESS (fst (networkLoop e ip pkt s)) \<and> m = ip
        \<and> to_upper (get_chars 10 18 pkt) = to_upper (net_own_mac e))"
proof (cases "net_receive e pkt")
  case (Inl r)
  then show ?thesis by (auto simp: loop_rejected dest: wifi_health_action)
next
  case (Inr a)
  then obtain t ts b where r: "net_receive e pkt = Inr (t, ts, b)" by (metis prod_cases3)
  let ?z = "fst (wifi_health e s)"
  have act: "x \<in> set (snd (networkLoop e ip pkt s)) \<longleftrightarrow>
      x \<in> set (snd (wifi_health e s)) \<or> x \<in> set (snd (net_dispatch e ip t ts b ?z))" for x
    by (simp add: loop_accepted [OF r])
  have st: "fst (networkLoop e ip pkt s) = fst (net_dispatch e ip t ts b ?z)"
    by (simp add: loop_accepted [OF r])
  note w = wifi_health_action [of _ e s]
  show ?thesis
  proof (cases "IS_MASTER e")
    case True
    note m = dispatch_master [OF True, of ip t ts b ?z]
    from m have "net_coin (fst (networkLoop e ip pkt s)) = net_coin s" unfolding st by simp
    moreover have "Restart \<notin> set (snd (networkLoop e ip pkt s))" unfolding act using m w by blast
    moreover have "SpawnSlaveOta x \<notin> set (snd (networkLoop e ip pkt s))" for x
      unfolding act using m w by blast
    ultimately show ?thesis using True by blast
  next
    case False
    note m = dispatch_slave [OF False, of ip t ts b ?z]
    have "PostPulse p \<notin> set (snd (networkLoop e ip pkt s))" for p unfolding act using m w by blast
    moreover have "NODE_MAP (fst (networkLoop e ip pkt s)) = NODE_MAP s" unfolding st using m by simp
    moreover have "\<not> OTA_IN_PROGRESS s \<and> OTA_IN_PROGRESS (fst (networkLoop e ip pkt s)) \<and> x = ip
        \<and> to_upper (get_chars 10 18 pkt) = to_upper (net_own_mac e)"
      if x: "SpawnSlaveOta x \<in> set (snd (networkLoop e ip pkt s))" for x
    proof -
      from x w m have "SpawnSlaveOta x \<in> set (snd (recv_ota_available e ip b ?z))"
        and f: "fst (net_dispatch e ip t ts b ?z) = fst (recv_ota_available e ip b ?z)"
        unfolding act by blast+
      then show ?thesis
        using receive_body [OF r] unfolding st f by (simp add: recv_ota_available_def split: if_splits)
    qed
    ultimately show ?thesis using False by blast
  qed
qed

theorem roles_respected_witness:
  "PostPulse (masterRecvCoinInserted 20000000 ''BB'')
      \<in> set (snd (networkLoop (demo_net True ''AA'' 1 1400) 9 demo_coin_packet demo_node))
   \<and> Restart \<notin> set (snd (networkLoop (demo_net True ''AA'' 1 1400) 9 demo_coin_packet demo_node))
   \<and> PostPulse (masterRecvCoinInserted 20000000 ''BB'')
      \<notin> set (snd (networkLoop (demo_net False ''CC'' 1 1400) 9 demo_coin_packet demo_node))"
proof -
  have "IS_MASTER (demo_net True ''AA'' 1 1400)" "\<not> IS_MASTER (demo_net False ''CC'' 1 1400)"
    by (simp_all add: demo_net_def)
  with roles_respected [of "demo_net True ''AA'' 1 1400" 9 demo_coin_packet demo_node]
    roles_respected [of "demo_net False ''CC'' 1 1400" 9 demo_coin_packet demo_node]
  show ?thesis by (simp add: demo_coin_posted)
qed

text \<open>The fleet updates itself. A heartbeat of a slave with an older build makes the master send
  that slave an update command, and the slave, when it gets it in time and is not already
  updating, starts its update worker on the sender's address; the heartbeat is recorded in the
  node map under the slave's MAC.\<close>
theorem outdated_node_updates:
  assumes snd: "sound_hmac em" "sound_hmac es'" "hmac em = hmac es" "NET_KEY em = NET_KEY es"
      "hmac es' = hmac em" "NET_KEY es' = NET_KEY em"
    and hb: "broadcastHeartbeat es = Some pkt" "fresh (netNowMs em) (netNowMs es)"
    and role: "IS_MASTER em" "\<not> IS_MASTER es'" "net_own_mac es' = net_own_mac es"
    and mac: "to_upper (net_own_mac es) \<noteq> to_upper (net_own_mac em)" "cstr 18 (net_own_mac es) = net_own_mac es"
    and old: "FIRMWARE_BUILD es < FIRMWARE_BUILD em"
    and can: "node_lock1 em" "omap_ok (NODE_MAP sm)" "\<not> OTA_IN_PROGRESS sl" "malloc_ok es'" "task_ok es'"
      "fresh (netNowMs es') (netNowMs em)"
  shows "\<exists>cmd. NetSend ip (Some cmd) \<in> set (snd (networkLoop em ip pkt sm))
     \<and> SpawnSlaveOta mip \<in> set (snd (networkLoop es' mip cmd sl))
     \<and> OTA_IN_PROGRESS (fst (networkLoop es' mip cmd sl))
     \<and> ni_buildNumber (node_at (fst (networkLoop em ip pkt sm)) (to_upper (net_own_mac es))) = FIRMWARE_BUILD es"
proof -
  let ?mac = "to_upper (net_own_mac es)"
  obtain cmd where cmd: "masterSendOtaToNode em ?mac = Some cmd"
    by (simp add: masterSendOtaToNode_def netTransmit_def Let_def)
  have rm: "net_receive em pkt = Inr (NET_MSG_HEARTBEAT, netNowMs es, put_heartbeat
     \<lparr>hb_buildNumber = FIRMWARE_BUILD es, hb_uptimeSec = net_millis es div 1000,
      hb_freeHeap = net_free_heap es, hb_rssi = net_rssi es, hb_rejectWidth = net_reject_width es,
      hb_rejectInterval = net_reject_interval es, hb_version = FIRMWARE_VERSION es,
      hb_ip = net_local_ip es, hb_mac = net_own_mac es\<rparr>)"
    using hb snd by (intro transmit_received) (simp_all add: broadcastHeartbeat_def)
  have rs: "net_receive es' cmd = Inr (NET_MSG_OTA_AVAILABLE, netNowMs em, put_chars 18 ?mac)"
    using cmd snd can by (intro transmit_received) (simp_all add: masterSendOtaToNode_def)
  have "to_upper (cstr 18 ?mac) = ?mac"
  proof -
    have "length (net_own_mac es) < 18" using length_cstr [of 18 "net_own_mac es"] mac(2) by simp
    moreover have "CHR 0x00 \<notin> set ?mac"
    proof -
      have "CHR 0x00 \<notin> set (net_own_mac es)" using cstr_no_nul [of 18 "net_own_mac es"] mac(2) by simp
      moreover have "upper_char c = CHR 0x00 \<Longrightarrow> c = CHR 0x00" for c by (rule upper_char_0)
      ultimately show ?thesis by (force simp: to_upper_def)
    qed
    ultimately show ?thesis by (simp add: cstr_id)
  qed
  then show ?thesis
    using role mac old can
    by (intro exI [of _ cmd])
      (simp add: loop_accepted [OF rm] loop_accepted [OF rs] net_dispatch_def recv_heartbeat_def
        heartbeat_roundtrip Let_def cmd recv_ota_available_def get_fields record_heartbeat_def
        count_ota_sent_def node_at_update omap_ok_update)
qed

theorem outdated_node_updates_witness:
  "\<exists>pkt cmd. broadcastHeartbeat (demo_net False ''BB'' 1 1000) = Some pkt
     \<and> NetSend 9 (Some cmd) \<in> set (snd (networkLoop (demo_net True ''AA'' 2 1400) 9 pkt demo_node))
     \<and> SpawnSlaveOta 8 \<in> set (snd (networkLoop (demo_net False ''BB'' 1 1500) 8 cmd demo_node))"
proof -
  let ?es = "demo_net False ''BB'' 1 1000" and ?em = "demo_net True ''AA'' 2 1400"
    and ?es' = "demo_net False ''BB'' 1 1500"
  obtain pkt where p: "broadcastHeartbeat ?es = Some pkt"
    by (simp add: broadcastHeartbeat_def netTransmit_def Let_def)
  have "\<exists>cmd. NetSend 9 (Some cmd) \<in> set (snd (networkLoop ?em 9 pkt demo_node))
     \<and> SpawnSlaveOta 8 \<in> set (snd (networkLoop ?es' 8 cmd demo_node))
     \<and> OTA_IN_PROGRESS (fst (networkLoop ?es' 8 cmd demo_node))
     \<and> ni_buildNumber (node_at (fst (networkLoop ?em 9 pkt demo_node)) (to_upper (net_own_mac ?es))) = FIRMWARE_BUILD ?es"
    by (rule outdated_node_updates [OF sound_demo sound_demo _ _ _ _ p])
      (simp_all add: demo_net_def fresh_def demo_node_def cstr_def to_upper_def upper_char_def omap_ok_def)
  with p show ?thesis by blast
qed

end
