(* ===== verification/SlaveOta.thy ===== *)
theory SlaveOta
  imports Prelude
begin

text \<open>
  The update worker of a slave (\<open>src/network.cpp\<close>): \<open>slaveFlashFromUrl\<close> streams the master's
  image into the flash updater and \<open>slaveOtaTask\<close> restarts the node. What the HTTP client and
  the updater answer is a record; what the loop sees of the stream is a list of observations,
  whose end is the close of the connection.
\<close>

record flash_env =
  http_code :: int
  http_size :: int
  update_begins :: bool
  buffer_ok :: bool
  update_ends :: bool

text \<open>One pass of the read loop: \<open>Data n t\<close> is a read of \<open>n\<close> bytes (0 when the read timed out)
  ending at time \<open>t\<close>; \<open>Quiet t\<close> finds nothing available at time \<open>t\<close>.\<close>

datatype flash_event = Data int u32 | Quiet u32

datatype flash_action = UpdateBegin int | UpdateWrite int | UpdateAbort | UpdateEnd

fun flash_loop :: "flash_event list \<Rightarrow> u32 \<Rightarrow> int \<Rightarrow> int \<times> flash_action list" where
  "flash_loop [] lastProgress remaining = (remaining, [])"
| "flash_loop (Data n t # evs) lastProgress remaining =
     (if remaining \<le> 0 then (remaining, [])
      else if n > 0 then
        (let (r, a) = flash_loop evs t (remaining - n) in (r, UpdateWrite n # a))
      else flash_loop evs t remaining)"
| "flash_loop (Quiet t # evs) lastProgress remaining =
     (if remaining \<le> 0 \<or> t - lastProgress > 5000 then (remaining, [])
      else flash_loop evs lastProgress remaining)"

definition slaveFlashFromUrl :: "flash_env \<Rightarrow> u32 \<Rightarrow> flash_event list \<Rightarrow> bool \<times> flash_action list" where
  "slaveFlashFromUrl e t0 evs =
     (if http_code e = 404 then (True, [])
      else if http_code e \<noteq> 200 then (False, [])
      else if http_size e \<le> 0 then (False, [])
      else if \<not> update_begins e then (False, [])
      else if \<not> buffer_ok e then (False, [UpdateBegin (http_size e), UpdateAbort])
      else (let (remaining, a) = flash_loop evs t0 (http_size e);
                w = UpdateBegin (http_size e) # a
            in if remaining > 0 then (False, w @ [UpdateAbort])
               else (update_ends e, w @ [UpdateEnd])))"

datatype ota_outcome = OtaRestart | OtaIdle

text \<open>The outcome and the new value of \<open>OTA_IN_PROGRESS\<close>, which was set by the dispatcher.\<close>

definition slaveOtaTask :: "flash_env \<Rightarrow> u32 \<Rightarrow> flash_event list \<Rightarrow> ota_outcome \<times> bool \<times> flash_action list" where
  "slaveOtaTask e t0 evs =
     (case slaveFlashFromUrl e t0 evs of
        (True, a) \<Rightarrow> (OtaRestart, True, a)
      | (False, a) \<Rightarrow> (OtaIdle, False, a))"

fun written_bytes :: "flash_action list \<Rightarrow> int" where
  "written_bytes [] = 0"
| "written_bytes (UpdateWrite n # a) = n + written_bytes a"
| "written_bytes (_ # a) = written_bytes a"

lemma written_append [simp]: "written_bytes (a @ b) = written_bytes a + written_bytes b"
  by (induction a rule: written_bytes.induct) simp_all

lemma flash_loop_written:
  "flash_loop evs t rem = (r, a) \<Longrightarrow> written_bytes a = rem - r
     \<and> UpdateAbort \<notin> set a \<and> UpdateEnd \<notin> set a"
  by (induction evs t rem arbitrary: r a rule: flash_loop.induct)
    (auto simp: Let_def split: if_splits prod.splits)

text \<open>An update is all or nothing. The slave restarts exactly when the image is absent (404, the
  code's "skip") or when at least the announced size was written and the updater accepted the
  end; in every other case the in-progress flag is cleared, so that a later command can retry,
  and an update that was begun has been aborted or ended.\<close>
theorem slave_restarts_iff_flashed:
  assumes "slaveOtaTask e t0 evs = (out, busy, a)"
  shows "(out = OtaRestart \<longleftrightarrow> http_code e = 404
            \<or> (http_code e = 200 \<and> 0 < http_size e \<and> update_begins e \<and> buffer_ok e \<and> update_ends e
               \<and> http_size e \<le> written_bytes a))
    \<and> (busy \<longleftrightarrow> out = OtaRestart)
    \<and> (UpdateBegin (http_size e) \<in> set a \<longrightarrow> last a = UpdateAbort \<or> last a = UpdateEnd)"
proof -
  obtain r b where fl: "flash_loop evs t0 (http_size e) = (r, b)" by fastforce
  note w = flash_loop_written [OF fl]
  show ?thesis
    using assms w fl
    by (auto simp: slaveOtaTask_def slaveFlashFromUrl_def Let_def split: if_splits bool.splits)
qed

definition demo_flash :: flash_env where
  "demo_flash = \<lparr>http_code = 200, http_size = 9000, update_begins = True, buffer_ok = True, update_ends = True\<rparr>"

theorem slave_restarts_iff_flashed_witness:
  "fst (slaveOtaTask demo_flash 0 [Data 8192 10, Quiet 3000, Data 808 3500]) = OtaRestart
   \<and> fst (slaveOtaTask demo_flash 0 [Data 8192 10, Quiet 3000, Quiet 5011, Data 808 5500]) \<noteq> OtaRestart"
proof -
  let ?a = "slaveOtaTask demo_flash 0 [Data 8192 10, Quiet 3000, Data 808 3500]"
  let ?b = "slaveOtaTask demo_flash 0 [Data 8192 10, Quiet 3000, Quiet 5011, Data 808 5500]"
  have a: "written_bytes (snd (snd ?a)) = 9000" by code_simp
  have b: "written_bytes (snd (snd ?b)) = 8192" by code_simp
  show ?thesis
    using slave_restarts_iff_flashed [of demo_flash 0 _ "fst ?a" "fst (snd ?a)" "snd (snd ?a)"]
      slave_restarts_iff_flashed [of demo_flash 0 _ "fst ?b" "fst (snd ?b)" "snd (snd ?b)"] a b
    by (auto simp: demo_flash_def)
qed

end
