(* ===== verification/Money.thy ===== *)
theory Money
  imports Containers
begin

text \<open>
  The money record (\<open>src/money_store.cpp\<close>): the ledger of voucher groups, the income per month,
  the import merge and the nightly rollup, with the admin handlers that write the record
  (\<open>src/web.cpp\<close>, money import and migration). JSON fields that may be missing are options; the
  JSON reader and the platform's \<open>localtime\<close> are parameters. Counts and pesos are the code's
  32-bit \<open>int\<close> and \<open>long\<close>: integers whose products and sums wrap (\<open>long32\<close>), divided like C.
\<close>

abbreviation COMMISSION_RATE_PERCENT :: int where "COMMISSION_RATE_PERCENT \<equiv> 20"

section \<open>The record\<close>

record money_group =
  mg_name :: string
  mg_seller :: string
  mg_month :: string
  mg_used :: int
  mg_price :: int
  mg_rate :: int
  mg_revenue :: int
  mg_commission :: int
  mg_deleted :: bool
  mg_seen :: int

record money_income =
  inc_vendo :: int
  inc_voucher :: int

record money =
  money_groups :: "(string \<times> money_group) list"
  money_incomes :: "(string \<times> money_income) list"
  money_updated :: "int option"
  money_vendoMigrated :: "int option"

definition empty_money :: money where
  "empty_money = \<lparr>money_groups = [], money_incomes = [], money_updated = None, money_vendoMigrated = None\<rparr>"

text \<open>\<open>stored\<close>: the NVS blob if one of the full length was read; \<open>parse\<close>: the JSON reader.\<close>

definition moneyStoreBegin :: "bool \<Rightarrow> string option \<Rightarrow> (string \<Rightarrow> money option) \<Rightarrow> money \<times> bool" where
  "moneyStoreBegin opened stored parse =
     (if \<not> opened then (empty_money, False)
      else (case stored of
              None \<Rightarrow> empty_money
            | Some blob \<Rightarrow> (case parse blob of None \<Rightarrow> empty_money | Some m \<Rightarrow> m), True))"

definition moneyStoreSave :: "bool \<Rightarrow> int \<Rightarrow> bool \<Rightarrow> money \<Rightarrow> money \<times> bool" where
  "moneyStoreSave ready now written m =
     (if \<not> ready then (m, False) else (m\<lparr>money_updated := Some now\<rparr>, written))"

definition moneyUpsertGroup ::
  "string \<Rightarrow> string \<Rightarrow> string \<Rightarrow> string \<Rightarrow> int \<Rightarrow> int \<Rightarrow> int \<Rightarrow> int \<Rightarrow> money \<Rightarrow> money" where
  "moneyUpsertGroup i name seller month used price rate seen m =
     m\<lparr>money_groups := obj_set i
         \<lparr>mg_name = name, mg_seller = seller, mg_month = month, mg_used = used, mg_price = price,
          mg_rate = rate, mg_revenue = long32 (used * price),
          mg_commission = long32 (long32 (used * price) * rate) sdiv 100,
          mg_deleted = False, mg_seen = seen\<rparr> (money_groups m)\<rparr>"

definition moneyMarkAbsent :: "string list \<Rightarrow> money \<Rightarrow> money" where
  "moneyMarkAbsent liveIds m =
     m\<lparr>money_groups := map (\<lambda>(i, g). (i, if i \<in> set liveIds then g else g\<lparr>mg_deleted := True\<rparr>))
         (money_groups m)\<rparr>"

definition moneySetIncome :: "string \<Rightarrow> int \<Rightarrow> int \<Rightarrow> money \<Rightarrow> money" where
  "moneySetIncome month vendo voucher m =
     m\<lparr>money_incomes := obj_set month \<lparr>inc_vendo = vendo, inc_voucher = voucher\<rparr> (money_incomes m)\<rparr>"

definition moneyGroupUsed :: "string \<Rightarrow> money \<Rightarrow> int" where
  "moneyGroupUsed i m = (case map_of (money_groups m) i of Some g \<Rightarrow> mg_used g | None \<Rightarrow> 0)"

definition moneyVendoMigrated :: "money \<Rightarrow> bool" where
  "moneyVendoMigrated m \<longleftrightarrow> money_vendoMigrated m \<noteq> None"

definition moneyMarkVendoMigrated :: "int \<Rightarrow> money \<Rightarrow> money" where
  "moneyMarkVendoMigrated now m = m\<lparr>money_vendoMigrated := Some now\<rparr>"

section \<open>Import\<close>

record import_group =
  ig_name :: "string option"
  ig_seller :: "string option"
  ig_month :: "string option"
  ig_used :: "int option"
  ig_price :: "int option"
  ig_rate :: "int option"
  ig_seen :: "int option"
  ig_deleted :: "bool option"

record import_income =
  ii_vendo :: "int option"
  ii_voucher :: "int option"

definition or_else :: "'a option \<Rightarrow> 'a \<Rightarrow> 'a" where
  "or_else x d = (case x of None \<Rightarrow> d | Some v \<Rightarrow> v)"

definition mark_deleted :: "string \<Rightarrow> money \<Rightarrow> money" where
  "mark_deleted i m = (case map_of (money_groups m) i of None \<Rightarrow> m
     | Some g \<Rightarrow> m\<lparr>money_groups := obj_set i (g\<lparr>mg_deleted := True\<rparr>) (money_groups m)\<rparr>)"

text \<open>Higher used count wins: an entry that does not raise the count is skipped.\<close>

definition already_counted :: "string \<Rightarrow> import_group \<Rightarrow> money \<Rightarrow> bool" where
  "already_counted i s m \<longleftrightarrow>
     (case map_of (money_groups m) i of Some g \<Rightarrow> mg_used g \<ge> or_else (ig_used s) 0 | None \<Rightarrow> False)"

definition upsert_import :: "string \<Rightarrow> import_group \<Rightarrow> money \<Rightarrow> money" where
  "upsert_import i s m =
     (let m' = moneyUpsertGroup i (or_else (ig_name s) []) (or_else (ig_seller s) [])
                 (or_else (ig_month s) []) (or_else (ig_used s) 0) (or_else (ig_price s) 0)
                 (or_else (ig_rate s) 0) (or_else (ig_seen s) 0) m
      in if or_else (ig_deleted s) False then mark_deleted i m' else m')"

definition import_group_entry :: "string \<times> import_group \<Rightarrow> money \<times> int \<Rightarrow> money \<times> int" where
  "import_group_entry e acc =
     (if already_counted (fst e) (snd e) (fst acc) then acc
      else (upsert_import (fst e) (snd e) (fst acc), snd acc + 1))"

definition stored_income :: "string \<Rightarrow> money \<Rightarrow> money_income" where
  "stored_income month m = (case map_of (money_incomes m) month of
      Some i \<Rightarrow> i | None \<Rightarrow> \<lparr>inc_vendo = 0, inc_voucher = 0\<rparr>)"

definition import_income_entry :: "string \<times> import_income \<Rightarrow> money \<times> int \<Rightarrow> money \<times> int" where
  "import_income_entry e acc =
     (moneySetIncome (fst e) (or_else (ii_vendo (snd e)) (inc_vendo (stored_income (fst e) (fst acc))))
        (or_else (ii_voucher (snd e)) (inc_voucher (stored_income (fst e) (fst acc)))) (fst acc),
      snd acc + 1)"

record import_doc =
  in_groups :: "(string \<times> import_group) list"
  in_income :: "(string \<times> import_income) list"

text \<open>\<open>None\<close> is the parse error (-1).\<close>

definition moneyImport ::
  "bool \<Rightarrow> int \<Rightarrow> bool \<Rightarrow> import_doc option \<Rightarrow> money \<Rightarrow> money \<times> int option" where
  "moneyImport ready now written doc m =
     (case doc of
        None \<Rightarrow> (m, None)
      | Some d \<Rightarrow>
          (let (m1, n1) = fold import_group_entry (in_groups d) (m, 0);
               (m2, n2) = fold import_income_entry (in_income d) (m1, n1)
           in (fst (moneyStoreSave ready now written m2), Some n2)))"

section \<open>Vendo months and the nightly rollup\<close>

record sale_line =
  sale_ts :: "int option"
  sale_coins :: "int option"

definition sale_income ::
  "(int \<Rightarrow> string) \<Rightarrow> (string \<Rightarrow> sale_line option) \<Rightarrow> int \<Rightarrow> string \<Rightarrow> (string \<times> int) option" where
  "sale_income monthOf parse price line =
     (if length line < 5 then None
      else case parse line of
          None \<Rightarrow> None
        | Some d \<Rightarrow>
            if or_else (sale_ts d) 0 \<le> 0 \<or> or_else (sale_coins d) 0 \<le> 0 then None
            else Some (monthOf (or_else (sale_ts d) 0), long32 (or_else (sale_coins d) 0 * price)))"

fun moneyVendoMonths ::
  "(string \<Rightarrow> (string \<times> int) option) \<Rightarrow> string list \<Rightarrow> (string \<times> int) list \<Rightarrow> (string \<times> int) list" where
  "moneyVendoMonths income [] out = out"
| "moneyVendoMonths income (line # lines) out =
     moneyVendoMonths income lines
       (case income line of None \<Rightarrow> out | Some (month, n) \<Rightarrow> omap_add_long month n out)"

record voucher_group =
  vg_name :: string
  vg_description :: string
  vg_id :: string
  vg_usedCount :: "int option"
  vg_createdTime :: u64

record rollup_env =
  rollup_now :: int
  PRICE_PER_COIN :: int
  monthOf :: "int \<Rightarrow> string"
  priceOf :: "string \<Rightarrow> int option option"
  parse_sale :: "string \<Rightarrow> sale_line option"
  store_ready :: bool
  store_writes :: bool

definition AUTOGEN :: string where "AUTOGEN = ''AUTOGEN: ''"

definition rollup_seller :: "string \<Rightarrow> string" where
  "rollup_seller name =
     (let rest = drop 9 name in
      case index_of '' '' rest of None \<Rightarrow> [] | Some i \<Rightarrow> drop (i + 1) rest)"

definition rollup_price :: "rollup_env \<Rightarrow> voucher_group \<Rightarrow> int" where
  "rollup_price e g = (case priceOf e (vg_description g) of None \<Rightarrow> 0 | Some p \<Rightarrow> or_else p 0)"

text \<open>One live group: the redemptions since the last rollup go to the seller's day, then the
  ledger entry is refreshed.\<close>

definition rollup_group ::
  "rollup_env \<Rightarrow> voucher_group \<Rightarrow> money \<times> (string \<times> int) list \<times> string list
     \<Rightarrow> money \<times> (string \<times> int) list \<times> string list" where
  "rollup_group e g acc =
     (let (m, day, live) = acc in
      if \<not> starts_with AUTOGEN (vg_name g) then acc
      else let seller = rollup_seller (vg_name g); price = rollup_price e g;
               used = or_else (vg_usedCount g) 0; prevUsed = moneyGroupUsed (vg_id g) m
           in (moneyUpsertGroup (vg_id g) (vg_name g) seller
                 (monthOf e (uint (vg_createdTime g div 1000))) used price COMMISSION_RATE_PERCENT
                 (rollup_now e) m,
               if used > prevUsed \<and> seller \<noteq> [] \<and> price > 0
               then omap_add_long seller (long32 ((used - prevUsed) * price)) day else day,
               vg_id g # live))"

definition rollup_groups ::
  "rollup_env \<Rightarrow> voucher_group list \<Rightarrow> money \<Rightarrow> money \<times> (string \<times> int) list" where
  "rollup_groups e gs m =
     (let (m', day, live) = fold (rollup_group e) gs (m, [], []) in (moneyMarkAbsent live m', day))"

definition voucher_months :: "money \<Rightarrow> (string \<times> int) list" where
  "voucher_months m = fold (\<lambda>(i, g). omap_add_long (mg_month g) (mg_revenue g)) (money_groups m) []"

definition rollup_month :: "(string \<times> int) list \<Rightarrow> (string \<times> int) list \<Rightarrow> string \<Rightarrow> money \<Rightarrow> money" where
  "rollup_month vendo voucher month m =
     moneySetIncome month
       (case map_of vendo month of Some v \<Rightarrow> v | None \<Rightarrow> inc_vendo (stored_income month m))
       (omap_get 0 voucher month) m"

definition rollup_months :: "(string \<times> int) list \<Rightarrow> (string \<times> int) list \<Rightarrow> money \<Rightarrow> string list" where
  "rollup_months vendo voucher m =
     map fst (fold (\<lambda>k. omap_update k ()) (map fst vendo @ map fst voucher @ map fst (money_incomes m)) [])"

definition rollup_income :: "rollup_env \<Rightarrow> string list \<Rightarrow> money \<Rightarrow> money" where
  "rollup_income e lines m =
     (let vendo = moneyVendoMonths (sale_income (monthOf e) (parse_sale e) (PRICE_PER_COIN e)) lines [];
          voucher = voucher_months m
      in fold (rollup_month vendo voucher) (rollup_months vendo voucher m) m)"

text \<open>\<open>raw\<close>: the live groups, if the controller answered without an error; \<open>lines\<close>: the sale log.
  The second component is the line appended to the seller journal, if any.\<close>

definition moneyNightlyRollup ::
  "rollup_env \<Rightarrow> voucher_group list option \<Rightarrow> string list \<Rightarrow> money \<Rightarrow> money \<times> (string \<times> int) list option" where
  "moneyNightlyRollup e raw lines m =
     (let (m1, day) = (case raw of None \<Rightarrow> (m, []) | Some gs \<Rightarrow> rollup_groups e gs m)
      in (fst (moneyStoreSave (store_ready e) (rollup_now e) (store_writes e) (rollup_income e lines m1)),
          if day = [] then None else Some day))"

section \<open>Admin handlers that write the record\<close>

record seller_day =
  sd_day :: "int option"
  sd_sellers :: "(string \<times> int) list"

text \<open>The seller-day lines an import appends: days that the journal had before the import are
  skipped (\<open>have\<close> is not extended while appending).\<close>

definition import_seller_days :: "(int \<Rightarrow> int) \<Rightarrow> int list \<Rightarrow> seller_day list \<Rightarrow> (int \<times> (string \<times> int) list) list" where
  "import_seller_days dayStart have days =
     map (\<lambda>d. (dayStart (or_else (sd_day d) 0 + 1) + 9900, sd_sellers d))
       (filter (\<lambda>d. or_else (sd_day d) 0 > 0 \<and> or_else (sd_day d) 0 \<notin> set have) days)"

datatype http_reply = Reply int string

text \<open>\<open>journal\<close>: the timestamps of the readable lines of the seller journal; the third result
  are the lines appended to it.\<close>

definition handleAdminMoneyImport ::
  "bool \<Rightarrow> int \<Rightarrow> bool \<Rightarrow> (int \<Rightarrow> int) \<Rightarrow> (int \<Rightarrow> int) \<Rightarrow> string \<Rightarrow> import_doc option
     \<Rightarrow> seller_day list option \<Rightarrow> int list \<Rightarrow> money
     \<Rightarrow> money \<times> http_reply \<times> (int \<times> (string \<times> int) list) list" where
  "handleAdminMoneyImport ready now written dayNum dayStart err doc days journal m =
     (case moneyImport ready now written doc m of
        (m', None) \<Rightarrow> (m', Reply 400 (''{\"error\":\"'' @ err @ ''\"}''), [])
      | (m', Some touched) \<Rightarrow>
          (let new = (case days of None \<Rightarrow> []
                      | Some ds \<Rightarrow> import_seller_days dayStart (map (\<lambda>ts. dayNum ts - 1) journal) ds)
           in (m', Reply 200 (''{\"touched\":'' @ dec_int touched @ '',\"sellerDaysAdded\":''
                     @ dec (length new) @ ''}''), new)))"

definition vendo_only :: "string \<Rightarrow> int \<Rightarrow> import_doc" where
  "vendo_only month n = \<lparr>in_groups = [], in_income = [(month, \<lparr>ii_vendo = Some n, ii_voucher = None\<rparr>)]\<rparr>"

text \<open>The POST of \<open>handleAdminMoneyMigrate\<close>; the GET, a dry run, is in \<open>MoneyBackup\<close>.\<close>

definition handleAdminMoneyMigrate ::
  "bool \<Rightarrow> int \<Rightarrow> bool \<Rightarrow> (string \<times> int) list \<Rightarrow> money \<Rightarrow> money \<times> http_reply" where
  "handleAdminMoneyMigrate ready now written months m =
     (if moneyVendoMigrated m then (m, Reply 409 ''{\"error\":\"already migrated\"}'')
      else (fst (moneyStoreSave ready now written (moneyMarkVendoMigrated now
              (fold (\<lambda>(month, n) m. fst (moneyImport ready now written (Some (vendo_only month n)) m)) months m))),
            Reply 200 (''{\"applied\":'' @ dec (length months) @ ''}'')))"

section \<open>Lemmas\<close>

lemma or_else_simps [simp]: "or_else None d = d" "or_else (Some v) d = v"
  by (simp_all add: or_else_def)

lemma save_fields [simp]:
  "money_groups (fst (moneyStoreSave r n w m)) = money_groups m"
  "money_incomes (fst (moneyStoreSave r n w m)) = money_incomes m"
  "stored_income k (fst (moneyStoreSave r n w m)) = stored_income k m"
  by (simp_all add: moneyStoreSave_def stored_income_def)

lemma income_frame [simp]:
  "money_groups (moneySetIncome k a b m) = money_groups m"
  "stored_income j (moneySetIncome k a b m) = (if j = k then \<lparr>inc_vendo = a, inc_voucher = b\<rparr> else stored_income j m)"
  by (simp_all add: moneySetIncome_def stored_income_def)

text \<open>An entry as 32-bit arithmetic makes it, and an entry that is exact; the two are one when the
  products fit.\<close>

definition group_ok :: "money_group \<Rightarrow> bool" where
  "group_ok g \<longleftrightarrow> mg_revenue g = long32 (mg_used g * mg_price g)
     \<and> mg_commission g = long32 (mg_used g * mg_price g * mg_rate g) sdiv 100"

definition exact_group :: "money_group \<Rightarrow> bool" where
  "exact_group g \<longleftrightarrow> mg_revenue g = mg_used g * mg_price g
     \<and> mg_commission g = (mg_used g * mg_price g * mg_rate g) sdiv 100"

definition fits_group :: "money_group \<Rightarrow> bool" where
  "fits_group g \<longleftrightarrow> in_long (mg_used g * mg_price g) \<and> in_long (mg_used g * mg_price g * mg_rate g)"

lemma group_exact: "group_ok g \<Longrightarrow> fits_group g \<Longrightarrow> exact_group g"
  by (simp add: group_ok_def fits_group_def exact_group_def)

definition ledger_ok :: "money \<Rightarrow> bool" where
  "ledger_ok m \<longleftrightarrow> obj_ok (money_groups m) \<and> all_values group_ok (money_groups m)"

lemma ledger_upsert [inv_intros]:
  "ledger_ok m \<Longrightarrow> ledger_ok (moneyUpsertGroup i a b c used price rate seen m)"
  by (simp add: ledger_ok_def moneyUpsertGroup_def obj_ok_set all_values_set group_ok_def)

lemma ledger_absent [inv_intros]: "ledger_ok m \<Longrightarrow> ledger_ok (moneyMarkAbsent live m)"
  by (auto simp: ledger_ok_def moneyMarkAbsent_def group_ok_def intro!: all_values_map)

lemma ledger_deleted [inv_intros]: "ledger_ok m \<Longrightarrow> ledger_ok (mark_deleted i m)"
  using all_values_map_of [of group_ok "money_groups m" i]
  by (auto simp: ledger_ok_def mark_deleted_def obj_ok_set intro!: all_values_set
      split: option.split) (simp add: group_ok_def)

lemma ledger_income [inv_intros]: "ledger_ok m \<Longrightarrow> ledger_ok (moneySetIncome k a b m)"
  by (simp add: ledger_ok_def)

lemma ledger_import_groups:
  "ledger_ok (fst acc) \<Longrightarrow> ledger_ok (fst (fold import_group_entry es acc))"
  by (rule fold_inv [where P = "\<lambda>acc. ledger_ok (fst acc)"])
    (auto simp: import_group_entry_def upsert_import_def Let_def intro!: inv_intros)

lemma import_income_groups [simp]:
  "money_groups (fst (fold import_income_entry es acc)) = money_groups (fst acc)"
  by (induction es arbitrary: acc) (simp_all add: import_income_entry_def)

lemma rollup_months_groups [simp]:
  "money_groups (fold (rollup_month V W) ks m) = money_groups m"
  by (induction ks arbitrary: m) (simp_all add: rollup_month_def)

lemma rollup_income_groups [simp]: "money_groups (rollup_income e lines m) = money_groups m"
  by (simp add: rollup_income_def Let_def)

lemma ledger_rollup_group:
  "ledger_ok (fst acc) \<Longrightarrow> ledger_ok (fst (fold (rollup_group e) gs acc))"
  by (rule fold_inv [where P = "\<lambda>acc. ledger_ok (fst acc)"])
    (auto simp: rollup_group_def Let_def intro!: inv_intros split: prod.split)

lemma ledger_rollup_groups: "ledger_ok m \<Longrightarrow> ledger_ok (fst (rollup_groups e gs m))"
  using ledger_rollup_group [of "(m, [], [])" e gs]
  by (auto simp: rollup_groups_def split: prod.split intro: ledger_absent)

definition rollup_ledger :: "rollup_env \<Rightarrow> voucher_group list option \<Rightarrow> money \<Rightarrow> money" where
  "rollup_ledger e raw m = (case raw of None \<Rightarrow> m | Some gs \<Rightarrow> fst (rollup_groups e gs m))"

lemma rollup_groups_result:
  "money_groups (fst (moneyNightlyRollup e raw lines m)) = money_groups (rollup_ledger e raw m)"
  by (cases raw) (simp_all add: moneyNightlyRollup_def rollup_ledger_def split: prod.split)

lemma rollup_income_result:
  "stored_income k (fst (moneyNightlyRollup e raw lines m))
     = stored_income k (rollup_income e lines (rollup_ledger e raw m))"
  by (cases raw) (simp_all add: moneyNightlyRollup_def rollup_ledger_def split: prod.split)

lemma ledger_ok_groups: "money_groups m = money_groups m' \<Longrightarrow> ledger_ok m = ledger_ok m'"
  by (simp add: ledger_ok_def)

section \<open>The rollup's groups\<close>

lemma map_of_absent:
  "map_of (money_groups (moneyMarkAbsent live m)) i =
     map_option (\<lambda>g. if i \<in> set live then g else g\<lparr>mg_deleted := True\<rparr>) (map_of (money_groups m) i)"
proof -
  have "map_of (map (\<lambda>(i, g). (i, if i \<in> set live then g else g\<lparr>mg_deleted := True\<rparr>)) xs) i
      = map_option (\<lambda>g. if i \<in> set live then g else g\<lparr>mg_deleted := True\<rparr>) (map_of xs i)" for xs
    by (induction xs) auto
  then show ?thesis by (simp add: moneyMarkAbsent_def)
qed

definition autogen_ids :: "voucher_group list \<Rightarrow> string list" where
  "autogen_ids gs = map vg_id (filter (\<lambda>g. starts_with AUTOGEN (vg_name g)) gs)"

lemma rollup_fold:
  assumes "fold (rollup_group e) gs (m, day, live) = (m', day', live')"
  shows "(\<forall>i. i \<notin> set (autogen_ids gs) \<longrightarrow> map_of (money_groups m') i = map_of (money_groups m) i)
     \<and> set live' = set live \<union> set (autogen_ids gs)"
  using assms
proof (induction gs arbitrary: m day live)
  case (Cons g gs)
  show ?case
  proof (cases "starts_with AUTOGEN (vg_name g)")
    case False
    with Cons show ?thesis by (simp add: rollup_group_def autogen_ids_def)
  next
    case True
    obtain d m1 where s: "rollup_group e g (m, day, live) = (m1, d, vg_id g # live)"
      and m1: "\<forall>i. i \<noteq> vg_id g \<longrightarrow> map_of (money_groups m1) i = map_of (money_groups m) i"
      using True by (simp add: rollup_group_def Let_def moneyUpsertGroup_def)
    with Cons.prems have "fold (rollup_group e) gs (m1, d, vg_id g # live) = (m', day', live')" by simp
    from Cons.IH [OF this] m1 True show ?thesis by (auto simp: autogen_ids_def)
  qed
qed (simp add: autogen_ids_def)

lemma rollup_fold_used:
  assumes "fold (rollup_group e) gs (m, day, live) = (m', day', live')"
    and "distinct (autogen_ids gs)" and "g \<in> set gs"
  shows "starts_with AUTOGEN (vg_name g) \<longrightarrow>
     (\<exists>x. map_of (money_groups m') (vg_id g) = Some x \<and> mg_used x = or_else (vg_usedCount g) 0)"
  using assms
proof (induction gs arbitrary: m day live)
  case (Cons h gs)
  obtain m1 d l where s: "rollup_group e h (m, day, live) = (m1, d, l)" by (metis prod_cases3)
  with Cons.prems(1) have f: "fold (rollup_group e) gs (m1, d, l) = (m', day', live')" by simp
  have dist: "distinct (autogen_ids gs)" using Cons.prems(2) by (simp add: autogen_ids_def split: if_splits)
  show ?case
  proof (cases "g \<in> set gs")
    case True
    with Cons.IH [OF f dist] show ?thesis by blast
  next
    case False
    with Cons.prems(3) have g: "g = h" by simp
    show ?thesis
    proof
      assume a: "starts_with AUTOGEN (vg_name g)"
      with Cons.prems(2) g have "vg_id g \<notin> set (autogen_ids gs)" by (simp add: autogen_ids_def)
      with rollup_fold [OF f] have "map_of (money_groups m') (vg_id g) = map_of (money_groups m1) (vg_id g)"
        by blast
      with a g s show "\<exists>x. map_of (money_groups m') (vg_id g) = Some x \<and> mg_used x = or_else (vg_usedCount g) 0"
        by (auto simp: rollup_group_def Let_def moneyUpsertGroup_def)
    qed
  qed
qed simp

definition credit :: "rollup_env \<Rightarrow> money \<Rightarrow> voucher_group \<Rightarrow> int" where
  "credit e m g =
     (let used = or_else (vg_usedCount g) 0; prev = moneyGroupUsed (vg_id g) m
      in if starts_with AUTOGEN (vg_name g) \<and> used > prev \<and> rollup_seller (vg_name g) \<noteq> []
            \<and> rollup_price e g > 0
         then (used - prev) * rollup_price e g else 0)"

definition credit_to :: "rollup_env \<Rightarrow> money \<Rightarrow> string \<Rightarrow> voucher_group \<Rightarrow> int" where
  "credit_to e m s g = (if rollup_seller (vg_name g) = s then credit e m g else 0)"

lemma rollup_fold_day:
  assumes "fold (rollup_group e) gs (m, day, live) = (m', day', live')" and "omap_ok day"
    and "distinct (autogen_ids gs)"
    and "\<forall>s. in_long (omap_get 0 day s)"
  shows "omap_ok day' \<and> (\<forall>s. omap_get 0 day' s = long32 (omap_get 0 day s + (\<Sum>g\<leftarrow>gs. credit_to e m s g)))
     \<and> (day = [] \<and> (\<forall>g \<in> set gs. credit e m g = 0) \<longrightarrow> day' = [])"
  using assms
proof (induction gs arbitrary: m day live)
  case (Cons g gs)
  show ?case
  proof (cases "starts_with AUTOGEN (vg_name g)")
    case False
    with Cons have "rollup_group e g (m, day, live) = (m, day, live)" "credit e m g = 0"
      "distinct (autogen_ids gs)" "credit_to e m s g = 0" for s
      by (simp_all add: rollup_group_def credit_def credit_to_def autogen_ids_def)
    with Cons.IH [of m day live] Cons.prems show ?thesis by simp
  next
    case True
    let ?m1 = "fst (rollup_group e g (m, day, live))" and ?d = "fst (snd (rollup_group e g (m, day, live)))"
    have s: "rollup_group e g (m, day, live) = (?m1, ?d, vg_id g # live)"
      using True by (simp add: rollup_group_def Let_def)
    have d: "omap_ok ?d" "omap_get 0 ?d s = long32 (omap_get 0 day s + credit_to e m s g)"
      "credit e m g = 0 \<longrightarrow> ?d = day" for s
      using True Cons.prems(2,4)
      by (auto simp: rollup_group_def credit_def credit_to_def Let_def omap_ok_add_long omap_get_add_long)
    then have fits: "\<forall>s. in_long (omap_get 0 ?d s)" by simp
    have "credit e ?m1 h = credit e m h" if "h \<in> set gs" for h
    proof (cases "starts_with AUTOGEN (vg_name h)")
      case False then show ?thesis by (simp add: credit_def)
    next
      case True
      with that have "vg_id h \<in> set (autogen_ids gs)" by (simp add: autogen_ids_def)
      then have "vg_id h \<noteq> vg_id g"
        using Cons.prems(3) \<open>starts_with AUTOGEN (vg_name g)\<close> by (auto simp: autogen_ids_def)
      then have "moneyGroupUsed (vg_id h) ?m1 = moneyGroupUsed (vg_id h) m"
        by (simp add: rollup_group_def Let_def moneyUpsertGroup_def moneyGroupUsed_def)
      then show ?thesis by (simp add: credit_def)
    qed
    then have c: "(\<Sum>g\<leftarrow>gs. credit_to e ?m1 s g) = (\<Sum>g\<leftarrow>gs. credit_to e m s g)"
      "(\<forall>g \<in> set gs. credit e ?m1 g = 0) \<longleftrightarrow> (\<forall>g \<in> set gs. credit e m g = 0)" for s
      by (auto simp: credit_to_def intro!: arg_cong [of _ _ sum_list])
    have "fold (rollup_group e) gs (?m1, ?d, vg_id g # live) = (m', day', live')"
      using Cons.prems(1) s by simp
    from Cons.IH [OF this d(1) _ fits] Cons.prems(3) d(2,3) c True show ?thesis
      by (auto simp: autogen_ids_def add.assoc)
  qed
qed simp

section \<open>The rollup's months\<close>

lemma months_fold:
  "stored_income k (fold (rollup_month V W) ks m) =
     (if k \<in> set ks
      then \<lparr>inc_vendo = (case map_of V k of Some v \<Rightarrow> v | None \<Rightarrow> inc_vendo (stored_income k m)),
            inc_voucher = omap_get 0 W k\<rparr>
      else stored_income k m)"
  by (induction ks arbitrary: m) (auto simp: rollup_month_def split: option.split)

lemma keys_fold_unit: "set (map fst (fold (\<lambda>k. omap_update k ()) ks m)) = set ks \<union> set (map fst m)"
  by (induction ks arbitrary: m) (auto simp: keys_omap_update simp del: set_map)

lemma set_rollup_months:
  "set (rollup_months V W m) = set (map fst V) \<union> set (map fst W) \<union> set (map fst (money_incomes m))"
  unfolding rollup_months_def keys_fold_unit by auto

lemma vendo_months:
  assumes "omap_ok out" and "in_long (omap_get 0 out k)"
  shows "omap_ok (moneyVendoMonths income lines out)
    \<and> omap_get 0 (moneyVendoMonths income lines out) k = long32 (omap_get 0 out k
        + (\<Sum>(month, n)\<leftarrow>List.map_filter income lines. if month = k then n else 0))
    \<and> (map_of (moneyVendoMonths income lines out) k = None
         \<longleftrightarrow> map_of out k = None \<and> k \<notin> fst ` set (List.map_filter income lines))"
  using assms
proof (induction income lines out rule: moneyVendoMonths.induct)
  case (1 income out)
  then show ?case by (simp add: map_filter_simps)
next
  case (2 income line lines out)
  show ?case
  proof (cases "income line")
    case None
    with 2 show ?thesis by (simp add: map_filter_simps)
  next
    case (Some a)
    obtain month n where a: "a = (month, n)" by (cases a)
    have "map_of (omap_add_long month n out) k = None \<longleftrightarrow> map_of out k = None \<and> k \<noteq> month"
      using 2(2) by (auto simp: omap_add_long_def map_of_omap_update)
    with 2 Some a show ?thesis
      by (auto simp: map_filter_simps omap_ok_add_long omap_get_add_long add.assoc)
  qed
qed

lemma voucher_months_get:
  "omap_get 0 (voucher_months m) k
     = long32 (\<Sum>(i, g)\<leftarrow>money_groups m. if mg_month g = k then mg_revenue g else 0)"
proof -
  have "(\<lambda>(i, g). omap_add_long (mg_month g) (mg_revenue g)) = (\<lambda>x. omap_add_long (mg_month (snd x)) (mg_revenue (snd x)))"
    by (auto simp: fun_eq_iff)
  then show ?thesis
    using fold_omap_add_long_get [of "[]" k "\<lambda>x. mg_month (snd x)" "\<lambda>x. mg_revenue (snd x)" "money_groups m"]
    by (simp add: voucher_months_def omap_get_def case_prod_unfold)
qed

lemma stored_income_default: "k \<notin> set (map fst (money_incomes m)) \<Longrightarrow> stored_income k m = \<lparr>inc_vendo = 0, inc_voucher = 0\<rparr>"
  by (simp add: stored_income_def map_of_eq_None_iff [THEN iffD2])

lemma rollup_income_exact_aux:
  "stored_income k (rollup_income e lines m) =
     \<lparr>inc_vendo = (if k \<in> fst ` set (List.map_filter (sale_income (monthOf e) (parse_sale e) (PRICE_PER_COIN e)) lines)
        then long32 (\<Sum>(month, n)\<leftarrow>List.map_filter (sale_income (monthOf e) (parse_sale e) (PRICE_PER_COIN e)) lines.
                 if month = k then n else 0)
        else inc_vendo (stored_income k m)),
      inc_voucher = long32 (\<Sum>(i, g)\<leftarrow>money_groups m. if mg_month g = k then mg_revenue g else 0)\<rparr>"
proof -
  let ?inc = "sale_income (monthOf e) (parse_sale e) (PRICE_PER_COIN e)"
  let ?V = "moneyVendoMonths ?inc lines []" and ?W = "voucher_months m"
  have "in_long (omap_get 0 ([] :: (string \<times> int) list) k)" by (simp add: omap_get_def)
  note V = vendo_months [OF omap_ok_Nil this, of ?inc lines]
  have v: "(case map_of ?V k of Some v \<Rightarrow> v | None \<Rightarrow> d) =
      (if k \<in> fst ` set (List.map_filter ?inc lines)
       then long32 (\<Sum>(month, n)\<leftarrow>List.map_filter ?inc lines. if month = k then n else 0) else d)" for d
    using V by (auto simp: omap_get_def split: option.splits)
  have w: "map_of ?W k = None \<Longrightarrow> omap_get 0 ?W k = 0" by (simp add: omap_get_def)
  show ?thesis
  proof (cases "k \<in> set (rollup_months ?V ?W m)")
    case True
    then show ?thesis
      by (simp add: rollup_income_def Let_def months_fold v voucher_months_get)
  next
    case False
    then have "k \<notin> fst ` set ?V" "k \<notin> fst ` set ?W" "k \<notin> fst ` set (money_incomes m)"
      unfolding set_rollup_months by simp_all
    then have "map_of ?V k = None" "map_of ?W k = None" "stored_income k m = \<lparr>inc_vendo = 0, inc_voucher = 0\<rparr>"
      by (simp_all add: map_of_eq_None_iff stored_income_default)
    with V w False voucher_months_get [of m k] show ?thesis
      by (simp add: rollup_income_def Let_def months_fold)
  qed
qed

section \<open>Imports and counts\<close>

lemma used_upsert_import [simp]:
  "moneyGroupUsed j (upsert_import i s m) = (if j = i then or_else (ig_used s) 0 else moneyGroupUsed j m)"
  by (simp add: upsert_import_def moneyUpsertGroup_def mark_deleted_def moneyGroupUsed_def Let_def)

lemma import_group_mono:
  "map_of (money_groups (fst acc)) j \<noteq> None \<or> 0 \<le> moneyGroupUsed j (fst (import_group_entry e acc)) \<Longrightarrow>
   moneyGroupUsed j (fst acc) \<le> moneyGroupUsed j (fst (import_group_entry e acc))"
  by (auto simp: import_group_entry_def already_counted_def moneyGroupUsed_def [of j "fst acc"]
      split: option.splits if_splits)

lemma known_upsert_import:
  "map_of (money_groups m) j \<noteq> None \<Longrightarrow> map_of (money_groups (upsert_import i s m)) j \<noteq> None"
  by (simp add: upsert_import_def moneyUpsertGroup_def mark_deleted_def Let_def)

lemma import_groups_mono:
  "map_of (money_groups (fst acc)) j \<noteq> None \<Longrightarrow>
     map_of (money_groups (fst (fold import_group_entry es acc))) j \<noteq> None
     \<and> moneyGroupUsed j (fst acc) \<le> moneyGroupUsed j (fst (fold import_group_entry es acc))"
proof (induction es arbitrary: acc)
  case (Cons e es)
  have k: "map_of (money_groups (fst (import_group_entry e acc))) j \<noteq> None"
    using Cons.prems known_upsert_import by (simp add: import_group_entry_def)
  have "moneyGroupUsed j (fst acc) \<le> moneyGroupUsed j (fst (import_group_entry e acc))"
    using Cons.prems by (intro import_group_mono) simp
  with Cons.IH [OF k] show ?case by simp
qed simp

lemma import_groups_reach:
  "(j, s) \<in> set es \<Longrightarrow>
     map_of (money_groups (fst (fold import_group_entry es acc))) j \<noteq> None
     \<and> or_else (ig_used s) 0 \<le> moneyGroupUsed j (fst (fold import_group_entry es acc))"
proof (induction es arbitrary: acc)
  case (Cons e es)
  show ?case
  proof (cases "e = (j, s)")
    case True
    then have "map_of (money_groups (fst (import_group_entry e acc))) j \<noteq> None"
      by (auto simp: import_group_entry_def already_counted_def upsert_import_def moneyUpsertGroup_def
          mark_deleted_def Let_def split: option.splits)
    moreover have "or_else (ig_used s) 0 \<le> moneyGroupUsed j (fst (import_group_entry e acc))"
      using True by (auto simp: import_group_entry_def already_counted_def moneyGroupUsed_def [of j "fst acc"]
          split: option.splits)
    ultimately show ?thesis using import_groups_mono [of "import_group_entry e acc" j es] by force
  next
    case False
    with Cons show ?thesis by simp
  qed
qed simp

lemma used_groups: "money_groups m = money_groups m' \<Longrightarrow> moneyGroupUsed j m = moneyGroupUsed j m'"
  by (simp add: moneyGroupUsed_def)

lemma import_groups_result:
  "money_groups (fst (moneyImport ready now written (Some d) m))
     = money_groups (fst (fold import_group_entry (in_groups d) (m, 0)))"
proof -
  obtain m1 n1 where 1: "fold import_group_entry (in_groups d) (m, 0) = (m1, n1)" by fastforce
  obtain m2 n2 where 2: "fold import_income_entry (in_income d) (m1, n1) = (m2, n2)" by fastforce
  have "money_groups (fst (fold import_income_entry (in_income d) (m1, n1))) = money_groups m1"
    by simp
  then show ?thesis by (simp add: moneyImport_def 1 2)
qed

section \<open>Properties\<close>

text \<open>C16: The ledger adds up. Every ledger entry carries the revenue \<open>used * price\<close> and the
  commission \<open>used * price * rate / 100\<close> of 32-bit arithmetic; an import and a nightly rollup,
  whatever they are given, keep it so, and every entry whose products fit 32 bits is exact.\<close>
theorem ledger_adds_up:
  assumes "ledger_ok m"
    and "m' = fst (moneyImport ready now written doc m) \<or> m' = fst (moneyNightlyRollup e raw lines m)"
  shows "ledger_ok m' \<and> (\<forall>(i, g) \<in> set (money_groups m'). fits_group g \<longrightarrow> exact_group g)"
proof -
  have "ledger_ok (fst (moneyImport ready now written doc m))"
  proof (cases doc)
    case (Some d)
    have "ledger_ok (fst (fold import_group_entry (in_groups d) (m, 0)))"
      using assms by (intro ledger_import_groups) simp
    then show ?thesis
      using Some by (auto simp: moneyImport_def ledger_ok_def Let_def split: prod.split)
        (metis fst_conv import_income_groups)+
  qed (use assms in \<open>simp add: moneyImport_def\<close>)
  moreover have "ledger_ok (rollup_ledger e raw m)"
    using assms by (simp add: rollup_ledger_def ledger_rollup_groups split: option.split)
  ultimately have "ledger_ok m'"
    using assms(2) ledger_ok_groups [OF rollup_groups_result [of e raw lines m]] by auto
  then show ?thesis using group_exact by (auto simp: ledger_ok_def all_values_def)
qed

definition demo_rollup :: rollup_env where
  "demo_rollup = \<lparr>rollup_now = 1754000000, PRICE_PER_COIN = 1, monthOf = (\<lambda>t. if t < 1753900000 then ''2025-07'' else ''2025-08''),
     priceOf = (\<lambda>d. if d = ''{\"price\":5}'' then Some (Some 5) else None),
     parse_sale = (\<lambda>l. if l = ''{\"ts\":1753800000,\"coins\":3}'' then Some \<lparr>sale_ts = Some 1753800000, sale_coins = Some 3\<rparr> else None),
     store_ready = True, store_writes = True\<rparr>"

definition demo_group :: "int \<Rightarrow> voucher_group" where
  "demo_group used = \<lparr>vg_name = ''AUTOGEN: P5 Maria'', vg_description = ''{\"price\":5}'', vg_id = ''g1'',
     vg_usedCount = Some used, vg_createdTime = 1753800000000\<rparr>"

lemma ledger_ok_empty [simp]: "ledger_ok empty_money"
  by (simp add: ledger_ok_def empty_money_def obj_ok_def)

theorem ledger_adds_up_witness:
  "ledger_ok (fst (moneyNightlyRollup demo_rollup (Some [demo_group 4]) [] empty_money))
   \<and> moneyGroupUsed ''g1'' (fst (moneyNightlyRollup demo_rollup (Some [demo_group 4]) [] empty_money)) = 4"
proof -
  have "moneyGroupUsed ''g1'' (fst (moneyNightlyRollup demo_rollup (Some [demo_group 4]) [] empty_money)) = 4"
    by code_simp
  then show ?thesis using ledger_adds_up [OF ledger_ok_empty] by blast
qed

text \<open>Beyond 32 bits the ledger is wrong. An import of a million vouchers at 200 pesos, a revenue that still
  fits, records a negative commission: the product with the rate does not fit.\<close>
theorem commission_overflows:
  "map_of (money_groups (fst (moneyImport True 0 True (Some \<lparr>in_groups = [(''g0'', \<lparr>ig_name = None, ig_seller = None,
       ig_month = None, ig_used = Some 1000000, ig_price = Some 200, ig_rate = Some 20, ig_seen = None, ig_deleted = None\<rparr>)],
     in_income = []\<rparr>) empty_money))) ''g0''
   = Some \<lparr>mg_name = [], mg_seller = [], mg_month = [], mg_used = 1000000, mg_price = 200, mg_rate = 20,
       mg_revenue = 200000000, mg_commission = - 2949672, mg_deleted = False, mg_seen = 0\<rparr>"
  by code_simp

text \<open>Sold vouchers are never forgotten. A rollup keeps the ledger entry of every group that the
  controller no longer lists: name, seller, counts, revenue and commission stay, and the entry
  is only marked deleted; when the controller could not be read nothing of the ledger changes.\<close>
theorem rollup_keeps_vanished_groups:
  assumes "i \<notin> set (autogen_ids gs)"
  shows "map_of (money_groups (fst (moneyNightlyRollup e (Some gs) lines m))) i
       = map_option (\<lambda>g. g\<lparr>mg_deleted := True\<rparr>) (map_of (money_groups m) i)
     \<and> money_groups (fst (moneyNightlyRollup e None lines m)) = money_groups m"
proof -
  obtain m' day live where f: "fold (rollup_group e) gs (m, [], []) = (m', day, live)"
    by (metis prod_cases3)
  from rollup_fold [OF f] assms
  have "map_of (money_groups m') i = map_of (money_groups m) i" "set live = set (autogen_ids gs)"
    by simp_all
  with assms show ?thesis
    by (simp add: rollup_groups_result rollup_ledger_def rollup_groups_def f map_of_absent)
qed

theorem rollup_keeps_vanished_groups_witness:
  "(let m = moneyUpsertGroup ''g0'' ''AUTOGEN: P5 Ana'' ''Ana'' ''2025-06'' 9 5 20 0 empty_money in
    map_of (money_groups (fst (moneyNightlyRollup demo_rollup (Some [demo_group 4]) [] m))) ''g0''
      = map_option (\<lambda>g. g\<lparr>mg_deleted := True\<rparr>) (map_of (money_groups m) ''g0''))
   \<and> ''g0'' \<notin> set (autogen_ids [demo_group 4])"
proof -
  have "''g0'' \<notin> set (autogen_ids [demo_group 4])" by (simp add: autogen_ids_def demo_group_def)
  from rollup_keeps_vanished_groups [OF this] this show ?thesis by (simp add: Let_def)
qed

text \<open>Redemptions are journalled once. With distinct group ids, the seller journal line of a
  rollup gives each seller the redeemed-as-sold credit of his groups since the previous rollup, as a
  32-bit sum, and a second rollup on the same controller data writes no line.\<close>
theorem seller_day_counts_once:
  assumes "distinct (autogen_ids gs)"
  shows "(\<forall>s. omap_get 0 (snd (rollup_groups e gs m)) s = long32 (\<Sum>g\<leftarrow>gs. credit_to e m s g))
     \<and> snd (moneyNightlyRollup e (Some gs) lines' (fst (moneyNightlyRollup e (Some gs) lines m))) = None"
proof -
  obtain m' day live where f: "fold (rollup_group e) gs (m, [], []) = (m', day, live)"
    by (metis prod_cases3)
  have z: "omap_get 0 ([] :: (string \<times> int) list) s = 0" for s by (simp add: omap_get_def)
  then have "\<forall>s. in_long (omap_get 0 ([] :: (string \<times> int) list) s)" by simp
  note d = rollup_fold_day [OF f omap_ok_Nil assms this]
  let ?m1 = "fst (moneyNightlyRollup e (Some gs) lines m)"
  have g1: "money_groups ?m1 = money_groups (moneyMarkAbsent live m')"
    by (simp add: rollup_groups_result rollup_ledger_def rollup_groups_def f)
  have "credit e ?m1 g = 0" if "g \<in> set gs" for g
    using rollup_fold_used [OF f assms that] rollup_fold [OF f] that
    by (auto simp: credit_def moneyGroupUsed_def g1 map_of_absent autogen_ids_def split: option.splits)
  moreover obtain m2 day2 live2 where f2: "fold (rollup_group e) gs (?m1, [], []) = (m2, day2, live2)"
    by (metis prod_cases3)
  ultimately have "day2 = []" using rollup_fold_day [OF f2 omap_ok_Nil assms] z by simp
  with d f f2 show ?thesis
    by (simp add: rollup_groups_def moneyNightlyRollup_def z)
qed

theorem seller_day_counts_once_witness:
  "snd (rollup_groups demo_rollup [demo_group 4] empty_money) = [(''Maria'', 20)]
   \<and> snd (moneyNightlyRollup demo_rollup (Some [demo_group 4]) []
        (fst (moneyNightlyRollup demo_rollup (Some [demo_group 4]) [] empty_money))) = None"
proof -
  have "distinct (autogen_ids [demo_group 4])" by (simp add: autogen_ids_def)
  from seller_day_counts_once [OF this]
  have "snd (moneyNightlyRollup demo_rollup (Some [demo_group 4]) []
        (fst (moneyNightlyRollup demo_rollup (Some [demo_group 4]) [] empty_money))) = None" by blast
  moreover have "snd (rollup_groups demo_rollup [demo_group 4] empty_money) = [(''Maria'', 20)]"
    by code_simp
  ultimately show ?thesis by simp
qed

text \<open>C17: An import never lowers a count. After an import every group the record knew has at least
  its old used count, and every imported group has at least the imported one.\<close>
theorem import_never_lowers:
  assumes "map_of (money_groups m) i \<noteq> None" and "(j, s) \<in> set (in_groups d)"
  shows "moneyGroupUsed i m \<le> moneyGroupUsed i (fst (moneyImport ready now written (Some d) m))
     \<and> or_else (ig_used s) 0 \<le> moneyGroupUsed j (fst (moneyImport ready now written (Some d) m))"
  using import_groups_mono [of "(m, 0)" i "in_groups d"] import_groups_reach [OF assms(2), of "(m, 0)"]
    assms(1) used_groups [OF import_groups_result [of ready now written d m]]
  by simp

definition demo_import :: import_doc where
  "demo_import = \<lparr>in_groups =
     [(''g0'', \<lparr>ig_name = None, ig_seller = None, ig_month = None, ig_used = Some 3, ig_price = Some 5,
        ig_rate = Some 20, ig_seen = None, ig_deleted = Some True\<rparr>)],
     in_income = [(''2025-06'', \<lparr>ii_vendo = None, ii_voucher = Some 45\<rparr>)]\<rparr>"

theorem import_never_lowers_witness:
  "let m = moneyUpsertGroup ''g0'' ''AUTOGEN: P5 Ana'' ''Ana'' ''2025-06'' 9 5 20 0 empty_money in
   9 \<le> moneyGroupUsed ''g0'' (fst (moneyImport True 0 True (Some demo_import) m))"
proof -
  let ?m = "moneyUpsertGroup ''g0'' ''AUTOGEN: P5 Ana'' ''Ana'' ''2025-06'' 9 5 20 0 empty_money"
  have k: "map_of (money_groups ?m) ''g0'' \<noteq> None" "moneyGroupUsed ''g0'' ?m = 9"
    by (simp_all add: moneyUpsertGroup_def moneyGroupUsed_def)
  have "(''g0'', snd (hd (in_groups demo_import))) \<in> set (in_groups demo_import)"
    by (simp add: demo_import_def)
  from import_never_lowers [OF k(1) this, of True 0 True] k(2) show ?thesis by (simp add: Let_def)
qed

text \<open>What the nightly rollup makes of a month, in 32-bit sums. Its voucher income is the revenue of the ledger
  groups of that month. Its vendo income is the sum of the sales still in the sale log when the
  log has any line of the month, whatever the record said before, and the old value otherwise.\<close>
theorem rollup_income_exact:
  "stored_income k (fst (moneyNightlyRollup e raw lines m)) =
     \<lparr>inc_vendo = (if k \<in> fst ` set (List.map_filter (sale_income (monthOf e) (parse_sale e) (PRICE_PER_COIN e)) lines)
        then long32 (\<Sum>(month, n)\<leftarrow>List.map_filter (sale_income (monthOf e) (parse_sale e) (PRICE_PER_COIN e)) lines.
                 if month = k then n else 0)
        else inc_vendo (stored_income k m)),
      inc_voucher = long32 (\<Sum>(i, g)\<leftarrow>money_groups (rollup_ledger e raw m). if mg_month g = k then mg_revenue g else 0)\<rparr>"
proof -
  have "money_incomes (rollup_ledger e raw m) = money_incomes m"
  proof (cases raw)
    case (Some gs)
    have "money_incomes (fst (fold (rollup_group e) gs (m, [], []))) = money_incomes m"
      by (rule fold_inv [where P = "\<lambda>acc. money_incomes (fst acc) = money_incomes m"])
        (auto simp: rollup_group_def moneyUpsertGroup_def Let_def)
    moreover obtain m' day live where "fold (rollup_group e) gs (m, [], []) = (m', day, live)"
      by (metis prod_cases3)
    ultimately show ?thesis
      by (simp add: Some rollup_ledger_def rollup_groups_def moneyMarkAbsent_def)
  qed (simp add: rollup_ledger_def)
  then have "stored_income k (rollup_ledger e raw m) = stored_income k m"
    by (simp add: stored_income_def)
  then show ?thesis by (simp add: rollup_income_result rollup_income_exact_aux)
qed

text \<open>A purge of the sale log loses income. There are a record and a sale log whose older lines of
  a month have been purged, such that the next rollup lowers the month's vendo income from 500
  to the 3 pesos of the one line left; the voucher income of a month without ledger groups is
  lowered to 0 as well.\<close>
theorem rollup_overwrites_purged_month:
  "\<exists>m lines. stored_income ''2025-07'' m = \<lparr>inc_vendo = 500, inc_voucher = 45\<rparr>
     \<and> stored_income ''2025-07'' (fst (moneyNightlyRollup demo_rollup None lines m))
         = \<lparr>inc_vendo = 3, inc_voucher = 0\<rparr>"
proof (intro exI conjI)
  let ?m = "moneySetIncome ''2025-07'' 500 45 empty_money"
  show "stored_income ''2025-07'' ?m = \<lparr>inc_vendo = 500, inc_voucher = 45\<rparr>" by simp
  show "stored_income ''2025-07'' (fst (moneyNightlyRollup demo_rollup None [''{\"ts\":1753800000,\"coins\":3}''] ?m))
      = \<lparr>inc_vendo = 3, inc_voucher = 0\<rparr>" by code_simp
qed

end
