(* ===== verification/Json.thy ===== *)
theory Json
  imports Containers
begin

text \<open>
  JSON documents as trees, with the accessors of the ArduinoJson library that the sources use:
  a missing member is null, and \<open>v | d\<close> is the value of \<open>v\<close> when it has the type of the
  default \<open>d\<close> (in its range) and \<open>d\<close> otherwise. Parsing and printing are parameters of the
  components that read and write text.
\<close>

datatype json =
    JNull
  | JBool bool
  | JNum int
  | JStr string
  | JArr "json list"
  | JObj "(string \<times> json) list"

fun members :: "json \<Rightarrow> (string \<times> json) list" where
  "members (JObj m) = m"
| "members _ = []"

fun elements :: "json \<Rightarrow> json list" where
  "elements (JArr xs) = xs"
| "elements _ = []"

definition jget :: "json \<Rightarrow> string \<Rightarrow> json" where
  "jget v k = (case map_of (members v) k of None \<Rightarrow> JNull | Some x \<Rightarrow> x)"

fun is_null :: "json \<Rightarrow> bool" where
  "is_null JNull = True"
| "is_null _ = False"

fun is_obj :: "json \<Rightarrow> bool" where
  "is_obj (JObj _) = True"
| "is_obj _ = False"

fun is_str :: "json \<Rightarrow> bool" where
  "is_str (JStr _) = True"
| "is_str _ = False"

text \<open>\<open>is<long long>() || is<unsigned long long>()\<close>.\<close>

fun is_integer :: "json \<Rightarrow> bool" where
  "is_integer (JNum n) = (- (2 ^ 63) \<le> n \<and> n < 2 ^ 64)"
| "is_integer _ = False"

fun str_or :: "string \<Rightarrow> json \<Rightarrow> string" where
  "str_or d (JStr s) = s"
| "str_or d _ = d"

fun int_or :: "int \<Rightarrow> json \<Rightarrow> int" where
  "int_or d (JNum n) = (if - (2 ^ 31) \<le> n \<and> n < 2 ^ 31 then n else d)"
| "int_or d _ = d"

fun u64_or :: "u64 \<Rightarrow> json \<Rightarrow> u64" where
  "u64_or d (JNum n) = (if 0 \<le> n \<and> n < 2 ^ 64 then word_of_int n else d)"
| "u64_or d _ = d"

fun bool_or :: "bool \<Rightarrow> json \<Rightarrow> bool" where
  "bool_or d (JBool b) = b"
| "bool_or d _ = d"

text \<open>\<open>as<String>()\<close>: a text as it is, another scalar as its JSON text. The sources take it only of
  scalars.\<close>

fun as_text :: "json \<Rightarrow> string" where
  "as_text (JStr s) = s"
| "as_text (JNum n) = dec_int n"
| "as_text (JBool b) = (if b then ''true'' else ''false'')"
| "as_text JNull = ''null''"
| "as_text _ = []"

text \<open>\<open>as<int>()\<close> and \<open>as<uint64_t>()\<close>: 0 for what is no number in range.\<close>

definition as_int :: "json \<Rightarrow> int" where "as_int v = int_or 0 v"

definition as_u64 :: "json \<Rightarrow> u64" where "as_u64 v = u64_or 0 v"

text \<open>\<open>doc[k] = v\<close>: a null document becomes an object; other values refuse the member.\<close>

fun jset :: "string \<Rightarrow> json \<Rightarrow> json \<Rightarrow> json" where
  "jset k v (JObj m) = JObj (obj_set k v m)"
| "jset k v JNull = JObj [(k, v)]"
| "jset k v x = x"

lemma jget_simps [simp]:
  "jget JNull k = JNull" "jget (JObj []) k = JNull"
  "jget (JObj ((a, b) # m)) k = (if k = a then b else jget (JObj m) k)"
  by (simp_all add: jget_def)

lemma jget_jset [simp]: "is_null x \<or> is_obj x \<Longrightarrow> jget (jset k v x) j = (if j = k then v else jget x j)"
  by (cases x) (simp_all add: jget_def)

lemma is_obj_jset [simp]: "is_null x \<or> is_obj x \<Longrightarrow> is_obj (jset k v x)"
  by (cases x) simp_all

end
