(* ===== verification/Files.thy ===== *)
theory Files
  imports Json Wire LogBuffer
begin

text \<open>
  The files of \<open>src/files.cpp\<close> other than the configuration: the append-only logs, their purge at
  start-up, the paused-session files, and the log front end of \<open>logger.h\<close>. A file system maps
  paths to contents; a failing open is a parameter of the operation, and so is what the flash does with
  the purge's copy. \<open>serializeJson\<close> is the parameter \<open>ser\<close>.
\<close>

type_synonym fs = "string \<Rightarrow> string option"

abbreviation NTP_EPOCH_MIN :: int where "NTP_EPOCH_MIN \<equiv> 1000000000"

definition NL :: string where "NL = [CHR 0x0A]"
definition CRLF :: string where "CRLF = [CHR 0x0D, CHR 0x0A]"

definition fsExists :: "fs \<Rightarrow> string \<Rightarrow> bool" where "fsExists fs path \<longleftrightarrow> fs path \<noteq> None"

definition append_file :: "bool \<Rightarrow> string \<Rightarrow> string \<Rightarrow> fs \<Rightarrow> fs" where
  "append_file opened path text fs =
     (if \<not> opened then fs
      else fs(path \<mapsto> (case fs path of None \<Rightarrow> text | Some old \<Rightarrow> old @ text)))"

text \<open>The lines that \<open>readStringUntil('\n')\<close> returns until nothing is available.\<close>

fun lines_of :: "string \<Rightarrow> string list" where
  "lines_of [] = []"
| "lines_of (c # cs) =
     (if c = CHR 0x0A then [] # lines_of cs
      else case lines_of cs of [] \<Rightarrow> [[c]] | l # ls \<Rightarrow> (c # l) # ls)"

section \<open>The purge at start-up\<close>

definition TS_KEY :: string where "TS_KEY = ''\"ts\":''"

definition line_ts :: "string \<Rightarrow> int" where
  "line_ts line = (case index_of TS_KEY line of None \<Rightarrow> 0 | Some i \<Rightarrow> atol (drop (i + 5) line))"

definition too_old :: "int \<Rightarrow> string \<Rightarrow> bool" where
  "too_old cutoff line \<longleftrightarrow> line_ts line \<ge> NTP_EPOCH_MIN \<and> line_ts line < cutoff"

fun count_surviving :: "int \<Rightarrow> string list \<Rightarrow> nat \<Rightarrow> nat" where
  "count_surviving cutoff [] n = n"
| "count_surviving cutoff (l # ls) n =
     (if trim l = [] \<or> too_old cutoff (trim l) then count_surviving cutoff ls n
      else count_surviving cutoff ls (Suc n))"

fun purge_copy :: "int \<Rightarrow> nat \<Rightarrow> string list \<Rightarrow> nat \<Rightarrow> string \<Rightarrow> string" where
  "purge_copy cutoff skip [] idx out = out"
| "purge_copy cutoff skip (l # ls) idx out =
     (if trim l = [] then purge_copy cutoff skip ls idx out
      else if too_old cutoff (trim l) then purge_copy cutoff skip ls idx out
      else if idx < skip then purge_copy cutoff skip ls (Suc idx) out
      else purge_copy cutoff skip ls (Suc idx) (out @ trim l @ CRLF))"

text \<open>What the flash does during a purge: the three opens, what of the printed lines is in the copy when it is
  closed, the removal of the log and the renaming of the copy, whose results the code does not look at.\<close>

record purge_io =
  src_opens :: bool
  src_reopens :: bool
  dst_opens :: bool
  stored :: "string \<Rightarrow> string"
  src_removed :: bool
  dst_renamed :: bool

definition flash_ok :: purge_io where
  "flash_ok = \<lparr>src_opens = True, src_reopens = True, dst_opens = True, stored = (\<lambda>t. t), src_removed = True, dst_renamed = True\<rparr>"

abbreviation tmpPath :: string where "tmpPath \<equiv> ''/log_tmp.dat''"

definition purgeOldLogEntries :: "purge_io \<Rightarrow> int \<Rightarrow> string \<Rightarrow> int \<Rightarrow> nat \<Rightarrow> fs \<Rightarrow> fs" where
  "purgeOldLogEntries io now path maxAge maxEntries fs =
     (case fs path of
        None \<Rightarrow> fs
      | Some content \<Rightarrow>
          if \<not> src_opens io then fs
          else let ls = lines_of content; cutoff = now - maxAge; surviving = count_surviving cutoff ls 0;
                   skip = (if maxEntries > 0 \<and> surviving > maxEntries then surviving - maxEntries else 0)
               in if \<not> src_reopens io \<or> \<not> dst_opens io then fs
                  else let fs1 = fs(tmpPath \<mapsto> stored io (purge_copy cutoff skip ls 0 []));
                           fs2 = (if src_removed io then fs1(path := None) else fs1)
                       in if dst_renamed io then fs2(path := fs2 tmpPath, tmpPath := None) else fs2)"

definition setupLogs :: "(string \<Rightarrow> purge_io) \<Rightarrow> int \<Rightarrow> fs \<Rightarrow> fs" where
  "setupLogs io now fs =
     fold (\<lambda>(path, age, cap). purgeOldLogEntries (io path) now path age cap)
       [(''/errors.log'', 86400, 500), (''/activity.log'', 7 * 86400, 1000), (''/refunds.log'', 86400, 0),
        (''/vendo_history.json'', 365 * 86400, 0), (''/voucher_history.json'', 365 * 86400, 0),
        (''/seller_days.json'', 365 * 86400, 0)] fs"

section \<open>Appending\<close>

definition appendErrorLog :: "(json \<Rightarrow> string) \<Rightarrow> bool \<Rightarrow> int \<Rightarrow> int \<Rightarrow> string \<Rightarrow> string \<Rightarrow> fs \<Rightarrow> fs" where
  "appendErrorLog ser opened now ms tag msg =
     append_file opened ''/errors.log''
       (ser (JObj ((if now < NTP_EPOCH_MIN then [(''ts'', JNum 0), (''ms'', JNum ms)] else [(''ts'', JNum now)])
              @ [(''tag'', JStr tag), (''msg'', JStr msg)])) @ NL)"

definition appendRefundLog ::
  "(json \<Rightarrow> string) \<Rightarrow> bool \<Rightarrow> int \<Rightarrow> string \<Rightarrow> int \<Rightarrow> int \<Rightarrow> string \<Rightarrow> fs \<Rightarrow> fs" where
  "appendRefundLog ser opened now mac coins minutes code =
     append_file opened ''/refunds.log''
       (ser (JObj [(''ts'', JNum now), (''mac'', JStr mac), (''coins'', JNum coins),
                   (''minutes'', JNum minutes), (''code'', JStr code)]) @ NL)"

definition appendSaleLog :: "(json \<Rightarrow> string) \<Rightarrow> bool \<Rightarrow> int \<Rightarrow> int \<Rightarrow> int \<Rightarrow> string \<Rightarrow> fs \<Rightarrow> fs" where
  "appendSaleLog ser opened now coins minutes nodeMac =
     append_file opened ''/vendo_history.json''
       (ser (JObj ([(''ts'', JNum now), (''coins'', JNum coins), (''min'', JNum minutes)]
              @ (if nodeMac = [] then [] else [(''node'', JStr nodeMac)]))) @ NL)"

definition appendActivityLog ::
  "(json \<Rightarrow> string) \<Rightarrow> bool \<Rightarrow> int \<Rightarrow> string \<Rightarrow> string \<Rightarrow> int \<Rightarrow> int \<Rightarrow> string \<Rightarrow> fs \<Rightarrow> fs" where
  "appendActivityLog ser opened now action mac coins remainingMin node =
     append_file opened ''/activity.log''
       (ser (JObj ([(''ts'', JNum now), (''action'', JStr action), (''mac'', JStr mac)]
              @ (if coins = 0 then [] else [(''coins'', JNum coins)])
              @ (if remainingMin < 0 then [] else [(''remain'', JNum remainingMin)])
              @ (if node = [] then [] else [(''node'', JStr node)]))) @ NL)"

text \<open>\<open>forward\<close>: the callback that a slave's network set-up installs; the last result is the
  forwarded entry.\<close>

definition logCore ::
  "(json \<Rightarrow> string) \<Rightarrow> bool \<Rightarrow> bool \<Rightarrow> bool \<Rightarrow> u32 \<Rightarrow> int \<Rightarrow> char \<Rightarrow> string \<Rightarrow> string \<Rightarrow> log_buffer \<Rightarrow> fs
     \<Rightarrow> log_buffer \<times> fs \<times> (char \<times> string \<times> string) option" where
  "logCore ser locked opened forward ms now level tag buf b fs =
     (logDirect locked ms now level tag buf b,
      if level = CHR ''W'' \<or> level = CHR ''E'' then appendErrorLog ser opened now (uint ms) tag buf fs else fs,
      if (level = CHR ''W'' \<or> level = CHR ''E'') \<and> forward then Some (level, tag, buf) else None)"

definition logToBuffer ::
  "(json \<Rightarrow> string) \<Rightarrow> bool \<Rightarrow> bool \<Rightarrow> bool \<Rightarrow> u32 \<Rightarrow> int \<Rightarrow> char \<Rightarrow> string \<Rightarrow> string \<Rightarrow> log_buffer \<Rightarrow> fs
     \<Rightarrow> log_buffer \<times> fs \<times> (char \<times> string \<times> string) option" where
  "logToBuffer ser locked opened forward ms now level tag text =
     logCore ser locked opened forward ms now level tag (cstr 512 text)"

definition refund_chars :: string where "refund_chars = ''ABCDEFGHJKLMNPQRSTUVWXYZ23456789''"

definition generateRefundCode :: "u32 list \<Rightarrow> string" where
  "generateRefundCode randoms = map (\<lambda>r. refund_chars ! (unat r mod 32)) (take 6 randoms)"

section \<open>Paused sessions\<close>

definition macToFilename :: "string \<Rightarrow> string" where
  "macToFilename mac = ''/pause_'' @ replace_char (CHR '':'') [] mac @ ''.dat''"

definition savePausedSessionFile :: "bool \<Rightarrow> string \<Rightarrow> u32 \<Rightarrow> fs \<Rightarrow> fs \<times> bool" where
  "savePausedSessionFile opened mac remaining fs =
     (if \<not> opened then (fs, False)
      else (fs(macToFilename mac \<mapsto> map char_at (put_word 4 remaining)), True))"

definition loadPausedSessionFile :: "bool \<Rightarrow> string \<Rightarrow> fs \<Rightarrow> u32" where
  "loadPausedSessionFile opened mac fs =
     (case fs (macToFilename mac) of
        None \<Rightarrow> 0
      | Some content \<Rightarrow> if \<not> opened then 0 else get_word 0 4 (map byte_of content))"

definition hasPausedSessionFile :: "string \<Rightarrow> fs \<Rightarrow> bool" where
  "hasPausedSessionFile mac fs \<longleftrightarrow> fsExists fs (macToFilename mac)"

definition deletePausedSessionFile :: "string \<Rightarrow> fs \<Rightarrow> fs" where
  "deletePausedSessionFile mac fs =
     (if fsExists fs (macToFilename mac) then fs(macToFilename mac := None) else fs)"

lemma load_save [simp]:
  "loadPausedSessionFile True mac (fs(macToFilename mac \<mapsto> map char_at (put_word 4 r))) = r"
  by (simp add: loadPausedSessionFile_def get_word_def get_put_word comp_def)

section \<open>Lemmas on lines\<close>

lemma lines_of_nonempty: "cs \<noteq> [] \<Longrightarrow> lines_of cs \<noteq> []"
  by (cases cs) (auto split: list.splits)

lemma lines_of_line: "CHR 0x0A \<notin> set l \<Longrightarrow> lines_of (l @ CHR 0x0A # cs) = l # lines_of cs"
  by (induction l) auto

lemma lines_of_no_newline: "l \<in> set (lines_of cs) \<Longrightarrow> CHR 0x0A \<notin> set l"
  by (induction cs arbitrary: l rule: lines_of.induct) (auto split: if_splits list.splits)

lemma trim_set: "set (trim l) \<subseteq> set l"
proof
  fix x
  assume "x \<in> set (trim l)"
  then have "x \<in> set (dropWhile is_space (rev (dropWhile is_space l)))" by (simp add: trim_def)
  then have "x \<in> set (dropWhile is_space l)" using set_dropWhileD by fastforce
  then show "x \<in> set l" by (rule set_dropWhileD)
qed

lemma hd_dropWhile_not: "dropWhile P xs \<noteq> [] \<Longrightarrow> \<not> P (hd (dropWhile P xs))"
  by (rule hd_dropWhile)

lemma trim_trim_cr: "trim (trim l @ [CHR 0x0D]) = trim l"
proof (cases "trim l = []")
  case True
  show ?thesis unfolding True by (simp add: trim_def is_space_def)
next
  case False
  let ?a = "dropWhile is_space l"
  let ?r = "dropWhile is_space (rev ?a)"
  have t: "trim l = rev ?r" by (simp add: trim_def)
  with False have r: "?r \<noteq> []" by simp
  then have last: "\<not> is_space (hd ?r)" by (rule hd_dropWhile)
  from r have "?a \<noteq> []" by (metis dropWhile.simps(1) rev.simps(1))
  then have "\<not> is_space (hd ?a)" by (rule hd_dropWhile)
  moreover have "hd (rev ?r) = hd ?a"
  proof -
    have "?a = rev ?r @ rev (takeWhile is_space (rev ?a))"
      by (metis rev_append rev_rev_ident takeWhile_dropWhile_id)
    with r show ?thesis by (metis hd_append2 rev_is_Nil_conv)
  qed
  ultimately have first: "\<not> is_space (hd (rev ?r))" by simp
  from r obtain c cs where c: "rev ?r = c # cs" by (cases "rev ?r") auto
  have "dropWhile is_space (rev ?r @ [CHR 0x0D]) = rev ?r @ [CHR 0x0D]"
    using first by (simp add: c)
  moreover have "dropWhile is_space (rev (rev ?r @ [CHR 0x0D])) = ?r"
    using last r by (cases ?r) (auto simp: is_space_def)
  ultimately show ?thesis unfolding t by (simp add: trim_def)
qed

section \<open>What the purge keeps\<close>

text \<open>The entries of a log as its readers see them.\<close>

definition entries_of :: "string \<Rightarrow> string list" where
  "entries_of content = filter (\<lambda>l. l \<noteq> []) (map trim (lines_of content))"

lemma count_surviving_filter:
  "count_surviving cutoff ls n = n + length (filter (\<lambda>l. \<not> too_old cutoff l) (filter (\<lambda>l. l \<noteq> []) (map trim ls)))"
  by (induction cutoff ls n rule: count_surviving.induct) auto

lemma purge_copy_filter:
  "purge_copy cutoff skip ls idx out =
     out @ concat (map (\<lambda>l. l @ CRLF)
       (drop (skip - idx) (filter (\<lambda>l. \<not> too_old cutoff l) (filter (\<lambda>l. l \<noteq> []) (map trim ls)))))"
proof (induction cutoff skip ls idx out rule: purge_copy.induct)
  case (2 cutoff skip l ls idx out)
  then show ?case
    by (cases "idx < skip") (auto simp: Suc_diff_Suc [symmetric])
qed simp

lemma entries_concat:
  assumes "\<forall>l \<in> set ls. l \<noteq> [] \<and> CHR 0x0A \<notin> set l \<and> (\<exists>x. l = trim x)"
  shows "entries_of (concat (map (\<lambda>l. l @ CRLF) ls)) = ls"
  using assms
proof (induction ls)
  case (Cons l ls)
  then have "CHR 0x0A \<notin> set (l @ [CHR 0x0D])" by simp
  then have "lines_of (l @ CRLF @ rest) = (l @ [CHR 0x0D]) # lines_of rest" for rest
    using lines_of_line [of "l @ [CHR 0x0D]" rest] by (simp add: CRLF_def)
  moreover from Cons.prems obtain x where "l = trim x" by auto
  then have "trim (l @ [CHR 0x0D]) = l" by (simp add: trim_trim_cr)
  ultimately show ?case using Cons by (simp add: entries_of_def)
qed (simp add: entries_of_def)

lemma entry_shape:
  "l \<in> set (entries_of content) \<Longrightarrow> l \<noteq> [] \<and> CHR 0x0A \<notin> set l \<and> (\<exists>x. l = trim x)"
  using trim_set lines_of_no_newline by (fastforce simp: entries_of_def)

definition purged :: "int \<Rightarrow> nat \<Rightarrow> string list \<Rightarrow> string list" where
  "purged cutoff cap es =
     (let kept = filter (\<lambda>l. \<not> too_old cutoff l) es
      in if cap > 0 then last_n cap kept else kept)"

lemma purge_entries_aux:
  assumes "fs path = Some content" and "path \<noteq> tmpPath"
  shows "\<exists>c. purgeOldLogEntries flash_ok now path age cap fs = fs(tmpPath := None, path \<mapsto> c)
     \<and> entries_of c = purged (now - age) cap (entries_of content)"
proof -
  let ?kept = "filter (\<lambda>l. \<not> too_old (now - age) l) (entries_of content)"
  let ?skip = "if cap > 0 \<and> length ?kept > cap then length ?kept - cap else 0"
  let ?c = "concat (map (\<lambda>l. l @ CRLF) (drop ?skip ?kept))"
  have e: "purgeOldLogEntries flash_ok now path age cap fs = fs(tmpPath := None, path \<mapsto> ?c)"
    using assms by (simp add: purgeOldLogEntries_def flash_ok_def count_surviving_filter purge_copy_filter
        entries_of_def Let_def fun_eq_iff)
  have "entries_of ?c = drop ?skip ?kept"
  proof (rule entries_concat)
    have "\<forall>l \<in> set (entries_of content). l \<noteq> [] \<and> CHR 0x0A \<notin> set l \<and> (\<exists>x. l = trim x)"
      using entry_shape by blast
    then show "\<forall>l \<in> set (drop ?skip ?kept). l \<noteq> [] \<and> CHR 0x0A \<notin> set l \<and> (\<exists>x. l = trim x)"
      using set_drop_subset [of ?skip ?kept] by auto
  qed
  also have "\<dots> = purged (now - age) cap (entries_of content)"
    by (auto simp: purged_def last_n_def Let_def)
  finally show ?thesis using e by blast
qed

lemma filter_last_n_filter: "filter P (last_n n (filter P xs)) = last_n n (filter P xs)"
  using set_last_n [of n "filter P xs"] by (auto simp: filter_id_conv)

lemma last_n_idem [simp]: "last_n n (last_n n xs) = last_n n xs"
  by (rule last_n_all) simp

section \<open>Properties\<close>

text \<open>C19: The purge drops only the old and the surplus. The entries of a log after a purge are the
  entries that are undated or young enough, cut to the newest \<open>cap\<close> of them when a cap is set,
  each unchanged and in order, and no other file is touched but the temporary copy, which is gone;
  a second purge at the same time changes nothing more. The flash has room for the copy.\<close>
theorem purge_keeps_newest:
  assumes "fs path = Some content" and "path \<noteq> tmpPath"
  shows "\<exists>c. purgeOldLogEntries flash_ok now path age cap fs = fs(tmpPath := None, path \<mapsto> c)
     \<and> entries_of c = purged (now - age) cap (entries_of content)
     \<and> (\<exists>c'. purgeOldLogEntries flash_ok now path age cap (fs(tmpPath := None, path \<mapsto> c)) = fs(tmpPath := None, path \<mapsto> c')
          \<and> entries_of c' = entries_of c)"
proof -
  obtain c where c: "purgeOldLogEntries flash_ok now path age cap fs = fs(tmpPath := None, path \<mapsto> c)"
    "entries_of c = purged (now - age) cap (entries_of content)"
    using purge_entries_aux [of fs path content, OF assms] by blast
  let ?fs = "fs(tmpPath := None, path \<mapsto> c)"
  have "?fs path = Some c" by simp
  from purge_entries_aux [where path = path and fs = ?fs, OF this assms(2), of now age cap] obtain c' where
    "purgeOldLogEntries flash_ok now path age cap ?fs = ?fs(tmpPath := None, path \<mapsto> c')"
    "entries_of c' = purged (now - age) cap (entries_of c)" by auto
  moreover have "?fs(tmpPath := None, path \<mapsto> c') = fs(tmpPath := None, path \<mapsto> c')" using assms(2) by (auto simp: fun_eq_iff)
  ultimately have c': "purgeOldLogEntries flash_ok now path age cap ?fs = fs(tmpPath := None, path \<mapsto> c')"
    "entries_of c' = purged (now - age) cap (entries_of c)" by simp_all
  have "purged (now - age) cap (entries_of c) = entries_of c"
    by (simp add: c(2) purged_def Let_def filter_last_n_filter)
  with c c' show ?thesis by (intro exI [of _ c] exI [of _ c'] conjI) simp_all
qed

theorem purge_keeps_newest_witness:
  "\<exists>c. purgeOldLogEntries flash_ok 1754000000 ''/errors.log'' 86400 2
       (Map.empty(''/errors.log'' \<mapsto> ''{\"ts\":1753000000}'' @ NL @ ''{\"ts\":0}'' @ NL @ ''{\"ts\":1753999999}'' @ NL))
     = Map.empty(tmpPath := None, ''/errors.log'' \<mapsto> c)
     \<and> entries_of c = [''{\"ts\":0}'', ''{\"ts\":1753999999}'']"
proof -
  let ?t = "''{\"ts\":1753000000}'' @ NL @ ''{\"ts\":0}'' @ NL @ ''{\"ts\":1753999999}'' @ NL"
  let ?fs = "Map.empty(''/errors.log'' \<mapsto> ?t) :: fs"
  have f: "?fs ''/errors.log'' = Some ?t" by simp
  have "purged (1754000000 - 86400) 2 (entries_of ?t) = [''{\"ts\":0}'', ''{\"ts\":1753999999}'']"
    by code_simp
  moreover obtain c where "purgeOldLogEntries flash_ok 1754000000 ''/errors.log'' 86400 2 ?fs = ?fs(tmpPath := None, ''/errors.log'' \<mapsto> c)"
    "entries_of c = purged (1754000000 - 86400) 2 (entries_of ?t)"
    using purge_keeps_newest [of ?fs "''/errors.log''" ?t, OF f, of 1754000000 86400 2] by auto
  ultimately show ?thesis by (intro exI [of _ c]) (simp add: fun_eq_iff)
qed

text \<open>The purge trusts the flash. With no room for the copy the lines it prints are lost without a word and the
  empty copy takes the place of the log; when the copy cannot be renamed the log is gone, too. What
  was young enough to keep is lost with the rest.\<close>
theorem purge_on_full_flash_loses_log:
  assumes "fs path = Some content" and "path \<noteq> tmpPath"
  shows "purgeOldLogEntries (flash_ok\<lparr>stored := (\<lambda>t. [])\<rparr>) now path age cap fs path = Some []
    \<and> purgeOldLogEntries (flash_ok\<lparr>dst_renamed := False\<rparr>) now path age cap fs path = None"
  using assms by (simp add: purgeOldLogEntries_def flash_ok_def Let_def)

theorem purge_on_full_flash_loses_log_witness:
  "purgeOldLogEntries (flash_ok\<lparr>stored := (\<lambda>t. [])\<rparr>) 1754000000 ''/vendo_history.json'' 31536000 0
     (Map.empty(''/vendo_history.json'' \<mapsto> ''{\"ts\":1753999999}'' @ NL)) ''/vendo_history.json'' = Some []"
  using purge_on_full_flash_loses_log [of "Map.empty(''/vendo_history.json'' \<mapsto> ''{\"ts\":1753999999}'' @ NL)" "''/vendo_history.json''"] by simp

end
