(* ===== verification/Config.thy ===== *)
theory Config
  imports Files
begin

text \<open>
  The configuration (\<open>src/files.cpp\<close>, \<open>src/reprovision.cpp\<close>): loading with an active
  environment, masking of secrets, the merge of a posted form and its validation, the recovery
  portal that posts such a form, the serial provisioning commands and the WiFi recovery loop.
  A configuration is a JSON tree; the file holds its text, read and written through the
  parameters \<open>parse\<close> and \<open>ser\<close>.
\<close>

section \<open>Loading\<close>

record config =
  MANAGEMENT_SSID :: string
  MANAGEMENT_PASSWORD :: string
  CONTROLLER_BASE_URL :: string
  CONTROLLER_ID :: string
  ADMIN_USERNAME :: string
  ADMIN_PASSWORD :: string
  cfg_MASTER_MAC :: string
  cfg_NET_KEY :: u64
  MINUTES_PER_COIN :: int
  cfg_PRICE_PER_COIN :: int
  FALLBACK_PRICE_PER_VOUCHER :: int
  HEALTHCHECK_URL :: string
  OMADA_DEVICE_ENABLE :: bool
  STATIC_IP :: string
  STATIC_GATEWAY :: string
  STATIC_SUBNET :: string
  STATIC_DNS :: string

text \<open>The environment block that \<open>active_env\<close> selects: \<open>Inl\<close> when it names none that exists.\<close>

definition active_env :: "json \<Rightarrow> string + json" where
  "active_env doc =
     (let active = str_or [] (jget doc ''active_env'');
          env = jget (jget doc ''environments'') active
      in if active = [] then Inr JNull
         else if is_obj env then Inr env else Inl active)"

definition cfg :: "json \<Rightarrow> json \<Rightarrow> string \<Rightarrow> json" where
  "cfg env doc k = (if \<not> is_null env \<and> \<not> is_null (jget env k) then jget env k else jget doc k)"

definition load_fields :: "json \<Rightarrow> json \<Rightarrow> config" where
  "load_fields env doc =
     (let c = cfg env doc; s = (\<lambda>k. str_or [] (c k)) in
      \<lparr>MANAGEMENT_SSID = s ''wifi_ssid'', MANAGEMENT_PASSWORD = s ''wifi_password'',
       CONTROLLER_BASE_URL = s ''omada_url'', CONTROLLER_ID = s ''omada_controller_id'',
       ADMIN_USERNAME = s ''omada_username'', ADMIN_PASSWORD = s ''omada_password'',
       cfg_MASTER_MAC = s ''master_mac'', cfg_NET_KEY = u64_or 0 (c ''network_key''),
       MINUTES_PER_COIN = int_or 24 (c ''minutes_per_coin''),
       cfg_PRICE_PER_COIN = int_or 1 (c ''price_per_coin''),
       FALLBACK_PRICE_PER_VOUCHER = int_or 5 (c ''fallback_price_per_voucher''),
       HEALTHCHECK_URL = s ''healthchecks_url'',
       OMADA_DEVICE_ENABLE = bool_or False (c ''omada_device_enable''),
       STATIC_IP = s ''static_ip'', STATIC_GATEWAY = s ''static_gateway'',
       STATIC_SUBNET = s ''static_subnet'', STATIC_DNS = s ''static_dns''\<rparr>)"

definition config_complete :: "config \<Rightarrow> bool" where
  "config_complete c \<longleftrightarrow> MANAGEMENT_SSID c \<noteq> [] \<and> MANAGEMENT_PASSWORD c \<noteq> [] \<and> CONTROLLER_BASE_URL c \<noteq> []
     \<and> CONTROLLER_ID c \<noteq> [] \<and> ADMIN_USERNAME c \<noteq> [] \<and> ADMIN_PASSWORD c \<noteq> [] \<and> cfg_NET_KEY c \<noteq> 0"

text \<open>The globals keep their old values when the file cannot be read or names a missing environment.\<close>

definition load_doc :: "json \<Rightarrow> config \<Rightarrow> config \<times> bool" where
  "load_doc doc old =
     (case active_env doc of
        Inl _ \<Rightarrow> (old, False)
      | Inr env \<Rightarrow> (load_fields env doc, config_complete (load_fields env doc)))"

definition loadConfig :: "(string \<Rightarrow> json option) \<Rightarrow> fs \<Rightarrow> config \<Rightarrow> config \<times> bool" where
  "loadConfig parse fs old =
     (case fs ''/config.json'' of
        None \<Rightarrow> (old, False)
      | Some text \<Rightarrow> (case parse text of None \<Rightarrow> (old, False) | Some doc \<Rightarrow> load_doc doc old))"

section \<open>Masking\<close>

text \<open>The eight bullets of the placeholder, in UTF-8.\<close>

definition MASK :: string where
  "MASK = concat (replicate 8 [CHR 0xE2, CHR 0x80, CHR 0xA2])"

definition secret_key :: "string \<Rightarrow> bool" where
  "secret_key key = (let k = to_lower key in
     index_of ''password'' k \<noteq> None \<or> index_of ''secret'' k \<noteq> None \<or> k = ''network_key'')"

fun maskSecrets :: "json \<Rightarrow> json" where
  "maskSecrets (JObj m) =
     JObj (map (\<lambda>(k, v). (k, if secret_key k then JStr MASK else maskSecrets v)) m)"
| "maskSecrets (JArr xs) = JArr (map maskSecrets xs)"
| "maskSecrets v = v"

definition maskedConfigJson :: "(string \<Rightarrow> json option) \<Rightarrow> (json \<Rightarrow> string) \<Rightarrow> fs \<Rightarrow> string" where
  "maskedConfigJson parse ser fs =
     (case fs ''/config.json'' of
        None \<Rightarrow> []
      | Some text \<Rightarrow> (case parse text of None \<Rightarrow> [] | Some doc \<Rightarrow> ser (maskSecrets doc)))"

section \<open>Merging a posted form\<close>

definition numeric_text :: "string \<Rightarrow> bool" where
  "numeric_text s \<longleftrightarrow> s \<noteq> [] \<and> list_all is_digit s"

text \<open>\<open>strtoull\<close> of a text of digits: it saturates at the largest 64-bit value.\<close>

definition strtoull :: "string \<Rightarrow> int" where
  "strtoull s = min (digits_val s) (2 ^ 64 - 1)"

definition merge_field :: "string \<times> json \<Rightarrow> json \<Rightarrow> json" where
  "merge_field kv merged =
     (case kv of
        (k, JStr s) \<Rightarrow>
          if s = MASK then merged
          else if is_integer (jget merged k) \<and> numeric_text s then jset k (JNum (strtoull s)) merged
          else jset k (JStr s) merged
      | (k, v) \<Rightarrow> jset k v merged)"

definition required_fields :: "string list" where
  "required_fields = [''wifi_ssid'', ''wifi_password'', ''omada_url'', ''omada_controller_id'',
     ''omada_username'', ''omada_password'', ''network_key'']"

definition field_missing :: "json \<Rightarrow> json \<Rightarrow> string \<Rightarrow> bool" where
  "field_missing env merged k = (let v = cfg env merged k in is_null v \<or> v = JStr [])"

definition merge_config :: "json \<Rightarrow> json \<Rightarrow> string + json" where
  "merge_config doc current =
     (let merged = fold merge_field (members doc) current in
      case active_env merged of
        Inl active \<Rightarrow> Inl (''active_env \"'' @ active @ ''\" not found in environments'')
      | Inr env \<Rightarrow>
          (case filter (field_missing env merged) required_fields of
             [] \<Rightarrow> Inr merged
           | k # _ \<Rightarrow> Inl (''Missing required field: '' @ k)))"

definition current_config :: "(string \<Rightarrow> json option) \<Rightarrow> fs \<Rightarrow> json" where
  "current_config parse fs =
     (case fs ''/config.json'' of
        None \<Rightarrow> JNull
      | Some text \<Rightarrow> (case parse text of None \<Rightarrow> JNull | Some doc \<Rightarrow> doc))"

definition mergeAndSaveConfig ::
  "(string \<Rightarrow> json option) \<Rightarrow> (json \<Rightarrow> string) \<Rightarrow> bool \<Rightarrow> string \<Rightarrow> fs \<Rightarrow> fs \<times> string option" where
  "mergeAndSaveConfig parse ser opened body fs =
     (case parse body of
        None \<Rightarrow> (fs, Some ''Bad JSON'')
      | Some doc \<Rightarrow>
          (case merge_config doc (current_config parse fs) of
             Inl err \<Rightarrow> (fs, Some err)
           | Inr merged \<Rightarrow>
               if \<not> opened then (fs, Some ''Failed to write'')
               else (fs(''/config.json'' \<mapsto> ser merged), None)))"

section \<open>The recovery portal\<close>

fun is_nested :: "json \<Rightarrow> bool" where
  "is_nested (JObj _) = True"
| "is_nested (JArr _) = True"
| "is_nested _ = False"

definition form_fields :: "json \<Rightarrow> (string \<times> string) list" where
  "form_fields doc = map (\<lambda>(k, v). (k, as_text v)) (filter (\<lambda>(k, v). \<not> is_nested v) (members doc))"

definition provisionFormHtml :: "json \<Rightarrow> string" where
  "provisionFormHtml masked =
     ''<!DOCTYPE html><html><head><meta charset='' @ [CHR 0x27] @ ''utf-8'' @ [CHR 0x27] @ ''>''
     @ ''<meta name=viewport content='' @ [CHR 0x27] @ ''width=device-width,initial-scale=1'' @ [CHR 0x27] @ ''>''
     @ ''<title>EllaFi Setup</title></head>''
     @ ''<body style='' @ [CHR 0x27] @ ''font-family:sans-serif;max-width:480px;margin:auto;padding:1em'' @ [CHR 0x27] @ ''>''
     @ ''<h2>EllaFi Node Setup</h2><p>Update the fields that changed, then Save.</p>''
     @ ''<form method=POST action=/save>''
     @ concat (map (\<lambda>(k, v). ''<label>'' @ k @ ''</label><br>'' @ ''<input name=\"'' @ k @ ''\" value=\"'' @ v
         @ ''\" style='' @ [CHR 0x27] @ ''width:100%;margin-bottom:.7em'' @ [CHR 0x27] @ ''><br>'') (form_fields masked))
     @ ''<button style='' @ [CHR 0x27] @ ''width:100%;padding:.8em;font-size:1em'' @ [CHR 0x27]
     @ ''>Save &amp; Reboot</button></form></body></html>''"

text \<open>The object that \<open>handleProvisionSave\<close> builds from the submitted parameters.\<close>

definition provision_doc :: "json \<Rightarrow> (string \<times> string) list \<Rightarrow> json" where
  "provision_doc masked params =
     fold (\<lambda>(k, _) doc. case map_of params k of None \<Rightarrow> doc | Some v \<Rightarrow> jset k (JStr v) doc)
       (members masked) JNull"

text \<open>The second result: the error page's message, or \<open>None\<close> when the node restarts.\<close>

definition handleProvisionSave ::
  "(string \<Rightarrow> json option) \<Rightarrow> (json \<Rightarrow> string) \<Rightarrow> bool \<Rightarrow> (string \<times> string) list \<Rightarrow> fs \<Rightarrow> fs \<times> string option" where
  "handleProvisionSave parse ser opened params fs =
     mergeAndSaveConfig parse ser opened
       (ser (provision_doc (case parse (maskedConfigJson parse ser fs) of None \<Rightarrow> JNull | Some d \<Rightarrow> d) params)) fs"

section \<open>Serial commands\<close>

text \<open>A character is ignored, ends the line, or extends it; the second result is a complete line.\<close>

definition serial_char :: "char \<Rightarrow> string \<Rightarrow> string \<times> string option" where
  "serial_char c line =
     (if c = CHR 0x0D then (line, None)
      else if c = CHR 0x0A then ([], Some (trim line))
      else (line @ [c], None))"

text \<open>The results say whether the node restarts; it then reads no further character.\<close>

fun runProvisioningMode :: "bool \<Rightarrow> string \<Rightarrow> string \<Rightarrow> fs \<Rightarrow> fs \<times> bool" where
  "runProvisioningMode opened [] line fs = (fs, False)"
| "runProvisioningMode opened (c # cs) line fs =
     (case serial_char c line of
        (line', None) \<Rightarrow> runProvisioningMode opened cs line' fs
      | (line', Some l) \<Rightarrow>
          if starts_with ''CONFIG:'' l \<and> opened then (fs(''/config.json'' \<mapsto> drop 7 l), True)
          else runProvisioningMode opened cs line' fs)"

fun checkSerialCommands :: "string \<Rightarrow> string \<Rightarrow> fs \<Rightarrow> fs \<times> bool" where
  "checkSerialCommands [] line fs = (fs, False)"
| "checkSerialCommands (c # cs) line fs =
     (case serial_char c line of
        (line', None) \<Rightarrow> checkSerialCommands cs line' fs
      | (line', Some l) \<Rightarrow>
          if l = ''FACTORY_RESET'' then (fs(''/config.json'' := None), True)
          else checkSerialCommands cs line' fs)"

section \<open>WiFi recovery\<close>

abbreviation WIFI_RECOVERY_RETRY_MILLIS :: u32 where "WIFI_RECOVERY_RETRY_MILLIS \<equiv> 10000"
abbreviation REPROVISION_HOLD_MILLIS :: u32 where "REPROVISION_HOLD_MILLIS \<equiv> 3000"
abbreviation PROVISION_IDLE_MILLIS :: u32 where "PROVISION_IDLE_MILLIS \<equiv> 300000"
abbreviation PROVISION_MAX_MILLIS :: u32 where "PROVISION_MAX_MILLIS \<equiv> 900000"

record recovery =
  lastRetry :: u32
  pressStart :: u32

datatype recovery_action = RecRestart | RecBegin | RecSoftAp | RecRed | RecPulse

text \<open>One pass of the loop of \<open>runWifiRecovery\<close> at time \<open>now\<close>; after the portal it is \<open>later\<close>.\<close>

definition recovery_step :: "bool \<Rightarrow> bool \<Rightarrow> u32 \<Rightarrow> u32 \<Rightarrow> recovery \<Rightarrow> recovery \<times> recovery_action list" where
  "recovery_step connected pressed now later s =
     (if connected then (s, [RecRestart])
      else let (s1, a) = (if now - lastRetry s > WIFI_RECOVERY_RETRY_MILLIS
                          then (s\<lparr>lastRetry := now\<rparr>, [RecBegin]) else (s, []))
           in if pressed then
                (let s2 = (if pressStart s1 = 0 then s1\<lparr>pressStart := now\<rparr> else s1)
                 in if now - pressStart s2 \<ge> REPROVISION_HOLD_MILLIS
                    then (s2\<lparr>pressStart := 0, lastRetry := later\<rparr>, a @ [RecPulse, RecSoftAp, RecRed, RecBegin])
                    else (s2, a @ [RecPulse]))
              else if pressStart s1 \<noteq> 0 then (s1\<lparr>pressStart := 0\<rparr>, a @ [RecRed])
              else (s1, a))"

text \<open>When the portal's window ends, and the time of the last connected phone.\<close>

definition softap_step :: "u32 \<Rightarrow> bool \<Rightarrow> u32 \<Rightarrow> u32 \<Rightarrow> u32 \<times> bool" where
  "softap_step start station now lastActive =
     (let active = (if station then now else lastActive)
      in (active, now - active > PROVISION_IDLE_MILLIS \<or> now - start > PROVISION_MAX_MILLIS))"

section \<open>Lemmas\<close>

lemma merge_field_str:
  "merge_field (k, JStr s) (JObj m) =
     (if s = MASK then JObj m
      else if is_integer (jget (JObj m) k) \<and> numeric_text s then JObj (obj_set k (JNum (strtoull s)) m)
      else JObj (obj_set k (JStr s) m))"
  by (simp add: merge_field_def)

text \<open>A member whose posted text stands for the stored value is left as it is.\<close>

definition restates :: "json \<Rightarrow> string \<times> json \<Rightarrow> bool" where
  "restates doc kv = (\<exists>s. snd kv = JStr s \<and> (s = MASK
      \<or> jget doc (fst kv) = JStr s \<and> map_of (members doc) (fst kv) = Some (JStr s)
      \<or> (\<exists>n. 0 \<le> n \<and> n < 2 ^ 64 \<and> s = dec (nat n) \<and> map_of (members doc) (fst kv) = Some (JNum n))))"

lemma merge_restated: "restates (JObj m) kv \<Longrightarrow> merge_field kv (JObj m) = JObj m"
proof -
  assume "restates (JObj m) kv"
  then obtain s where s: "kv = (fst kv, JStr s)" "s = MASK \<or> map_of m (fst kv) = Some (JStr s)
      \<or> (\<exists>n. 0 \<le> n \<and> n < 2 ^ 64 \<and> s = dec (nat n) \<and> map_of m (fst kv) = Some (JNum n))"
    by (cases kv) (auto simp: restates_def)
  from s(2) have "merge_field (fst kv, JStr s) (JObj m) = JObj m"
  proof (elim disjE exE conjE)
    fix n
    assume n: "0 \<le> n" "n < 2 ^ 64" "s = dec (nat n)" "map_of m (fst kv) = Some (JNum n)"
    then have "strtoull s = n" by (simp add: strtoull_def)
    with n show ?thesis by (simp add: merge_field_str obj_set_same jget_def)
        (simp add: numeric_text_def dec_digits)
  qed (simp_all add: merge_field_str obj_set_same jget_def)
  then show ?thesis using s(1) by simp
qed

lemma merge_restated_all: "list_all (restates (JObj m)) kvs \<Longrightarrow> fold merge_field kvs (JObj m) = JObj m"
  by (induction kvs) (simp_all add: merge_restated)

text \<open>Everything a provision form posts comes from the submitted parameters.\<close>

lemma provision_fold:
  "is_null doc \<or> is_obj doc \<Longrightarrow>
     (\<forall>k v. (k, v) \<in> set (members (fold (\<lambda>(k, _) doc. case map_of params k of None \<Rightarrow> doc
        | Some v \<Rightarrow> jset k (JStr v) doc) ms doc)) \<longrightarrow>
        (k, v) \<in> set (members doc) \<or> (\<exists>s. v = JStr s \<and> map_of params k = Some s))"
proof (induction ms arbitrary: doc)
  case (Cons kv ms)
  obtain k0 v0 where kv: "kv = (k0, v0)" by (cases kv)
  let ?d = "case map_of params k0 of None \<Rightarrow> doc | Some v \<Rightarrow> jset k0 (JStr v) doc"
  have ok: "is_null ?d \<or> is_obj ?d" using Cons.prems by (auto split: option.split)
  have new: "(k, v) \<in> set (members ?d) \<Longrightarrow> (k, v) \<in> set (members doc) \<or> (\<exists>s. v = JStr s \<and> map_of params k = Some s)" for k v
  proof -
    have sub: "set (obj_set k0 x m) \<subseteq> insert (k0, x) (set m)" for x :: json and m
      by (induction k0 x m rule: obj_set.induct) auto
    assume "(k, v) \<in> set (members ?d)"
    then show ?thesis
      using Cons.prems sub by (cases doc) (auto split: option.splits dest!: subsetD [OF sub])
  qed
  show ?case using Cons.IH [OF ok] new by (auto simp: kv)
qed simp

definition flat_value :: "json \<Rightarrow> bool" where
  "flat_value v = (case v of JStr s \<Rightarrow> True | JNum n \<Rightarrow> 0 \<le> n \<and> n < 2 ^ 64 | _ \<Rightarrow> False)"

definition flat_config :: "json \<Rightarrow> bool" where
  "flat_config doc = (case doc of JObj m \<Rightarrow> obj_ok m \<and> all_values flat_value m | _ \<Rightarrow> False)"

lemma flat_value_mask: "flat_value v \<Longrightarrow> maskSecrets v = v \<and> \<not> is_nested v"
  by (cases v) (simp_all add: flat_value_def)

lemma flat_form:
  assumes "all_values flat_value m"
  shows "map_of (form_fields (maskSecrets (JObj m))) k
     = map_option (\<lambda>v. if secret_key k then MASK else as_text v) (map_of m k)"
  using assms
proof (induction m)
  case (Cons kv m)
  obtain k0 v0 where kv: "kv = (k0, v0)" by (cases kv)
  from Cons.prems have v0: "flat_value v0" and m: "all_values flat_value m"
    by (simp_all add: kv all_values_def)
  have "form_fields (maskSecrets (JObj (kv # m)))
      = (k0, if secret_key k0 then MASK else as_text v0) # form_fields (maskSecrets (JObj m))"
    using flat_value_mask [OF v0] by (simp add: kv form_fields_def)
  with Cons.IH [OF m] show ?case by (simp add: kv)
qed (simp add: form_fields_def)

section \<open>The recovery button\<close>

fun recovery_run :: "(bool \<times> bool \<times> u32 \<times> u32) list \<Rightarrow> recovery \<Rightarrow> recovery" where
  "recovery_run [] s = s"
| "recovery_run ((c, p, now, later) # xs) s = recovery_run xs (fst (recovery_step c p now later s))"

lemma recovery_run_snoc:
  "recovery_run (xs @ [(c, p, now, later)]) s = fst (recovery_step c p now later (recovery_run xs s))"
  by (induction xs s rule: recovery_run.induct) simp_all

definition held :: "(bool \<times> bool \<times> u32 \<times> u32) list \<Rightarrow> u32 \<Rightarrow> bool" where
  "held xs t \<longleftrightarrow> (\<exists>ys c l zs. xs = ys @ (c, True, t, l) # zs \<and> list_all (\<lambda>x. fst (snd x)) zs)"

lemma held_more: "held xs t \<Longrightarrow> held (xs @ [(c, True, now, l)]) t"
proof -
  assume "held xs t"
  then obtain ys c' l' zs where h: "xs = ys @ (c', True, t, l') # zs" "list_all (\<lambda>x. fst (snd x)) zs"
    by (auto simp: held_def)
  then show ?thesis
    unfolding held_def
    by (intro exI [of _ ys] exI [of _ c'] exI [of _ l'] exI [of _ "zs @ [(c, True, now, l)]"]) simp
qed

lemma held_now: "held (xs @ [(c, True, now, l)]) now"
  unfolding held_def by (intro exI [of _ xs] exI [of _ c] exI [of _ l] exI [of _ "[]"]) simp

lemma recovery_press:
  assumes "pressStart s0 = 0" and "\<not> list_ex fst xs"
  shows "pressStart (recovery_run xs s0) \<noteq> 0 \<Longrightarrow> held xs (pressStart (recovery_run xs s0))"
  using assms(2)
proof (induction xs rule: rev_induct)
  case Nil
  with assms(1) show ?case by simp
next
  case (snoc x xs)
  obtain c p now later where x: "x = (c, p, now, later)" by (cases x)
  let ?s = "recovery_run xs s0"
  from snoc.prems x have c: "\<not> c" "\<not> list_ex fst xs" by simp_all
  have p: "p" using snoc.prems(1) c unfolding x recovery_run_snoc
    by (cases p) (auto simp: recovery_step_def Let_def split: if_splits)
  have "pressStart (recovery_run (xs @ [x]) s0) = now
      \<or> pressStart ?s \<noteq> 0 \<and> pressStart (recovery_run (xs @ [x]) s0) = pressStart ?s"
    using snoc.prems(1) c p unfolding x recovery_run_snoc
    by (auto simp: recovery_step_def Let_def split: if_splits)
  then show ?case
    using held_now [of xs c now later] held_more [OF snoc.IH [OF _ c(2)], of c now later] p
    by (auto simp: x)
qed

section \<open>Properties\<close>

text \<open>Saving the unchanged form changes nothing. For a configuration whose values are texts and
  64-bit numbers, posting back what the recovery form shows (secrets masked, numbers as text)
  leaves every member, secrets included, exactly as it was.\<close>
theorem unchanged_form_keeps_config:
  assumes "flat_config doc" and "active_env doc = Inr env"
    and "filter (field_missing env doc) required_fields = []"
  shows "merge_config (provision_doc (maskSecrets doc) (form_fields (maskSecrets doc))) doc = Inr doc"
proof -
  from assms(1) obtain m where doc: "doc = JObj m" and ok: "all_values flat_value m"
    by (cases doc) (auto simp: flat_config_def)
  let ?params = "form_fields (maskSecrets doc)"
  have "restates doc (k, v)" if kv: "(k, v) \<in> set (members (provision_doc (maskSecrets doc) ?params))" for k v
  proof -
    obtain s where s: "v = JStr s" "map_of ?params k = Some s"
      using kv provision_fold [of JNull ?params "members (maskSecrets doc)"]
      by (auto simp: provision_doc_def)
    have "map_option (\<lambda>v. if secret_key k then MASK else as_text v) (map_of m k) = Some s"
      using s(2) flat_form [OF ok, of k] unfolding doc by (simp only:)
    then obtain w where w: "map_of m k = Some w" "s = (if secret_key k then MASK else as_text w)"
      by (auto simp: map_option_eq_Some)
    have "flat_value w" using ok w(1) by (rule all_values_map_of)
    then show ?thesis
      using s(1) w by (cases w) (auto simp: restates_def doc flat_value_def jget_def dec_int_def)
  qed
  then have "list_all (restates (JObj m)) (members (provision_doc (maskSecrets doc) ?params))"
    by (auto simp: list_all_iff doc)
  from merge_restated_all [OF this] assms(2,3) show ?thesis
    by (simp add: merge_config_def doc)
qed

definition demo_config :: "(string \<times> json) list \<Rightarrow> json" where
  "demo_config extra = JObj ([(''wifi_ssid'', JStr ''net''), (''wifi_password'', JStr ''pw1''),
     (''omada_url'', JStr ''https://c''), (''omada_controller_id'', JStr ''id''), (''omada_username'', JStr ''u''),
     (''omada_password'', JStr ''pw2''), (''network_key'', JNum 12345)] @ extra)"

theorem unchanged_form_keeps_config_witness:
  "merge_config (provision_doc (maskSecrets (demo_config [(''minutes_per_coin'', JNum 24)]))
      (form_fields (maskSecrets (demo_config [(''minutes_per_coin'', JNum 24)]))))
     (demo_config [(''minutes_per_coin'', JNum 24)]) = Inr (demo_config [(''minutes_per_coin'', JNum 24)])"
proof (rule unchanged_form_keeps_config)
  show "flat_config (demo_config [(''minutes_per_coin'', JNum 24)])"
    by (simp add: flat_config_def demo_config_def obj_ok_def all_values_def flat_value_def)
  show "active_env (demo_config [(''minutes_per_coin'', JNum 24)]) = Inr JNull"
    by (simp add: active_env_def demo_config_def Let_def)
  show "filter (field_missing JNull (demo_config [(''minutes_per_coin'', JNum 24)])) required_fields = []"
    by (simp add: required_fields_def field_missing_def cfg_def demo_config_def Let_def)
qed

text \<open>The form loses booleans. There is a complete configuration with the device plane switched on
  for which saving the unchanged form succeeds and the next load finds it switched off: the form
  posts the text \<open>true\<close>, which the merge stores as a text.\<close>
theorem unchanged_form_loses_booleans:
  "\<exists>doc merged old. flat_config (JObj (filter (\<lambda>kv. fst kv \<noteq> ''omada_device_enable'') (members doc)))
     \<and> snd (load_doc doc old) \<and> OMADA_DEVICE_ENABLE (fst (load_doc doc old))
     \<and> merge_config (provision_doc (maskSecrets doc) (form_fields (maskSecrets doc))) doc = Inr merged
     \<and> snd (load_doc merged old) \<and> \<not> OMADA_DEVICE_ENABLE (fst (load_doc merged old))"
proof (intro exI conjI)
  let ?d = "demo_config [(''omada_device_enable'', JBool True)]"
  let ?m = "demo_config [(''omada_device_enable'', JStr ''true'')]"
  let ?o = "load_fields JNull JNull"
  show "flat_config (JObj (filter (\<lambda>kv. fst kv \<noteq> ''omada_device_enable'') (members ?d)))" by code_simp
  show "snd (load_doc ?d ?o)" by code_simp
  show "OMADA_DEVICE_ENABLE (fst (load_doc ?d ?o))" by code_simp
  show "merge_config (provision_doc (maskSecrets ?d) (form_fields (maskSecrets ?d))) ?d = Inr ?m"
    by code_simp
  show "snd (load_doc ?m ?o)" by code_simp
  show "\<not> OMADA_DEVICE_ENABLE (fst (load_doc ?m ?o))" by code_simp
qed

text \<open>What a saved configuration needs to load. A merge that passes the validation yields a
  configuration that loads at the next boot exactly when the six required texts are texts and
  the network key is a number between 1 and 2^64 - 1; the validation itself demands neither.\<close>
theorem saved_config_loads_iff:
  assumes "merge_config doc current = Inr merged" and "active_env merged = Inr env"
  shows "snd (load_doc merged old) \<longleftrightarrow>
     (\<forall>k \<in> set (butlast required_fields). is_str (cfg env merged k))
     \<and> (\<exists>n. cfg env merged ''network_key'' = JNum n \<and> 0 < n \<and> n < 2 ^ 64)"
proof -
  have "filter (field_missing env merged) required_fields = []"
    using assms by (auto simp: merge_config_def Let_def split: sum.splits list.splits)
  then have ne: "\<forall>k \<in> set (butlast required_fields). cfg env merged k \<noteq> JStr []"
    by (auto simp: required_fields_def field_missing_def Let_def split: if_splits)
  have s: "str_or [] v \<noteq> [] \<longleftrightarrow> is_str v \<and> v \<noteq> JStr []" for v by (cases v) auto
  have n: "u64_or 0 v \<noteq> 0 \<longleftrightarrow> (\<exists>n. v = JNum n \<and> 0 < n \<and> n < 2 ^ 64)" for v
  proof (cases v)
    case (JNum i)
    have "(word_of_int i :: u64) = 0 \<longleftrightarrow> i = 0" if "0 \<le> i" "i < 2 ^ 64"
      using that zdvd_not_zless [of i "2 ^ 64"] by (auto simp: word_of_int_eq_0_iff)
    then show ?thesis by (auto simp: JNum)
  qed simp_all
  show ?thesis
    unfolding n [symmetric] using ne
    by (auto simp: load_doc_def assms(2) config_complete_def load_fields_def required_fields_def s Let_def)
qed

theorem saved_config_loads_iff_witness:
  "(\<forall>old. \<exists>merged. merge_config (JObj [(''network_key'', JStr ''99'')]) (demo_config []) = Inr merged
      \<and> snd (load_doc merged old))
   \<and> (\<forall>old. \<exists>merged. merge_config (JObj [(''network_key'', JStr ''0x99'')]) (demo_config []) = Inr merged
      \<and> \<not> snd (load_doc merged old))"
proof -
  let ?a = "JObj (butlast (members (demo_config [])) @ [(''network_key'', JNum 99)])"
  let ?b = "JObj (butlast (members (demo_config [])) @ [(''network_key'', JStr ''0x99'')])"
  have a: "merge_config (JObj [(''network_key'', JStr ''99'')]) (demo_config []) = Inr ?a"
    "active_env ?a = Inr JNull" by code_simp+
  have b: "merge_config (JObj [(''network_key'', JStr ''0x99'')]) (demo_config []) = Inr ?b"
    "active_env ?b = Inr JNull" by code_simp+
  have "snd (load_doc ?a old)" "\<not> snd (load_doc ?b old)" for old
    unfolding saved_config_loads_iff [OF a] saved_config_loads_iff [OF b]
    by (simp_all add: required_fields_def cfg_def demo_config_def)
  with a(1) b(1) show ?thesis by blast
qed

text \<open>The recovery portal needs a held button. In the recovery loop, from its start and without a
  connection, the open access point is brought up only in a pass that is the last of a run of
  passes that all saw the button pressed, the first of them at least three seconds earlier.\<close>
theorem softap_needs_held_button:
  assumes "pressStart s0 = 0" and "\<not> list_ex fst xs"
    and "RecSoftAp \<in> set (snd (recovery_step c p now later (recovery_run xs s0)))"
  shows "\<exists>t. held (xs @ [(c, p, now, later)]) t \<and> REPROVISION_HOLD_MILLIS \<le> now - t"
proof -
  let ?s = "recovery_run xs s0"
  have p: "p" and "pressStart ?s \<noteq> 0" "REPROVISION_HOLD_MILLIS \<le> now - pressStart ?s"
    using assms(3) by (auto simp: recovery_step_def Let_def split: if_splits)
  moreover have "held (xs @ [(c, True, now, later)]) (pressStart ?s)"
    by (rule held_more [OF recovery_press [OF assms(1,2) \<open>pressStart ?s \<noteq> 0\<close>]])
  ultimately show ?thesis by auto
qed

theorem softap_needs_held_button_witness:
  "\<exists>t. held [(False, True, 1000, 0), (False, True, 2500, 0), (False, True, 4000, 0)] t
     \<and> REPROVISION_HOLD_MILLIS \<le> 4000 - t"
proof -
  have "RecSoftAp \<in> set (snd (recovery_step False True 4000 0
      (recovery_run [(False, True, 1000, 0), (False, True, 2500, 0)] \<lparr>lastRetry = 0, pressStart = 0\<rparr>)))"
    by (simp add: recovery_step_def Let_def)
  from softap_needs_held_button [OF _ _ this] show ?thesis by simp
qed

end
