(* ===== verification/OmadaApi.thy ===== *)
theory OmadaApi
  imports Files SessionCache
begin

text \<open>
  The controller client of \<open>src/omada.cpp\<close>: the login session shared by the tasks, the commands
  on a client (grant, extend, disconnect, rename), the reads of the controller's lists, and the
  refresh of the session cache from them. The controller is the parameter \<open>exchange\<close> of the
  environment: a request goes in, a reply (status, text, cookies) comes out; \<open>parse_json\<close> reads
  a reply's text. Everything the theorems say of a command is said of the request it sends and
  of the reply it gets.
\<close>

section \<open>Requests and replies\<close>

record http_request =
  rq_method :: string
  rq_url :: string
  rq_headers :: "(string \<times> string) list"
  rq_body :: string

record http_reply =
  rp_code :: int
  rp_error :: string
  rp_body :: string
  rp_cookies :: "(string \<times> string) list"

record omada_env =
  exchange :: "http_request \<Rightarrow> http_reply"
  parse_json :: "string \<Rightarrow> json option"
  om_millis :: u32
  om_epoch :: u64
  BASE_URL :: string
  OMADAC_ID :: string
  USERNAME :: string
  PASSWORD :: string

record credentials =
  csrfToken :: string
  sessionId :: string
  loginMs :: u32

definition no_credentials :: credentials where
  "no_credentials = \<lparr>csrfToken = [], sessionId = [], loginMs = 0\<rparr>"

abbreviation CONTROLLER_SESSION_MAX_AGE_MILLIS :: u32 where
  "CONTROLLER_SESSION_MAX_AGE_MILLIS \<equiv> 3600000"

definition QUOTE :: string where "QUOTE = [CHR 0x22]"

definition quoted :: "string \<Rightarrow> string" where "quoted s = QUOTE @ s @ QUOTE"

definition api_message :: "json \<Rightarrow> string" where
  "api_message doc =
     (if is_str (jget doc ''msg'') then as_text (jget doc ''msg'')
      else ''errorCode '' @ dec_int (as_int (jget doc ''errorCode'')))"

section \<open>Credentials\<close>

definition login_request :: "omada_env \<Rightarrow> http_request" where
  "login_request e =
     \<lparr>rq_method = ''POST'', rq_url = BASE_URL e @ ''/'' @ OMADAC_ID e @ ''/api/v2/login'',
      rq_headers = [(''Content-Type'', ''application/json'')],
      rq_body = ''{\"username\":'' @ quoted (USERNAME e) @ '',\"password\":'' @ quoted (PASSWORD e) @ ''}''\<rparr>"

definition session_cookie :: "(string \<times> string) list \<Rightarrow> string" where
  "session_cookie jar = (case map_of jar ''TPOMADA_SESSIONID'' of None \<Rightarrow> [] | Some v \<Rightarrow> v)"

text \<open>The stored credentials after the call, the caller's snapshot, and the error detail.\<close>

definition getCredentials :: "omada_env \<Rightarrow> credentials \<Rightarrow> credentials \<times> credentials \<times> string" where
  "getCredentials e c =
     (if loginMs c > 0 \<and> om_millis e - loginMs c < CONTROLLER_SESSION_MAX_AGE_MILLIS then (c, c, [])
      else let r = exchange e (login_request e); fail = (\<lambda>c err. (c, no_credentials, err)) in
        if rp_code r \<le> 0 then fail no_credentials (''Login: '' @ rp_error r)
        else case parse_json e (rp_body r) of
            None \<Rightarrow> fail no_credentials ''Login: JSON parse error''
          | Some doc \<Rightarrow>
              if as_int (jget doc ''errorCode'') \<noteq> 0 then fail no_credentials (''Login: '' @ api_message doc)
              else if \<not> is_str (jget (jget doc ''result'') ''token'')
                then fail no_credentials ''Login: response missing token''
              else let c1 = no_credentials\<lparr>csrfToken := as_text (jget (jget doc ''result'') ''token''),
                              sessionId := session_cookie (rp_cookies r)\<rparr>
                   in if sessionId c1 = [] then fail c1 ''Login: no TPOMADA_SESSIONID cookie''
                      else let c2 = c1\<lparr>loginMs := om_millis e\<rparr> in (c2, c2, []))"

definition invalidateCredentials :: "credentials \<Rightarrow> credentials" where
  "invalidateCredentials c = c\<lparr>loginMs := 0\<rparr>"

definition applyCredentials :: "credentials \<Rightarrow> (string \<times> string) list" where
  "applyCredentials c = [(''Cookie'', ''TPOMADA_SESSIONID='' @ sessionId c), (''Csrf-Token'', csrfToken c)]"

definition getOmadaSessionAgeMs :: "u32 \<Rightarrow> credentials \<Rightarrow> u32" where
  "getOmadaSessionAgeMs now c = (if loginMs c > 0 then now - loginMs c else 0)"

section \<open>Sites\<close>

record site =
  SITE_ID :: string
  SITE_NAME :: string

definition sites_request :: "omada_env \<Rightarrow> credentials \<Rightarrow> http_request" where
  "sites_request e c =
     \<lparr>rq_method = ''GET'', rq_url = BASE_URL e @ ''/'' @ OMADAC_ID e @ ''/api/v2/user/sites?currentPage=1&currentPageSize=100'',
      rq_headers = applyCredentials c, rq_body = []\<rparr>"

definition loadOmadaSites :: "omada_env \<Rightarrow> credentials \<Rightarrow> site \<Rightarrow> credentials \<times> site \<times> string option" where
  "loadOmadaSites e c s =
     (case getCredentials e c of (c1, snap, err) \<Rightarrow>
      if loginMs snap = 0 then (c1, s, Some err)
      else let r = exchange e (sites_request e snap) in
        if rp_code r \<le> 0 then (c1, s, Some (''Sites: '' @ rp_error r))
        else if rp_code r \<noteq> 200 then
          (invalidateCredentials c1, s, Some (''Sites: HTTP '' @ dec_int (rp_code r) @ '' '' @ [CHR 0xE2, CHR 0x80, CHR 0x94]
             @ '' invalidating session''))
        else if rp_body r = [] then
          (invalidateCredentials c1, s, Some (''Sites: empty response '' @ [CHR 0xE2, CHR 0x80, CHR 0x94]
             @ '' invalidating session''))
        else case parse_json e (rp_body r) of
            None \<Rightarrow> (c1, s, Some ''Sites: JSON parse error'')
          | Some doc \<Rightarrow>
              if as_int (jget doc ''errorCode'') \<noteq> 0
                then (c1, s, Some (''Sites: '' @ as_text (jget doc ''msg'')))
              else case elements (jget (jget doc ''result'') ''data'') of
                  [] \<Rightarrow> (c1, s, Some ''Sites: no sites returned'')
                | d # _ \<Rightarrow>
                    let s' = \<lparr>SITE_ID = as_text (jget d ''id''), SITE_NAME = as_text (jget d ''name'')\<rparr>
                    in (c1, s', if SITE_ID s' = [] then Some ''Sites: id field empty'' else None))"

section \<open>Commands on a client\<close>

abbreviation OMADA_AUTH_TYPE_EXTERNAL_PORTAL :: int where "OMADA_AUTH_TYPE_EXTERNAL_PORTAL \<equiv> 4"
abbreviation OMADA_AUTH_TYPE_VOUCHER :: int where "OMADA_AUTH_TYPE_VOUCHER \<equiv> 3"

text \<open>What the commands do with the reply: \<open>None\<close> is success.\<close>

definition command_result :: "omada_env \<Rightarrow> string \<Rightarrow> http_reply \<Rightarrow> string option" where
  "command_result e tag r =
     (if rp_code r \<le> 0 then Some (tag @ '': '' @ rp_error r)
      else case parse_json e (rp_body r) of
          None \<Rightarrow> Some (tag @ '': JSON parse error'')
        | Some doc \<Rightarrow>
            if as_int (jget doc ''errorCode'') = 0 then None else Some (tag @ '': '' @ api_message doc))"

text \<open>The request of a grant; this commit is built with \<open>TEST_MODE\<close>, which adds the client's address.\<close>

definition auth_request :: "omada_env \<Rightarrow> site \<Rightarrow> credentials \<Rightarrow> session_params \<Rightarrow> u64 \<Rightarrow> http_request" where
  "auth_request e st c s d =
     \<lparr>rq_method = ''POST'', rq_url = BASE_URL e @ ''/'' @ OMADAC_ID e @ ''/api/v2/hotspot/extPortal/auth'',
      rq_headers = (''Content-Type'', ''application/json'') # applyCredentials c,
      rq_body = ''{\"clientMac\":'' @ quoted (clientMac s) @ '',\"clientIp\":'' @ quoted (clientIp s)
        @ '',\"site\":'' @ quoted (SITE_NAME st)
        @ '',\"time\":'' @ quoted (dec (unat d)) @ '',\"authType\":'' @ dec_int OMADA_AUTH_TYPE_EXTERNAL_PORTAL
        @ '',\"apMac\":'' @ quoted (apMac s) @ '',\"ssidName\":'' @ quoted (ssidName s)
        @ '',\"radioId\":'' @ quoted (radioId s) @ ''}''\<rparr>"

definition authenticateOmadaClient ::
  "omada_env \<Rightarrow> site \<Rightarrow> session_params \<Rightarrow> u64 \<Rightarrow> credentials \<Rightarrow> credentials \<times> session_params \<times> string option" where
  "authenticateOmadaClient e st s d c =
     (case getCredentials e c of (c1, snap, err) \<Rightarrow>
      if loginMs snap = 0 then (c1, s, Some err)
      else case command_result e ''Auth'' (exchange e (auth_request e st snap s d)) of
          Some err \<Rightarrow> (c1, s, Some err)
        | None \<Rightarrow> (c1, s\<lparr>sessionStartMillis := om_epoch e, sessionEndMillis := om_epoch e + d\<rparr>, None))"

definition client_command :: "omada_env \<Rightarrow> site \<Rightarrow> session_params \<Rightarrow> string \<Rightarrow> string" where
  "client_command e st s cmd = BASE_URL e @ ''/'' @ OMADAC_ID e @ ''/api/v2/hotspot/sites/'' @ SITE_ID st
     @ ''/cmd/clients/'' @ clientId s @ cmd"

definition extend_request :: "omada_env \<Rightarrow> site \<Rightarrow> credentials \<Rightarrow> session_params \<Rightarrow> u64 \<Rightarrow> http_request" where
  "extend_request e st c s d =
     \<lparr>rq_method = ''POST'', rq_url = client_command e st s ''/extend'',
      rq_headers = (''Content-Type'', ''application/json'') # applyCredentials c,
      rq_body = ''{\"period\":'' @ dec (unat d) @ ''}''\<rparr>"

definition extendOmadaClient ::
  "omada_env \<Rightarrow> site \<Rightarrow> session_params \<Rightarrow> u64 \<Rightarrow> credentials \<Rightarrow> credentials \<times> session_params \<times> string option" where
  "extendOmadaClient e st s d c =
     (case getCredentials e c of (c1, snap, err) \<Rightarrow>
      if loginMs snap = 0 then (c1, s, Some err)
      else case command_result e ''Extend'' (exchange e (extend_request e st snap s d)) of
          Some err \<Rightarrow> (c1, s, Some err)
        | None \<Rightarrow> (c1, s\<lparr>sessionEndMillis := sessionEndMillis s + d\<rparr>, None))"

definition disconnect_request :: "omada_env \<Rightarrow> site \<Rightarrow> credentials \<Rightarrow> session_params \<Rightarrow> http_request" where
  "disconnect_request e st c s =
     \<lparr>rq_method = ''POST'', rq_url = client_command e st s ''/disconnect'',
      rq_headers = (''Content-Type'', ''application/json'') # applyCredentials c, rq_body = []\<rparr>"

definition disconnectOmadaClient ::
  "omada_env \<Rightarrow> site \<Rightarrow> session_params \<Rightarrow> credentials \<Rightarrow> credentials \<times> session_params \<times> string option" where
  "disconnectOmadaClient e st s c =
     (case getCredentials e c of (c1, snap, err) \<Rightarrow>
      if loginMs snap = 0 then (c1, s, Some err)
      else case command_result e ''Disconnect'' (exchange e (disconnect_request e st snap s)) of
          Some err \<Rightarrow> (c1, s, Some err)
        | None \<Rightarrow> (c1, s\<lparr>sessionEndMillis := 0, clientId := []\<rparr>, None))"

definition json_escape :: "string \<Rightarrow> string" where
  "json_escape s = replace_char (CHR 0x22) [CHR 0x5C, CHR 0x22] (replace_char (CHR 0x5C) [CHR 0x5C, CHR 0x5C] s)"

definition dash_mac :: "string \<Rightarrow> string" where
  "dash_mac mac = to_upper (replace_char (CHR '':'') ''-'' mac)"

definition setClientName ::
  "omada_env \<Rightarrow> site \<Rightarrow> string \<Rightarrow> string \<Rightarrow> credentials \<Rightarrow> credentials \<times> string option" where
  "setClientName e st mac name c =
     (case getCredentials e c of (c1, snap, err) \<Rightarrow>
      if loginMs snap = 0 then (c1, Some err)
      else let r = exchange e \<lparr>rq_method = ''PATCH'',
                 rq_url = BASE_URL e @ ''/'' @ OMADAC_ID e @ ''/api/v2/sites/'' @ SITE_ID st @ ''/clients/'' @ dash_mac mac,
                 rq_headers = applyCredentials snap @ [(''Content-Type'', ''application/json;charset=UTF-8'')],
                 rq_body = ''{\"name\":'' @ quoted (json_escape name) @ ''}''\<rparr>
           in if rp_code r \<le> 0 then (c1, Some (''setClientName: '' @ rp_error r))
              else case parse_json e (rp_body r) of
                  None \<Rightarrow> (c1, Some (''setClientName: '' @ take 160 (rp_body r)))
                | Some doc \<Rightarrow>
                    if as_int (jget doc ''errorCode'') \<noteq> 0 then (c1, Some (''setClientName: '' @ take 160 (rp_body r)))
                    else (c1, None))"

section \<open>Reads of the controller's lists\<close>

definition get_request :: "omada_env \<Rightarrow> credentials \<Rightarrow> string \<Rightarrow> http_request" where
  "get_request e c path =
     \<lparr>rq_method = ''GET'', rq_url = BASE_URL e @ ''/'' @ OMADAC_ID e @ path,
      rq_headers = applyCredentials c, rq_body = []\<rparr>"

definition parsed_or_null :: "omada_env \<Rightarrow> string \<Rightarrow> json" where
  "parsed_or_null e text = (case parse_json e text of None \<Rightarrow> JNull | Some doc \<Rightarrow> doc)"

definition no_api_error :: "json \<Rightarrow> bool" where
  "no_api_error doc \<longleftrightarrow> as_int (jget doc ''errorCode'') = 0"

text \<open>A null document stands for failure. The hotspot list and the voucher groups are returned even
  when the controller reports an error in them.\<close>

definition getHotspotClientsJson :: "omada_env \<Rightarrow> site \<Rightarrow> credentials \<Rightarrow> credentials \<times> json" where
  "getHotspotClientsJson e st c =
     (case getCredentials e c of (c1, snap, err) \<Rightarrow>
      if loginMs snap = 0 then (c1, JNull)
      else let r = exchange e (get_request e snap (''/api/v2/hotspot/sites/'' @ SITE_ID st
                 @ ''/clients?sorts.end=desc&currentPage=1&currentPageSize=200''))
           in if rp_code r \<le> 0 then (c1, JNull)
              else if rp_code r \<noteq> 200 \<or> rp_body r = [] then (invalidateCredentials c1, JNull)
              else (c1, parsed_or_null e (rp_body r)))"

definition getAllClientsJson :: "omada_env \<Rightarrow> site \<Rightarrow> credentials \<Rightarrow> credentials \<times> json" where
  "getAllClientsJson e st c =
     (case getCredentials e c of (c1, snap, err) \<Rightarrow>
      if loginMs snap = 0 then (c1, JNull)
      else let r = exchange e (get_request e snap (''/api/v2/sites/'' @ SITE_ID st
                 @ ''/clients?currentPage=1&currentPageSize=200&filters.active=true''))
           in if rp_code r \<le> 0 then (c1, JNull)
              else if rp_code r \<noteq> 200 \<or> rp_body r = [] then (invalidateCredentials c1, JNull)
              else case parse_json e (rp_body r) of
                  None \<Rightarrow> (c1, JNull)
                | Some doc \<Rightarrow> (c1, if no_api_error doc then doc else JNull))"

definition getDeviceGridJson :: "omada_env \<Rightarrow> site \<Rightarrow> credentials \<Rightarrow> credentials \<times> json" where
  "getDeviceGridJson e st c =
     (case getCredentials e c of (c1, snap, err) \<Rightarrow>
      if loginMs snap = 0 then (c1, JNull)
      else let r = exchange e (get_request e snap (''/api/v2/sites/'' @ SITE_ID st
                 @ ''/grid/devices?currentPage=1&currentPageSize=100''));
               body = (if rp_code r > 0 then rp_body r else [])
           in if rp_code r \<noteq> 200 \<or> body = [] then (c1, JNull)
              else case parse_json e body of
                  None \<Rightarrow> (c1, JNull)
                | Some doc \<Rightarrow> (c1, if no_api_error doc then doc else JNull))"

definition getVoucherGroupsJson :: "omada_env \<Rightarrow> site \<Rightarrow> credentials \<Rightarrow> credentials \<times> json" where
  "getVoucherGroupsJson e st c =
     (case getCredentials e c of (c1, snap, err) \<Rightarrow>
      if loginMs snap = 0 then (c1, JNull)
      else let r = exchange e (get_request e snap (''/api/v2/hotspot/sites/'' @ SITE_ID st
                 @ ''/voucherGroups?currentPage=1&currentPageSize=100''))
           in if rp_code r \<le> 0 then (c1, JNull)
              else if rp_code r \<noteq> 200 \<or> rp_body r = [] then (invalidateCredentials c1, JNull)
              else (c1, parsed_or_null e (rp_body r)))"

definition getVoucherHistoryJson :: "omada_env \<Rightarrow> site \<Rightarrow> int \<Rightarrow> int \<Rightarrow> credentials \<Rightarrow> credentials \<times> json" where
  "getVoucherHistoryJson e st startSec endSec c =
     (case getCredentials e c of (c1, snap, err) \<Rightarrow>
      if loginMs snap = 0 then (c1, JNull)
      else let r = exchange e (get_request e snap (''/api/v2/hotspot/sites/'' @ SITE_ID st
                 @ ''/vouchers/statistics/history?filters.timeStart='' @ dec_int startSec
                 @ ''&filters.timeEnd='' @ dec_int endSec))
           in if rp_code r \<le> 0 \<or> rp_code r \<noteq> 200 \<or> rp_body r = [] then (c1, JNull)
              else case parse_json e (rp_body r) of
                  None \<Rightarrow> (c1, JNull)
                | Some doc \<Rightarrow> (c1, if no_api_error doc then doc else JNull))"

definition getVoucherCodesJson :: "omada_env \<Rightarrow> site \<Rightarrow> string \<Rightarrow> int \<Rightarrow> credentials \<Rightarrow> credentials \<times> json" where
  "getVoucherCodesJson e st groupId page c =
     (case getCredentials e c of (c1, snap, err) \<Rightarrow>
      if loginMs snap = 0 then (c1, JNull)
      else let r = exchange e (get_request e snap (''/api/v2/hotspot/sites/'' @ SITE_ID st
                 @ ''/voucherGroups/'' @ groupId @ ''?currentPage='' @ dec_int page @ ''&currentPageSize=130''))
           in if rp_code r \<le> 0 \<or> rp_code r \<noteq> 200 \<or> rp_body r = [] then (c1, JNull)
              else case parse_json e (rp_body r) of
                  None \<Rightarrow> (c1, JNull)
                | Some doc \<Rightarrow> (c1, if no_api_error doc then doc else JNull))"

section \<open>Voucher groups\<close>

definition escape_quotes :: "string \<Rightarrow> string" where
  "escape_quotes s = replace_char (CHR 0x22) [CHR 0x5C, CHR 0x22] s"

definition voucher_body :: "string \<Rightarrow> int \<Rightarrow> int \<Rightarrow> string \<Rightarrow> string" where
  "voucher_body name durationMin totalCount description =
     ''{\"codeLength\":8,\"codeForm\":[0],\"amount\":'' @ dec_int totalCount
     @ '',\"name\":'' @ quoted (escape_quotes name) @ '',\"type\":0,\"logout\":true''
     @ '',\"downLimitUnit\":0,\"upLimitUnit\":0,\"trafficLimitEnable\":false,\"trafficLimit\":null,\"trafficLimitUnit\":0''
     @ '',\"voucherValidityEnable\":false,\"upTimeLimitEnable\":true''
     @ '',\"durationType\":1,\"duration\":'' @ dec_int durationMin
     @ '',\"description\":'' @ quoted (escape_quotes description)
     @ '',\"maxUsers\":1,\"trafficLimitFrequency\":1,\"portalIds\":[],\"applyToAllPortals\":true''
     @ '',\"validityType\":0,\"startTime\":\"00:00\",\"endTime\":\"23:59\",\"scheduleTime\":0''
     @ '',\"weeklyEnableDays\":{\"1\":true,\"2\":true,\"3\":true,\"4\":true,\"5\":true,\"6\":true,\"7\":true}''
     @ '',\"pattern\":{\"patternType\":0,\"position\":0,\"ssidNetworkEnable\":false,\"durationEnable\":false''
     @ '',\"limitEnable\":false,\"logoPictureId\":null,\"logoSize\":62}}''"

definition voucher_error :: "omada_env \<Rightarrow> http_reply \<Rightarrow> string" where
  "voucher_error e r =
     (let doc = (if rp_code r = 200 then parsed_or_null e (rp_body r) else JNull)
      in if is_null (jget doc ''msg'') then ''HTTP '' @ dec_int (rp_code r) else as_text (jget doc ''msg''))"

text \<open>The id of the new group, or the error detail.\<close>

definition createVoucherGroup ::
  "omada_env \<Rightarrow> site \<Rightarrow> string \<Rightarrow> int \<Rightarrow> int \<Rightarrow> string \<Rightarrow> credentials \<Rightarrow> credentials \<times> (string + string)" where
  "createVoucherGroup e st name durationMin totalCount description c =
     (case getCredentials e c of (c1, snap, err) \<Rightarrow>
      if loginMs snap = 0 then (c1, Inl err)
      else let r = exchange e \<lparr>rq_method = ''POST'',
                 rq_url = BASE_URL e @ ''/'' @ OMADAC_ID e @ ''/api/v2/hotspot/sites/'' @ SITE_ID st @ ''/voucherGroups'',
                 rq_headers = applyCredentials snap @ [(''Content-Type'', ''application/json'')],
                 rq_body = voucher_body name durationMin totalCount description\<rparr>
           in if rp_code r \<le> 0 then (c1, Inl (rp_error r))
              else if rp_code r \<noteq> 200 then (c1, Inl (voucher_error e r))
              else case parse_json e (rp_body r) of
                  None \<Rightarrow> (c1, Inl (voucher_error e r))
                | Some doc \<Rightarrow>
                    if \<not> no_api_error doc then (c1, Inl (voucher_error e r))
                    else (c1, Inr (as_text (jget (jget doc ''result'') ''id''))))"

definition deleteVoucherGroup ::
  "omada_env \<Rightarrow> site \<Rightarrow> string \<Rightarrow> credentials \<Rightarrow> credentials \<times> string option" where
  "deleteVoucherGroup e st groupId c =
     (case getCredentials e c of (c1, snap, err) \<Rightarrow>
      if loginMs snap = 0 then (c1, Some err)
      else let r = exchange e \<lparr>rq_method = ''DELETE'',
                 rq_url = BASE_URL e @ ''/'' @ OMADAC_ID e @ ''/api/v2/hotspot/sites/'' @ SITE_ID st @ ''/voucherGroups/'' @ groupId,
                 rq_headers = applyCredentials snap, rq_body = []\<rparr>
           in if rp_code r \<le> 0 then (c1, Some (rp_error r))
              else if rp_code r \<noteq> 200 then (c1, Some (voucher_error e r))
              else case parse_json e (rp_body r) of
                  None \<Rightarrow> (c1, Some (voucher_error e r))
                | Some doc \<Rightarrow> (c1, if no_api_error doc then None else Some (voucher_error e r)))"

section \<open>Device status\<close>

definition device_code :: "json \<Rightarrow> string" where
  "device_code dev =
     (let cat = int_or (- 1) (jget dev ''statusCategory'')
      in if cat = 1 then ''2'' else if cat = 0 then ''0'' else ''1'')"

definition device_entries :: "json list \<Rightarrow> string list" where
  "device_entries devs =
     map (\<lambda>d. quoted (dash_mac (str_or [] (jget d ''mac''))) @ '':'' @ device_code d)
       (filter (\<lambda>d. str_or [] (jget d ''mac'') \<noteq> []) devs)"

fun join_commas :: "string list \<Rightarrow> string" where
  "join_commas [] = []"
| "join_commas [x] = x"
| "join_commas (x # xs) = x @ '','' @ join_commas xs"

definition refreshDeviceStatus :: "omada_env \<Rightarrow> site \<Rightarrow> fs \<Rightarrow> string \<Rightarrow> credentials \<Rightarrow> credentials \<times> string" where
  "refreshDeviceStatus e st fs old c =
     (if \<not> fsExists fs ''/map.svg'' then (c, old)
      else case getDeviceGridJson e st c of (c1, doc) \<Rightarrow>
        if is_null doc then (c1, old)
        else (c1, ''{'' @ join_commas (device_entries (elements (jget (jget doc ''result'') ''data''))) @ ''}''))"

section \<open>Merging the client lists\<close>

definition all_map :: "json list \<Rightarrow> string \<Rightarrow> json option" where
  "all_map allClients mac = map_of (rev (map (\<lambda>c. (as_text (jget c ''mac''), c)) allClients)) mac"

definition merged_entry :: "json list \<Rightarrow> json \<Rightarrow> json" where
  "merged_entry allClients hs =
     (let base = [(''mac'', jget hs ''mac''), (''id'', jget hs ''id''),
                  (''start'', JNum (uint (as_u64 (jget hs ''start'')))), (''end'', JNum (uint (as_u64 (jget hs ''end''))))]
      in case all_map allClients (as_text (jget hs ''mac'')) of
           None \<Rightarrow> JObj (base @ [(''ip'', jget hs ''ip'')])
         | Some c \<Rightarrow> JObj (base @ [(''ip'', if is_null (jget c ''ip'') then jget hs ''ip'' else jget c ''ip''),
             (''apMac'', jget c ''apMac''), (''ssid'', jget c ''ssid''), (''radioId'', jget c ''radioId'')]))"

definition live_session :: "u64 \<Rightarrow> json \<Rightarrow> bool" where
  "live_session now hs \<longleftrightarrow> as_u64 (jget hs ''end'') > now
     \<and> as_int (jget hs ''authType'') = OMADA_AUTH_TYPE_EXTERNAL_PORTAL"

fun mergeClientLists :: "json list \<Rightarrow> json list \<Rightarrow> u64 \<Rightarrow> string list \<Rightarrow> json list" where
  "mergeClientLists [] allClients now seen = []"
| "mergeClientLists (hs # rest) allClients now seen =
     (if \<not> live_session now hs then mergeClientLists rest allClients now seen
      else if as_text (jget hs ''mac'') \<in> set seen then mergeClientLists rest allClients now seen
      else merged_entry allClients hs
             # mergeClientLists rest allClients now (as_text (jget hs ''mac'') # seen))"

section \<open>Refreshing the session cache\<close>

definition update_session :: "json \<Rightarrow> u32 option \<Rightarrow> session_params \<Rightarrow> session_params" where
  "update_session client paused s =
     (let s1 = (case paused of None \<Rightarrow> s | Some p \<Rightarrow> s\<lparr>pausedRemainingMillis := p\<rparr>);
          s2 = s1\<lparr>sessionStartMillis := as_u64 (jget client ''start''),
                 sessionEndMillis := as_u64 (jget client ''end''), clientId := as_text (jget client ''id'')\<rparr>;
          s3 = (if is_null (jget client ''apMac'') then s2 else s2\<lparr>apMac := as_text (jget client ''apMac'')\<rparr>);
          s4 = (if is_null (jget client ''ssid'') then s3 else s3\<lparr>ssidName := as_text (jget client ''ssid'')\<rparr>)
      in if is_null (jget client ''radioId'') then s4
         else s4\<lparr>radioId := dec_int (as_int (jget client ''radioId''))\<rparr>)"

definition refresh_client :: "fs \<Rightarrow> bool \<Rightarrow> json \<Rightarrow> session_cache \<Rightarrow> session_cache" where
  "refresh_client fs opened client cache =
     (let mac = as_text (jget client ''mac''); ip = as_text (jget client ''ip'');
          isNew = (findByMac cache mac = None)
      in if mac = [] then cache
         else if ip = [] \<and> isNew then cache
         else let (cache1, key) = upsert ip mac cache;
                  paused = (if isNew \<and> hasPausedSessionFile mac fs
                            then Some (loadPausedSessionFile opened mac fs) else None)
              in modify_session key (update_session client paused) cache1)"

definition voucher_active :: "json list \<Rightarrow> nat" where
  "voucher_active clients =
     length (filter (\<lambda>c. list_ex (\<lambda>a. as_int (jget a ''authType'') = OMADA_AUTH_TYPE_VOUCHER)
        (elements (jget c ''authInfo''))) clients)"

definition mgmt_breach :: "string \<Rightarrow> json list \<Rightarrow> bool" where
  "mgmt_breach ssid merged \<longleftrightarrow> ssid \<noteq> [] \<and> list_ex (\<lambda>c. as_text (jget c ''ssid'') = ssid) merged"

definition TZ_TABLE :: "(string \<times> string) list" where
  "TZ_TABLE = [
    (''Pacific/Midway'', ''SST11''),
    (''Pacific/Honolulu'', ''HST10''),
    (''America/Anchorage'', ''AKST9AKDT,M3.2.0,M11.1.0''),
    (''America/Los_Angeles'', ''PST8PDT,M3.2.0,M11.1.0''),
    (''America/Phoenix'', ''MST7''),
    (''America/Mazatlan'', ''MST7''),
    (''America/Denver'', ''MST7MDT,M3.2.0,M11.1.0''),
    (''America/Guatemala'', ''CST6''),
    (''America/Chicago'', ''CST6CDT,M3.2.0,M11.1.0''),
    (''America/Mexico_City'', ''CST6''),
    (''America/Regina'', ''CST6''),
    (''America/Bogota'', ''<-05>5''),
    (''America/New_York'', ''EST5EDT,M3.2.0,M11.1.0''),
    (''America/Indiana/Indianapolis'', ''EST5EDT,M3.2.0,M11.1.0''),
    (''America/Caracas'', ''<-04>4''),
    (''America/Asuncion'', ''<-04>4''),
    (''America/Halifax'', ''AST4ADT,M3.2.0,M11.1.0''),
    (''America/Cuiaba'', ''<-04>4''),
    (''America/Manaus'', ''<-04>4''),
    (''America/Santiago'', ''<-04>4<-03>,M9.1.6/24,M4.1.6/24''),
    (''America/St_Johns'', ''NST3:30NDT,M3.2.0,M11.1.0''),
    (''America/Sao_Paulo'', ''<-03>3''),
    (''America/Argentina/Buenos_Aires'', ''<-03>3''),
    (''America/Cayenne'', ''<-03>3''),
    (''America/Godthab'', ''<-03>3''),
    (''America/Montevideo'', ''<-03>3''),
    (''Atlantic/South_Georgia'', ''<-02>2''),
    (''Atlantic/Azores'', ''<-01>1<+00>,M3.5.0/0,M10.5.0/1''),
    (''Atlantic/Cape_Verde'', ''<-01>1''),
    (''Africa/Casablanca'', ''<+01>-1''),
    (''UTC'', ''UTC0''),
    (''Etc/UTC'', ''UTC0''),
    (''Europe/London'', ''GMT0BST,M3.5.0/1,M10.5.0''),
    (''Atlantic/Reykjavik'', ''GMT0''),
    (''Europe/Berlin'', ''CET-1CEST,M3.5.0,M10.5.0/3''),
    (''Europe/Belgrade'', ''CET-1CEST,M3.5.0,M10.5.0/3''),
    (''Europe/Paris'', ''CET-1CEST,M3.5.0,M10.5.0/3''),
    (''Europe/Warsaw'', ''CET-1CEST,M3.5.0,M10.5.0/3''),
    (''Africa/Lagos'', ''WAT-1''),
    (''Europe/Athens'', ''EET-2EEST,M3.5.0/3,M10.5.0/4''),
    (''Asia/Beirut'', ''EET-2EEST,M3.5.0/0,M10.5.0/0''),
    (''Africa/Cairo'', ''EET-2EEST,M4.5.5/0,M10.5.4/24''),
    (''Asia/Damascus'', ''<+03>-3''),
    (''Africa/Johannesburg'', ''SAST-2''),
    (''Europe/Helsinki'', ''EET-2EEST,M3.5.0/3,M10.5.0/4''),
    (''Asia/Jerusalem'', ''IST-2IDT,M3.4.4/26,M10.5.0''),
    (''Asia/Amman'', ''<+03>-3''),
    (''Asia/Baghdad'', ''<+03>-3''),
    (''Europe/Minsk'', ''<+03>-3''),
    (''Asia/Riyadh'', ''<+03>-3''),
    (''Africa/Nairobi'', ''EAT-3''),
    (''Europe/Istanbul'', ''<+03>-3''),
    (''Europe/Moscow'', ''MSK-3''),
    (''Asia/Tehran'', ''<+0330>-3:30''),
    (''Asia/Dubai'', ''<+04>-4''),
    (''Asia/Baku'', ''<+04>-4''),
    (''Asia/Tbilisi'', ''<+04>-4''),
    (''Asia/Yerevan'', ''<+04>-4''),
    (''Asia/Kabul'', ''<+0430>-4:30''),
    (''Asia/Karachi'', ''PKT-5''),
    (''Asia/Yekaterinburg'', ''<+05>-5''),
    (''Asia/Tashkent'', ''<+05>-5''),
    (''Asia/Kolkata'', ''IST-5:30''),
    (''Asia/Colombo'', ''<+0530>-5:30''),
    (''Asia/Kathmandu'', ''<+0545>-5:45''),
    (''Asia/Dhaka'', ''<+06>-6''),
    (''Asia/Yangon'', ''<+0630>-6:30''),
    (''Asia/Bangkok'', ''<+07>-7''),
    (''Asia/Krasnoyarsk'', ''<+07>-7''),
    (''Asia/Novosibirsk'', ''<+07>-7''),
    (''Asia/Hong_Kong'', ''HKT-8''),
    (''Asia/Shanghai'', ''CST-8''),
    (''Asia/Manila'', ''<+08>-8''),
    (''Asia/Singapore'', ''<+08>-8''),
    (''Asia/Kuala_Lumpur'', ''<+08>-8''),
    (''Asia/Taipei'', ''CST-8''),
    (''Australia/Perth'', ''AWST-8''),
    (''Asia/Ulaanbaatar'', ''<+08>-8''),
    (''Asia/Irkutsk'', ''<+08>-8''),
    (''Asia/Tokyo'', ''JST-9''),
    (''Asia/Seoul'', ''KST-9''),
    (''Asia/Yakutsk'', ''<+09>-9''),
    (''Australia/Adelaide'', ''ACST-9:30ACDT,M10.1.0,M4.1.0/3''),
    (''Australia/Darwin'', ''ACST-9:30''),
    (''Australia/Brisbane'', ''AEST-10''),
    (''Australia/Sydney'', ''AEST-10AEDT,M10.1.0,M4.1.0/3''),
    (''Australia/Hobart'', ''AEST-10AEDT,M10.1.0,M4.1.0/3''),
    (''Asia/Vladivostok'', ''<+10>-10''),
    (''Pacific/Port_Moresby'', ''<+10>-10''),
    (''Asia/Magadan'', ''<+11>-11''),
    (''Pacific/Guadalcanal'', ''<+11>-11''),
    (''Pacific/Auckland'', ''NZST-12NZDT,M9.5.0,M4.1.0/3''),
    (''Pacific/Fiji'', ''<+12>-12''),
    (''Asia/Kamchatka'', ''<+12>-12''),
    (''Pacific/Tongatapu'', ''<+13>-13'')]"

definition posix_zone :: "string \<Rightarrow> string" where
  "posix_zone zone = (case map_of TZ_TABLE zone of None \<Rightarrow> ''HKT-8'' | Some p \<Rightarrow> p)"

record controller_status =
  cs_model :: string
  cs_version :: string
  cs_timeZone :: string
  cs_reachable :: bool
  cs_uptimeMillis :: u32
  cs_fetchedMillis :: u32
  cs_clockSkewSec :: int
  cs_mgmtSsidBreach :: bool

record omada =
  CREDS :: credentials
  om_site :: site
  CONTROLLER_STATUS :: controller_status
  VOUCHER_ACTIVE_COUNT :: nat
  LAST_CACHE_REFRESH_MILLIS :: u32
  DEVICE_STATUS_JSON :: string
  TZ :: string
  HOTSPOT_SESSION_CACHE :: session_cache

definition as_u32 :: "json \<Rightarrow> u32" where
  "as_u32 v = (case v of JNum n \<Rightarrow> if 0 \<le> n \<and> n < 2 ^ 32 then word_of_int n else 0 | _ \<Rightarrow> 0)"

definition as_int64 :: "json \<Rightarrow> int" where
  "as_int64 v = (case v of JNum n \<Rightarrow> if - (2 ^ 63) \<le> n \<and> n < 2 ^ 63 then n else 0 | _ \<Rightarrow> 0)"

definition refreshControllerStatus :: "omada_env \<Rightarrow> omada \<Rightarrow> omada" where
  "refreshControllerStatus e s =
     (case getCredentials e (CREDS s) of (c1, snap, err) \<Rightarrow>
      let fail = s\<lparr>CREDS := invalidateCredentials c1,
                   CONTROLLER_STATUS := (CONTROLLER_STATUS s)\<lparr>cs_reachable := False\<rparr>\<rparr>;
          r = exchange e (get_request e snap ''/api/v2/settings/system/status'')
      in if loginMs snap = 0 \<or> rp_code r \<noteq> 200 then fail
         else case parse_json e (rp_body r) of
             None \<Rightarrow> fail
           | Some doc \<Rightarrow>
               if \<not> no_api_error doc then fail
               else let res = jget doc ''result''; cs = CONTROLLER_STATUS s;
                        zone = as_text (jget res ''timeZone'');
                        cs1 = cs\<lparr>cs_reachable := True, cs_uptimeMillis := as_u32 (jget res ''upTime''),
                                 cs_fetchedMillis := om_millis e,
                                 cs_clockSkewSec := (as_int64 (jget res ''systemTime'') - sint (om_epoch e)) sdiv 1000\<rparr>
                    in s\<lparr>CREDS := c1, TZ := posix_zone zone,
                         CONTROLLER_STATUS := (if cs_model cs = []
                            then cs1\<lparr>cs_model := as_text (jget res ''model''),
                                     cs_version := as_text (jget res ''controllerVersion''), cs_timeZone := zone\<rparr>
                            else cs1)\<rparr>)"

definition refreshHotspotSessionCache :: "omada_env \<Rightarrow> string \<Rightarrow> fs \<Rightarrow> bool \<Rightarrow> omada \<Rightarrow> omada" where
  "refreshHotspotSessionCache e ssid fs opened s =
     (let (c1, hotspotDoc) = getHotspotClientsJson e (om_site s) (CREDS s);
          (c2, allDoc) = getAllClientsJson e (om_site s) c1;
          hotspot = elements (jget (jget hotspotDoc ''result'') ''data'');
          active = elements (jget (jget allDoc ''result'') ''data'');
          merged = mergeClientLists hotspot active (om_epoch e) [];
          s1 = s\<lparr>CREDS := c2, VOUCHER_ACTIVE_COUNT := voucher_active active,
                 HOTSPOT_SESSION_CACHE := fold (refresh_client fs opened) merged (HOTSPOT_SESSION_CACHE s),
                 CONTROLLER_STATUS := (CONTROLLER_STATUS s)\<lparr>cs_mgmtSsidBreach := mgmt_breach ssid merged\<rparr>,
                 LAST_CACHE_REFRESH_MILLIS := om_millis e\<rparr>;
          s2 = refreshControllerStatus e s1;
          (c3, dev) = refreshDeviceStatus e (om_site s2) fs (DEVICE_STATUS_JSON s2) (CREDS s2)
      in s2\<lparr>CREDS := c3, DEVICE_STATUS_JSON := dev\<rparr>)"

definition getLastCacheRefreshMs :: "u32 \<Rightarrow> omada \<Rightarrow> u32" where
  "getLastCacheRefreshMs now s =
     (if LAST_CACHE_REFRESH_MILLIS s > 0 then now - LAST_CACHE_REFRESH_MILLIS s else 0)"

definition isServiceReady :: "int \<Rightarrow> omada \<Rightarrow> bool" where
  "isServiceReady now s \<longleftrightarrow> now > NTP_EPOCH_MIN \<and> cs_reachable (CONTROLLER_STATUS s) \<and> SITE_ID (om_site s) \<noteq> []"

definition setupOmada :: "omada_env \<Rightarrow> string \<Rightarrow> fs \<Rightarrow> bool \<Rightarrow> omada \<Rightarrow> omada \<times> bool" where
  "setupOmada e ssid fs opened s =
     (case loadOmadaSites e (CREDS s) (om_site s) of
        (c1, st, Some err) \<Rightarrow> (s\<lparr>CREDS := c1, om_site := st\<rparr>, False)
      | (c1, st, None) \<Rightarrow>
          (refreshHotspotSessionCache e ssid fs opened (s\<lparr>CREDS := c1, om_site := st, TZ := ''HKT-8''\<rparr>), True))"

section \<open>Lemmas\<close>

lemma credentials_cases:
  "getCredentials e c = (c1, snap, err) \<Longrightarrow> loginMs snap \<noteq> 0 \<Longrightarrow>
     snap = c1 \<and> err = [] \<and> (c1 = c \<and> om_millis e - loginMs c < CONTROLLER_SESSION_MAX_AGE_MILLIS
        \<or> loginMs c1 = om_millis e \<and> sessionId c1 \<noteq> [] \<and> rp_code (exchange e (login_request e)) > 0)"
  by (auto simp: getCredentials_def no_credentials_def Let_def split: if_splits option.splits)

lemma credentials_failed:
  "getCredentials e c = (c1, snap, err) \<Longrightarrow> loginMs snap = 0 \<Longrightarrow> loginMs c1 = 0"
  by (auto simp: getCredentials_def no_credentials_def Let_def word_neq_0_conv split: if_splits option.splits)

lemma keeps_update_session: "keeps_identity (update_session client paused)"
  by (simp add: keeps_identity_def update_session_def Let_def split: option.split)

lemma update_session_fields [simp]:
  "socketFd (update_session client paused s) = socketFd s"
  "pausedRemainingMillis (update_session client None s) = pausedRemainingMillis s"
  "sessionEndMillis (update_session client paused s) = as_u64 (jget client ''end'')"
  by (simp_all add: update_session_def Let_def split: option.split)

lemma upsert_key_mac: "mac \<noteq> [] \<Longrightarrow> snd (upsert ip mac c) = mac"
  by (simp add: upsert_def upsert_key_def Let_def)

lemma cache_ok_refresh_client [inv_intros]: "cache_ok c \<Longrightarrow> cache_ok (refresh_client fs opened client c)"
  using cache_ok_upsert [of c "as_text (jget client ''ip'')" "as_text (jget client ''mac'')"]
  by (auto simp: refresh_client_def Let_def keeps_update_session intro: cache_ok_modify split: prod.split)

lemma upsert_keeps:
  assumes "cache_ok c" and "findByMac c m = Some s" and "mac \<noteq> []"
  shows "\<exists>s'. findByMac (fst (upsert ip mac c)) m = Some s'
     \<and> socketFd s' = socketFd s \<and> pausedRemainingMillis s' = pausedRemainingMillis s"
proof -
  from assms(1) have o: "omap_ok (byMac c)" by (simp add: cache_ok_def)
  from assms have "m \<noteq> []" "map_of (byMac c) m = Some s" by (auto simp: findByMac_def split: if_splits)
  moreover from assms(3) have "upsert_key ip mac c = mac" by (simp add: upsert_key_def)
  ultimately show ?thesis
    by (cases "m = mac") (simp_all add: findByMac_def byMac_upsert o upsert_entry_def Let_def)
qed

lemma refresh_client_keeps:
  assumes ok: "cache_ok c" and s: "findByMac c m = Some s"
  shows "\<exists>s'. findByMac (refresh_client fs opened client c) m = Some s'
     \<and> socketFd s' = socketFd s \<and> pausedRemainingMillis s' = pausedRemainingMillis s"
proof -
  let ?mac = "as_text (jget client ''mac'')" and ?ip = "as_text (jget client ''ip'')"
  show ?thesis
  proof (cases "?mac = [] \<or> ?ip = [] \<and> findByMac c ?mac = None")
    case True
    with s show ?thesis by (auto simp: refresh_client_def Let_def)
  next
    case False
    then have mac: "?mac \<noteq> []" by simp
    let ?c1 = "fst (upsert ?ip ?mac c)"
    let ?p = "if findByMac c ?mac = None \<and> hasPausedSessionFile ?mac fs
        then Some (loadPausedSessionFile opened ?mac fs) else None"
    have r: "refresh_client fs opened client c = modify_session ?mac (update_session client ?p) ?c1"
      using False upsert_key_mac [OF mac, of ?ip c]
      by (auto simp: refresh_client_def Let_def split: prod.split)
    obtain s1 where s1: "findByMac ?c1 m = Some s1" "socketFd s1 = socketFd s"
        "pausedRemainingMillis s1 = pausedRemainingMillis s"
      using upsert_keeps [OF ok s mac] by blast
    have ok1: "cache_ok ?c1" using ok by (rule cache_ok_upsert)
    show ?thesis
    proof (cases "m = ?mac")
      case True
      with s have "?p = None" by simp
      with s1 True show ?thesis by (simp add: r cache.modify_same [OF ok1])
    next
      case False
      with s1 show ?thesis by (simp add: r cache.modify_other [OF ok1])
    qed
  qed
qed

lemma refresh_all_keeps:
  "cache_ok c \<Longrightarrow> findByMac c m = Some s \<Longrightarrow>
     cache_ok (fold (refresh_client fs opened) merged c)
     \<and> (\<exists>s'. findByMac (fold (refresh_client fs opened) merged c) m = Some s'
         \<and> socketFd s' = socketFd s \<and> pausedRemainingMillis s' = pausedRemainingMillis s)"
proof (induction merged arbitrary: c s)
  case (Cons client merged)
  obtain s1 where s1: "findByMac (refresh_client fs opened client c) m = Some s1"
    "socketFd s1 = socketFd s" "pausedRemainingMillis s1 = pausedRemainingMillis s"
    using refresh_client_keeps [OF Cons.prems] by blast
  from Cons.IH [OF cache_ok_refresh_client [OF Cons.prems(1)] s1(1)] s1(2,3) show ?case by auto
qed auto

lemma merged_mac [simp]: "as_text (jget (merged_entry all hs) ''mac'') = as_text (jget hs ''mac'')"
  by (simp add: merged_entry_def Let_def split: option.split)

lemma merged_end [simp]: "as_u64 (jget (merged_entry all hs) ''end'') = as_u64 (jget hs ''end'')"
  using uint_bounded [of "as_u64 (jget hs ''end'')"]
  by (simp add: merged_entry_def as_u64_def Let_def split: option.split)

lemma merge_unseen:
  "x \<in> set (mergeClientLists hs all now seen) \<Longrightarrow> as_text (jget x ''mac'') \<notin> set seen"
  by (induction hs all now seen rule: mergeClientLists.induct) (auto split: if_splits)

lemma merge_distinct:
  "distinct (map (\<lambda>x. as_text (jget x ''mac'')) (mergeClientLists hs all now seen))"
proof (induction hs all now seen rule: mergeClientLists.induct)
  case (2 hs rest all now seen)
  have "as_text (jget hs ''mac'') \<notin> (\<lambda>x. as_text (jget x ''mac''))
      ` set (mergeClientLists rest all now (as_text (jget hs ''mac'') # seen))"
  proof
    assume "as_text (jget hs ''mac'') \<in> (\<lambda>x. as_text (jget x ''mac''))
      ` set (mergeClientLists rest all now (as_text (jget hs ''mac'') # seen))"
    then obtain x where x: "x \<in> set (mergeClientLists rest all now (as_text (jget hs ''mac'') # seen))"
      "as_text (jget hs ''mac'') = as_text (jget x ''mac'')" by blast
    from merge_unseen [OF x(1)] x(2) show False by simp
  qed
  with 2 show ?case by simp
qed simp

definition first_live :: "u64 \<Rightarrow> string \<Rightarrow> json list \<Rightarrow> json option" where
  "first_live now mac hs = find (\<lambda>h. live_session now h \<and> as_text (jget h ''mac'') = mac) hs"

lemma first_live_Cons:
  "first_live now mac (h # hs) =
     (if live_session now h \<and> as_text (jget h ''mac'') = mac then Some h else first_live now mac hs)"
  by (simp add: first_live_def)

lemma merge_from_first:
  "x \<in> set (mergeClientLists hs all now seen) \<Longrightarrow>
     \<exists>h. first_live now (as_text (jget x ''mac'')) hs = Some h \<and> x = merged_entry all h"
proof (induction hs all now seen rule: mergeClientLists.induct)
  case (2 hs rest all now seen)
  let ?k = "as_text (jget hs ''mac'')"
  consider (skip) "\<not> live_session now hs" | (dup) "live_session now hs" "?k \<in> set seen"
    | (new) "live_session now hs" "?k \<notin> set seen" by blast
  then show ?case
  proof cases
    case skip
    with 2 show ?thesis by (simp add: first_live_Cons)
  next
    case dup
    with 2(4) have "x \<in> set (mergeClientLists rest all now seen)" by simp
    moreover from merge_unseen [OF this] dup have "as_text (jget x ''mac'') \<noteq> ?k" by auto
    ultimately show ?thesis using 2(2) dup by (simp add: first_live_Cons)
  next
    case new
    show ?thesis
    proof (cases "x \<in> set (mergeClientLists rest all now (?k # seen))")
      case True
      with merge_unseen [OF True] have "as_text (jget x ''mac'') \<noteq> ?k" by auto
      with 2(3) [OF _ new(2) True] new show ?thesis by (simp add: first_live_Cons)
    next
      case False
      with 2(4) new have "x = merged_entry all hs" by simp
      with new show ?thesis by (auto simp: first_live_Cons)
    qed
  qed
qed simp

lemma merge_covers:
  "first_live now mac hs = Some h \<Longrightarrow> mac \<notin> set seen \<Longrightarrow> merged_entry all h \<in> set (mergeClientLists hs all now seen)"
proof (induction hs arbitrary: seen)
  case (Cons g hs)
  then show ?case by (cases "as_text (jget g ''mac'') = mac") (auto simp: first_live_Cons split: if_splits)
qed (simp add: first_live_def)

section \<open>Properties\<close>

text \<open>One session per device, and the latest. The merge of the two client lists holds each MAC at
  most once; what it holds for a MAC is built from the first unexpired external-portal record of
  that MAC (the list comes sorted by descending end), and every such MAC is there.\<close>
theorem merge_keeps_latest_session:
  "distinct (map (\<lambda>x. as_text (jget x ''mac'')) (mergeClientLists hs active now []))
   \<and> (\<forall>x \<in> set (mergeClientLists hs active now []).
        \<exists>h. first_live now (as_text (jget x ''mac'')) hs = Some h \<and> x = merged_entry active h)
   \<and> (\<forall>mac h. first_live now mac hs = Some h \<longrightarrow> merged_entry active h \<in> set (mergeClientLists hs active now []))"
  using merge_distinct merge_from_first merge_covers by (auto simp del: mergeClientLists.simps)

definition demo_hotspot :: "string \<Rightarrow> int \<Rightarrow> json" where
  "demo_hotspot mac t = JObj [(''mac'', JStr mac), (''id'', JStr ''c1''), (''start'', JNum 1000), (''end'', JNum t),
     (''authType'', JNum 4), (''ip'', JStr ''10.0.0.7'')]"

theorem merge_keeps_latest_session_witness:
  "merged_entry [] (demo_hotspot ''AA'' 9000)
     \<in> set (mergeClientLists [demo_hotspot ''AA'' 9000, demo_hotspot ''AA'' 8000] [] 5000 [])"
proof -
  have "first_live 5000 ''AA'' [demo_hotspot ''AA'' 9000, demo_hotspot ''AA'' 8000] = Some (demo_hotspot ''AA'' 9000)"
    by code_simp
  with merge_keeps_latest_session show ?thesis by blast
qed

text \<open>A refresh never loses a customer's state. Whatever the controller answers, a refresh of the
  session cache keeps every known client in it, with its paused time and its socket, and the
  cache's invariant.\<close>
theorem refresh_keeps_paused_time:
  assumes "cache_ok (HOTSPOT_SESSION_CACHE s)" and "findByMac (HOTSPOT_SESSION_CACHE s) m = Some p"
  shows "cache_ok (HOTSPOT_SESSION_CACHE (refreshHotspotSessionCache e ssid fs opened s))
     \<and> (\<exists>p'. findByMac (HOTSPOT_SESSION_CACHE (refreshHotspotSessionCache e ssid fs opened s)) m = Some p'
          \<and> pausedRemainingMillis p' = pausedRemainingMillis p \<and> socketFd p' = socketFd p)"
proof -
  have status: "HOTSPOT_SESSION_CACHE (refreshControllerStatus e z) = HOTSPOT_SESSION_CACHE z" for z
    by (simp add: refreshControllerStatus_def Let_def split: prod.split option.split)
  have "\<exists>merged. HOTSPOT_SESSION_CACHE (refreshHotspotSessionCache e ssid fs opened s)
      = fold (refresh_client fs opened) merged (HOTSPOT_SESSION_CACHE s)"
    by (auto simp: refreshHotspotSessionCache_def Let_def status split: prod.split)
  then show ?thesis using refresh_all_keeps [OF assms] by metis
qed

definition demo_omada_env :: "(http_request \<Rightarrow> http_reply) \<Rightarrow> omada_env" where
  "demo_omada_env x = \<lparr>exchange = x, parse_json = (\<lambda>t. if t = ''{}'' then Some (JObj []) else None),
     om_millis = 7000, om_epoch = 1700000000000, BASE_URL = ''https://c'', OMADAC_ID = ''id'',
     USERNAME = ''u'', PASSWORD = ''p''\<rparr>"

definition demo_credentials :: credentials where
  "demo_credentials = \<lparr>csrfToken = ''t'', sessionId = ''s'', loginMs = 5000\<rparr>"

definition demo_site :: site where "demo_site = \<lparr>SITE_ID = ''s1'', SITE_NAME = ''Site''\<rparr>"

definition demo_omada :: "session_cache \<Rightarrow> omada" where
  "demo_omada cache = \<lparr>CREDS = demo_credentials, om_site = demo_site,
     CONTROLLER_STATUS = \<lparr>cs_model = [], cs_version = [], cs_timeZone = [], cs_reachable = True, cs_uptimeMillis = 0,
       cs_fetchedMillis = 0, cs_clockSkewSec = 0, cs_mgmtSsidBreach = False\<rparr>,
     VOUCHER_ACTIVE_COUNT = 0, LAST_CACHE_REFRESH_MILLIS = 0, DEVICE_STATUS_JSON = ''{}'', TZ = ''HKT-8'',
     HOTSPOT_SESSION_CACHE = cache\<rparr>"

definition demo_paused :: session_cache where
  "demo_paused = modify_session ''AA'' (\<lambda>s. s\<lparr>pausedRemainingMillis := 60000\<rparr>) (fst (upsert ''10.0.0.7'' ''AA'' empty_cache))"

lemma cache_ok_demo_paused: "cache_ok demo_paused"
  unfolding demo_paused_def
  by (intro cache_ok_modify cache_ok_upsert cache_ok_empty) (simp add: keeps_identity_def)

theorem refresh_keeps_paused_time_witness:
  "\<exists>p. findByMac (HOTSPOT_SESSION_CACHE (refreshHotspotSessionCache
       (demo_omada_env (\<lambda>r. \<lparr>rp_code = 500, rp_error = [], rp_body = [], rp_cookies = []\<rparr>)) ''net'' Map.empty True
       (demo_omada demo_paused))) ''AA'' = Some p \<and> pausedRemainingMillis p = 60000"
proof -
  have c: "HOTSPOT_SESSION_CACHE (demo_omada demo_paused) = demo_paused" by (simp add: demo_omada_def)
  have "\<exists>p. findByMac demo_paused ''AA'' = Some p \<and> pausedRemainingMillis p = 60000"
    by (simp add: demo_paused_def upsert_def upsert_key_def empty_cache_def drop_old_ip_def default_session_def
        modify_session_def findByMac_def Let_def)
  then obtain p where p: "findByMac demo_paused ''AA'' = Some p" "pausedRemainingMillis p = 60000" by blast
  have ok: "cache_ok (HOTSPOT_SESSION_CACHE (demo_omada demo_paused))"
    using cache_ok_demo_paused by (simp add: c)
  have f: "findByMac (HOTSPOT_SESSION_CACHE (demo_omada demo_paused)) ''AA'' = Some p"
    using p by (simp add: c)
  from refresh_keeps_paused_time [OF ok f] p(2) show ?thesis by metis
qed

text \<open>A login is reused or fresh. Credentials that a command gets to use are the stored ones, and
  either the session stored before and less than an hour old, or one logged in just now with a
  session cookie; after a failed login nothing is stored that a later call would reuse.\<close>
theorem credentials_fresh_or_reused:
  assumes "getCredentials e c = (c1, snap, err)"
  shows "loginMs snap = loginMs c1
     \<and> (loginMs snap \<noteq> 0 \<longrightarrow> snap = c1
        \<and> (snap = c \<and> om_millis e - loginMs c < CONTROLLER_SESSION_MAX_AGE_MILLIS
           \<or> loginMs snap = om_millis e \<and> sessionId snap \<noteq> []))"
  using credentials_cases [OF assms] credentials_failed [OF assms] by (cases "loginMs snap = 0") auto

theorem credentials_fresh_or_reused_witness:
  "fst (snd (getCredentials (demo_omada_env (\<lambda>r. \<lparr>rp_code = 0, rp_error = [], rp_body = [], rp_cookies = []\<rparr>)) demo_credentials))
     = demo_credentials
   \<and> loginMs demo_credentials \<noteq> 0"
proof -
  let ?e = "demo_omada_env (\<lambda>r. \<lparr>rp_code = 0, rp_error = [], rp_body = [], rp_cookies = []\<rparr>)"
  have g: "getCredentials ?e demo_credentials = (demo_credentials, demo_credentials, [])"
    by (simp add: getCredentials_def demo_credentials_def demo_omada_env_def)
  have "loginMs demo_credentials \<noteq> 0" by (simp add: demo_credentials_def)
  with credentials_fresh_or_reused [OF g] g show ?thesis by simp
qed

text \<open>A reply that is no error is a grant. There is a reply with HTTP status 500, whose text is an
  empty JSON object, that the code takes for a successful authorization: the status is not
  looked at, and a missing \<open>errorCode\<close> reads as 0.\<close>
theorem error_status_taken_for_grant:
  "\<exists>x. rp_code (x (auth_request (demo_omada_env x) demo_site demo_credentials default_session 60000)) = 500
     \<and> snd (snd (authenticateOmadaClient (demo_omada_env x) demo_site default_session 60000 demo_credentials)) = None"
proof (intro exI conjI)
  let ?x = "\<lambda>r :: http_request. \<lparr>rp_code = 500, rp_error = [], rp_body = ''{}'', rp_cookies = []\<rparr>"
  show "rp_code (?x (auth_request (demo_omada_env ?x) demo_site demo_credentials default_session 60000)) = 500" by simp
  show "snd (snd (authenticateOmadaClient (demo_omada_env ?x) demo_site default_session 60000 demo_credentials)) = None"
    by (simp add: authenticateOmadaClient_def getCredentials_def command_result_def demo_credentials_def
        demo_omada_env_def as_int_def)
qed

end
