(* ===== verification/Portal.thy ===== *)
theory Portal
  imports OmadaApi CoinSession CoinPulse
begin

text \<open>
  The customer side of \<open>src/web.cpp\<close>: seeding a session from the portal redirect, the status
  request, the WebSocket handlers (open, frames, errors), the status message, and the jobs that
  \<open>webSocketTask\<close> runs: pause, resume and cache refresh. The portal's state joins the controller
  client's state, the files, the coin state with its event queue, the button's interrupt state with
  the pulse queue, and the job queue. Address parsing and printing, the live sockets and the texts
  of the embedded pages are parameters. \<open>src/omada.h\<close> defines \<open>TEST_MODE\<close>, so the handlers have
  what it compiles in: the address that a request names, and the test coin.
\<close>

section \<open>State\<close>

datatype ws_job = JOB_PAUSE string | JOB_RESUME string | JOB_REFRESH_CACHE

abbreviation WEBSOCKET_JOB_QUEUE_SIZE :: nat where "WEBSOCKET_JOB_QUEUE_SIZE \<equiv> 8"

definition job_mac :: "string \<Rightarrow> string" where "job_mac m = cstr 18 m"

record portal =
  om :: omada
  files :: fs
  coin_st :: coin_state
  coin_queue :: "coin_event list"
  jobs :: "ws_job list"
  button :: isr_state
  pulse_queue :: "coin_pulse list"

record portal_env =
  om_env :: omada_env
  parse_ip :: "string \<Rightarrow> u32 option"
  show_ip :: "u32 \<Rightarrow> string"
  ws_open :: "int \<Rightarrow> bool"
  file_opens :: bool
  mgmt_ssid :: string
  minutes_coin :: int
  boot_running :: bool
  now_sec :: int
  millis_now :: u32
  micros_now :: u32
  button_low :: bool

datatype portal_action =
    WsMessage int string
  | WsClosed int
  | Activity string string int int
  | HttpSend int string

abbreviation cache_of :: "portal \<Rightarrow> session_cache" where
  "cache_of s \<equiv> HOTSPOT_SESSION_CACHE (om s)"

definition set_cache :: "session_cache \<Rightarrow> portal \<Rightarrow> portal" where
  "set_cache c s = s\<lparr>om := (om s)\<lparr>HOTSPOT_SESSION_CACHE := c\<rparr>\<rparr>"

definition set_creds :: "credentials \<Rightarrow> portal \<Rightarrow> portal" where
  "set_creds c s = s\<lparr>om := (om s)\<lparr>CREDS := c\<rparr>\<rparr>"

section \<open>The status message\<close>

definition coin_time_left :: "u32 \<Rightarrow> coin_status \<Rightarrow> nat" where
  "coin_time_left now cs = (if st_deadlineMs cs > now then unat ((st_deadlineMs cs - now) div 1000) else 0)"

definition buildStatusJson :: "portal_env \<Rightarrow> portal \<Rightarrow> session_params \<Rightarrow> string \<Rightarrow> string" where
  "buildStatusJson e s sess type =
     (let cs = coinSessionSnapshot (coin_st s);
          mine = (st_accepting cs \<and> coinIpToU32 (parse_ip e) (clientIp sess) = st_clientIpV4 cs)
      in ''{\"type\":'' @ quoted type
         @ '',\"coinCount\":'' @ dec_int (if mine then st_count cs else 0)
         @ '',\"coinInsertTimeLeft\":'' @ dec (if mine then coin_time_left (millis_now e) cs else 0)
         @ '',\"sessionStartMillis\":'' @ dec (unat (sessionStartMillis sess))
         @ '',\"sessionEndMillis\":'' @ dec (unat (sessionEndMillis sess))
         @ '',\"pausedRemainingMillis\":'' @ dec (unat (pausedRemainingMillis sess))
         @ '',\"clientMac\":'' @ quoted (clientMac sess) @ '',\"clientIp\":'' @ quoted (clientIp sess)
         @ '',\"minutesPerCoin\":'' @ dec_int (minutes_coin e)
         @ '',\"devices\":'' @ DEVICE_STATUS_JSON (om s) @ ''}'')"

definition pushCoinUpdateToClient :: "portal_env \<Rightarrow> portal \<Rightarrow> portal_action list" where
  "pushCoinUpdateToClient e s =
     (let cs = coinSessionSnapshot (coin_st s) in
      if st_socketFd cs < 0 \<or> st_clientIpV4 cs = 0 then []
      else case findByIp (cache_of s) (show_ip e (st_clientIpV4 cs)) of
          None \<Rightarrow> []
        | Some sess \<Rightarrow>
            if ws_open e (st_socketFd cs)
            then [WsMessage (st_socketFd cs) (buildStatusJson e s sess ''status'')] else [])"

definition updateClientTask :: "portal_env \<Rightarrow> portal \<Rightarrow> portal_action list" where
  "updateClientTask e s = (if COIN_INSERT_ACTIVE (coin_st s) then pushCoinUpdateToClient e s else [])"

section \<open>Seeding a session\<close>

definition seed_fields :: "(string \<times> string) list \<Rightarrow> session_params \<Rightarrow> session_params" where
  "seed_fields params s =
     (let s1 = (case map_of params ''apMac'' of None \<Rightarrow> s | Some v \<Rightarrow> s\<lparr>apMac := v\<rparr>);
          s2 = (case map_of params ''ssidName'' of None \<Rightarrow> s1 | Some v \<Rightarrow> s1\<lparr>ssidName := v\<rparr>)
      in case map_of params ''radioId'' of None \<Rightarrow> s2 | Some v \<Rightarrow> s2\<lparr>radioId := v\<rparr>)"

definition restore_paused :: "bool \<Rightarrow> string \<Rightarrow> fs \<Rightarrow> session_params \<Rightarrow> session_params" where
  "restore_paused opened mac fs s =
     (if hasPausedSessionFile mac fs \<and> pausedRemainingMillis s = 0
      then s\<lparr>pausedRemainingMillis := loadPausedSessionFile opened mac fs\<rparr> else s)"

text \<open>The result is the key of the session, whose current value the cache holds.\<close>

definition seedPortalSession ::
  "portal_env \<Rightarrow> (string \<times> string) list \<Rightarrow> string \<Rightarrow> string \<Rightarrow> portal \<Rightarrow> portal \<times> string" where
  "seedPortalSession e params cip cmac s =
     (let (c1, key) = upsert cip cmac (cache_of s);
          c2 = modify_session key (\<lambda>x. restore_paused (file_opens e) cmac (files s) (seed_fields params x)) c1
      in (set_cache c2 s, key))"

definition param :: "(string \<times> string) list \<Rightarrow> string \<Rightarrow> string" where
  "param params k = (case map_of params k of None \<Rightarrow> [] | Some v \<Rightarrow> v)"

text \<open>The address a request is for: the one it names, or else the one it comes from.\<close>

definition request_ip :: "(string \<times> string) list \<Rightarrow> string \<Rightarrow> string" where
  "request_ip params remote = (case map_of params ''clientIp'' of None \<Rightarrow> remote | Some v \<Rightarrow> v)"

text \<open>\<open>page\<close> and \<open>unidentified\<close> are the embedded pages, \<open>remote\<close> is the address of the connection.\<close>

definition handleRoot ::
  "portal_env \<Rightarrow> string \<Rightarrow> string \<Rightarrow> (string \<times> string) list \<Rightarrow> string \<Rightarrow> portal \<Rightarrow> portal \<times> portal_action list" where
  "handleRoot e page unidentified params remote s =
     (let ip = request_ip params remote; mac = param params ''clientMac'';
          mac' = (if mac \<noteq> [] then mac
                  else case findByIp (cache_of s) ip of None \<Rightarrow> [] | Some x \<Rightarrow> clientMac x)
      in if mac' = [] then (s, [HttpSend 200 unidentified])
         else (fst (seedPortalSession e params ip mac' s), [HttpSend 200 page]))"

definition handleGetStatus ::
  "portal_env \<Rightarrow> (string \<times> string) list \<Rightarrow> string \<Rightarrow> portal \<Rightarrow> portal \<times> portal_action list" where
  "handleGetStatus e params remote s =
     (let ip = request_ip params remote; (s1, sess) = (case map_of params ''clientMac'' of
            Some mac \<Rightarrow> (case seedPortalSession e params ip mac s of (s', key) \<Rightarrow> (s', map_of (byMac (cache_of s')) key))
          | None \<Rightarrow> (s, findByIp (cache_of s) ip))
      in (s1, [HttpSend 200 (case sess of
            Some x \<Rightarrow> buildStatusJson e s1 x ''status''
          | None \<Rightarrow> ''{\"type\":\"status\",\"sessionEndMillis\":0,\"pausedRemainingMillis\":0,\"coinInsertTimeLeft\":0,\"devices\":''
              @ DEVICE_STATUS_JSON (om s1) @ ''}'')]))"

section \<open>WebSocket handlers\<close>

definition handleWsOpen :: "portal_env \<Rightarrow> int \<Rightarrow> string \<Rightarrow> portal \<Rightarrow> portal" where
  "handleWsOpen e fd ip s =
     (let s1 = (case findByIp (cache_of s) ip of
                  None \<Rightarrow> s
                | Some x \<Rightarrow> set_cache (modify_session (clientMac x) (\<lambda>x. x\<lparr>socketFd := fd\<rparr>) (cache_of s)) s)
      in s1\<lparr>coin_st := fst (coinSessionUpdateSocket (parse_ip e) ip fd (coin_st s1))\<rparr>)"

definition wsError :: "int \<Rightarrow> string \<Rightarrow> portal_action list" where
  "wsError fd json = [WsMessage fd json, WsClosed fd]"

definition ws_error_text :: "string \<Rightarrow> string" where
  "ws_error_text msg = ''{\"type\":\"error\",\"message\":'' @ quoted msg @ ''}''"

definition no_session_text :: string where
  "no_session_text = ''{\"type\":\"error\",\"subtype\":\"no_session\",\"message\":\"No portal session found for this device\"}''"

definition out_of_service :: string where
  "out_of_service = ''Temporarily out of service '' @ [CHR 0xE2, CHR 0x80, CHR 0x94] @ '' please try again shortly''"

text \<open>The test coin calls the button's interrupt handler, which looks at the button.\<close>

definition test_coin :: "portal_env \<Rightarrow> portal \<Rightarrow> portal" where
  "test_coin e s =
     (case coinButtonPulse (micros_now e) (button_low e) (button s) of
        (b, None) \<Rightarrow> s\<lparr>button := b\<rparr>
      | (b, Some p) \<Rightarrow> s\<lparr>button := b, pulse_queue := q_post COIN_PULSE_QUEUE_SIZE p (pulse_queue s)\<rparr>)"

definition ws_action ::
  "portal_env \<Rightarrow> int \<Rightarrow> string \<Rightarrow> string \<Rightarrow> session_params \<Rightarrow> portal \<Rightarrow> portal \<times> portal_action list" where
  "ws_action e fd ip action x s =
     (if action = ''getStatus'' then
        (let s1 = s\<lparr>coin_st := fst (coinSessionUpdateSocket (parse_ip e) ip fd (coin_st s))\<rparr>
         in (s1, [WsMessage fd (buildStatusJson e s1 x ''status'')]))
      else if action = ''startCoinInsert'' then
        (if \<not> isServiceReady (now_sec e) (om s) then (s, wsError fd (ws_error_text out_of_service))
         else case coinSessionTryClaim (boot_running e) fd ip (coin_queue s) (coin_st s) of
             (q, c, True) \<Rightarrow>
               (let s1 = s\<lparr>coin_queue := q, coin_st := c\<rparr>
                in (s1, [WsMessage fd (buildStatusJson e s1 x ''status'')]))
           | (q, c, False) \<Rightarrow>
               (s\<lparr>coin_queue := q, coin_st := c\<rparr>, wsError fd (ws_error_text ''Another user already inserting coins'')))
      else if action = ''pause'' then
        (s\<lparr>jobs := q_post WEBSOCKET_JOB_QUEUE_SIZE (JOB_PAUSE (job_mac (clientMac x))) (jobs s)\<rparr>, [])
      else if action = ''resume'' then
        (s\<lparr>jobs := q_post WEBSOCKET_JOB_QUEUE_SIZE (JOB_RESUME (job_mac (clientMac x))) (jobs s)\<rparr>, [])
      else if action = ''testInsertCoin'' then (test_coin e s, [])
      else (s, wsError fd (ws_error_text ''Unknown action'')))"

definition frame_ip :: "json \<Rightarrow> string \<Rightarrow> string" where
  "frame_ip doc remote = (let ip = str_or [] (jget doc ''clientIp'') in if ip \<noteq> [] then ip else remote)"

definition handleWsRequest ::
  "portal_env \<Rightarrow> int \<Rightarrow> string \<Rightarrow> string \<Rightarrow> portal \<Rightarrow> portal \<times> portal_action list" where
  "handleWsRequest e fd remote payload s =
     (case parse_json (om_env e) payload of
        None \<Rightarrow> (s, wsError fd (ws_error_text ''Invalid WS JSON Request''))
      | Some doc \<Rightarrow>
          (let ip = frame_ip doc remote in
           case findByIp (cache_of s) ip of
             None \<Rightarrow> (s, wsError fd no_session_text)
           | Some x \<Rightarrow>
               (let touch = (\<lambda>x. x\<lparr>socketFd := fd, clientIp := ip\<rparr>)
                in ws_action e fd ip (str_or [] (jget doc ''action'')) (touch x)
                     (set_cache (modify_session (clientMac x) touch (cache_of s)) s))))"

section \<open>Pause and resume\<close>

definition to_ws :: "portal_env \<Rightarrow> session_params \<Rightarrow> portal_action list \<Rightarrow> portal_action list" where
  "to_ws e x acts = (if ws_open e (socketFd x) then acts else [])"

definition detail_text :: "string \<Rightarrow> string \<Rightarrow> string" where
  "detail_text msg detail = ''{\"type\":\"error\",\"message\":'' @ quoted msg @ '',\"detail\":'' @ quoted detail @ ''}''"

definition paused_minutes :: "u32 \<Rightarrow> int" where "paused_minutes ms = uint (ms div 60000)"

text \<open>The pause of a session that has time left.\<close>

definition pause_session :: "portal_env \<Rightarrow> session_params \<Rightarrow> portal \<Rightarrow> portal \<times> portal_action list" where
  "pause_session e x s =
     (let fd = socketFd x;
          remaining = ucast (sessionEndMillis x - om_epoch (om_env e)) :: u32
      in case savePausedSessionFile (file_opens e) (clientMac x) remaining (files s) of
           (fs1, False) \<Rightarrow>
             (s\<lparr>files := fs1\<rparr>, to_ws e x [WsMessage fd (detail_text ''Pause failed'' ''Could not save to filesystem'')])
         | (fs1, True) \<Rightarrow>
             (case disconnectOmadaClient (om_env e) (om_site (om s)) x (CREDS (om s)) of
                (c1, x', None) \<Rightarrow>
                  (let x2 = x'\<lparr>pausedRemainingMillis := remaining\<rparr>;
                       s1 = set_cache (modify_session (clientMac x) (\<lambda>_. x2) (cache_of s))
                              (set_creds c1 (s\<lparr>files := fs1\<rparr>))
                   in (s1, Activity ''PAUSE'' (clientMac x) 0 (paused_minutes remaining)
                           # to_ws e x [WsMessage fd (buildStatusJson e s1 x2 ''paused''), WsClosed fd]))
              | (c1, x', Some err) \<Rightarrow>
                  (set_creds c1 (s\<lparr>files := deletePausedSessionFile (clientMac x) fs1\<rparr>),
                   to_ws e x [WsMessage fd (detail_text ''Pause failed'' err), WsClosed fd])))"

definition processPause :: "portal_env \<Rightarrow> string \<Rightarrow> portal \<Rightarrow> portal \<times> portal_action list" where
  "processPause e mac s =
     (case findByMac (cache_of s) mac of
        None \<Rightarrow> (s, [])
      | Some x \<Rightarrow>
          if sessionEndMillis x = 0 \<or> clientId x = [] then
            (s, to_ws e x [WsMessage (socketFd x)
               ''{\"type\":\"error\",\"subtype\":\"no_session\",\"message\":\"No active session to pause\"}''])
          else if sessionEndMillis x \<le> om_epoch (om_env e) then
            (s, to_ws e x [WsMessage (socketFd x) (ws_error_text ''No time remaining'')])
          else pause_session e x s)"

definition resume_session :: "portal_env \<Rightarrow> session_params \<Rightarrow> portal \<Rightarrow> portal \<times> portal_action list \<times> bool" where
  "resume_session e x s =
     (let fd = socketFd x; paused = pausedRemainingMillis x
      in case authenticateOmadaClient (om_env e) (om_site (om s)) x (ucast paused) (CREDS (om s)) of
           (c1, x', None) \<Rightarrow>
             (let x2 = x'\<lparr>pausedRemainingMillis := 0\<rparr>;
                  s1 = set_cache (modify_session (clientMac x) (\<lambda>_. x2) (cache_of s))
                         (set_creds c1 (s\<lparr>files := deletePausedSessionFile (clientMac x) (files s)\<rparr>))
              in (s1, Activity ''RESUME'' (clientMac x) 0 (paused_minutes paused)
                      # to_ws e x [WsMessage fd (buildStatusJson e s1 x2 ''resumed''), WsClosed fd], True))
         | (c1, x', Some err) \<Rightarrow>
             (set_creds c1 s, to_ws e x [WsMessage fd (detail_text ''Resume failed'' err), WsClosed fd], False))"

definition refresh_job :: "portal_env \<Rightarrow> portal \<Rightarrow> portal" where
  "refresh_job e s = s\<lparr>om := refreshHotspotSessionCache (om_env e) (mgmt_ssid e) (files s) (file_opens e) (om s)\<rparr>"

definition processResume :: "portal_env \<Rightarrow> string \<Rightarrow> portal \<Rightarrow> portal \<times> portal_action list" where
  "processResume e mac s =
     (case findByMac (cache_of s) mac of
        None \<Rightarrow> (s, [])
      | Some x \<Rightarrow>
          if pausedRemainingMillis x = 0 then
            (s, to_ws e x [WsMessage (socketFd x) (ws_error_text ''No paused session to resume'')])
          else case resume_session e x s of
              (s1, a, True) \<Rightarrow> (refresh_job e s1, a)
            | (s1, a, False) \<Rightarrow> (s1, a))"

text \<open>One job of \<open>webSocketTask\<close>.\<close>

definition webSocketTask :: "portal_env \<Rightarrow> portal \<Rightarrow> portal \<times> portal_action list" where
  "webSocketTask e s =
     (case q_receive (jobs s) of
        None \<Rightarrow> (s, [])
      | Some (job, rest) \<Rightarrow>
          (let s1 = s\<lparr>jobs := rest\<rparr> in
           case job of
             JOB_PAUSE mac \<Rightarrow> processPause e mac s1
           | JOB_RESUME mac \<Rightarrow> processResume e mac s1
           | JOB_REFRESH_CACHE \<Rightarrow> (refresh_job e s1, [])))"

section \<open>Lemmas\<close>

lemma set_cache_fields [simp]:
  "HOTSPOT_SESSION_CACHE (om (set_cache c s)) = c" "files (set_cache c s) = files s"
  "coin_st (set_cache c s) = coin_st s" "coin_queue (set_cache c s) = coin_queue s"
  "jobs (set_cache c s) = jobs s" "om_site (om (set_cache c s)) = om_site (om s)"
  "isServiceReady n (om (set_cache c s)) = isServiceReady n (om s)"
  by (simp_all add: set_cache_def isServiceReady_def)

lemma set_creds_fields [simp]:
  "HOTSPOT_SESSION_CACHE (om (set_creds c s)) = HOTSPOT_SESSION_CACHE (om s)" "files (set_creds c s) = files s"
  by (simp_all add: set_creds_def)

lemma disconnect_result:
  "disconnectOmadaClient e st x c = (c1, x', None) \<Longrightarrow> x' = x\<lparr>sessionEndMillis := 0, clientId := []\<rparr>"
  by (auto simp: disconnectOmadaClient_def split: prod.splits option.splits if_splits)

lemma auth_result:
  "authenticateOmadaClient e st x d c = (c1, x', None) \<Longrightarrow>
     x' = x\<lparr>sessionStartMillis := om_epoch e, sessionEndMillis := om_epoch e + d\<rparr>"
  by (auto simp: authenticateOmadaClient_def split: prod.splits option.splits if_splits)

lemma extend_result:
  "extendOmadaClient e st x d c = (c1, x', None) \<Longrightarrow> x' = x\<lparr>sessionEndMillis := sessionEndMillis x + d\<rparr>"
  by (auto simp: extendOmadaClient_def split: prod.splits option.splits if_splits)

lemma extend_asked:
  "extendOmadaClient e st x d c = (c1, x', None) \<Longrightarrow>
     \<exists>snap. command_result e ''Extend'' (exchange e (extend_request e st snap x d)) = None"
  by (auto simp: extendOmadaClient_def split: prod.splits option.splits if_splits)

lemma auth_asked:
  "authenticateOmadaClient e st x d c = (c1, x', None) \<Longrightarrow>
     \<exists>snap. command_result e ''Auth'' (exchange e (auth_request e st snap x d)) = None"
  by (auto simp: authenticateOmadaClient_def split: prod.splits option.splits if_splits)

text \<open>Replacing the stored value of a known session.\<close>

lemma find_replaced:
  assumes "cache_ok c" and "findByMac c mac = Some x"
  shows "findByMac (modify_session (clientMac x) (\<lambda>_. y) c) mac = Some y"
proof -
  from findByMac_SomeD [OF assms] have "clientMac x = mac" by simp
  with assms show ?thesis by (simp add: cache.modify_field)
qed

lemma cache_ok_replace:
  assumes ok: "cache_ok c" and x: "findByMac c mac = Some x" and y: "clientMac y = clientMac x" "clientIp y = clientIp x"
  shows "cache_ok (modify_session mac (\<lambda>_. y) c)"
proof -
  from x have m: "map_of (byMac c) mac = Some x" by (simp add: findByMac_def split: if_splits)
  let ?f = "\<lambda>s. y\<lparr>clientMac := clientMac s, clientIp := clientIp s\<rparr>"
  have "y\<lparr>clientMac := clientMac x, clientIp := clientIp x\<rparr> = y" using y by (cases y) auto
  then have "modify_session mac (\<lambda>_. y) c = modify_session mac ?f c"
    using m by (simp add: modify_session_def)
  moreover have "cache_ok (modify_session mac ?f c)"
    using ok by (rule cache_ok_modify) (simp add: keeps_identity_def)
  ultimately show ?thesis by simp
qed

lemma pause_effect:
  assumes ok: "cache_ok (cache_of s)" and x: "findByMac (cache_of s) mac = Some x"
    and act: "sessionEndMillis x \<noteq> 0" "clientId x \<noteq> []" "om_epoch (om_env e) < sessionEndMillis x"
    and opens: "file_opens e"
    and dis: "disconnectOmadaClient (om_env e) (om_site (om s)) x (CREDS (om s)) = (c1, x', None)"
    and p: "processPause e mac s = (s', a)"
  shows "findByMac (cache_of s') mac = Some (x\<lparr>sessionEndMillis := 0, clientId := [],
           pausedRemainingMillis := ucast (sessionEndMillis x - om_epoch (om_env e))\<rparr>)"
    and "files s' = (files s)(macToFilename mac \<mapsto> map char_at (put_word 4
           (ucast (sessionEndMillis x - om_epoch (om_env e)) :: u32)))"
    and "om_site (om s') = om_site (om s)" and "CREDS (om s') = c1"
proof -
  from findByMac_SomeD [OF ok x] have m: "clientMac x = mac" by simp
  have ne: "\<not> sessionEndMillis x \<le> om_epoch (om_env e)" using act(3) by simp
  have s': "s' = fst (pause_session e x s)" using p x act ne by (simp add: processPause_def)
  note eff = s' pause_session_def savePausedSessionFile_def opens dis Let_def disconnect_result [OF dis] m
  show "findByMac (cache_of s') mac = Some (x\<lparr>sessionEndMillis := 0, clientId := [],
           pausedRemainingMillis := ucast (sessionEndMillis x - om_epoch (om_env e))\<rparr>)"
    using find_replaced [OF ok x] m by (simp add: eff)
  show "files s' = (files s)(macToFilename mac \<mapsto> map char_at (put_word 4
           (ucast (sessionEndMillis x - om_epoch (om_env e)) :: u32)))" by (simp add: eff)
  show "om_site (om s') = om_site (om s)" by (simp add: eff set_cache_def set_creds_def)
  show "CREDS (om s') = c1" by (simp add: eff set_cache_def set_creds_def)
qed

lemma resume_effect:
  assumes ok: "cache_ok (cache_of s)" and x: "findByMac (cache_of s) mac = Some x"
    and r: "resume_session e x s = (s', a, True)"
  shows "findByMac (cache_of s') mac = Some (x\<lparr>sessionStartMillis := om_epoch (om_env e),
           sessionEndMillis := om_epoch (om_env e) + ucast (pausedRemainingMillis x), pausedRemainingMillis := 0\<rparr>)"
    and "\<not> hasPausedSessionFile mac (files s')"
proof -
  from findByMac_SomeD [OF ok x] have m: "clientMac x = mac" by simp
  obtain c1 x' err where auth: "authenticateOmadaClient (om_env e) (om_site (om s)) x
      (ucast (pausedRemainingMillis x)) (CREDS (om s)) = (c1, x', err)" by (metis prod_cases3)
  with r have e: "err = None" by (auto simp: resume_session_def Let_def split: option.splits)
  note eff = resume_session_def Let_def auth e auth_result [OF auth [unfolded e]] m
  show "findByMac (cache_of s') mac = Some (x\<lparr>sessionStartMillis := om_epoch (om_env e),
           sessionEndMillis := om_epoch (om_env e) + ucast (pausedRemainingMillis x), pausedRemainingMillis := 0\<rparr>)"
    using find_replaced [OF ok x] m r by (auto simp: eff)
  show "\<not> hasPausedSessionFile mac (files s')"
    using r by (auto simp: eff hasPausedSessionFile_def deletePausedSessionFile_def fsExists_def)
qed

section \<open>Properties\<close>

text \<open>C20: A pause keeps the customer's time. When the controller takes the disconnect, the session is
  closed in the cache and what was left of it, modulo 2^32 milliseconds (the width of the
  field, about 49 days), is both in the cache and in the session's file, where the next boot
  finds it.\<close>
theorem pause_saves_time:
  assumes "cache_ok (cache_of s)" and "findByMac (cache_of s) mac = Some x"
    and "sessionEndMillis x \<noteq> 0" and "clientId x \<noteq> []" and "om_epoch (om_env e) < sessionEndMillis x"
    and "file_opens e"
    and "disconnectOmadaClient (om_env e) (om_site (om s)) x (CREDS (om s)) = (c1, x', None)"
    and "processPause e mac s = (s', a)"
  shows "\<exists>y. findByMac (cache_of s') mac = Some y \<and> sessionEndMillis y = 0 \<and> clientId y = []
     \<and> unat (pausedRemainingMillis y) = (unat (sessionEndMillis x) - unat (om_epoch (om_env e))) mod 2 ^ 32
     \<and> loadPausedSessionFile True mac (files s') = pausedRemainingMillis y"
proof -
  have "unat (ucast (sessionEndMillis x - om_epoch (om_env e)) :: u32)
      = (unat (sessionEndMillis x) - unat (om_epoch (om_env e))) mod 2 ^ 32"
    using assms(5) by (simp add: unsigned_ucast_eq take_bit_eq_mod unat_sub less_imp_le)
  with pause_effect [OF assms] show ?thesis by simp
qed

definition demo_portal :: "session_cache \<Rightarrow> portal" where
  "demo_portal c = \<lparr>om = demo_omada c, files = Map.empty, coin_st = coin init_system, coin_queue = [], jobs = [],
     button = \<lparr>COINBUTTON_FALL_TIME = 0, COINSLOT_FALL_TIME = 0, LAST_COIN_PULSE_TIME = 0\<rparr>, pulse_queue = []\<rparr>"

definition demo_portal_env :: "u64 \<Rightarrow> portal_env" where
  "demo_portal_env now = \<lparr>om_env = (demo_omada_env (\<lambda>r. \<lparr>rp_code = 200, rp_error = [], rp_body = ''{}'', rp_cookies = []\<rparr>))\<lparr>om_epoch := now\<rparr>,
     parse_ip = demo_parse, show_ip = (\<lambda>_. []), ws_open = (\<lambda>_. True), file_opens = True, mgmt_ssid = ''net'',
     minutes_coin = 24, boot_running = False, now_sec = 1700000000, millis_now = 7000,
     micros_now = 7000000, button_low = False\<rparr>"

definition demo_active :: session_cache where
  "demo_active = modify_session ''AA'' (\<lambda>s. s\<lparr>sessionEndMillis := 1700000090000, clientId := ''c1''\<rparr>)
     (fst (upsert ''10.0.0.7'' ''AA'' empty_cache))"

definition demo_active_session :: session_params where
  "demo_active_session = default_session\<lparr>clientMac := ''AA'', clientIp := ''10.0.0.7'',
     sessionEndMillis := 1700000090000, clientId := ''c1''\<rparr>"

lemma cache_ok_demo_active: "cache_ok demo_active"
  unfolding demo_active_def
  by (intro cache_ok_modify cache_ok_upsert cache_ok_empty) (simp add: keeps_identity_def)

lemma find_demo_active: "findByMac demo_active ''AA'' = Some demo_active_session"
  by (simp add: demo_active_def demo_active_session_def upsert_def upsert_key_def empty_cache_def
      drop_old_ip_def default_session_def modify_session_def findByMac_def Let_def)

lemma cache_demo_portal [simp]: "cache_of (demo_portal c) = c"
  by (simp add: demo_portal_def demo_omada_def)

lemma demo_disconnect:
  "disconnectOmadaClient (om_env (demo_portal_env now)) (om_site (om (demo_portal c))) x (CREDS (om (demo_portal c)))
     = (demo_credentials, x\<lparr>sessionEndMillis := 0, clientId := []\<rparr>, None)"
  by (simp add: disconnectOmadaClient_def getCredentials_def demo_portal_env_def demo_omada_env_def demo_portal_def
      demo_omada_def demo_credentials_def command_result_def as_int_def)

theorem pause_saves_time_witness:
  "\<exists>y. findByMac (cache_of (fst (processPause (demo_portal_env 1700000030000) ''AA'' (demo_portal demo_active)))) ''AA'' = Some y
     \<and> unat (pausedRemainingMillis y) = 60000"
proof -
  let ?e = "demo_portal_env 1700000030000" and ?s = "demo_portal demo_active"
  obtain s' a where p: "processPause ?e ''AA'' ?s = (s', a)" by fastforce
  have f: "findByMac (cache_of ?s) ''AA'' = Some demo_active_session" by (simp add: find_demo_active)
  have "cache_ok (cache_of ?s)" by (simp add: cache_ok_demo_active)
  from pause_saves_time [OF this f _ _ _ _ demo_disconnect p]
  have "\<exists>y. findByMac (cache_of s') ''AA'' = Some y \<and> unat (pausedRemainingMillis y)
      = (unat (sessionEndMillis demo_active_session) - unat (om_epoch (om_env ?e))) mod 2 ^ 32"
    by (auto simp: demo_active_session_def demo_portal_env_def demo_omada_env_def)
  then show ?thesis
    unfolding p fst_conv by (simp add: demo_active_session_def demo_portal_env_def demo_omada_env_def)
qed

text \<open>C21: Pause and resume lose no time. After a pause at one time and a resume at a later one, both
  taken by the controller, the session ends as long after the resume as it would have ended
  after the pause, provided less than 2^32 milliseconds were left; nothing stays paused, in
  the cache or on disk.\<close>
theorem pause_resume_roundtrip:
  assumes "cache_ok (cache_of s)" and "findByMac (cache_of s) mac = Some x"
    and "sessionEndMillis x \<noteq> 0" and "clientId x \<noteq> []" and "om_epoch (om_env e) < sessionEndMillis x"
    and "file_opens e"
    and "disconnectOmadaClient (om_env e) (om_site (om s)) x (CREDS (om s)) = (c1, x', None)"
    and "processPause e mac s = (s1, a1)"
    and "unat (sessionEndMillis x) - unat (om_epoch (om_env e)) < 2 ^ 32"
    and "findByMac (cache_of s1) mac = Some y" and "resume_session e' y s1 = (s2, a2, True)"
  shows "\<exists>z. findByMac (cache_of s2) mac = Some z \<and> pausedRemainingMillis z = 0
     \<and> sessionEndMillis z - om_epoch (om_env e') = sessionEndMillis x - om_epoch (om_env e)
     \<and> \<not> hasPausedSessionFile mac (files s2)"
proof -
  let ?rem = "sessionEndMillis x - om_epoch (om_env e)"
  note pause = pause_effect [OF assms(1-8)]
  have y: "y = x\<lparr>sessionEndMillis := 0, clientId := [], pausedRemainingMillis := ucast ?rem\<rparr>"
    using pause(1) assms(10) by simp
  have "cache_ok (cache_of s1)"
  proof -
    from findByMac_SomeD [OF assms(1,2)] have m: "clientMac x = mac" by simp
    have "cache_of s1 = modify_session mac (\<lambda>_. x\<lparr>sessionEndMillis := 0, clientId := [],
        pausedRemainingMillis := ucast ?rem\<rparr>) (cache_of s)"
      using assms(3-8) assms(2) disconnect_result [OF assms(7)] m
      by (auto simp: processPause_def pause_session_def savePausedSessionFile_def Let_def not_le [symmetric])
    then show ?thesis using cache_ok_replace [OF assms(1,2)] by simp
  qed
  note resume = resume_effect [OF this assms(10,11)]
  have "(ucast (ucast ?rem :: u32) :: u64) = ?rem"
  proof (rule word_unat_eq_iff [THEN iffD2])
    have "unat ?rem < 2 ^ 32" using assms(5,9) by (simp add: unat_sub less_imp_le)
    then show "unat (ucast (ucast ?rem :: u32) :: u64) = unat ?rem"
      by (simp add: unsigned_ucast_eq take_bit_eq_mod unat_mod)
  qed
  with resume y show ?thesis by simp
qed

lemma demo_auth:
  "authenticateOmadaClient (om_env (demo_portal_env now)) st x d demo_credentials
     = (demo_credentials, x\<lparr>sessionStartMillis := now, sessionEndMillis := now + d\<rparr>, None)"
  by (simp add: authenticateOmadaClient_def getCredentials_def demo_portal_env_def demo_omada_env_def
      demo_credentials_def command_result_def as_int_def)

theorem pause_resume_roundtrip_witness:
  "\<exists>s1 a1 y s2 a2 z. processPause (demo_portal_env 1700000030000) ''AA'' (demo_portal demo_active) = (s1, a1)
     \<and> findByMac (cache_of s1) ''AA'' = Some y
     \<and> resume_session (demo_portal_env 1700009000000) y s1 = (s2, a2, True)
     \<and> findByMac (cache_of s2) ''AA'' = Some z \<and> sessionEndMillis z - 1700009000000 = 60000"
proof -
  let ?e = "demo_portal_env 1700000030000" and ?e' = "demo_portal_env 1700009000000"
    and ?s = "demo_portal demo_active" and ?x = demo_active_session
  obtain s1 a1 where p: "processPause ?e ''AA'' ?s = (s1, a1)" by fastforce
  have ok: "cache_ok (cache_of ?s)" by (simp add: cache_ok_demo_active)
  have f: "findByMac (cache_of ?s) ''AA'' = Some ?x" by (simp add: find_demo_active)
  have n: "om_epoch (om_env ?e) = 1700000030000" "om_epoch (om_env ?e') = 1700009000000" "file_opens ?e"
    by (simp_all add: demo_portal_env_def demo_omada_env_def)
  have act: "sessionEndMillis ?x = 1700000090000" "sessionEndMillis ?x \<noteq> 0" "clientId ?x \<noteq> []"
    "om_epoch (om_env ?e) < sessionEndMillis ?x"
    by (simp_all add: demo_active_session_def n)
  note eff = pause_effect [OF ok f act(2-4) n(3) demo_disconnect p]
  let ?y = "?x\<lparr>sessionEndMillis := 0, clientId := [],
           pausedRemainingMillis := ucast (sessionEndMillis ?x - om_epoch (om_env ?e))\<rparr>"
  obtain s2 a2 where r: "resume_session ?e' ?y s1 = (s2, a2, True)"
    using demo_auth [of 1700009000000 "om_site (om s1)"] eff(4) by (simp add: resume_session_def Let_def)
  have b: "unat (sessionEndMillis ?x) - unat (om_epoch (om_env ?e)) < 2 ^ 32" by (simp add: act n)
  from pause_resume_roundtrip [OF ok f act(2-4) n(3) demo_disconnect p b eff(1) r]
  obtain z where "findByMac (cache_of s2) ''AA'' = Some z"
    "sessionEndMillis z - om_epoch (om_env ?e') = sessionEndMillis ?x - om_epoch (om_env ?e)" by blast
  with p r eff(1) show ?thesis by (auto simp: n act)
qed

text \<open>Of the actions of a frame only \<open>startCoinInsert\<close> can open the coin window, and only while the
  service is ready: the others leave the coin session's flag as it is.\<close>
lemma test_coin_window: "coin_st (test_coin e s) = coin_st s"
  by (simp add: test_coin_def split: prod.split option.split)

lemma update_socket_window: "COIN_INSERT_ACTIVE (fst (coinSessionUpdateSocket p ip fd c)) = COIN_INSERT_ACTIVE c"
  by (simp add: coinSessionUpdateSocket_def Let_def)

lemma ws_action_opens:
  assumes "ws_action e fd ip act x s = (s', a)"
    and "\<not> COIN_INSERT_ACTIVE (coin_st s)" and "COIN_INSERT_ACTIVE (coin_st s')"
  shows "act = ''startCoinInsert''" and "isServiceReady (now_sec e) (om s)"
proof -
  show act: "act = ''startCoinInsert''"
  proof (rule ccontr)
    assume "act \<noteq> ''startCoinInsert''"
    then have "COIN_INSERT_ACTIVE (coin_st (fst (ws_action e fd ip act x s))) = COIN_INSERT_ACTIVE (coin_st s)"
      by (simp add: ws_action_def Let_def test_coin_window update_socket_window)
    then show False using assms by simp
  qed
  show "isServiceReady (now_sec e) (om s)"
    using assms by (cases "isServiceReady (now_sec e) (om s)") (auto simp: ws_action_def act)
qed

text \<open>Coins are taken only for a known customer of a working node. A WebSocket frame opens the
  coin window only when the clock is set, the controller is reachable and a site is loaded, for
  a client whose address has a session, while no boot test runs and the slot is free; then
  exactly one start event for that client is queued. The client is the one the frame names.\<close>
theorem window_opened_only_when_ready:
  assumes "handleWsRequest e fd remote payload s = (s', a)"
    and "\<not> COIN_INSERT_ACTIVE (coin_st s)" and "COIN_INSERT_ACTIVE (coin_st s')"
  shows "\<exists>doc ip. parse_json (om_env e) payload = Some doc \<and> ip = frame_ip doc remote
     \<and> isServiceReady (now_sec e) (om s) \<and> findByIp (cache_of s) ip \<noteq> None \<and> \<not> boot_running e
     \<and> coin_queue s' = coin_queue s @ [COIN_SESSION_START fd (cstr 16 ip)]"
proof -
  from assms obtain doc x where d: "parse_json (om_env e) payload = Some doc" "findByIp (cache_of s) (frame_ip doc remote) = Some x"
    by (auto simp: handleWsRequest_def Let_def split: option.splits)
  define ip where "ip = frame_ip doc remote"
  note d = d(1) d(2) [folded ip_def]
  define z where "z = set_cache (modify_session (clientMac x) (\<lambda>x. x\<lparr>socketFd := fd, clientIp := ip\<rparr>) (cache_of s)) s"
  define x' where "x' = x\<lparr>socketFd := fd, clientIp := ip\<rparr>"
  have w: "ws_action e fd ip (str_or [] (jget doc ''action'')) x' z = (s', a)"
    using assms(1) d by (simp add: handleWsRequest_def Let_def z_def x'_def ip_def)
  have z: "coin_st z = coin_st s" "coin_queue z = coin_queue s" "isServiceReady n (om z) = isServiceReady n (om s)" for n
    by (simp_all add: z_def)
  obtain q c r where claim: "coinSessionTryClaim (boot_running e) fd ip (coin_queue s) (coin_st s) = (q, c, r)"
    by (metis prod_cases3)
  have act: "str_or [] (jget doc ''action'') = ''startCoinInsert''" and ready: "isServiceReady (now_sec e) (om s)"
    using ws_action_opens [OF w] assms(2,3) z by auto
  then have s': "coin_st s' = c" "coin_queue s' = q"
    using w z claim by (cases r; auto simp: ws_action_def Let_def)+
  then have "COIN_INSERT_ACTIVE c" using assms(3) by simp
  with claim assms(2) have "\<not> boot_running e" "q = coin_queue s @ [COIN_SESSION_START fd (cstr 16 ip)]"
    by (auto simp: coinSessionTryClaim_def claim_cas_def claim_post_def q_send_def split: if_splits option.splits)
  then show ?thesis using ready d s' ip_def by blast
qed

definition ready_portal :: portal where
  "ready_portal = (demo_portal demo_active)"

definition start_env :: portal_env where
  "start_env = (demo_portal_env 1700000030000)\<lparr>om_env := (om_env (demo_portal_env 1700000030000))
     \<lparr>parse_json := (\<lambda>t. Some (JObj [(''action'', JStr ''startCoinInsert'')]))\<rparr>\<rparr>"

theorem window_opened_only_when_ready_witness:
  "isServiceReady (now_sec start_env) (om ready_portal)
   \<and> coin_queue (fst (handleWsRequest start_env 5 ''10.0.0.7'' [] ready_portal)) = [COIN_SESSION_START 5 ''10.0.0.7'']"
proof -
  obtain s' a where h: "handleWsRequest start_env 5 ''10.0.0.7'' [] ready_portal = (s', a)" by fastforce
  have off: "\<not> COIN_INSERT_ACTIVE (coin_st ready_portal)" and q: "coin_queue ready_portal = []"
    by (simp_all add: ready_portal_def demo_portal_def init_system_def)
  have f: "findByIp demo_active ''10.0.0.7'' = Some demo_active_session"
    by (simp add: demo_active_def demo_active_session_def upsert_def upsert_key_def empty_cache_def drop_old_ip_def
        default_session_def modify_session_def findByIp_def Let_def)
  have ready: "isServiceReady 1700000000 (om (demo_portal demo_active))"
    by (simp add: isServiceReady_def demo_portal_def demo_omada_def demo_site_def)
  have "COIN_INSERT_ACTIVE (coin_st (fst (handleWsRequest start_env 5 ''10.0.0.7'' [] ready_portal)))"
    unfolding ready_portal_def
    by (simp add: handleWsRequest_def start_env_def demo_portal_env_def f ws_action_def frame_ip_def Let_def
        coinSessionTryClaim_def claim_cas_def claim_post_def q_send_def ready)
      (simp add: demo_portal_def demo_omada_def demo_site_def init_system_def)
  then have "COIN_INSERT_ACTIVE (coin_st s')" by (simp add: h)
  moreover have "frame_ip doc ''10.0.0.7'' = ''10.0.0.7''" if "parse_json (om_env start_env) [] = Some doc" for doc
    using that by (auto simp: start_env_def frame_ip_def)
  ultimately show ?thesis
    using window_opened_only_when_ready [OF h off] q h by (force simp add: cstr_def)
qed

text \<open>A status request can make a phantom. A request with an empty \<open>clientMac\<close> parameter from an
  unknown address creates a session keyed by that address with the address as its MAC, which
  the portal page's handler takes care never to do.\<close>
theorem empty_mac_creates_phantom:
  "\<exists>x. findByIp (cache_of (fst (handleGetStatus (demo_portal_env 0) [(''clientMac'', [])] ''10.0.0.9'' (demo_portal empty_cache))))
        ''10.0.0.9'' = Some x \<and> clientMac x = ''10.0.0.9''
     \<and> cache_of (fst (handleRoot (demo_portal_env 0) [] [] [(''clientMac'', [])] ''10.0.0.9'' (demo_portal empty_cache))) = empty_cache"
proof (intro exI conjI)
  let ?x = "default_session\<lparr>clientMac := ''10.0.0.9'', clientIp := ''10.0.0.9''\<rparr>"
  have files: "files (demo_portal empty_cache) = Map.empty" by (simp add: demo_portal_def)
  show "findByIp (cache_of (fst (handleGetStatus (demo_portal_env 0) [(''clientMac'', [])] ''10.0.0.9'' (demo_portal empty_cache))))
        ''10.0.0.9'' = Some ?x"
    by (simp add: handleGetStatus_def request_ip_def seedPortalSession_def Let_def upsert_def upsert_key_def empty_cache_def
        drop_old_ip_def default_session_def modify_session_def findByIp_def restore_paused_def seed_fields_def
        hasPausedSessionFile_def fsExists_def files [unfolded empty_cache_def])
  show "clientMac ?x = ''10.0.0.9''" by simp
  show "cache_of (fst (handleRoot (demo_portal_env 0) [] [] [(''clientMac'', [])] ''10.0.0.9'' (demo_portal empty_cache))) = empty_cache"
    by (simp add: handleRoot_def request_ip_def param_def findByIp_def empty_cache_def Let_def)
qed

text \<open>A frame can act for another customer. A frame that names the address of another client does to the
  portal exactly what the same frame sent from that address does, and its replies go to the socket of
  the sender: with \<open>TEST_MODE\<close> any client of the portal can pause another's session.\<close>
theorem frame_acts_for_other:
  assumes "parse_json (om_env e) payload = Some doc" and "str_or [] (jget doc ''clientIp'') = victim" and "victim \<noteq> []"
  shows "handleWsRequest e fd remote payload s = handleWsRequest e fd victim payload s
    \<and> (findByIp (cache_of s) victim = Some x \<and> str_or [] (jget doc ''action'') = ''pause'' \<longrightarrow>
        jobs (fst (handleWsRequest e fd remote payload s)) = q_post WEBSOCKET_JOB_QUEUE_SIZE (JOB_PAUSE (job_mac (clientMac x))) (jobs s))"
  using assms by (auto simp: handleWsRequest_def frame_ip_def ws_action_def Let_def)

definition pause_env :: portal_env where
  "pause_env = start_env\<lparr>om_env := (om_env start_env)
     \<lparr>parse_json := (\<lambda>t. Some (JObj [(''action'', JStr ''pause''), (''clientIp'', JStr ''10.0.0.7'')]))\<rparr>\<rparr>"

theorem frame_acts_for_other_witness:
  "jobs (fst (handleWsRequest pause_env 9 ''10.0.0.66'' [] ready_portal)) = [JOB_PAUSE ''AA'']"
proof -
  let ?doc = "JObj [(''action'', JStr ''pause''), (''clientIp'', JStr ''10.0.0.7'')]"
  have d: "parse_json (om_env pause_env) [] = Some ?doc" "str_or [] (jget ?doc ''clientIp'') = ''10.0.0.7''"
    by (simp_all add: pause_env_def)
  have "findByIp (cache_of ready_portal) ''10.0.0.7'' = Some demo_active_session"
    by (simp add: ready_portal_def demo_active_def demo_active_session_def upsert_def upsert_key_def empty_cache_def drop_old_ip_def
        default_session_def modify_session_def findByIp_def Let_def)
  moreover have "str_or [] (jget ?doc ''action'') = ''pause''" by simp
  ultimately have "jobs (fst (handleWsRequest pause_env 9 ''10.0.0.66'' [] ready_portal))
      = q_post WEBSOCKET_JOB_QUEUE_SIZE (JOB_PAUSE (job_mac (clientMac demo_active_session))) (jobs ready_portal)"
    using frame_acts_for_other [OF d, of 9 "''10.0.0.66''" ready_portal demo_active_session] by blast
  then show ?thesis
    by (simp add: ready_portal_def demo_portal_def q_post_def q_send_def job_mac_def cstr_def demo_active_session_def)
qed

text \<open>The test coin needs a finger on the button. With the button up and no press under way the action
  changes nothing, whatever the window: it calls the handler of an edge, not of a pulse.\<close>
theorem test_coin_needs_button:
  assumes "\<not> button_low e" and "COINBUTTON_FALL_TIME (button s) = 0"
  shows "ws_action e fd ip ''testInsertCoin'' x s = (s, [])"
  using assms by (cases "button s") (simp add: ws_action_def test_coin_def coinButtonPulse_def)

theorem test_coin_needs_button_witness:
  "ws_action (demo_portal_env 0) 5 ''10.0.0.7'' ''testInsertCoin'' demo_active_session ready_portal = (ready_portal, [])"
  by (rule test_coin_needs_button) (simp_all add: demo_portal_env_def ready_portal_def demo_portal_def)

end
