(* ===== verification/AdminAuth.thy ===== *)
theory AdminAuth
  imports Json Wire
begin

text \<open>
  The admin login of \<open>src/web.cpp\<close>: challenge and response with single-use nonces, the throttle of
  failed logins per address, and the cookie derived from the password that the gate in front of
  the admin routes checks. SHA-256 and the JSON reader are parameters of the environment; the
  random bytes of a nonce are an argument. Replies are the status and the cookie they set.
\<close>

abbreviation ADMIN_NONCE_TTL_MS :: u32 where "ADMIN_NONCE_TTL_MS \<equiv> 60000"
abbreviation ADMIN_MAX_FAILS :: int where "ADMIN_MAX_FAILS \<equiv> 5"
abbreviation ADMIN_FAIL_COOLDOWN_MS :: u32 where "ADMIN_FAIL_COOLDOWN_MS \<equiv> 60000"

record admin_fails =
  af_ip :: u32
  af_count :: int
  af_untilMs :: u32

record admin_auth =
  ADMIN_NONCES :: "(string \<times> u32) list"
  ADMIN_FAILS :: "admin_fails list"
  cookie_token :: string

record admin_env =
  sha256 :: "string \<Rightarrow> u8 list"
  ADMIN_PASSWORD :: string
  parse_body :: "string \<Rightarrow> json option"

definition no_fails :: admin_fails where
  "no_fails = \<lparr>af_ip = 0, af_count = 0, af_untilMs = 0\<rparr>"

definition boot_auth :: admin_auth where
  "boot_auth = \<lparr>ADMIN_NONCES = replicate 8 ([], 0), ADMIN_FAILS = replicate 8 no_fails, cookie_token = []\<rparr>"

definition ttlLive :: "u32 \<Rightarrow> u32 \<Rightarrow> bool" where
  "ttlLive expiresMs now \<longleftrightarrow> 0 < sint (expiresMs - now)"

definition reqIpU32 :: "u8 \<Rightarrow> u8 \<Rightarrow> u8 \<Rightarrow> u8 \<Rightarrow> u32" where
  "reqIpU32 a b c d = push_bit 24 (ucast a) OR push_bit 16 (ucast b) OR push_bit 8 (ucast c) OR ucast d"

definition randomHex :: "u32 list \<Rightarrow> string" where
  "randomHex rs = hex_text (map (\<lambda>r. ucast (r AND 0xFF)) rs)"

definition sha256Hex :: "admin_env \<Rightarrow> string \<Rightarrow> string" where
  "sha256Hex e s = hex_text (sha256 e s)"

definition ctEqual :: "string \<Rightarrow> string \<Rightarrow> bool" where
  "ctEqual a b \<longleftrightarrow> length a = length b
     \<and> foldl (\<lambda>d i. d OR (byte_of (a ! i) XOR byte_of (b ! i))) 0 [0..<length a] = 0"

text \<open>The \<open>Cookie\<close> header is empty when the request has none.\<close>

definition cookieValue :: "string \<Rightarrow> string \<Rightarrow> string" where
  "cookieValue hdr name =
     (if hdr = [] \<or> length hdr \<ge> 512 then []
      else let cookies = cstr 512 hdr; key = name @ ''=''
           in case index_of key cookies of
                None \<Rightarrow> []
              | Some p0 \<Rightarrow>
                  (let p = p0 + length key
                   in case index_of_from '';'' p cookies of
                        None \<Rightarrow> trim (drop p cookies)
                      | Some q \<Rightarrow> trim (substring p q cookies)))"

definition persistentToken :: "admin_env \<Rightarrow> admin_auth \<Rightarrow> admin_auth \<times> string" where
  "persistentToken e s =
     (if cookie_token s = []
      then let t = sha256Hex e (''ellafi-cookie-v1:'' @ ADMIN_PASSWORD e) in (s\<lparr>cookie_token := t\<rparr>, t)
      else (s, cookie_token s))"

definition isAuthorized :: "admin_env \<Rightarrow> string \<Rightarrow> admin_auth \<Rightarrow> admin_auth \<times> bool" where
  "isAuthorized e hdr s = (let (s', t) = persistentToken e s in (s', ctEqual (cookieValue hdr ''ellafi_admin'') t))"

datatype admin_reply = Reply (reply_status: nat) (reply_cookie: "string option")

text \<open>The gate: \<open>None\<close> passes the request on to its handler.\<close>

definition adminAuth :: "admin_env \<Rightarrow> string \<Rightarrow> admin_auth \<Rightarrow> admin_auth \<times> admin_reply option" where
  "adminAuth e hdr s = (let (s', okay) = isAuthorized e hdr s in (s', if okay then None else Some (Reply 401 None)))"

section \<open>Challenge\<close>

fun challenge_slot :: "u32 \<Rightarrow> nat \<Rightarrow> (string \<times> u32) list \<Rightarrow> nat \<Rightarrow> u32 \<Rightarrow> nat" where
  "challenge_slot now i [] slot oldest = slot"
| "challenge_slot now i (n # ns) slot oldest =
     (if \<not> ttlLive (snd n) now then i
      else if snd n < oldest then challenge_slot now (Suc i) ns i (snd n)
      else challenge_slot now (Suc i) ns slot oldest)"

definition handleAdminChallenge :: "u32 \<Rightarrow> u32 list \<Rightarrow> admin_auth \<Rightarrow> admin_auth \<times> string" where
  "handleAdminChallenge now rnd s =
     (let nonce = randomHex rnd; slot = challenge_slot now 0 (ADMIN_NONCES s) 0 0xFFFFFFFF
      in (s\<lparr>ADMIN_NONCES := (ADMIN_NONCES s)[slot := (nonce, now + ADMIN_NONCE_TTL_MS)]\<rparr>, nonce))"

section \<open>Throttle\<close>

text \<open>A loop that changes the first element with a property and returns.\<close>

fun update_first :: "('a \<Rightarrow> bool) \<Rightarrow> ('a \<Rightarrow> 'a) \<Rightarrow> 'a list \<Rightarrow> 'a list" where
  "update_first P f [] = []"
| "update_first P f (x # xs) = (if P x then f x # xs else x # update_first P f xs)"

definition recordFail :: "u32 \<Rightarrow> u32 \<Rightarrow> admin_fails list \<Rightarrow> admin_fails list" where
  "recordFail ip now fs =
     (if list_ex (\<lambda>f. af_ip f = ip) fs
      then update_first (\<lambda>f. af_ip f = ip)
             (\<lambda>f. f\<lparr>af_count := (if ttlLive (af_untilMs f) now then af_count f else 0) + 1,
                    af_untilMs := now + ADMIN_FAIL_COOLDOWN_MS\<rparr>) fs
      else update_first (\<lambda>f. af_ip f = 0 \<or> \<not> ttlLive (af_untilMs f) now)
             (\<lambda>_. \<lparr>af_ip = ip, af_count = 1, af_untilMs = now + ADMIN_FAIL_COOLDOWN_MS\<rparr>) fs)"

definition clearFails :: "u32 \<Rightarrow> admin_fails list \<Rightarrow> admin_fails list" where
  "clearFails ip fs = map (\<lambda>f. if af_ip f = ip then no_fails else f) fs"

definition throttled :: "u32 \<Rightarrow> u32 \<Rightarrow> admin_fails list \<Rightarrow> bool" where
  "throttled ip now fs \<longleftrightarrow>
     list_ex (\<lambda>f. af_ip f = ip \<and> af_count f \<ge> ADMIN_MAX_FAILS \<and> ttlLive (af_untilMs f) now) fs"

section \<open>Login and logout\<close>

fun burn_nonce :: "u32 \<Rightarrow> string \<Rightarrow> (string \<times> u32) list \<Rightarrow> (string \<times> u32) list \<times> bool" where
  "burn_nonce now nonce [] = ([], False)"
| "burn_nonce now nonce (n # ns) =
     (if fst n \<noteq> [] \<and> fst n = nonce \<and> ttlLive (snd n) now then (([], 0) # ns, True)
      else let (ns', b) = burn_nonce now nonce ns in (n # ns', b))"

definition right_digest :: "admin_env \<Rightarrow> string \<Rightarrow> string \<Rightarrow> bool" where
  "right_digest e nonce digest \<longleftrightarrow>
     length digest = 64 \<and> ctEqual digest (sha256Hex e (nonce @ '':'' @ ADMIN_PASSWORD e))"

definition login_cookie :: "string \<Rightarrow> string" where
  "login_cookie t = ''ellafi_admin='' @ t @ ''; Path=/; Max-Age=315360000; HttpOnly; SameSite=Strict''"

definition handleAdminLogin ::
  "admin_env \<Rightarrow> u32 \<Rightarrow> u32 \<Rightarrow> string \<Rightarrow> admin_auth \<Rightarrow> admin_auth \<times> admin_reply" where
  "handleAdminLogin e now ip body s =
     (if throttled ip now (ADMIN_FAILS s) then (s, Reply 429 None)
      else case parse_body e body of
          None \<Rightarrow> (s, Reply 400 None)
        | Some doc \<Rightarrow>
            (let nonce = as_text (jget doc ''nonce''); digest = as_text (jget doc ''digest'');
                 (ns, nonceOk) = burn_nonce now nonce (ADMIN_NONCES s);
                 s1 = s\<lparr>ADMIN_NONCES := ns\<rparr>
             in if \<not> (nonceOk \<and> right_digest e nonce digest)
                then (s1\<lparr>ADMIN_FAILS := recordFail ip now (ADMIN_FAILS s1)\<rparr>, Reply 401 None)
                else let s2 = s1\<lparr>ADMIN_FAILS := clearFails ip (ADMIN_FAILS s1)\<rparr>; (s3, t) = persistentToken e s2
                     in (s3, Reply 200 (Some (login_cookie t)))))"

definition handleAdminLogout :: "admin_reply" where
  "handleAdminLogout = Reply 200 (Some ''ellafi_admin=; Path=/; Max-Age=0; HttpOnly; SameSite=Strict'')"

section \<open>Runs\<close>

datatype admin_event =
    Challenge u32 "u32 list"
  | Login u32 u32 string
  | Gate string

fun admin_step :: "admin_env \<Rightarrow> admin_event \<Rightarrow> admin_auth \<Rightarrow> admin_auth \<times> nat" where
  "admin_step e (Challenge now rnd) s = (fst (handleAdminChallenge now rnd s), 200)"
| "admin_step e (Login now ip body) s =
     (let (s', r) = handleAdminLogin e now ip body s in (s', reply_status r))"
| "admin_step e (Gate hdr) s =
     (let (s', r) = adminAuth e hdr s in (s', case r of None \<Rightarrow> 200 | Some r \<Rightarrow> reply_status r))"

text \<open>The state after the events, and the status of each.\<close>

fun admin_run :: "admin_env \<Rightarrow> admin_event list \<Rightarrow> admin_auth \<Rightarrow> admin_auth \<times> nat list" where
  "admin_run e [] s = (s, [])"
| "admin_run e (ev # evs) s =
     (let (s', r) = admin_step e ev s; (s'', rs) = admin_run e evs s' in (s'', r # rs))"

definition body_nonce :: "admin_env \<Rightarrow> string \<Rightarrow> string" where
  "body_nonce e body = (case parse_body e body of None \<Rightarrow> [] | Some doc \<Rightarrow> as_text (jget doc ''nonce''))"

definition body_digest :: "admin_env \<Rightarrow> string \<Rightarrow> string" where
  "body_digest e body = (case parse_body e body of None \<Rightarrow> [] | Some doc \<Rightarrow> as_text (jget doc ''digest''))"

fun issued :: "admin_event list \<Rightarrow> string list" where
  "issued [] = []"
| "issued (Challenge now rnd # evs) = randomHex rnd # issued evs"
| "issued (_ # evs) = issued evs"

section \<open>Lemmas\<close>

lemma byte_of_inj: "byte_of a = byte_of b \<longleftrightarrow> a = b"
proof
  assume "byte_of a = byte_of b"
  then have "char_at (byte_of a) = char_at (byte_of b)" by (rule arg_cong)
  then show "a = b" by simp
qed simp

lemma ctEqual_iff [simp]: "ctEqual a b \<longleftrightarrow> a = b"
proof
  assume "ctEqual a b"
  then have l: "length a = length b" and "\<forall>i \<in> set [0..<length a]. a ! i = b ! i"
    unfolding ctEqual_def foldl_or_eq_0 xor_eq_0_iff_eq byte_of_inj by blast+
  then show "a = b" by (intro nth_equalityI) simp_all
next
  assume "a = b"
  then show "ctEqual a b" unfolding ctEqual_def foldl_or_eq_0 xor_eq_0_iff_eq byte_of_inj by blast
qed

subsection \<open>Nonces\<close>

lemma burn_nonce_False: "burn_nonce now n ns = (ns', False) \<Longrightarrow> ns' = ns"
  by (induction ns arbitrary: ns') (auto split: if_splits prod.splits)

lemma burn_nonce_True:
  "burn_nonce now n ns = (ns', True) \<Longrightarrow>
     n \<noteq> [] \<and> (\<exists>as x bs. ns = as @ (n, x) # bs \<and> ns' = as @ ([], 0) # bs \<and> ttlLive x now)"
proof (induction ns arbitrary: ns')
  case (Cons a ns)
  show ?case
  proof (cases "fst a \<noteq> [] \<and> fst a = n \<and> ttlLive (snd a) now")
    case True
    with Cons.prems have "a # ns = [] @ (n, snd a) # ns" "ns' = [] @ ([], 0) # ns" by auto
    with True show ?thesis by blast
  next
    case False
    with Cons.prems obtain ms where m: "burn_nonce now n ns = (ms, True)" "ns' = a # ms"
      by (auto split: prod.splits)
    from Cons.IH [OF m(1)] obtain as x bs where
      "n \<noteq> []" "ns = as @ (n, x) # bs" "ms = as @ ([], 0) # bs" "ttlLive x now" by blast
    with m(2) have "n \<noteq> [] \<and> a # ns = (a # as) @ (n, x) # bs \<and> ns' = (a # as) @ ([], 0) # bs \<and> ttlLive x now"
      by simp
    then show ?thesis by blast
  qed
qed simp

lemma distinct_filter_update:
  "distinct (filter P xs) \<Longrightarrow> y \<notin> set xs \<or> \<not> P y \<Longrightarrow> distinct (filter P (xs[i := y]))"
proof (induction xs arbitrary: i)
  case (Cons x xs)
  have "set (xs[j := y]) \<subseteq> insert y (set xs)" for j by (rule set_update_subset_insert)
  with Cons show ?case by (cases i) (auto split: if_splits)
qed simp

lemma admin_run_append:
  "admin_run e (evs @ [ev]) s =
     (fst (admin_step e ev (fst (admin_run e evs s))),
      snd (admin_run e evs s) @ [snd (admin_step e ev (fst (admin_run e evs s)))])"
  by (induction evs arbitrary: s) (simp_all split: prod.splits)

lemma length_admin_run [simp]: "length (snd (admin_run e evs s)) = length evs"
  by (induction evs arbitrary: s) (simp_all add: case_prod_beta Let_def)

text \<open>The nonces with which a run logged in.\<close>

definition logins :: "admin_env \<Rightarrow> admin_event list \<Rightarrow> admin_auth \<Rightarrow> string list" where
  "logins e evs s =
     concat (map (\<lambda>(ev, r). case ev of
         Login now ip body \<Rightarrow> (if r = 200 then [body_nonce e body] else [])
       | _ \<Rightarrow> []) (zip evs (snd (admin_run e evs s))))"

lemma logins_simps [simp]:
  "logins e [] s = []"
  "logins e (evs @ [ev]) s = logins e evs s @
     (case ev of Login now ip body \<Rightarrow>
          (if snd (admin_step e ev (fst (admin_run e evs s))) = 200 then [body_nonce e body] else [])
      | _ \<Rightarrow> [])"
  by (simp_all add: logins_def admin_run_append)

lemma issued_append [simp]: "issued (evs @ [ev]) = issued evs @ issued [ev]"
  by (induction evs rule: issued.induct) simp_all

lemma issued_iff: "n \<in> set (issued evs) \<longleftrightarrow> (\<exists>t rnd. Challenge t rnd \<in> set evs \<and> n = randomHex rnd)"
  by (induction evs rule: issued.induct) auto

text \<open>A login in one line per branch.\<close>

lemma login_accepted:
  assumes "handleAdminLogin e now ip body s = (s', Reply 200 c)"
  shows "\<exists>doc ns. parse_body e body = Some doc \<and> burn_nonce now (body_nonce e body) (ADMIN_NONCES s) = (ns, True)
     \<and> right_digest e (body_nonce e body) (body_digest e body) \<and> ADMIN_NONCES s' = ns
     \<and> ADMIN_FAILS s' = clearFails ip (ADMIN_FAILS s) \<and> \<not> throttled ip now (ADMIN_FAILS s)
     \<and> s' = fst (persistentToken e s') \<and> c = Some (login_cookie (snd (persistentToken e s)))"
  using assms
  by (auto simp: handleAdminLogin_def body_nonce_def body_digest_def persistentToken_def Let_def
      split: if_splits option.splits prod.splits)

lemma login_nonces:
  "ADMIN_NONCES (fst (handleAdminLogin e now ip body s)) = ADMIN_NONCES s
   \<or> (\<exists>as x bs n. ADMIN_NONCES s = as @ (n, x) # bs
        \<and> ADMIN_NONCES (fst (handleAdminLogin e now ip body s)) = as @ ([], 0) # bs)"
proof -
  have "ADMIN_NONCES (fst (handleAdminLogin e now ip body s))
      \<in> {ADMIN_NONCES s, fst (burn_nonce now (body_nonce e body) (ADMIN_NONCES s))}"
    by (auto simp: handleAdminLogin_def body_nonce_def persistentToken_def Let_def split: option.splits prod.splits)
  moreover obtain ns b where b: "burn_nonce now (body_nonce e body) (ADMIN_NONCES s) = (ns, b)" by fastforce
  ultimately show ?thesis
    using burn_nonce_False [of now "body_nonce e body" "ADMIN_NONCES s" ns]
      burn_nonce_True [of now "body_nonce e body" "ADMIN_NONCES s" ns] by (cases b) auto
qed

lemma gate_nonces [simp]:
  "ADMIN_NONCES (fst (adminAuth e hdr s)) = ADMIN_NONCES s"
  by (simp add: adminAuth_def isAuthorized_def persistentToken_def Let_def)

definition nonces_ok :: "string list \<Rightarrow> admin_event list \<Rightarrow> (string \<times> u32) list \<Rightarrow> bool" where
  "nonces_ok burned evs N \<longleftrightarrow>
     (\<forall>n x. (n, x) \<in> set N \<longrightarrow> n \<noteq> [] \<longrightarrow>
        (\<exists>t rnd. Challenge t rnd \<in> set evs \<and> n = randomHex rnd \<and> x = t + ADMIN_NONCE_TTL_MS))
   \<and> distinct (filter (\<lambda>n. n \<noteq> []) (map fst N))
   \<and> (\<forall>n x. n \<in> set burned \<longrightarrow> (n, x) \<notin> set N \<and> n \<noteq> [] \<and> n \<in> set (issued evs))"

lemma nonces_issued:
  "nonces_ok burned evs N \<Longrightarrow> (n, x) \<in> set N \<Longrightarrow> n \<noteq> [] \<Longrightarrow> n \<in> set (issued evs)"
  unfolding nonces_ok_def issued_iff by blast

lemma nonces_ok_less:
  assumes ok: "nonces_ok burned evs N" and sub: "set N' \<subseteq> insert ([], 0) (set N)"
    and d: "distinct (filter (\<lambda>n. n \<noteq> []) (map fst N'))"
  shows "nonces_ok burned (evs @ [ev]) N'"
  unfolding nonces_ok_def
proof (intro conjI allI impI)
  fix n x
  assume "(n, x) \<in> set N'" "n \<noteq> []"
  with sub have "(n, x) \<in> set N" by auto
  with ok \<open>n \<noteq> []\<close> show "\<exists>t rnd. Challenge t rnd \<in> set (evs @ [ev]) \<and> n = randomHex rnd \<and> x = t + ADMIN_NONCE_TTL_MS"
    unfolding nonces_ok_def by fastforce
next
  fix n x
  assume n: "n \<in> set burned"
  with ok show "n \<noteq> []" "n \<in> set (issued (evs @ [ev]))" by (auto simp: nonces_ok_def)
  with ok n sub show "(n, x) \<notin> set N'" by (auto simp: nonces_ok_def)
qed (rule d)

lemma nonces_ok_same: "nonces_ok burned evs N \<Longrightarrow> nonces_ok burned (evs @ [ev]) N"
  by (rule nonces_ok_less) (auto simp: nonces_ok_def)

lemma nonces_ok_burnt:
  assumes ok: "nonces_ok burned evs (as @ (n, x) # bs)"
  shows "nonces_ok burned (evs @ [ev]) (as @ ([], 0) # bs)"
    and "n \<noteq> [] \<Longrightarrow> nonces_ok (burned @ [n]) (evs @ [ev]) (as @ ([], 0) # bs)"
proof -
  have d: "distinct (filter (\<lambda>n. n \<noteq> []) (map fst (as @ ([], 0) # bs)))"
    using ok by (auto simp: nonces_ok_def split: if_splits)
  show old: "nonces_ok burned (evs @ [ev]) (as @ ([], 0) # bs)"
    by (rule nonces_ok_less [OF ok _ d]) auto
  assume n: "n \<noteq> []"
  with ok have "distinct (filter (\<lambda>n. n \<noteq> []) (map fst as) @ n # filter (\<lambda>n. n \<noteq> []) (map fst bs))"
    by (simp add: nonces_ok_def)
  then have "n \<notin> set (map fst as)" "n \<notin> set (map fst bs)" using n by simp_all
  then have fresh: "(n, y) \<notin> set (as @ ([], 0) # bs)" for y using n by (auto simp: image_def)
  have i: "n \<in> set (issued (evs @ [ev]))"
    using nonces_issued [OF ok, of n x] n by simp
  show "nonces_ok (burned @ [n]) (evs @ [ev]) (as @ ([], 0) # bs)"
    unfolding nonces_ok_def
  proof (intro conjI)
    show "\<forall>m y. m \<in> set (burned @ [n]) \<longrightarrow>
        (m, y) \<notin> set (as @ ([], 0) # bs) \<and> m \<noteq> [] \<and> m \<in> set (issued (evs @ [ev]))"
    proof (intro allI impI)
      fix m y
      assume "m \<in> set (burned @ [n])"
      then have "m \<in> set burned \<or> m = n" by auto
      then show "(m, y) \<notin> set (as @ ([], 0) # bs) \<and> m \<noteq> [] \<and> m \<in> set (issued (evs @ [ev]))"
        using old fresh n i unfolding nonces_ok_def by blast
    qed
  qed (use old in \<open>unfold nonces_ok_def, blast+\<close>)
qed

lemma nonces_ok_challenge:
  assumes ok: "nonces_ok burned evs N" and new: "randomHex rnd \<notin> set (issued evs)"
  shows "nonces_ok burned (evs @ [Challenge now rnd]) (N[i := (randomHex rnd, now + ADMIN_NONCE_TTL_MS)])"
    (is "nonces_ok _ _ ?N'")
proof -
  have sub: "set ?N' \<subseteq> insert (randomHex rnd, now + ADMIN_NONCE_TTL_MS) (set N)"
    by (rule set_update_subset_insert)
  have "randomHex rnd \<notin> set (map fst N) \<or> randomHex rnd = []"
  proof (rule disjCI)
    assume "randomHex rnd \<noteq> []"
    with new nonces_issued [OF ok] show "randomHex rnd \<notin> set (map fst N)" by fastforce
  qed
  moreover have "distinct (filter (\<lambda>n. n \<noteq> []) (map fst N))" using ok by (simp add: nonces_ok_def)
  ultimately have d: "distinct (filter (\<lambda>n. n \<noteq> []) (map fst ?N'))"
    unfolding map_update fst_conv by (intro distinct_filter_update) auto
  show ?thesis unfolding nonces_ok_def
  proof (intro conjI allI impI)
    fix n x
    assume nx: "(n, x) \<in> set ?N'" "n \<noteq> []"
    with sub have "(n, x) = (randomHex rnd, now + ADMIN_NONCE_TTL_MS) \<or> (n, x) \<in> set N" by blast
    with ok nx(2) show "\<exists>t r. Challenge t r \<in> set (evs @ [Challenge now rnd]) \<and> n = randomHex r \<and> x = t + ADMIN_NONCE_TTL_MS"
      unfolding nonces_ok_def by fastforce
  next
    fix n x
    assume n: "n \<in> set burned"
    with ok show "n \<noteq> []" and i: "n \<in> set (issued (evs @ [Challenge now rnd]))" by (auto simp: nonces_ok_def)
    from ok n new have "n \<noteq> randomHex rnd" "(n, x) \<notin> set N" by (auto simp: nonces_ok_def)
    with sub show "(n, x) \<notin> set ?N'" by blast
  qed (rule d)
qed

lemma login_nonces_ok:
  assumes ok: "nonces_ok burned evs (ADMIN_NONCES s)"
    and l: "handleAdminLogin e now ip body s = (s', r)"
  shows "nonces_ok (burned @ (if reply_status r = 200 then [body_nonce e body] else []))
    (evs @ [Login now ip body]) (ADMIN_NONCES s')"
proof (cases "reply_status r = 200")
  case True
  then obtain c where "r = Reply 200 c" by (cases r) simp
  from login_accepted [OF l [unfolded this]] obtain ns where
    "burn_nonce now (body_nonce e body) (ADMIN_NONCES s) = (ns, True)" "ADMIN_NONCES s' = ns" by blast
  with burn_nonce_True [OF this(1)] ok True nonces_ok_burnt(2) show ?thesis by fastforce
next
  case False
  from login_nonces [of e now ip body s] show ?thesis
  proof (elim disjE exE conjE)
    fix as x bs n
    assume "ADMIN_NONCES s = as @ (n, x) # bs" "ADMIN_NONCES (fst (handleAdminLogin e now ip body s)) = as @ ([], 0) # bs"
    with ok l False nonces_ok_burnt(1) [of burned evs as n x bs] show ?thesis by simp
  qed (use ok l False nonces_ok_same in simp)
qed

lemma run_nonces_ok:
  assumes "distinct (issued evs)"
  shows "nonces_ok (logins e evs boot_auth) evs (ADMIN_NONCES (fst (admin_run e evs boot_auth)))"
  using assms
proof (induction evs rule: rev_induct)
  case Nil
  have "distinct (filter (\<lambda>n. n \<noteq> []) (replicate k ([]::string)))" for k by (induction k) simp_all
  then show ?case by (auto simp: nonces_ok_def boot_auth_def)
next
  case (snoc ev evs)
  let ?s = "fst (admin_run e evs boot_auth)"
  from snoc have ok: "nonces_ok (logins e evs boot_auth) evs (ADMIN_NONCES ?s)" by simp
  show ?case
  proof (cases ev)
    case (Challenge now rnd)
    with snoc.prems have "randomHex rnd \<notin> set (issued evs)" by simp
    from nonces_ok_challenge [OF ok this] Challenge show ?thesis
      by (simp add: admin_run_append handleAdminChallenge_def Let_def)
  next
    case (Login now ip body)
    obtain s' r where l: "handleAdminLogin e now ip body ?s = (s', r)" by fastforce
    from login_nonces_ok [OF ok l] Login l show ?thesis by (simp add: admin_run_append)
  next
    case (Gate hdr)
    have "ADMIN_NONCES (fst (admin_step e ev ?s)) = ADMIN_NONCES ?s"
      using Gate gate_nonces [of e hdr ?s] by (simp add: case_prod_beta Let_def)
    with nonces_ok_same [OF ok] Gate show ?thesis by (simp add: admin_run_append)
  qed
qed

subsection \<open>The cookie\<close>

definition admin_token :: "admin_env \<Rightarrow> string" where
  "admin_token e = sha256Hex e (''ellafi-cookie-v1:'' @ ADMIN_PASSWORD e)"

definition token_ok :: "admin_env \<Rightarrow> admin_auth \<Rightarrow> bool" where
  "token_ok e s \<longleftrightarrow> cookie_token s = [] \<or> cookie_token s = admin_token e"

lemma token_persistent:
  "token_ok e s \<Longrightarrow> snd (persistentToken e s) = admin_token e \<and> token_ok e (fst (persistentToken e s))"
  by (auto simp: token_ok_def persistentToken_def admin_token_def Let_def)

lemma token_ok_step: "token_ok e s \<Longrightarrow> token_ok e (fst (admin_step e ev s))"
proof (cases ev)
  case (Login now ip body)
  assume "token_ok e s"
  then have "token_ok e (fst (handleAdminLogin e now ip body s))"
    by (auto simp: handleAdminLogin_def token_ok_def persistentToken_def admin_token_def Let_def
        split: option.splits prod.splits)
  with Login show ?thesis by (simp add: case_prod_beta)
qed (auto simp: token_ok_def handleAdminChallenge_def adminAuth_def isAuthorized_def persistentToken_def
    admin_token_def Let_def)

lemma token_ok_run: "token_ok e s \<Longrightarrow> token_ok e (fst (admin_run e evs s))"
  by (induction evs rule: rev_induct) (simp_all add: admin_run_append token_ok_step)

lemma token_ok_boot: "token_ok e (fst (admin_run e evs boot_auth))"
  by (rule token_ok_run) (simp add: token_ok_def boot_auth_def)

lemma gate_iff:
  "token_ok e s \<Longrightarrow> snd (adminAuth e hdr s) = None \<longleftrightarrow> cookieValue hdr ''ellafi_admin'' = admin_token e"
  using token_persistent [of e s] by (auto simp: adminAuth_def isAuthorized_def case_prod_beta Let_def)

lemma index_of_None: "c \<notin> set s \<Longrightarrow> index_of [c] s = None"
  by (induction s) (auto simp: starts_with_def)

lemma trim_no_space: "\<forall>c \<in> set s. \<not> is_space c \<Longrightarrow> trim s = s"
proof -
  assume a: "\<forall>c \<in> set s. \<not> is_space c"
  have "dropWhile is_space t = t" if "\<forall>c \<in> set t. \<not> is_space c" for t using that by (cases t) simp_all
  from this [of s] this [of "rev s"] a show ?thesis by (simp add: trim_def)
qed

lemma hex_plain: "c \<in> set (hex_text bs) \<Longrightarrow> c \<noteq> CHR '';'' \<and> \<not> is_space c \<and> c \<noteq> CHR 0x00"
proof -
  have "list_all (\<lambda>c. c \<noteq> CHR '';'' \<and> \<not> is_space c \<and> c \<noteq> CHR 0x00) hex_alphabet"
    by (simp add: hex_alphabet_def is_space_def)
  moreover assume "c \<in> set (hex_text bs)"
  then have "c \<in> set hex_alphabet" using set_hex_text by blast
  ultimately show ?thesis by (simp add: list_all_iff)
qed

lemma cookie_sent_back:
  assumes "length bs = 32"
  shows "cookieValue (''ellafi_admin='' @ hex_text bs) ''ellafi_admin'' = hex_text bs"
proof -
  let ?k = "''ellafi_admin=''"
  have nul: "CHR 0x00 \<notin> set (?k @ hex_text bs)" using hex_plain by (auto dest: hex_plain)
  have "cstr 512 (?k @ hex_text bs) = ?k @ hex_text bs"
    using nul assms by (intro cstr_id) simp_all
  moreover have "index_of ?k (?k @ hex_text bs) = Some 0" by (simp add: starts_with_def)
  moreover have "index_of '';'' (hex_text bs) = None" by (rule index_of_None) (auto dest: hex_plain)
  moreover have "trim (hex_text bs) = hex_text bs" by (rule trim_no_space) (auto dest: hex_plain)
  ultimately show ?thesis
    using assms by (simp add: cookieValue_def index_of_from_def Let_def)
qed

subsection \<open>The throttle\<close>

lemma ttlLive_window:
  assumes "uint (t - t0) < 60000" and "uint (now - t0) < 60000"
  shows "ttlLive (t + ADMIN_FAIL_COOLDOWN_MS) now"
proof -
  let ?d = "t + 60000 - now"
  have e: "?d = (t - t0) + 60000 - (now - t0)" by simp
  have nn: "0 \<le> uint (t - t0)" "0 \<le> uint (now - t0)" by simp_all
  have p: "uint ((t - t0) + 60000) = uint (t - t0) + 60000"
    using assms(1) by (subst uint_add_lem [THEN iffD1]) (simp_all)
  then have le: "uint (now - t0) \<le> uint ((t - t0) + 60000)" using assms(2) nn by linarith
  have q: "uint ((t - t0) + 60000 - (now - t0)) = uint ((t - t0) + 60000) - uint (now - t0)"
    using le by (subst uint_sub_lem [THEN iffD1]) simp_all
  then have u: "uint ?d = uint (t - t0) + 60000 - uint (now - t0)" by (simp only: e q p)
  then have "0 < uint ?d" "uint ?d < 2147483648" using assms nn by linarith+
  then have "sint ?d = uint ?d" by (simp add: sint_uint signed_take_bit_int_eq_self)
  with \<open>0 < uint ?d\<close> show ?thesis by (simp add: ttlLive_def)
qed

lemma update_first_split:
  "list_ex P xs \<Longrightarrow>
     \<exists>as x bs. xs = as @ x # bs \<and> P x \<and> list_all (\<lambda>y. \<not> P y) as \<and> update_first P f xs = as @ f x # bs"
proof (induction xs)
  case (Cons y ys)
  show ?case
  proof (cases "P y")
    case True
    then have "y # ys = [] @ y # ys \<and> P y \<and> list_all (\<lambda>y. \<not> P y) [] \<and> update_first P f (y # ys) = [] @ f y # ys"
      by simp
    then show ?thesis by blast
  next
    case False
    with Cons obtain as x bs where "ys = as @ x # bs" "P x" "list_all (\<lambda>y. \<not> P y) as"
      "update_first P f ys = as @ f x # bs" by auto
    with False have "y # ys = (y # as) @ x # bs \<and> P x \<and> list_all (\<lambda>y. \<not> P y) (y # as)
        \<and> update_first P f (y # ys) = (y # as) @ f x # bs" by simp
    then show ?thesis by blast
  qed
qed simp

lemma update_first_none: "\<not> list_ex P xs \<Longrightarrow> update_first P f xs = xs"
  by (induction xs) simp_all

text \<open>The table after the attempts \<open>cnt\<close> of one minute from \<open>t0\<close>: an entry for every address that
  failed, each with its own count, capped by the throttle.\<close>

definition fails_ok :: "u32 \<Rightarrow> (u32 \<Rightarrow> nat) \<Rightarrow> admin_fails list \<Rightarrow> bool" where
  "fails_ok t0 cnt fs \<longleftrightarrow> length fs = 8 \<and> distinct (filter (\<lambda>i. i \<noteq> 0) (map af_ip fs))
     \<and> (\<forall>f \<in> set fs. af_ip f \<noteq> 0 \<longrightarrow> 0 < cnt (af_ip f) \<and> af_count f = int (min 5 (cnt (af_ip f)))
          \<and> (\<exists>t. uint (t - t0) < 60000 \<and> af_untilMs f = t + ADMIN_FAIL_COOLDOWN_MS))
     \<and> (\<forall>ip. ip \<noteq> 0 \<longrightarrow> 0 < cnt ip \<longrightarrow> ip \<in> set (map af_ip fs))"

lemma fails_ok_throttled:
  assumes ok: "fails_ok t0 cnt fs" and ip: "ip \<noteq> 0" and now: "uint (now - t0) < 60000"
  shows "throttled ip now fs \<longleftrightarrow> 5 \<le> cnt ip"
proof
  assume "throttled ip now fs"
  then obtain f where "f \<in> set fs" "af_ip f = ip" "5 \<le> af_count f" by (auto simp: throttled_def list_ex_iff)
  with ok ip show "5 \<le> cnt ip" by (auto simp: fails_ok_def)
next
  assume c: "5 \<le> cnt ip"
  with ok ip obtain f where f: "f \<in> set fs" "af_ip f = ip" by (fastforce simp: fails_ok_def)
  with ok ip c obtain t where "af_count f = 5" "uint (t - t0) < 60000" "af_untilMs f = t + ADMIN_FAIL_COOLDOWN_MS"
    by (auto simp: fails_ok_def)
  with f ttlLive_window [OF _ now] show "throttled ip now fs" by (auto simp: throttled_def list_ex_iff)
qed

lemma fails_free_slot:
  assumes ok: "fails_ok t0 cnt fs" and c: "finite S" "\<And>ip. 0 < cnt ip \<Longrightarrow> ip \<in> S" "card S \<le> 8"
    and ip: "ip \<in> S" "cnt ip = 0"
  shows "list_ex (\<lambda>f. af_ip f = 0) fs"
proof (rule ccontr)
  assume "\<not> list_ex (\<lambda>f. af_ip f = 0) fs"
  then have nz: "\<forall>i \<in> set (map af_ip fs). i \<noteq> 0" by (auto simp: list_ex_iff)
  then have "filter (\<lambda>i. i \<noteq> 0) (map af_ip fs) = map af_ip fs" by (simp only: filter_id_conv)
  with ok have "distinct (map af_ip fs)" "length fs = 8" by (simp_all only: fails_ok_def)
  then have "card (set (map af_ip fs)) = 8" by (simp add: distinct_card del: set_map)
  moreover have "set (map af_ip fs) \<subseteq> S - {ip}"
    using ok nz c(2) ip(2) by (fastforce simp: fails_ok_def)
  then have "card (set (map af_ip fs)) \<le> card (S - {ip})" using c(1) by (intro card_mono) simp_all
  moreover have "card (S - {ip}) < 8" using c ip(1) by (simp add: card_Diff_singleton card_gt_0_iff)
  ultimately show False by simp
qed

lemma recordFail_ok:
  assumes ok: "fails_ok t0 cnt fs" and ip: "ip \<noteq> 0" and now: "uint (now - t0) < 60000"
    and c: "finite S" "\<And>i. 0 < cnt i \<Longrightarrow> i \<in> S" "card S \<le> 8" "ip \<in> S" "cnt ip < 5"
  shows "fails_ok t0 (cnt(ip := Suc (cnt ip))) (recordFail ip now fs)"
proof (cases "list_ex (\<lambda>f. af_ip f = ip) fs")
  case True
  let ?g = "\<lambda>f. f\<lparr>af_count := (if ttlLive (af_untilMs f) now then af_count f else 0) + 1,
                    af_untilMs := now + ADMIN_FAIL_COOLDOWN_MS\<rparr>"
  from update_first_split [OF True, of ?g] obtain as x bs where s: "fs = as @ x # bs" "af_ip x = ip"
    "recordFail ip now fs = as @ ?g x # bs" using True by (auto simp: recordFail_def)
  from ok s ip have x: "0 < cnt ip" "af_count x = int (min 5 (cnt ip))"
    "\<exists>t. uint (t - t0) < 60000 \<and> af_untilMs x = t + ADMIN_FAIL_COOLDOWN_MS"
    by (auto simp: fails_ok_def)
  then have live: "ttlLive (af_untilMs x) now" using now by (auto intro: ttlLive_window)
  have others: "af_ip f \<noteq> ip" if "f \<in> set as \<union> set bs" for f
    using ok that ip unfolding fails_ok_def s(1) by (auto simp: s(2))
  have ips: "map af_ip (as @ ?g x # bs) = map af_ip fs" by (simp add: s)
  show ?thesis
    unfolding fails_ok_def s(3) ips
  proof (intro conjI ballI impI allI)
    fix f assume f: "f \<in> set (as @ ?g x # bs)" "af_ip f \<noteq> 0"
    then consider "f = ?g x" | "f \<in> set as \<union> set bs" by auto
    then have "0 < (cnt(ip := Suc (cnt ip))) (af_ip f) \<and> af_count f = int (min 5 ((cnt(ip := Suc (cnt ip))) (af_ip f)))
        \<and> (\<exists>t. uint (t - t0) < 60000 \<and> af_untilMs f = t + ADMIN_FAIL_COOLDOWN_MS)"
    proof cases
      case 1
      then show ?thesis using x(2) live now c(5) s(2) by auto
    next
      case 2
      then have "f \<in> set fs" by (auto simp: s)
      with ok f(2) others [OF 2] show ?thesis by (simp add: fails_ok_def)
    qed
    then show "0 < (cnt(ip := Suc (cnt ip))) (af_ip f)"
      "af_count f = int (min 5 ((cnt(ip := Suc (cnt ip))) (af_ip f)))"
      "\<exists>t. uint (t - t0) < 60000 \<and> af_untilMs f = t + ADMIN_FAIL_COOLDOWN_MS" by blast+
  next
    fix i assume "i \<noteq> 0" "0 < (cnt(ip := Suc (cnt ip))) i"
    then show "i \<in> set (map af_ip fs)" using ok x(1) by (auto simp: fails_ok_def split: if_splits)
  qed (use ok s in \<open>auto simp: fails_ok_def\<close>)
next
  case False
  then have absent: "ip \<notin> set (map af_ip fs)" by (auto simp: list_ex_iff)
  then have c0: "cnt ip = 0" using ok ip by (auto simp: fails_ok_def)
  let ?P = "\<lambda>f. af_ip f = 0 \<or> \<not> ttlLive (af_untilMs f) now"
  let ?n = "\<lparr>af_ip = ip, af_count = 1, af_untilMs = now + ADMIN_FAIL_COOLDOWN_MS\<rparr>"
  have "list_ex (\<lambda>f. af_ip f = 0) fs" by (rule fails_free_slot [OF ok c(1-4) c0])
  then have "list_ex ?P fs" by (auto simp: list_ex_iff)
  from update_first_split [OF this, of "\<lambda>_. ?n"] obtain as x bs where s: "fs = as @ x # bs" "?P x"
    "recordFail ip now fs = as @ ?n # bs" using False by (auto simp: recordFail_def)
  have "af_ip x = 0"
  proof (rule ccontr)
    assume "af_ip x \<noteq> 0"
    with ok s(1) have "ttlLive (af_untilMs x) now" using now by (auto simp: fails_ok_def intro: ttlLive_window)
    with \<open>af_ip x \<noteq> 0\<close> s(2) show False by simp
  qed
  have d: "distinct (filter (\<lambda>i. i \<noteq> 0) (map af_ip (as @ ?n # bs)))"
    using ok absent ip \<open>af_ip x = 0\<close> by (auto simp: fails_ok_def s)
  show ?thesis
    unfolding fails_ok_def s(3)
  proof (intro conjI ballI impI allI)
    fix f assume f: "f \<in> set (as @ ?n # bs)" "af_ip f \<noteq> 0"
    then consider "f = ?n" | "f \<in> set as \<union> set bs" by auto
    then have "0 < (cnt(ip := Suc (cnt ip))) (af_ip f) \<and> af_count f = int (min 5 ((cnt(ip := Suc (cnt ip))) (af_ip f)))
        \<and> (\<exists>t. uint (t - t0) < 60000 \<and> af_untilMs f = t + ADMIN_FAIL_COOLDOWN_MS)"
    proof cases
      case 1
      then show ?thesis using now c0 by auto
    next
      case 2
      then have "f \<in> set fs" by (auto simp: s)
      moreover from this absent have "af_ip f \<noteq> ip" by auto
      ultimately show ?thesis using ok f(2) by (simp add: fails_ok_def)
    qed
    then show "0 < (cnt(ip := Suc (cnt ip))) (af_ip f)"
      "af_count f = int (min 5 ((cnt(ip := Suc (cnt ip))) (af_ip f)))"
      "\<exists>t. uint (t - t0) < 60000 \<and> af_untilMs f = t + ADMIN_FAIL_COOLDOWN_MS" by blast+
  next
    fix i assume i: "i \<noteq> 0" "0 < (cnt(ip := Suc (cnt ip))) i"
    show "i \<in> set (map af_ip (as @ ?n # bs))"
    proof (cases "i = ip")
      case False
      with i ok have "i \<in> set (map af_ip fs)" by (simp add: fails_ok_def)
      with i(1) \<open>af_ip x = 0\<close> show ?thesis by (auto simp: s)
    qed simp
  qed (use ok s d in \<open>auto simp: fails_ok_def\<close>)
qed

lemma fails_ok_capped:
  "fails_ok t0 cnt fs \<Longrightarrow> 5 \<le> cnt ip \<Longrightarrow> fails_ok t0 (cnt(ip := Suc (cnt ip))) fs"
  by (auto simp: fails_ok_def)

definition wrong_guess :: "admin_env \<Rightarrow> string \<Rightarrow> bool" where
  "wrong_guess e body \<longleftrightarrow> parse_body e body \<noteq> None
     \<and> body_digest e body \<noteq> sha256Hex e (body_nonce e body @ '':'' @ ADMIN_PASSWORD e)"

lemma wrong_guess_login:
  assumes "wrong_guess e body"
  shows "reply_status (snd (handleAdminLogin e now ip body s)) = (if throttled ip now (ADMIN_FAILS s) then 429 else 401)"
    and "ADMIN_FAILS (fst (handleAdminLogin e now ip body s))
      = (if throttled ip now (ADMIN_FAILS s) then ADMIN_FAILS s else recordFail ip now (ADMIN_FAILS s))"
proof -
  from assms obtain doc where d: "parse_body e body = Some doc" by (auto simp: wrong_guess_def)
  with assms have "\<not> right_digest e (as_text (jget doc ''nonce'')) (as_text (jget doc ''digest''))"
    by (simp add: wrong_guess_def right_digest_def body_digest_def body_nonce_def)
  with d show "reply_status (snd (handleAdminLogin e now ip body s)) = (if throttled ip now (ADMIN_FAILS s) then 429 else 401)"
    "ADMIN_FAILS (fst (handleAdminLogin e now ip body s))
      = (if throttled ip now (ADMIN_FAILS s) then ADMIN_FAILS s else recordFail ip now (ADMIN_FAILS s))"
    by (simp_all add: handleAdminLogin_def Let_def case_prod_beta)
qed

type_synonym attempt = "u32 \<times> u32 \<times> string"

definition attempts :: "attempt list \<Rightarrow> admin_event list" where
  "attempts xs = map (\<lambda>(now, ip, body). Login now ip body) xs"

definition tries :: "u32 \<Rightarrow> attempt list \<Rightarrow> nat" where
  "tries ip xs = length (filter (\<lambda>x. fst (snd x) = ip) xs)"

lemma tries_append [simp]:
  "tries ip (xs @ [x]) = (if fst (snd x) = ip then Suc (tries ip xs) else tries ip xs)"
  by (simp add: tries_def)

definition guesses_within :: "admin_env \<Rightarrow> u32 \<Rightarrow> attempt list \<Rightarrow> bool" where
  "guesses_within e t0 xs \<longleftrightarrow>
     (\<forall>x \<in> set xs. uint (fst x - t0) < 60000 \<and> fst (snd x) \<noteq> 0 \<and> wrong_guess e (snd (snd x)))"

lemma guesses_run:
  assumes "guesses_within e t0 xs" and "card ((fst \<circ> snd) ` set xs) \<le> 8"
    and s: "ADMIN_FAILS s = replicate 8 no_fails"
  shows "fails_ok t0 (\<lambda>ip. tries ip xs) (ADMIN_FAILS (fst (admin_run e (attempts xs) s)))
     \<and> snd (admin_run e (attempts xs) s)
        = map (\<lambda>i. if tries (fst (snd (xs ! i))) (take i xs) < 5 then 401 else 429) [0..<length xs]"
  using assms(1,2)
proof (induction xs rule: rev_induct)
  case Nil
  have "filter (\<lambda>i. i \<noteq> 0) (map af_ip (replicate k no_fails)) = []" for k
    by (simp add: no_fails_def)
  then show ?case by (auto simp: attempts_def fails_ok_def tries_def s no_fails_def)
next
  case (snoc x xs)
  obtain now ip body where x: "x = (now, ip, body)" by (metis prod_cases3)
  let ?s = "fst (admin_run e (attempts xs) s)" and ?cnt = "\<lambda>i. tries i xs" and ?S = "(fst \<circ> snd) ` set (xs @ [x])"
  have "card ((fst \<circ> snd) ` set xs) \<le> card ?S" by (rule card_mono) auto
  with snoc have ok: "fails_ok t0 ?cnt (ADMIN_FAILS ?s)"
    and out: "snd (admin_run e (attempts xs) s)
        = map (\<lambda>i. if tries (fst (snd (xs ! i))) (take i xs) < 5 then 401 else 429) [0..<length xs]"
    by (auto simp: guesses_within_def)
  from snoc.prems(1) x have w: "uint (now - t0) < 60000" "ip \<noteq> 0" "wrong_guess e body"
    by (auto simp: guesses_within_def)
  have thr: "throttled ip now (ADMIN_FAILS ?s) \<longleftrightarrow> 5 \<le> ?cnt ip"
    by (rule fails_ok_throttled [OF ok w(2,1)])
  have cnt': "(\<lambda>i. tries i (xs @ [x])) = ?cnt(ip := Suc (?cnt ip))" by (auto simp: x)
  have inS: "0 < ?cnt i \<Longrightarrow> i \<in> ?S" for i
    by (auto simp: tries_def filter_empty_conv)
  have ok': "fails_ok t0 (\<lambda>i. tries i (xs @ [x])) (ADMIN_FAILS (fst (handleAdminLogin e now ip body ?s)))"
  proof (cases "5 \<le> ?cnt ip")
    case True
    with thr fails_ok_capped [OF ok True] show ?thesis by (simp add: wrong_guess_login(2) [OF w(3)] cnt' del: tries_append)
  next
    case False
    have "fails_ok t0 (?cnt(ip := Suc (?cnt ip))) (recordFail ip now (ADMIN_FAILS ?s))"
      by (rule recordFail_ok [OF ok w(2,1), of ?S]) (use inS snoc.prems(2) False x in auto)
    with thr False show ?thesis by (simp add: wrong_guess_login(2) [OF w(3)] cnt' del: tries_append)
  qed
  have a: "attempts (xs @ [x]) = attempts xs @ [Login now ip body]" by (simp add: attempts_def x)
  have st: "snd (admin_step e (Login now ip body) ?s) = (if ?cnt ip < 5 then 401 else 429)"
    using wrong_guess_login(1) [OF w(3), of now ip ?s] thr by (simp add: case_prod_beta)
  have keep: "map (\<lambda>i. if tries (fst (snd ((xs @ [x]) ! i))) (take i (xs @ [x])) < 5 then 401 else 429) [0..<length xs]
      = map (\<lambda>i. if tries (fst (snd (xs ! i))) (take i xs) < 5 then 401 else (429::nat)) [0..<length xs]"
    by (rule map_cong) (auto simp: nth_append)
  have "fst (admin_run e (attempts (xs @ [x])) s) = fst (handleAdminLogin e now ip body ?s)"
    unfolding a admin_run_append by (simp add: case_prod_beta)
  moreover have "snd (admin_run e (attempts (xs @ [x])) s)
      = snd (admin_run e (attempts xs) s) @ [if ?cnt ip < 5 then 401 else 429]"
    unfolding a admin_run_append snd_conv st ..
  moreover have "[0..<length (xs @ [x])] = [0..<length xs] @ [length xs]" by simp
  ultimately show ?case
    using ok' unfolding out keep [symmetric] by (simp add: x)
qed

section \<open>A concrete login\<close>

definition demo_nonce :: string where "demo_nonce = randomHex (replicate 16 0x1AB)"

definition demo_hash :: "string \<Rightarrow> u8 list" where
  "demo_hash s = replicate 32 (if last s = CHR ''t'' then 7 else 8)"

definition demo_body :: "string \<Rightarrow> json" where
  "demo_body pw = JObj [(''nonce'', JStr demo_nonce), (''digest'', JStr (hex_text (demo_hash (demo_nonce @ '':'' @ pw))))]"

definition demo_admin :: admin_env where
  "demo_admin = \<lparr>sha256 = demo_hash, ADMIN_PASSWORD = ''secret'',
     parse_body = (\<lambda>t. if t = ''right'' then Some (demo_body ''secret'')
        else if t = ''wrong'' then Some (demo_body ''guess'') else None)\<rparr>"

lemma demo_wrong: "wrong_guess demo_admin ''wrong''" by code_simp

definition demo_login :: "admin_event list" where "demo_login = [Challenge 1000 (replicate 16 0x1AB)]"

lemma demo_login_ok:
  "snd (handleAdminLogin demo_admin 5000 7 ''right'' (fst (admin_run demo_admin demo_login boot_auth)))
     = Reply 200 (Some (login_cookie (admin_token demo_admin)))"
proof -
  let ?s = "fst (admin_run demo_admin demo_login boot_auth)"
  have s: "ADMIN_NONCES ?s = (demo_nonce, 61000) # replicate 7 ([], 0)" "ADMIN_FAILS ?s = replicate 8 no_fails"
    "cookie_token ?s = []"
    by (simp_all add: demo_login_def handleAdminChallenge_def boot_auth_def ttlLive_def demo_nonce_def Let_def
        numeral_eq_Suc del: replicate_Suc) (simp_all add: numeral_eq_Suc ttlLive_def)
  have "length demo_nonce = 32" by (simp add: demo_nonce_def randomHex_def)
  then have n: "demo_nonce \<noteq> []" by auto
  then have b: "burn_nonce 5000 demo_nonce (ADMIN_NONCES ?s) = (([], 0) # replicate 7 ([], 0), True)"
    unfolding s by (simp add: ttlLive_def)
  have t: "\<not> throttled 7 5000 (ADMIN_FAILS ?s)" unfolding s by (simp add: throttled_def no_fails_def list_ex_iff)
  have p: "parse_body demo_admin ''right'' = Some (demo_body ''secret'')" by (simp add: demo_admin_def)
  have d: "right_digest demo_admin demo_nonce (hex_text (demo_hash (demo_nonce @ '':secret'')))"
    by (simp add: right_digest_def sha256Hex_def demo_admin_def demo_hash_def)
  show ?thesis
    using t p b d s(3) by (simp add: handleAdminLogin_def demo_body_def persistentToken_def admin_token_def Let_def)
qed

section \<open>Properties\<close>

text \<open>C22: Who gets in. In any history since start-up in which the random source never repeated a
  nonce, a login is accepted only with a nonce that this board issued, whose minute is not over,
  that no earlier login has used, and with the digest of that nonce and the password: a recorded
  login cannot be played back.\<close>
theorem login_sound:
  assumes "distinct (issued evs)"
    and "handleAdminLogin e now ip body (fst (admin_run e evs boot_auth)) = (s', Reply 200 c)"
  shows "(\<exists>t rnd. Challenge t rnd \<in> set evs \<and> body_nonce e body = randomHex rnd
        \<and> ttlLive (t + ADMIN_NONCE_TTL_MS) now)
     \<and> body_digest e body = sha256Hex e (body_nonce e body @ '':'' @ ADMIN_PASSWORD e)
     \<and> body_nonce e body \<notin> set (logins e evs boot_auth)"
proof -
  let ?n = "body_nonce e body" and ?N = "ADMIN_NONCES (fst (admin_run e evs boot_auth))"
  from login_accepted [OF assms(2)] obtain ns where b: "burn_nonce now ?n ?N = (ns, True)"
    and d: "right_digest e ?n (body_digest e body)" by blast
  from burn_nonce_True [OF b] obtain as x bs where n: "?n \<noteq> []" "?N = as @ (?n, x) # bs" "ttlLive x now" by blast
  then have mem: "(?n, x) \<in> set ?N" by (simp only: in_set_conv_decomp) blast
  note ok = run_nonces_ok [OF assms(1), of e]
  from ok mem n(1) obtain t rnd where "Challenge t rnd \<in> set evs" "?n = randomHex rnd" "x = t + ADMIN_NONCE_TTL_MS"
    unfolding nonces_ok_def by blast
  moreover from ok mem have "?n \<notin> set (logins e evs boot_auth)" unfolding nonces_ok_def by blast
  moreover from d have "body_digest e body = sha256Hex e (?n @ '':'' @ ADMIN_PASSWORD e)" by (simp add: right_digest_def)
  ultimately show ?thesis using n(3) by blast
qed

theorem login_sound_witness:
  "body_nonce demo_admin ''right'' \<notin> set (logins demo_admin demo_login boot_auth)
   \<and> body_digest demo_admin ''right'' = sha256Hex demo_admin (body_nonce demo_admin ''right'' @ '':secret'')"
proof -
  let ?r = "handleAdminLogin demo_admin 5000 7 ''right'' (fst (admin_run demo_admin demo_login boot_auth))"
  have r: "?r = (fst ?r, Reply 200 (Some (login_cookie (admin_token demo_admin))))"
    by (metis demo_login_ok prod.collapse)
  have d: "distinct (issued demo_login)" by (simp add: demo_login_def)
  have "ADMIN_PASSWORD demo_admin = ''secret''" by (simp add: demo_admin_def)
  with login_sound [OF d r] show ?thesis by simp
qed

text \<open>The cookie of a login opens the gate. What a successful login sets, sent back by the
  browser, passes the gate in every later state, also of a board that has restarted since; and
  the gate passes nothing else than this value.\<close>
theorem login_cookie_passes_gate:
  assumes "\<forall>t. length (sha256 e t) = 32"
    and "handleAdminLogin e now ip body (fst (admin_run e evs boot_auth)) = (s', Reply 200 c)"
  shows "\<exists>t. c = Some (login_cookie t)
     \<and> (\<forall>evs'. snd (adminAuth e (''ellafi_admin='' @ t) (fst (admin_run e evs' boot_auth))) = None
          \<and> (\<forall>hdr. snd (adminAuth e hdr (fst (admin_run e evs' boot_auth))) = None
                \<longleftrightarrow> cookieValue hdr ''ellafi_admin'' = t))"
proof -
  have c: "c = Some (login_cookie (admin_token e))"
    using login_accepted [OF assms(2)] token_persistent [OF token_ok_boot, of e evs] by auto
  have "cookieValue (''ellafi_admin='' @ admin_token e) ''ellafi_admin'' = admin_token e"
    using assms(1) cookie_sent_back by (simp add: admin_token_def sha256Hex_def)
  with c gate_iff [OF token_ok_boot] show ?thesis by blast
qed

theorem login_cookie_passes_gate_witness:
  "snd (adminAuth demo_admin (''ellafi_admin='' @ admin_token demo_admin) boot_auth) = None"
proof -
  let ?r = "handleAdminLogin demo_admin 5000 7 ''right'' (fst (admin_run demo_admin demo_login boot_auth))"
  have "?r = (fst ?r, Reply 200 (Some (login_cookie (admin_token demo_admin))))"
    by (metis demo_login_ok prod.collapse)
  moreover have "\<forall>t. length (sha256 demo_admin t) = 32" by (simp add: demo_admin_def demo_hash_def)
  ultimately obtain t where "login_cookie (admin_token demo_admin) = login_cookie t"
    "snd (adminAuth demo_admin (''ellafi_admin='' @ t) (fst (admin_run demo_admin [] boot_auth))) = None"
    using login_cookie_passes_gate by blast
  then show ?thesis by (simp add: login_cookie_def)
qed

text \<open>C23: Guessing is throttled. From an empty table of failures, of the wrong guesses that at most eight
  addresses make within a minute, in whatever order, the first five of every address are answered 401 and all its further
  ones 429, unchecked.\<close>
theorem guessing_throttled:
  assumes "guesses_within e t0 xs" and "card ((fst \<circ> snd) ` set xs) \<le> 8"
    and "ADMIN_FAILS s = replicate 8 no_fails"
  shows "snd (admin_run e (attempts xs) s)
     = map (\<lambda>i. if tries (fst (snd (xs ! i))) (take i xs) < 5 then 401 else 429) [0..<length xs]"
  using guesses_run [OF assms] by (rule conjunct2)

theorem guessing_throttled_witness:
  "snd (admin_run demo_admin (attempts (replicate 6 (1000, 7, ''wrong'') @ [(1001, 8, ''wrong'')])) boot_auth)
     = [401, 401, 401, 401, 401, 429, 401]"
proof -
  let ?xs = "replicate 6 (1000, 7, ''wrong'') @ [(1001, 8, ''wrong'')] :: attempt list"
  have "guesses_within demo_admin 1000 ?xs" by (auto simp: guesses_within_def demo_wrong)
  moreover have "card ((fst \<circ> snd) ` set ?xs) \<le> 8" by (simp add: card_insert_if)
  moreover have "ADMIN_FAILS boot_auth = replicate 8 no_fails" by (simp add: boot_auth_def)
  ultimately have "snd (admin_run demo_admin (attempts ?xs) boot_auth)
     = map (\<lambda>i. if tries (fst (snd (?xs ! i))) (take i ?xs) < 5 then 401 else 429) [0..<length ?xs]"
    by (rule guessing_throttled)
  also have "\<dots> = [401, 401, 401, 401, 401, 429, 401]" by code_simp
  finally show ?thesis .
qed

text \<open>The ninth address guesses freely. While the eight entries of the table are held by failed
  logins of other addresses, the failures of a further address are not recorded, and none of its
  guesses in that time is ever refused by the throttle.\<close>
theorem ninth_address_unthrottled:
  assumes "\<forall>x \<in> set xs. fst (snd x) = ip \<and> uint (fst x - t0) < 60000 \<and> wrong_guess e (snd (snd x))"
    and "\<forall>f \<in> set (ADMIN_FAILS s). af_ip f \<notin> {0, ip}
          \<and> (\<exists>t. uint (t - t0) < 60000 \<and> af_untilMs f = t + ADMIN_FAIL_COOLDOWN_MS)"
  shows "snd (admin_run e (attempts xs) s) = replicate (length xs) 401"
  using assms
proof (induction xs arbitrary: s)
  case (Cons x xs)
  obtain now body where x: "x = (now, ip, body)" using Cons.prems(1) by (cases x) auto
  then have w: "uint (now - t0) < 60000" "wrong_guess e body" using Cons.prems(1) by auto
  have full: "\<forall>f \<in> set (ADMIN_FAILS s). af_ip f \<notin> {0, ip} \<and> ttlLive (af_untilMs f) now"
    using Cons.prems(2) ttlLive_window [OF _ w(1)] by fastforce
  then have t: "\<not> throttled ip now (ADMIN_FAILS s)" by (auto simp: throttled_def list_ex_iff)
  have r: "recordFail ip now (ADMIN_FAILS s) = ADMIN_FAILS s"
    using full by (auto simp: recordFail_def list_ex_iff intro!: update_first_none)
  let ?l = "handleAdminLogin e now ip body s"
  have "ADMIN_FAILS (fst ?l) = ADMIN_FAILS s" "reply_status (snd ?l) = 401"
    using wrong_guess_login [OF w(2), of now ip s] t r by simp_all
  moreover from this Cons have "snd (admin_run e (attempts xs) (fst ?l)) = replicate (length xs) 401" by simp
  ultimately show ?case by (simp add: attempts_def x case_prod_beta)
qed (simp add: attempts_def)

theorem ninth_address_unthrottled_witness:
  "snd (admin_run demo_admin (attempts (replicate 100 (2000, 99, ''wrong'')))
     (boot_auth\<lparr>ADMIN_FAILS := map (\<lambda>ip. \<lparr>af_ip = ip, af_count = 1, af_untilMs = 61000\<rparr>) [1, 2, 3, 4, 5, 6, 7, 8]\<rparr>))
   = replicate 100 401"
proof -
  let ?s = "boot_auth\<lparr>ADMIN_FAILS := map (\<lambda>ip. \<lparr>af_ip = ip, af_count = 1, af_untilMs = 61000\<rparr>) [1, 2, 3, 4, 5, 6, 7, 8]\<rparr>"
  have "\<forall>f \<in> set (ADMIN_FAILS ?s). af_ip f \<notin> {0, 99} \<and> af_untilMs f = 1000 + ADMIN_FAIL_COOLDOWN_MS" by simp
  then have "\<forall>f \<in> set (ADMIN_FAILS ?s). af_ip f \<notin> {0, 99}
      \<and> (\<exists>t. uint (t - 1000) < 60000 \<and> af_untilMs f = t + ADMIN_FAIL_COOLDOWN_MS)"
    by (metis cancel_comm_monoid_add_class.diff_cancel unsigned_0 zero_less_numeral)
  from ninth_address_unthrottled [OF _ this, of "replicate 100 (2000, 99, ''wrong'')" demo_admin]
  show ?thesis by (simp add: demo_wrong del: map_replicate replicate.simps list.map)
qed

end
