(* ===== verification/Led.thy ===== *)
theory Led
  imports CoinSession
begin

text \<open>
  The notification light and the acceptor's power (\<open>src/led.cpp\<close>, builds with the RGB strip).
  \<open>ledTask\<close> owns both: the other tasks only write its notification value, each write replacing
  one that the task has not read yet. The model has that value, one pass of the task for a
  notification or a timeout, and the direct writes of the pin by others (\<open>handleProgram\<close>,
  \<open>ledHalt\<close>).
\<close>

type_synonym rgb = "u8 \<times> u8 \<times> u8"

datatype led_notify = LED_NOTIFY_READY | LED_NOTIFY_START | LED_NOTIFY_STOP | LED_NOTIFY_ERROR | LED_NOTIFY_ROLE

record led =
  notification :: "led_notify option"
  idleColor :: rgb
  booting :: bool
  blinking :: bool
  led_error :: bool
  flashOn :: bool
  pixel :: rgb
  COINSLOT_POWER :: bool
  COINSLOT_PROGRAM_MODE :: bool

definition setupLed :: led where
  "setupLed = \<lparr>notification = None, idleColor = (255, 255, 255), booting = True, blinking = False,
     led_error = False, flashOn = False, pixel = (0, 0, 0), COINSLOT_POWER = False, COINSLOT_PROGRAM_MODE = False\<rparr>"

text \<open>\<open>xTaskNotify(LED_TASK, v, eSetValueWithOverwrite)\<close>.\<close>

definition led_send :: "led_notify \<Rightarrow> led \<Rightarrow> led" where
  "led_send v s = s\<lparr>notification := Some v\<rparr>"

definition ledRoleKnown :: "led \<Rightarrow> led" where "ledRoleKnown = led_send LED_NOTIFY_ROLE"
definition ledReady :: "led \<Rightarrow> led" where "ledReady = led_send LED_NOTIFY_READY"
definition ledError :: "led \<Rightarrow> led" where "ledError = led_send LED_NOTIFY_ERROR"

definition ledShow :: "u8 \<Rightarrow> u8 \<Rightarrow> u8 \<Rightarrow> led \<Rightarrow> led" where
  "ledShow r g b s = s\<lparr>pixel := (r, g, b)\<rparr>"

text \<open>The pass that \<open>ledHalt\<close> repeats for ever, after the power is cut.\<close>

definition ledHalt :: "led \<Rightarrow> led" where
  "ledHalt s = s\<lparr>COINSLOT_POWER := False, pixel := (0, 0, 0)\<rparr>"

definition handleProgram :: "led \<Rightarrow> led" where
  "handleProgram s = s\<lparr>COINSLOT_PROGRAM_MODE := True, COINSLOT_POWER := True\<rparr>"

definition set_power :: "bool \<Rightarrow> led \<Rightarrow> led" where
  "set_power b s = (if COINSLOT_PROGRAM_MODE s then s else s\<lparr>COINSLOT_POWER := b\<rparr>)"

text \<open>How long the task waits; \<open>None\<close> is \<open>portMAX_DELAY\<close>.\<close>

definition led_timeout :: "led \<Rightarrow> nat option" where
  "led_timeout s = (if booting s \<or> blinking s \<or> led_error s then Some (if booting s then 500 else 200) else None)"

fun led_handle :: "bool \<Rightarrow> led_notify \<Rightarrow> led \<Rightarrow> led" where
  "led_handle master LED_NOTIFY_ROLE s = s\<lparr>idleColor := (if master then (128, 0, 128) else (255, 80, 0))\<rparr>"
| "led_handle master LED_NOTIFY_READY s =
     (let s1 = set_power False (s\<lparr>booting := False, blinking := False, led_error := False\<rparr>)
      in s1\<lparr>pixel := idleColor s1\<rparr>)"
| "led_handle master LED_NOTIFY_START s =
     set_power True (s\<lparr>booting := False, blinking := True, led_error := False, flashOn := False\<rparr>)"
| "led_handle master LED_NOTIFY_STOP s =
     (let s1 = set_power False (s\<lparr>blinking := False\<rparr>) in s1\<lparr>pixel := idleColor s1\<rparr>)"
| "led_handle master LED_NOTIFY_ERROR s = s\<lparr>booting := False, blinking := False, led_error := True, flashOn := False\<rparr>"

definition led_toggle :: "led \<Rightarrow> led" where
  "led_toggle s =
     (let on = \<not> flashOn s
      in s\<lparr>flashOn := on,
           pixel := (if blinking s then (if on then (0, 255, 0) else idleColor s)
                     else if led_error s then (if on then (255, 0, 0) else (0, 0, 0))
                     else (if on then idleColor s else (0, 0, 0)))\<rparr>)"

text \<open>One pass of the loop: \<open>None\<close> when the wait has not ended.\<close>

definition ledTask :: "bool \<Rightarrow> led \<Rightarrow> led option" where
  "ledTask master s =
     (case notification s of
        Some v \<Rightarrow> Some (led_handle master v (s\<lparr>notification := None\<rparr>))
      | None \<Rightarrow> (if led_timeout s = None then None else Some (led_toggle s)))"

section \<open>Histories\<close>

datatype led_event = Send led_notify | Pass

definition led_step :: "bool \<Rightarrow> led_event \<Rightarrow> led \<Rightarrow> led" where
  "led_step master ev s =
     (case ev of Send v \<Rightarrow> led_send v s | Pass \<Rightarrow> (case ledTask master s of None \<Rightarrow> s | Some s' \<Rightarrow> s'))"

definition led_run :: "bool \<Rightarrow> led_event list \<Rightarrow> led \<Rightarrow> led" where
  "led_run master evs s = fold (led_step master) evs s"

text \<open>The notifications that switch the power, and the histories in which every notification is read
  before the next one is sent.\<close>

definition power_of :: "led_notify \<Rightarrow> bool option" where
  "power_of v = (case v of LED_NOTIFY_START \<Rightarrow> Some True | LED_NOTIFY_STOP \<Rightarrow> Some False
     | LED_NOTIFY_READY \<Rightarrow> Some False | _ \<Rightarrow> None)"

fun last_power :: "bool \<Rightarrow> led_event list \<Rightarrow> bool" where
  "last_power b [] = b"
| "last_power b (Send v # evs) = last_power (case power_of v of None \<Rightarrow> b | Some p \<Rightarrow> p) evs"
| "last_power b (Pass # evs) = last_power b evs"

fun all_read :: "led_event list \<Rightarrow> bool" where
  "all_read [] = True"
| "all_read (Send v # Pass # evs) = all_read evs"
| "all_read (Pass # evs) = all_read evs"
| "all_read (Send v # evs) = False"

lemma handle_power:
  "\<not> COINSLOT_PROGRAM_MODE s \<Longrightarrow>
     COINSLOT_POWER (led_handle m v s) = (case power_of v of None \<Rightarrow> COINSLOT_POWER s | Some p \<Rightarrow> p)"
  by (cases v) (simp_all add: power_of_def set_power_def Let_def)

lemma handle_frame [simp]:
  "COINSLOT_PROGRAM_MODE (led_handle m v s) = COINSLOT_PROGRAM_MODE s"
  "notification (led_handle m v s) = notification s"
  by (cases v; simp add: set_power_def Let_def)+

lemma toggle_frame [simp]:
  "COINSLOT_POWER (led_toggle s) = COINSLOT_POWER s"
  "COINSLOT_PROGRAM_MODE (led_toggle s) = COINSLOT_PROGRAM_MODE s"
  "notification (led_toggle s) = notification s"
  by (simp_all add: led_toggle_def Let_def)

lemma pass_idle:
  assumes "notification s = None"
  shows "COINSLOT_POWER (led_step m Pass s) = COINSLOT_POWER s"
    and "COINSLOT_PROGRAM_MODE (led_step m Pass s) = COINSLOT_PROGRAM_MODE s"
    and "notification (led_step m Pass s) = None"
  using assms by (simp_all add: led_step_def ledTask_def)

lemma pass_read:
  "led_step m Pass (led_step m (Send v) s) = led_handle m v (s\<lparr>notification := None\<rparr>)"
  by (simp add: led_step_def led_send_def ledTask_def)

text \<open>Program mode keeps the power on, whatever happens.\<close>

lemma program_step:
  "COINSLOT_PROGRAM_MODE s \<and> COINSLOT_POWER s \<Longrightarrow>
     COINSLOT_PROGRAM_MODE (led_step m ev s) \<and> COINSLOT_POWER (led_step m ev s)"
proof (cases ev)
  case Pass
  assume p: "COINSLOT_PROGRAM_MODE s \<and> COINSLOT_POWER s"
  have "COINSLOT_POWER (led_handle m v s')" if "COINSLOT_PROGRAM_MODE s'" "COINSLOT_POWER s'" for v s'
    using that by (cases v) (simp_all add: set_power_def Let_def)
  with Pass p show ?thesis by (simp add: led_step_def ledTask_def split: option.split)
qed (simp add: led_step_def led_send_def)

lemma run_power:
  "all_read evs \<Longrightarrow> \<not> COINSLOT_PROGRAM_MODE s \<Longrightarrow> notification s = None \<Longrightarrow>
     COINSLOT_POWER (led_run m evs s) = last_power (COINSLOT_POWER s) evs"
proof (induction evs arbitrary: s rule: all_read.induct)
  case (2 v evs)
  let ?s = "led_handle m v (s\<lparr>notification := None\<rparr>)"
  have "led_run m (Send v # Pass # evs) s = led_run m evs ?s"
    by (simp add: led_run_def pass_read)
  moreover have "COINSLOT_POWER ?s = (case power_of v of None \<Rightarrow> COINSLOT_POWER s | Some p \<Rightarrow> p)"
    using 2 by (simp add: handle_power split: option.split)
  ultimately show ?case using 2 by simp
next
  case (3 evs)
  then show ?case using pass_idle [OF "3.prems"(3), of m] by (simp add: led_run_def)
qed (simp_all add: led_run_def)

section \<open>Properties\<close>

text \<open>The power follows the commands. In every history in which the light's task reads each
  notification before the next is sent, the acceptor is powered exactly when the last start,
  stop or ready was a start; in program mode it stays powered in every history.\<close>
theorem power_follows_commands:
  "(all_read evs \<longrightarrow> \<not> COINSLOT_PROGRAM_MODE s \<longrightarrow> notification s = None \<longrightarrow>
      COINSLOT_POWER (led_run m evs s) = last_power (COINSLOT_POWER s) evs)
   \<and> COINSLOT_POWER (led_run m evs (handleProgram s))"
proof -
  have "COINSLOT_PROGRAM_MODE (led_run m evs s') \<and> COINSLOT_POWER (led_run m evs s')"
    if "COINSLOT_PROGRAM_MODE s' \<and> COINSLOT_POWER s'" for s'
    unfolding led_run_def using that program_step by (rule fold_inv)
  from this [of "handleProgram s"] have "COINSLOT_POWER (led_run m evs (handleProgram s))"
    by (simp add: handleProgram_def)
  with run_power show ?thesis by blast
qed

theorem power_follows_commands_witness:
  "COINSLOT_POWER (led_run True [Send LED_NOTIFY_READY, Pass, Send LED_NOTIFY_START, Pass, Pass] setupLed)
   \<and> \<not> COINSLOT_POWER (led_run True [Send LED_NOTIFY_START, Pass, Send LED_NOTIFY_STOP, Pass] setupLed)"
proof -
  have s: "\<not> COINSLOT_PROGRAM_MODE setupLed" "notification setupLed = None" by (simp_all add: setupLed_def)
  have a: "all_read [Send LED_NOTIFY_READY, Pass, Send LED_NOTIFY_START, Pass, Pass]"
    and b: "all_read [Send LED_NOTIFY_START, Pass, Send LED_NOTIFY_STOP, Pass]" by simp_all
  from power_follows_commands a s
  have "COINSLOT_POWER (led_run True [Send LED_NOTIFY_READY, Pass, Send LED_NOTIFY_START, Pass, Pass] setupLed)
      = last_power (COINSLOT_POWER setupLed) [Send LED_NOTIFY_READY, Pass, Send LED_NOTIFY_START, Pass, Pass]" by blast
  moreover from power_follows_commands b s
  have "COINSLOT_POWER (led_run True [Send LED_NOTIFY_START, Pass, Send LED_NOTIFY_STOP, Pass] setupLed)
      = last_power (COINSLOT_POWER setupLed) [Send LED_NOTIFY_START, Pass, Send LED_NOTIFY_STOP, Pass]" by blast
  ultimately show ?thesis by (simp add: power_of_def)
qed

text \<open>A lost stop leaves the acceptor on. When the end of a session and a service error reach the
  task before it runs, it reads only the error: the acceptor stays powered, for any number of
  passes without a new notification, although no session is open.\<close>
theorem lost_stop_keeps_power:
  "let s = led_run m ([Send LED_NOTIFY_START, Pass, Send LED_NOTIFY_STOP, Send LED_NOTIFY_ERROR, Pass] @ replicate n Pass) setupLed
   in COINSLOT_POWER s \<and> \<not> blinking s \<and> notification s = None"
proof -
  let ?s = "led_run m [Send LED_NOTIFY_START, Pass, Send LED_NOTIFY_STOP, Send LED_NOTIFY_ERROR, Pass] setupLed"
  have base: "COINSLOT_POWER ?s \<and> \<not> blinking ?s \<and> notification ?s = None"
    by (simp add: led_run_def led_step_def led_send_def ledTask_def setupLed_def set_power_def)
  have "COINSLOT_POWER (led_step m Pass x) \<and> \<not> blinking (led_step m Pass x) \<and> notification (led_step m Pass x) = None"
    if "COINSLOT_POWER x \<and> \<not> blinking x \<and> notification x = None" for x
    using that pass_idle [of x m] by (simp add: led_step_def ledTask_def led_toggle_def Let_def)
  then have "COINSLOT_POWER (fold (\<lambda>_. led_step m Pass) [0..<n] ?s) \<and> \<not> blinking (fold (\<lambda>_. led_step m Pass) [0..<n] ?s)
      \<and> notification (fold (\<lambda>_. led_step m Pass) [0..<n] ?s) = None"
    using base by (intro fold_inv [where P = "\<lambda>x. COINSLOT_POWER x \<and> \<not> blinking x \<and> notification x = None"])
  moreover have "fold (led_step m) (replicate n Pass) x = fold (\<lambda>_. led_step m Pass) [0..<n] x" for x
    by (induction n arbitrary: x) (simp_all add: replicate_append_same [symmetric])
  ultimately show ?thesis by (simp add: led_run_def Let_def)
qed

end
