(* ===== verification/DevicePlane.thy ===== *)
theory DevicePlane
  imports Wire
begin

text \<open>
  The device plane of \<open>src/omada_device.cpp\<close>, which announces the board to the controller as an
  access point: the RC4 cipher and the digests of the device protocol with the start-up
  self-test, the host part of the controller's URL, the discovery frame, and one pass of the
  beacon task. MD5, SHA-256 and the public-key library are parameters.
\<close>

definition H_UPPER :: string where "H_UPPER = ''0123456789ABCDEF''"

definition toHexUpper :: "u8 list \<Rightarrow> string" where
  "toHexUpper bs = concat (map (\<lambda>b. [H_UPPER ! (unat b div 16), H_UPPER ! (unat b mod 16)]) bs)"

record digests =
  md5 :: "u8 list \<Rightarrow> u8 list"
  sha256 :: "u8 list \<Rightarrow> u8 list"

definition bytes_of :: "string \<Rightarrow> u8 list" where "bytes_of s = map byte_of s"

definition ecspMd5Upper :: "digests \<Rightarrow> u8 list \<Rightarrow> string" where
  "ecspMd5Upper h bs = toHexUpper (md5 h bs)"

definition ecspSha256Upper :: "digests \<Rightarrow> u8 list \<Rightarrow> string" where
  "ecspSha256Upper h bs = toHexUpper (sha256 h bs)"

definition ecsp2AuthMd5 :: "digests \<Rightarrow> string \<Rightarrow> string \<Rightarrow> string \<Rightarrow> string" where
  "ecsp2AuthMd5 h username md5UpperHex randomKey =
     (let inner = ecspSha256Upper h (bytes_of (username @ md5UpperHex))
      in ecspSha256Upper h (bytes_of (inner @ randomKey)))"

definition ecsp2Auth :: "digests \<Rightarrow> string \<Rightarrow> string \<Rightarrow> string \<Rightarrow> string" where
  "ecsp2Auth h username password randomKey =
     ecsp2AuthMd5 h username (ecspMd5Upper h (bytes_of password)) randomKey"

section \<open>RC4\<close>

definition rc4_swap :: "nat \<Rightarrow> nat \<Rightarrow> u8 list \<Rightarrow> u8 list" where
  "rc4_swap i j S = S[i := S ! j, j := S ! i]"

text \<open>The key schedule: one pass for every \<open>i\<close> below 256; the key must not be empty.\<close>

definition rc4_key_step :: "u8 list \<Rightarrow> nat \<Rightarrow> u8 list \<times> nat \<Rightarrow> u8 list \<times> nat" where
  "rc4_key_step key i t =
     (let S = fst t; j = (snd t + unat (S ! i) + unat (key ! (i mod length key))) mod 256
      in (rc4_swap i j S, j))"

definition rc4_table :: "u8 list \<Rightarrow> u8 list" where
  "rc4_table key = fst (fold (rc4_key_step key) [0..<256] (map word_of_nat [0..<256], 0))"

text \<open>The output loop, byte by byte.\<close>

fun rc4_out :: "nat \<Rightarrow> nat \<Rightarrow> u8 list \<Rightarrow> u8 list \<Rightarrow> u8 list" where
  "rc4_out a b S [] = []"
| "rc4_out a b S (x # xs) =
     (let a' = (a + 1) mod 256; b' = (b + unat (S ! a')) mod 256; S' = rc4_swap a' b' S
      in (x XOR S' ! ((unat (S' ! a') + unat (S' ! b')) mod 256)) # rc4_out a' b' S' xs)"

definition ecspRc4 :: "u8 list \<Rightarrow> u8 list \<Rightarrow> u8 list" where
  "ecspRc4 key bs = rc4_out 0 0 (rc4_table key) bs"

section \<open>Random bytes and public-key encryption\<close>

text \<open>Every random word gives up to four bytes, the low one first; \<open>rs\<close> are the words drawn.\<close>

fun rngFromEsp :: "u32 list \<Rightarrow> nat \<Rightarrow> u8 list" where
  "rngFromEsp [] len = []"
| "rngFromEsp (r # rs) len =
     (if len = 0 then []
      else map (\<lambda>k. ucast (drop_bit (8 * k) r)) [0..<min 4 len] @ rngFromEsp rs (len - 4))"

text \<open>The length written, 0 on an error; the library's key reader and encryption are parameters.\<close>

definition ecspRsaPubEncrypt ::
  "(string \<Rightarrow> 'k option) \<Rightarrow> ('k \<Rightarrow> u8 list \<Rightarrow> nat \<Rightarrow> u8 list option) \<Rightarrow> string \<Rightarrow> u8 list \<Rightarrow> nat \<Rightarrow> u8 list \<times> nat" where
  "ecspRsaPubEncrypt parse_key pk_encrypt pem bs outCap =
     (case parse_key pem of
        None \<Rightarrow> ([], 0)
      | Some k \<Rightarrow> (case pk_encrypt k bs outCap of None \<Rightarrow> ([], 0) | Some out \<Rightarrow> (out, length out)))"

section \<open>Self-test\<close>

definition rc4_selftest :: bool where
  "rc4_selftest \<longleftrightarrow> toHexUpper (ecspRc4 (bytes_of ''Key'') (bytes_of ''Plaintext'')) = ''BBF316E8D940AF0AD3''"

definition omadaDeviceCryptoSelfTest :: "digests \<Rightarrow> bool" where
  "omadaDeviceCryptoSelfTest h \<longleftrightarrow> rc4_selftest
     \<and> ecspMd5Upper h [] = ''D41D8CD98F00B204E9800998ECF8427E''
     \<and> starts_with ''BA7816BF8F01CFEA414140DE5DAE2223B00361A396177A9CB410FF61F20015AD'' (ecspSha256Upper h (bytes_of ''abc''))
     \<and> ecsp2Auth h ''admin'' ''admin'' ''0123456789abcdef0123456789abcdef0123''
         = ''D1D728F6EA0CB2E1F7E008E526822D896F55ED50F11B998CADC99BCF47B84E2D''"

section \<open>Discovery\<close>

definition controllerHost :: "string \<Rightarrow> string" where
  "controllerHost url =
     (case index_of ''://'' url of
        None \<Rightarrow> []
      | Some a0 \<Rightarrow>
          (let a = a0 + 3; len = length url;
               e1 = (case index_of_from '':'' a url of None \<Rightarrow> len | Some b \<Rightarrow> min len b);
               e2 = (case index_of_from ''/'' a url of None \<Rightarrow> e1 | Some c \<Rightarrow> min e1 c)
           in substring a e2 url))"

record device_env =
  CONTROLLER_BASE_URL :: string
  dev_mac :: string
  dev_ip :: string
  dev_connected :: bool
  heap_size :: u32
  heap_free :: u32
  dev_time :: int
  dev_millis :: u32

definition memUti :: "u32 \<Rightarrow> u32 \<Rightarrow> int" where
  "memUti heapTotal heapFree =
     (if heapTotal \<noteq> 0 then sint (ucast (100 - (ucast heapFree * 100) div (ucast heapTotal :: u64)) :: u32) else 40)"

definition discovery_message :: "device_env \<Rightarrow> string" where
  "discovery_message e =
     (let mac = to_upper (dev_mac e);
          h = ''{\"seq\":1,\"version\":\"2.3.0\",\"device\":\"ap\",\"mac\":\"'' @ mac
              @ ''\",\"type\":1,\"timestamp\":'' @ dec_int (dev_time e) @ '',\"ip\":\"'' @ dev_ip e @ ''\"}'';
          di = ''{\"name\":\"EllaFi-'' @ drop 12 mac @ ''\",\"model\":\"EAP225-Outdoor''
              @ ''\",\"modelVersion\":\"1.0\",\"firmwareVersion\":\"1.0.0 Build 20260101 Rel.00000\",''
              @ ''\"hardwareVersion\":\"1.0\",\"upTime\":\"'' @ dec (unat (dev_millis e div 1000)) @ ''\",\"cpuUti\":5,\"memUti\":''
              @ dec_int (memUti (heap_size e) (heap_free e)) @ '',\"wirelessLinked\":false}'';
          dm = ''{\"support_11ac\":true,\"support_lag\":false,\"supportMesh\":1,\"customizeRegion\":0,''
              @ ''\"lanPortsNum\":1,\"support_channelLimit\":false,\"supportDfs\":0,\"supportRoaming\":1,''
              @ ''\"countryCode\":1}'';
          body = ''{\"deviceInfo\":'' @ di @ '',\"deviceMisc\":'' @ dm
              @ '',\"controllerSetting\":{\"controllerId\":\"c21f969b5f03d33d43e04f8f136e7682\",\"destOmadacId\":\"\"}}''
      in ''{\"header\":'' @ h @ '',\"body\":'' @ body @ ''}'')"

definition frame_of :: "string \<Rightarrow> u8 list" where
  "frame_of msg =
     (let n = word_of_nat (length msg) :: u32
      in [ucast (drop_bit 24 n), ucast (drop_bit 16 n), ucast (drop_bit 8 n), ucast n] @ bytes_of msg)"

definition buildDiscoveryFrame :: "device_env \<Rightarrow> u8 list" where
  "buildDiscoveryFrame e = frame_of (discovery_message e)"

datatype beacon = ToHost string "u8 list" | Broadcast "u8 list"

text \<open>One pass of the beacon task, every 30 seconds; the port is always 29810.\<close>

definition omadaDeviceTask :: "device_env \<Rightarrow> beacon list" where
  "omadaDeviceTask e =
     (if \<not> dev_connected e then []
      else let frame = buildDiscoveryFrame e; host = controllerHost (CONTROLLER_BASE_URL e)
           in (if host \<noteq> [] then [ToHost host frame] else []) @ [Broadcast frame])"

text \<open>The outcome of the self-test is only logged; the task is started when the configuration says so.\<close>

definition setupOmadaDevice :: "bool \<Rightarrow> bool" where "setupOmadaDevice OMADA_DEVICE_ENABLE = OMADA_DEVICE_ENABLE"

section \<open>The cipher on words\<close>

text \<open>The published algorithm: a permutation of the bytes as a function, indices that are bytes
  themselves and wrap by their width.\<close>

type_synonym sbox = "u8 \<Rightarrow> u8"

definition ref_swap :: "u8 \<Rightarrow> u8 \<Rightarrow> sbox \<Rightarrow> sbox" where
  "ref_swap i j S = S(i := S j, j := S i)"

definition ref_key_step :: "u8 list \<Rightarrow> nat \<Rightarrow> sbox \<times> u8 \<Rightarrow> sbox \<times> u8" where
  "ref_key_step key i t =
     (let i' = word_of_nat i; j = snd t + fst t i' + key ! (i mod length key) in (ref_swap i' j (fst t), j))"

definition ref_table :: "u8 list \<Rightarrow> sbox" where
  "ref_table key = fst (fold (ref_key_step key) [0..<256] (id, 0))"

fun ref_out :: "u8 \<Rightarrow> u8 \<Rightarrow> sbox \<Rightarrow> u8 list \<Rightarrow> u8 list" where
  "ref_out a b S [] = []"
| "ref_out a b S (x # xs) =
     (let a' = a + 1; b' = b + S a'; S' = ref_swap a' b' S
      in (x XOR S' (S' a' + S' b')) # ref_out a' b' S' xs)"

definition rc4_reference :: "u8 list \<Rightarrow> u8 list \<Rightarrow> u8 list" where
  "rc4_reference key bs = ref_out 0 0 (ref_table key) bs"

definition sbox_of :: "u8 list \<Rightarrow> sbox" where "sbox_of S = (\<lambda>w. S ! unat w)"

lemma unat_u8: "unat (w :: u8) < 256"
  using unsigned_less [of w, where ?'a = nat] by simp

lemma length_swap [simp]: "length (rc4_swap i j S) = length S"
  by (simp add: rc4_swap_def)

lemma sbox_swap:
  assumes "length S = 256"
  shows "sbox_of (rc4_swap (unat i) (unat j) S) = ref_swap i j (sbox_of S)"
proof
  fix w
  have "unat i < length S" "unat j < length S" using assms unat_u8 by simp_all
  then show "sbox_of (rc4_swap (unat i) (unat j) S) w = ref_swap i j (sbox_of S) w"
    by (cases "w = j"; cases "w = i")
      (simp_all add: sbox_of_def rc4_swap_def ref_swap_def nth_list_update word_unat_eq_iff)
qed

lemma unat_sum: "unat (x + y :: u8) = (unat x + unat y) mod 256"
  by (simp add: unat_word_ariths(1))

lemma key_step_ref:
  assumes "length S = 256" and "i < 256"
  shows "rc4_key_step key i (S, unat j) =
     (let (S', j') = ref_key_step key i (sbox_of S, j) in
      (rc4_swap i (unat j') S, unat j'))"
    and "sbox_of (fst (rc4_key_step key i (S, unat j))) = fst (ref_key_step key i (sbox_of S, j))"
proof -
  let ?i = "word_of_nat i :: u8"
  have i: "unat ?i = i" using assms(2) by (simp add: unat_of_nat)
  have j: "(unat j + unat (S ! i) + unat (key ! (i mod length key))) mod 256
      = unat (j + sbox_of S ?i + key ! (i mod length key))"
    unfolding unat_sum sbox_of_def i by (simp only: mod_add_left_eq)
  then show e: "rc4_key_step key i (S, unat j) =
     (let (S', j') = ref_key_step key i (sbox_of S, j) in (rc4_swap i (unat j') S, unat j'))"
    by (simp add: rc4_key_step_def ref_key_step_def Let_def)
  show "sbox_of (fst (rc4_key_step key i (S, unat j))) = fst (ref_key_step key i (sbox_of S, j))"
    unfolding e using sbox_swap [OF assms(1), of ?i] by (simp add: i ref_key_step_def Let_def)
qed

lemma key_fold_ref:
  assumes "length S = 256" and "\<forall>i \<in> set is. i < 256"
  shows "let r = fold (rc4_key_step key) is (S, unat j); q = fold (ref_key_step key) is (sbox_of S, j)
    in length (fst r) = 256 \<and> sbox_of (fst r) = fst q \<and> snd r = unat (snd q)"
  using assms
proof (induction "is" arbitrary: S j)
  case (Cons i "is")
  obtain S' j' where r: "ref_key_step key i (sbox_of S, j) = (S', j')" by fastforce
  have "rc4_key_step key i (S, unat j) = (rc4_swap i (unat j') S, unat j')"
    and "sbox_of (rc4_swap i (unat j') S) = S'"
    using key_step_ref [of S i key j] Cons.prems r by simp_all
  with Cons.IH [of "rc4_swap i (unat j') S" j'] Cons.prems r show ?case by simp
qed simp

lemma rc4_table_ref: "length (rc4_table key) = 256" "sbox_of (rc4_table key) = ref_table key"
proof -
  let ?S = "map word_of_nat [0..<256] :: u8 list"
  have "sbox_of ?S = id" by (rule ext) (simp add: sbox_of_def unat_u8)
  then show "length (rc4_table key) = 256" "sbox_of (rc4_table key) = ref_table key"
    using key_fold_ref [of ?S "[0..<256]" key 0] by (simp_all add: rc4_table_def ref_table_def Let_def)
qed

lemma ref_swap_bij: "bij S \<Longrightarrow> bij (ref_swap i j S)"
proof -
  assume "bij S"
  moreover have "ref_swap i j S = S \<circ> (id(i := j, j := i))" by (auto simp: ref_swap_def)
  moreover have "bij (id(i := j, j := i))"
    by (rule o_bij [of "id(i := j, j := i)"]) (auto simp: fun_eq_iff)
  ultimately show ?thesis by (simp add: bij_comp)
qed

lemma rc4_permutation: "set (rc4_table key) = UNIV"
proof -
  have "bij (fst (fold (ref_key_step key) is (S, j)))" if "bij S" for "is" S j
    using that by (induction "is" arbitrary: S j) (simp_all add: ref_key_step_def ref_swap_bij Let_def)
  then have b: "bij (ref_table key)" by (simp add: ref_table_def)
  have "range (sbox_of (rc4_table key)) \<subseteq> set (rc4_table key)"
    using rc4_table_ref(1) unat_u8 by (auto simp: sbox_of_def)
  with b show ?thesis unfolding rc4_table_ref(2) by (auto simp: bij_def)
qed

lemma rc4_out_ref:
  "length S = 256 \<Longrightarrow> rc4_out (unat a) (unat b) S xs = ref_out a b (sbox_of S) xs"
proof (induction xs arbitrary: a b S)
  case (Cons x xs)
  let ?a = "a + 1" and ?b = "b + sbox_of S (a + 1)"
  have a: "(unat a + 1) mod 256 = unat ?a" by (simp add: unat_sum)
  have b: "(unat b + unat (S ! unat ?a)) mod 256 = unat ?b" by (simp add: unat_sum sbox_of_def)
  let ?T = "rc4_swap (unat ?a) (unat ?b) S"
  have T: "length ?T = 256" "sbox_of ?T = ref_swap ?a ?b (sbox_of S)"
    using Cons.prems sbox_swap by simp_all
  have k: "?T ! ((unat (?T ! unat ?a) + unat (?T ! unat ?b)) mod 256) = sbox_of ?T (sbox_of ?T ?a + sbox_of ?T ?b)"
    by (simp add: sbox_of_def unat_sum)
  show ?case
    by (simp only: rc4_out.simps ref_out.simps Let_def a b k Cons.IH [OF T(1)] T(2))
qed simp

lemma rc4_out_involution: "rc4_out a b S (rc4_out a b S xs) = xs"
  by (induction xs arbitrary: a b S) (simp_all add: Let_def xor.assoc)

lemma length_rc4_out [simp]: "length (rc4_out a b S xs) = length xs"
  by (induction xs arbitrary: a b S) (simp_all add: Let_def)

section \<open>Hexadecimal text and frames\<close>

lemma length_toHexUpper [simp]: "length (toHexUpper bs) = 2 * length bs"
  by (induction bs) (simp_all add: toHexUpper_def)

definition be_value :: "u8 list \<Rightarrow> nat" where "be_value bs = foldl (\<lambda>n b. 256 * n + unat b) 0 bs"

lemma be_u32:
  "be_value [ucast (drop_bit 24 (n :: u32)), ucast (drop_bit 16 n), ucast (drop_bit 8 n), ucast n] = unat n"
proof -
  let ?v = "unat n"
  have "?v < 2 ^ 32" using unsigned_less [of n, where ?'a = nat] by simp
  then have top: "?v div 2 ^ 24 mod 256 = ?v div 2 ^ 24" by (intro mod_less) (simp add: div_less_iff_less_mult)
  have split: "256 * (x div 256) + x mod 256 = x" for x :: nat by simp
  have "?v div 2 ^ 24 = ?v div 2 ^ 16 div 256" "?v div 2 ^ 16 = ?v div 2 ^ 8 div 256" "?v div 2 ^ 8 = ?v div 256"
    by (simp_all flip: div_mult2_eq)
  with top split have "256 * (256 * (256 * (?v div 2 ^ 24 mod 256) + ?v div 2 ^ 16 mod 256) + ?v div 2 ^ 8 mod 256) + ?v mod 256 = ?v"
    by (simp only:)
  moreover have "unat (ucast (drop_bit k n) :: u8) = ?v div 2 ^ k mod 256" for k
    unfolding unsigned_ucast_eq unat_drop_bit_eq by (simp add: take_bit_eq_mod drop_bit_eq_div)
  moreover have "unat (ucast n :: u8) = ?v mod 256" by (simp add: unsigned_ucast_eq take_bit_eq_mod)
  ultimately show ?thesis unfolding be_value_def by (simp only: foldl.simps mult_0_right add_0)
qed

lemma index_of_skip:
  "c \<notin> set h \<Longrightarrow> index_of (c # p) (h @ t) = map_option (\<lambda>i. length h + i) (index_of (c # p) t)"
  by (cases "index_of (c # p) t"; induction h) (auto simp: starts_with_def)

lemma index_of_absent: "c \<notin> set h \<Longrightarrow> index_of (c # p) h = None"
  by (induction h) (auto simp: starts_with_def)

lemma index_of_here: "index_of (c # p) ((c # p) @ t) = Some 0"
  by (simp add: starts_with_def)

text \<open>The host ends where a port or a path begins.\<close>

lemma controllerHost_of:
  assumes "CHR '':'' \<notin> set scheme" and h: "CHR '':'' \<notin> set host" "CHR ''/'' \<notin> set host"
    and rest: "rest = [] \<or> hd rest = CHR '':'' \<or> hd rest = CHR ''/''"
  shows "controllerHost (scheme @ ''://'' @ host @ rest) = host"
proof -
  let ?u = "scheme @ ''://'' @ host @ rest" and ?n = "length scheme + 3"
  have i: "index_of ''://'' ?u = Some (length scheme)"
    using index_of_skip [OF assms(1), of "''//''" "''://'' @ host @ rest"] index_of_here [of "CHR '':''" "''//''" "host @ rest"]
    by simp
  have fr: "index_of_from (c # []) ?n ?u = map_option (\<lambda>i. length host + i + ?n) (index_of [c] rest)"
    if "c \<in> {CHR '':'', CHR ''/''}" for c
  proof -
    have "drop ?n ?u = host @ rest" by simp
    moreover have "c \<notin> set host" using that h by auto
    ultimately show ?thesis using index_of_skip [of c host "[]" rest]
      by (simp add: index_of_from_def option.map_comp comp_def)
  qed
  have len: "length ?u = ?n + length host + length rest" by simp
  have sub: "substring ?n (?n + length host) ?u = host" by (simp add: substring_def)
  have port: "index_of_from '':'' ?n ?u = map_option (\<lambda>i. length host + i + ?n) (index_of '':'' rest)"
    and path: "index_of_from ''/'' ?n ?u = map_option (\<lambda>i. length host + i + ?n) (index_of ''/'' rest)"
    by (rule fr; simp)+
  have e: "controllerHost ?u = substring ?n
     (let e1 = (case index_of '':'' rest of None \<Rightarrow> length ?u | Some b \<Rightarrow> min (length ?u) (length host + b + ?n))
      in case index_of ''/'' rest of None \<Rightarrow> e1 | Some c \<Rightarrow> min e1 (length host + c + ?n)) ?u"
    unfolding controllerHost_def i option.case Let_def port path
    by (cases "index_of '':'' rest"; cases "index_of ''/'' rest") simp_all
  consider "rest = []" | "index_of '':'' rest = Some 0" | "index_of ''/'' rest = Some 0"
    using rest by (cases rest) (auto simp: starts_with_def)
  then have "(let e1 = (case index_of '':'' rest of None \<Rightarrow> length ?u | Some b \<Rightarrow> min (length ?u) (length host + b + ?n))
      in case index_of ''/'' rest of None \<Rightarrow> e1 | Some c \<Rightarrow> min e1 (length host + c + ?n)) = ?n + length host"
    unfolding len Let_def
    by cases (simp, (cases "index_of ''/'' rest"; simp), (cases "index_of '':'' rest"; simp))
  then show ?thesis unfolding e using sub by (simp only:)
qed

lemma frame_parts:
  assumes "length msg < 2 ^ 32"
  shows "be_value (take 4 (frame_of msg)) = length (drop 4 (frame_of msg))"
    and "map char_at (drop 4 (frame_of msg)) = msg"
proof -
  have "unat (word_of_nat (length msg) :: u32) = length msg" using assms by (simp add: unat_of_nat)
  then show "be_value (take 4 (frame_of msg)) = length (drop 4 (frame_of msg))"
    by (simp add: frame_of_def Let_def be_u32 bytes_of_def)
  show "map char_at (drop 4 (frame_of msg)) = msg"
    by (simp add: frame_of_def Let_def bytes_of_def comp_def)
qed

lemma memUti_percent:
  assumes "free \<le> sz"
  shows "0 \<le> memUti sz free \<and> memUti sz free \<le> 100"
proof (cases "sz = 0")
  case False
  have f: "unat free \<le> unat sz" "unat sz < 2 ^ 32" "0 < unat sz"
    using assms False unsigned_less [of sz, where ?'a = nat] by (simp_all add: word_le_nat_alt unat_gt_0)
  let ?q = "unat free * 100 div unat sz"
  have "?q \<le> unat sz * 100 div unat sz" using f(1) by (intro div_le_mono) simp
  then have q: "?q \<le> 100" using f(3) by simp
  have m: "unat free * 100 < 2 ^ 64" using f by simp
  have wide: "unat (ucast w :: u64) = unat w" for w :: u32
    using unsigned_less [of w, where ?'a = nat] by (simp add: unsigned_ucast_eq take_bit_nat_eq_self_iff)
  have "unat ((ucast free * 100) div (ucast sz :: u64)) = ?q"
    using m f wide by (simp add: unat_div unat_word_ariths(2))
  then have "(ucast free * 100) div (ucast sz :: u64) = word_of_nat ?q"
    using q by (simp only: word_unat_eq_iff) (simp add: unat_of_nat)
  then have "100 - (ucast free * 100) div (ucast sz :: u64) = word_of_nat (100 - ?q)" using q by simp
  moreover have "ucast (word_of_nat n :: u64) = (word_of_nat n :: u32)" if "n \<le> 100" for n
    using that by (simp add: unsigned_of_nat take_bit_nat_eq_self)
  ultimately have "memUti sz free = sint (word_of_nat (100 - ?q) :: u32)"
    using False by (simp add: memUti_def)
  also have "\<dots> = int (100 - ?q)" by (simp add: signed_of_nat signed_take_bit_int_eq_self)
  finally show ?thesis using q by simp
qed (simp add: memUti_def)

section \<open>Properties\<close>

text \<open>C24: The cipher is RC4. The table of 256 bytes with its masked integer indices computes, for every
  key and text, what the published algorithm on bytes computes.\<close>
theorem rc4_is_reference: "ecspRc4 key bs = rc4_reference key bs"
  using rc4_out_ref [OF rc4_table_ref(1) [of key], of 0 0 bs]
  by (simp add: ecspRc4_def rc4_reference_def rc4_table_ref(2))

text \<open>What is enciphered is read back. Deciphering with the same key gives the text again, of the
  same length; and all along the table stays a permutation of the 256 bytes, so that no index
  of the cipher leaves it.\<close>
theorem rc4_roundtrip:
  "ecspRc4 key (ecspRc4 key bs) = bs \<and> length (ecspRc4 key bs) = length bs
   \<and> length (rc4_table key) = 256 \<and> set (rc4_table key) = UNIV"
  using rc4_permutation [of key] rc4_table_ref(1) [of key]
  by (simp add: ecspRc4_def rc4_out_involution)

text \<open>The beacon reaches the controller and can be read there. A connected board whose
  controller URL has a host sends one frame to that host, without scheme, port and path, and the
  same one to everybody; its first four bytes are the length of what follows, which is the
  message, and the memory use it reports is a percentage.\<close>
theorem beacon_readable:
  assumes "dev_connected e" and "CONTROLLER_BASE_URL e = scheme @ ''://'' @ host @ rest"
    and "CHR '':'' \<notin> set scheme" and "CHR '':'' \<notin> set host" and "CHR ''/'' \<notin> set host" and "host \<noteq> []"
    and "rest = [] \<or> hd rest = CHR '':'' \<or> hd rest = CHR ''/''"
    and "length (discovery_message e) < 2 ^ 32" and "heap_free e \<le> heap_size e"
  shows "\<exists>f. omadaDeviceTask e = [ToHost host f, Broadcast f] \<and> be_value (take 4 f) = length (drop 4 f)
     \<and> map char_at (drop 4 f) = discovery_message e
     \<and> 0 \<le> memUti (heap_size e) (heap_free e) \<and> memUti (heap_size e) (heap_free e) \<le> 100"
proof -
  have "controllerHost (CONTROLLER_BASE_URL e) = host"
    unfolding assms(2) by (rule controllerHost_of [OF assms(3-5,7)])
  then have "omadaDeviceTask e = [ToHost host (buildDiscoveryFrame e), Broadcast (buildDiscoveryFrame e)]"
    using assms(1,6) by (simp add: omadaDeviceTask_def Let_def)
  with frame_parts [OF assms(8)] memUti_percent [OF assms(9)] show ?thesis by (auto simp: buildDiscoveryFrame_def)
qed

lemma length_dec_le: "length (dec n) \<le> Suc n"
proof -
  have "length (dec_fuel f n) \<le> f" for f
    by (induction f n rule: dec_fuel.induct) simp_all
  from this [of "Suc n"] show ?thesis unfolding dec_def .
qed

lemma length_dec_int_le: "length (dec_int i) \<le> nat \<bar>i\<bar> + 2"
  using length_dec_le [of "nat i"] length_dec_le [of "nat (- i)"] by (simp add: dec_int_def)

definition demo_device :: device_env where
  "demo_device = \<lparr>CONTROLLER_BASE_URL = ''https://192.168.1.83:443'', dev_mac = ''aa:bb:cc:dd:ee:ff'', dev_ip = ''10.0.0.2'',
     dev_connected = True, heap_size = 320000, heap_free = 100000, dev_time = 1700000000, dev_millis = 60000\<rparr>"

theorem beacon_readable_witness:
  "\<exists>f. omadaDeviceTask demo_device = [ToHost ''192.168.1.83'' f, Broadcast f] \<and> be_value (take 4 f) = length (drop 4 f)"
proof -
  have u: "CONTROLLER_BASE_URL demo_device = ''https'' @ ''://'' @ ''192.168.1.83'' @ '':443''" "dev_connected demo_device"
    "heap_free demo_device \<le> heap_size demo_device" by (simp_all add: demo_device_def)
  have m: "0 \<le> memUti (heap_size demo_device) (heap_free demo_device)" "memUti (heap_size demo_device) (heap_free demo_device) \<le> 100"
    using memUti_percent [OF u(3)] by simp_all
  have "length (dec_int (memUti (heap_size demo_device) (heap_free demo_device))) \<le> 102"
    using length_dec_int_le [of "memUti (heap_size demo_device) (heap_free demo_device)"] m by linarith
  moreover have "length (dec_int (dev_time demo_device)) \<le> 1700000002"
    using length_dec_int_le [of "dev_time demo_device"] by (simp add: demo_device_def)
  moreover have "length (dec (unat (dev_millis demo_device div 1000))) \<le> 61"
    using length_dec_le [of "unat (dev_millis demo_device div 1000)"] by (simp add: demo_device_def)
  moreover have "length (dev_mac demo_device) = 17" "length (dev_ip demo_device) = 8" by (simp_all add: demo_device_def)
  ultimately have "length (discovery_message demo_device) < 2 ^ 32" by (simp add: discovery_message_def Let_def)
  from beacon_readable [OF u(2,1) _ _ _ _ _ this u(3)] show ?thesis by fastforce
qed

end
