(* ===== verification/MainLoop.thy ===== *)
theory MainLoop
  imports Network Led
begin

text \<open>
  Start-up and main loop (\<open>src/main.cpp\<close>): the role of the board, the static address, the waits
  for WiFi and clock, the order of \<open>setup()\<close>, the stack and health reports, and one pass of
  \<open>loop()\<close> with its timers. What a pass reads (clock, wall time, sockets, heap, readiness) is a
  record; what it does is a list of actions. Each comparison and each assignment of a timer is a
  reading of \<open>millis()\<close> of its own (\<open>t_x\<close> and \<open>t_x_set\<close>), and the wall clock is read apart from them.
\<close>

datatype reset_reason =
    ESP_RST_POWERON | ESP_RST_SW | ESP_RST_PANIC | ESP_RST_INT_WDT | ESP_RST_TASK_WDT | ESP_RST_WDT
  | ESP_RST_BROWNOUT | ESP_RST_DEEPSLEEP | ESP_RST_OTHER

fun resetReasonStr :: "reset_reason \<Rightarrow> string" where
  "resetReasonStr ESP_RST_POWERON = ''POWERON (power cut)''"
| "resetReasonStr ESP_RST_SW = ''SW (clean restart)''"
| "resetReasonStr ESP_RST_PANIC = ''PANIC (crash)''"
| "resetReasonStr ESP_RST_INT_WDT = ''INT_WDT (watchdog)''"
| "resetReasonStr ESP_RST_TASK_WDT = ''TASK_WDT (watchdog)''"
| "resetReasonStr ESP_RST_WDT = ''WDT (watchdog)''"
| "resetReasonStr ESP_RST_BROWNOUT = ''BROWNOUT (power dip)''"
| "resetReasonStr ESP_RST_DEEPSLEEP = ''DEEPSLEEP''"
| "resetReasonStr ESP_RST_OTHER = ''other''"

section \<open>Start-up\<close>

record static_config =
  STATIC_IP :: string
  STATIC_GATEWAY :: string
  STATIC_SUBNET :: string
  STATIC_DNS :: string

text \<open>\<open>substring(0, lastIndexOf('.'))\<close>; without a dot the whole text.\<close>

definition before_last_dot :: "string \<Rightarrow> string" where
  "before_last_dot s = (case index_of ''.'' (rev s) of None \<Rightarrow> s | Some i \<Rightarrow> take (length s - Suc i) s)"

text \<open>Address, gateway, mask and name server given to \<open>WiFi.config\<close>; \<open>None\<close> is DHCP.\<close>

definition static_address :: "(string \<Rightarrow> bool) \<Rightarrow> static_config \<Rightarrow> (string \<times> string \<times> string \<times> string) option" where
  "static_address valid c =
     (if STATIC_IP c = [] then None
      else if \<not> valid (STATIC_IP c) then None
      else let gw = (if STATIC_GATEWAY c = [] then before_last_dot (STATIC_IP c) @ ''.1'' else STATIC_GATEWAY c)
           in Some (STATIC_IP c, gw, if STATIC_SUBNET c = [] then ''255.255.255.0'' else STATIC_SUBNET c,
                    if STATIC_DNS c = [] then gw else STATIC_DNS c))"

text \<open>Up to five polls of the connection, half a second apart, and a last look.\<close>

function wifi_wait :: "nat \<Rightarrow> (nat \<Rightarrow> bool) \<Rightarrow> nat" where
  "wifi_wait i st = (if i < 5 then (if st i then Suc i else wifi_wait (Suc i) st) else i)"
  by pat_completeness auto

termination by (relation "measure (\<lambda>(i, st). 5 - i)") auto

declare wifi_wait.simps [simp del]

definition setupWifi :: "(nat \<Rightarrow> bool) \<Rightarrow> bool" where
  "setupWifi st = st (wifi_wait 0 st)"

abbreviation NTP_EPOCH_MIN :: int where "NTP_EPOCH_MIN \<equiv> 1000000000"
abbreviation NTP_SYNC_RETRIES :: nat where "NTP_SYNC_RETRIES \<equiv> 40"

text \<open>The wait for the clock; \<open>reads r\<close> is what \<open>time()\<close> gives after the \<open>r\<close>-th half second.\<close>

function ntp_wait :: "int \<Rightarrow> nat \<Rightarrow> (nat \<Rightarrow> int) \<Rightarrow> int \<times> nat" where
  "ntp_wait now retries reads =
     (if now < NTP_EPOCH_MIN \<and> retries < NTP_SYNC_RETRIES
      then ntp_wait (reads retries) (Suc retries) reads else (now, retries))"
  by pat_completeness auto

termination by (relation "measure (\<lambda>(now, retries, reads). NTP_SYNC_RETRIES - retries)") auto

declare ntp_wait.simps [simp del]

definition setupNtp :: "(nat \<Rightarrow> int) \<Rightarrow> bool" where
  "setupNtp reads = (let (now, n) = ntp_wait 0 0 reads in \<not> now < NTP_EPOCH_MIN)"

text \<open>Whether the queues came up; otherwise the board halts.\<close>

definition setupQueues :: "bool \<Rightarrow> bool \<Rightarrow> bool \<Rightarrow> bool \<Rightarrow> bool" where
  "setupQueues master jobs pulses sessions \<longleftrightarrow> pulses \<and> jobs \<and> (master \<longrightarrow> sessions)"

definition setupTasks :: "bool \<Rightarrow> string list" where
  "setupTasks master = ''CoinPulseTask'' # (if master then [''CoinSessionTask'', ''WebSocketTask'', ''UpdateClientTask''] else [])"

datatype boot_step =
    LogBufferSetup | SetupLed | SetupFilesystem | SetupConfig | MoneyStoreBegin | SetupPins | SetupWifi | WifiRecovery
  | SetupNetwork | SetupNtp | SetupLogs | SetupQueues | SetupWeb | SetupOmada | SetupOmadaDevice | SetupTasks | BootReady

text \<open>\<open>setup()\<close>; the recovery portal, entered without a connection, never returns.\<close>

definition setup_steps :: "bool \<Rightarrow> bool \<Rightarrow> boot_step list" where
  "setup_steps connected master =
     [LogBufferSetup, SetupLed, SetupFilesystem, SetupConfig, MoneyStoreBegin, SetupPins, SetupWifi]
     @ (if \<not> connected then [WifiRecovery]
        else [SetupNetwork, SetupNtp, SetupLogs, SetupQueues] @ (if master then [SetupWeb, SetupOmada] else [])
             @ [SetupOmadaDevice, SetupTasks, BootReady])"

section \<open>Reports\<close>

abbreviation STACK_TIGHT_FREE_BYTES :: nat where "STACK_TIGHT_FREE_BYTES \<equiv> 1536"

text \<open>The least free stack and its task, and whether the line is a warning; \<open>None\<close> is a task that
  does not exist.\<close>

fun stack_min :: "nat \<times> string \<Rightarrow> (string \<times> nat option) list \<Rightarrow> nat \<times> string" where
  "stack_min m [] = m"
| "stack_min m ((name, None) # ts) = stack_min m ts"
| "stack_min m ((name, Some hw) # ts) = stack_min (if hw < fst m then (hw, name) else m) ts"

definition logStacks :: "string \<Rightarrow> nat \<Rightarrow> nat option \<Rightarrow> nat option \<Rightarrow> nat option \<Rightarrow> nat \<times> string \<times> bool" where
  "logStacks ctx own hs0 hs1 hs2 =
     (let (m, who) = stack_min (own, ''loop'') [(''CoinSession'', hs0), (''WebSocket'', hs1), (''UpdateClient'', hs2)]
      in (m, who, m < STACK_TIGHT_FREE_BYTES \<or> ctx = ''boot''))"

abbreviation NODE_OFFLINE_THRESHOLD_MILLIS :: u32 where "NODE_OFFLINE_THRESHOLD_MILLIS \<equiv> 60000"

record ping_env =
  HEALTHCHECK_URL :: string
  ping_connected :: bool
  ping_mac :: string
  ping_millis :: u32
  active_sessions :: nat
  controller_url :: string
  begin_ok :: bool
  post_code :: int
  retry_begin_ok :: bool
  retry_code :: int

definition node_down :: "ping_env \<Rightarrow> node_info \<Rightarrow> bool" where
  "node_down e ni \<longleftrightarrow> to_upper (ni_mac ni) \<noteq> to_upper (ping_mac e)
     \<and> \<not> ping_millis e - ni_lastSeenMs ni < NODE_OFFLINE_THRESHOLD_MILLIS"

fun comma_join :: "string list \<Rightarrow> string" where
  "comma_join [] = []"
| "comma_join [s] = s"
| "comma_join (s # ss) = s @ '','' @ comma_join ss"

text \<open>\<open>String::replace\<close>: every occurrence, from the left, for a pattern that is not empty.\<close>

function replace_all :: "string \<Rightarrow> string \<Rightarrow> string \<Rightarrow> string" where
  "replace_all p q [] = []"
| "replace_all p q (c # s) =
     (if p \<noteq> [] \<and> starts_with p (c # s) then q @ replace_all p q (drop (length p) (c # s))
      else c # replace_all p q s)"
  by pat_completeness auto

termination by (relation "measure (\<lambda>(p, q, s). length s)") auto

definition plain_http :: "string \<Rightarrow> string" where "plain_http s = replace_all ''https://'' ''http://'' s"

text \<open>The hosts of the path probe after a failure: the controller's (\<open>indexOf("//") + 2\<close> is 1 when
  there is no \<open>//\<close>) and the check's.\<close>

definition cut_before :: "char \<Rightarrow> string \<Rightarrow> string" where
  "cut_before c s = (case index_of [c] s of None \<Rightarrow> s | Some i \<Rightarrow> if i > 0 then take i s else s)"

definition probe_controller :: "string \<Rightarrow> string" where
  "probe_controller url =
     cut_before (CHR '':'') (case index_of ''//'' url of None \<Rightarrow> drop 1 url | Some i \<Rightarrow> drop (i + 2) url)"

definition probe_check :: "string \<Rightarrow> string" where
  "probe_check url = cut_before (CHR ''/'') (replace_all ''http://'' [] url)"

datatype ping_log =
    PingFailed int string string int  \<comment> \<open>code, controller and check probed, code of the retry (-999: not sent)\<close>
  | PingSentFail nat string
  | PingOk

text \<open>Address and body of the requests sent, and what is logged; \<open>None\<close> when nothing is sent.\<close>

definition pingHealthcheck :: "ping_env \<Rightarrow> node_info list \<Rightarrow> ((string \<times> string) list \<times> ping_log) option" where
  "pingHealthcheck e nodes =
     (if HEALTHCHECK_URL e = [] \<or> \<not> ping_connected e then None
      else let down = map (\<lambda>ni. to_upper (ni_mac ni)) (filter (node_down e) nodes);
               url = plain_http (HEALTHCHECK_URL e) @ (if down \<noteq> [] then ''/fail'' else []);
               body = ''{\"mac\":\"'' @ to_upper (ping_mac e) @ ''\",\"uptime_s\":'' @ dec (unat (ping_millis e div 1000))
                      @ '',\"active_sessions\":'' @ dec (active_sessions e) @ '',\"nodes_down\":'' @ dec (length down)
                      @ (if down \<noteq> [] then '',\"down\":\"'' @ comma_join down @ ''\"'' else []) @ ''}''
           in if \<not> begin_ok e then None
              else if post_code e \<noteq> 200
                then Some ((url, body) # (if retry_begin_ok e then [(url, body)] else []),
                           PingFailed (post_code e) (probe_controller (controller_url e)) (probe_check url)
                             (if retry_begin_ok e then retry_code e else -999))
              else Some ([(url, body)], if down \<noteq> [] then PingSentFail (length down) (comma_join down) else PingOk))"

section \<open>The main loop\<close>

record loop_state =
  lastRebootCheck :: u32
  lastHeartbeat :: u32
  lastStackCheck :: u32
  wasReady :: bool
  lastServiceRetry :: u32
  lastResCheck :: u32
  lastResWarn :: u32
  lastSockWarn :: u32
  lastResSample :: u32
  lastHealthcheck :: u32

record loop_env =
  loop_master :: bool
  t_reboot :: u32
  t_reboot_set :: u32
  local_hour :: nat
  local_min :: nat
  t_heart :: u32
  t_heart_set :: u32
  t_stack :: u32
  t_stack_set :: u32
  service_ready :: bool
  t_res :: u32
  t_res_set :: u32
  sockets :: nat
  t_sock :: u32
  t_sock_set :: u32
  max_sockets :: nat
  largest_block :: nat
  t_warn :: u32
  t_warn_set :: u32
  t_sample :: u32
  t_sample_set :: u32
  t_retry :: u32
  t_retry_set :: u32
  epoch_sec :: int
  t_health :: u32
  t_health_set :: u32

datatype loop_action =
    MoneyRollup | BroadcastReboot | RestartMaster | Heartbeat | LogStacks | SendLed led_notify | LogOutOfService
  | WarnSockets | WarnTight | SampleResources | RestartNtp | RetryOmada | PingHealth | NetworkPass | SerialPass

definition loop_start :: loop_state where
  "loop_start = \<lparr>lastRebootCheck = 0, lastHeartbeat = 0, lastStackCheck = 0, wasReady = True, lastServiceRetry = 0,
     lastResCheck = 0, lastResWarn = 0, lastSockWarn = 0, lastResSample = 0, lastHealthcheck = 0\<rparr>"

definition scheduled :: "loop_env \<Rightarrow> loop_state \<Rightarrow> loop_state \<times> loop_action list" where
  "scheduled e s =
     (if loop_master e \<and> t_reboot e - lastRebootCheck s > 60000
      then (s\<lparr>lastRebootCheck := t_reboot_set e\<rparr>,
            (if local_hour e = 2 \<and> local_min e = 45 then [MoneyRollup] else [])
            @ (if local_hour e = 3 \<and> local_min e = 0 then [BroadcastReboot, BroadcastReboot, BroadcastReboot, RestartMaster]
               else []))
      else (s, []))"

definition timers :: "loop_env \<Rightarrow> loop_state \<Rightarrow> loop_state \<times> loop_action list" where
  "timers e s =
     (let (s1, a1) = (if t_heart e - lastHeartbeat s > 15000 then (s\<lparr>lastHeartbeat := t_heart_set e\<rparr>, [Heartbeat]) else (s, []));
          (s2, a2) = (if t_stack e - lastStackCheck s1 > 600000 then (s1\<lparr>lastStackCheck := t_stack_set e\<rparr>, [LogStacks]) else (s1, []))
      in (s2, a1 @ a2))"

definition readiness :: "loop_env \<Rightarrow> loop_state \<Rightarrow> loop_state \<times> loop_action list" where
  "readiness e s =
     (if service_ready e \<noteq> wasReady s
      then (s\<lparr>wasReady := service_ready e\<rparr>,
            if service_ready e then [SendLed LED_NOTIFY_READY] else [SendLed LED_NOTIFY_ERROR, LogOutOfService])
      else (s, []))"

definition resources :: "loop_env \<Rightarrow> loop_state \<Rightarrow> loop_state \<times> loop_action list" where
  "resources e s =
     (if t_res e - lastResCheck s > 5000
      then let s1 = s\<lparr>lastResCheck := t_res_set e\<rparr>;
               (s2, a2) = (if sockets e > 10 \<and> t_sock e - lastSockWarn s1 > 120000
                           then (s1\<lparr>lastSockWarn := t_sock_set e\<rparr>, [WarnSockets]) else (s1, []));
               (s3, a3) = (if (sockets e \<ge> max_sockets e - 1 \<or> largest_block e < 45000) \<and> t_warn e - lastResWarn s2 > 120000
                           then (s2\<lparr>lastResWarn := t_warn_set e\<rparr>, [WarnTight]) else (s2, []))
           in (s3, a2 @ a3)
      else (s, []))"

definition service :: "loop_env \<Rightarrow> loop_state \<Rightarrow> loop_state \<times> loop_action list" where
  "service e s =
     (let (s1, a1) = (if t_sample e - lastResSample s > 30000 then (s\<lparr>lastResSample := t_sample_set e\<rparr>, [SampleResources]) else (s, []));
          (s2, a2) = (if \<not> service_ready e \<and> t_retry e - lastServiceRetry s1 > 30000
                      then (s1\<lparr>lastServiceRetry := t_retry_set e\<rparr>, (if epoch_sec e < NTP_EPOCH_MIN then [RestartNtp] else []) @ [RetryOmada])
                      else (s1, []));
          (s3, a3) = (if t_health e - lastHealthcheck s2 > 60000 then (s2\<lparr>lastHealthcheck := t_health_set e\<rparr>, [PingHealth]) else (s2, []))
      in (s3, a1 @ a2 @ a3))"

text \<open>One pass; a restart ends it.\<close>

definition loop :: "loop_env \<Rightarrow> loop_state \<Rightarrow> loop_state \<times> loop_action list" where
  "loop e s =
     (case scheduled e s of (s1, a1) \<Rightarrow>
        if RestartMaster \<in> set a1 then (s1, a1)
        else case timers e s1 of (s2, a2) \<Rightarrow>
          if \<not> loop_master e then (s2, a1 @ a2 @ [NetworkPass, SerialPass])
          else case readiness e s2 of (s3, a3) \<Rightarrow>
            case resources e s3 of (s4, a4) \<Rightarrow>
              case service e s4 of (s5, a5) \<Rightarrow>
                (s5, a1 @ a2 @ a3 @ a4 @ a5 @ [NetworkPass, SerialPass]))"

fun loop_run :: "loop_env list \<Rightarrow> loop_state \<Rightarrow> loop_state \<times> loop_action list" where
  "loop_run [] s = (s, [])"
| "loop_run (e # es) s = (let (s1, a) = loop e s; (s2, b) = loop_run es s1 in (s2, a @ b))"

section \<open>Lemmas\<close>

lemma ntp_wait_result:
  "retries \<le> NTP_SYNC_RETRIES \<Longrightarrow>
     snd (ntp_wait now retries reads) \<le> NTP_SYNC_RETRIES
     \<and> (fst (ntp_wait now retries reads) < NTP_EPOCH_MIN \<longleftrightarrow>
          now < NTP_EPOCH_MIN \<and> (\<forall>k. retries \<le> k \<longrightarrow> k < NTP_SYNC_RETRIES \<longrightarrow> reads k < NTP_EPOCH_MIN))"
proof (induction now retries reads rule: ntp_wait.induct)
  case (1 now retries reads)
  show ?case
  proof (cases "now < NTP_EPOCH_MIN \<and> retries < NTP_SYNC_RETRIES")
    case True
    then have u: "ntp_wait now retries reads = ntp_wait (reads retries) (Suc retries) reads"
      by (subst ntp_wait.simps) simp
    have "P retries \<and> (\<forall>k. Suc retries \<le> k \<longrightarrow> P k) \<longleftrightarrow> (\<forall>k. retries \<le> k \<longrightarrow> P k)" for P
      using Suc_leD le_eq_less_or_eq Suc_le_eq by metis
    from this [of "\<lambda>k. k < NTP_SYNC_RETRIES \<longrightarrow> reads k < NTP_EPOCH_MIN"]
    show ?thesis using 1 True unfolding u by simp
  next
    case False
    then have "ntp_wait now retries reads = (now, retries)" by (subst ntp_wait.simps) auto
    with 1 False show ?thesis by auto
  qed
qed

lemma wifi_wait_le: "i \<le> 5 \<Longrightarrow> wifi_wait i st \<le> 5"
proof (induction i st rule: wifi_wait.induct)
  case (1 i st)
  then show ?case by (subst wifi_wait.simps) auto
qed

definition daily :: "loop_action \<Rightarrow> bool" where "daily a \<longleftrightarrow> a = MoneyRollup \<or> a = RestartMaster"

text \<open>Only the scheduled block moves its timer and starts a rollup or a restart.\<close>

lemma loop_scheduled:
  "lastRebootCheck (fst (loop e s)) = lastRebootCheck (fst (scheduled e s))"
  "filter daily (snd (loop e s))
     = filter daily (snd (scheduled e s))"
proof -
  have t: "lastRebootCheck (fst (timers e x)) = lastRebootCheck x"
    "filter daily (snd (timers e x)) = []" for x
    by (simp_all add: timers_def Let_def daily_def)
  have r: "lastRebootCheck (fst (readiness e x)) = lastRebootCheck x"
    "filter daily (snd (readiness e x)) = []" for x
    by (simp_all add: readiness_def daily_def)
  have q: "lastRebootCheck (fst (resources e x)) = lastRebootCheck x"
    "filter daily (snd (resources e x)) = []" for x
    by (simp_all add: resources_def Let_def daily_def)
  have v: "lastRebootCheck (fst (service e x)) = lastRebootCheck x"
    "filter daily (snd (service e x)) = []" for x
    by (simp_all add: service_def Let_def daily_def)
  show "lastRebootCheck (fst (loop e s)) = lastRebootCheck (fst (scheduled e s))"
    "filter daily (snd (loop e s))
       = filter daily (snd (scheduled e s))"
    by (simp_all add: loop_def case_prod_beta t r q v daily_def [of NetworkPass] daily_def [of SerialPass])
qed

text \<open>The times of a pass, in milliseconds since start-up: the comparison and the assignment of the daily
  timer, and the reading of the wall clock. \<open>clock\<close> is what \<open>localtime\<close> shows at each of them: any
  function, for it follows the zone's summer time and the corrections of the network time.\<close>

type_synonym pass = "(nat \<times> nat \<times> nat) \<times> loop_env"

fun wall :: "pass \<Rightarrow> nat" where "wall ((a, b, w), e) = w"

fun at_time :: "(nat \<Rightarrow> nat \<times> nat) \<Rightarrow> pass \<Rightarrow> loop_env" where
  "at_time clock ((a, b, w), e) = e\<lparr>t_reboot := word_of_nat a, t_reboot_set := word_of_nat b,
     local_hour := fst (clock w), local_min := snd (clock w)\<rparr>"

fun in_order :: "nat \<Rightarrow> pass list \<Rightarrow> bool" where
  "in_order t [] \<longleftrightarrow> True"
| "in_order t (((a, b, w), e) # ps) \<longleftrightarrow> t \<le> a \<and> a \<le> b \<and> b \<le> w \<and> in_order w ps"

text \<open>The wall clock is read within a millisecond of the assignment before it.\<close>

fun prompt :: "pass \<Rightarrow> bool" where "prompt ((a, b, w), e) \<longleftrightarrow> w \<le> b + 1"

definition in_minute :: "nat \<Rightarrow> nat \<Rightarrow> bool" where
  "in_minute start t \<longleftrightarrow> start \<le> t \<and> t < start + 60000"

definition rollups :: "loop_action list \<Rightarrow> nat" where
  "rollups as = length (filter (\<lambda>a. a = MoneyRollup) as)"

lemma rollups_append [simp]: "rollups (as @ bs) = rollups as + rollups bs"
  by (simp add: rollups_def)

lemma rollups_loop: "rollups (snd (loop e s)) = rollups (snd (scheduled e s))"
proof -
  have "rollups as = length (filter (\<lambda>a. a = MoneyRollup) (filter daily as))" for as
    by (induction as) (auto simp add: rollups_def daily_def)
  then show ?thesis by (simp only: loop_scheduled(2))
qed

lemma rollups_scheduled:
  "rollups (snd (scheduled e s)) =
     (if loop_master e \<and> t_reboot e - lastRebootCheck s > 60000 \<and> local_hour e = 2 \<and> local_min e = 45 then 1 else 0)"
  by (simp add: scheduled_def rollups_def)

lemma loop_run_Cons: "snd (loop_run (e # es) s) = snd (loop e s) @ snd (loop_run es (fst (loop e s)))"
  by (simp add: case_prod_beta Let_def)

declare loop_run.simps(2) [simp del]

lemma elapsed:
  assumes "c \<le> m" and "(k :: u32) < word_of_nat m - word_of_nat c"
  shows "c + unat k < m"
proof -
  have "word_of_nat m - word_of_nat c = (word_of_nat (m - c) :: u32)" using assms(1) by simp
  then have "unat k < unat (word_of_nat (m - c) :: u32)" using assms(2) by (simp add: word_less_nat_alt)
  also have "\<dots> \<le> m - c" by (simp add: unsigned_of_nat take_bit_nat_less_eq_self del: of_nat_diff)
  finally show ?thesis by simp
qed

text \<open>The times at which the passes start a rollup.\<close>

fun rolled :: "(nat \<Rightarrow> nat \<times> nat) \<Rightarrow> pass list \<Rightarrow> loop_state \<Rightarrow> nat list" where
  "rolled clock [] s = []"
| "rolled clock (p # ps) s =
     (if rollups (snd (loop (at_time clock p) s)) = 0 then [] else [wall p]) @ rolled clock ps (fst (loop (at_time clock p) s))"

lemma rolled_rollups: "rollups (snd (loop_run (map (at_time clock) ps) s)) = length (rolled clock ps s)"
proof (induction ps arbitrary: s)
  case (Cons p ps)
  then show ?case by (simp add: loop_run_Cons rollups_loop rollups_scheduled)
qed (simp add: rollups_def)

lemma rolled_clock: "x \<in> set (rolled clock ps s) \<Longrightarrow> \<exists>p \<in> set ps. x = wall p \<and> clock x = (2, 45)"
proof (induction ps arbitrary: s)
  case (Cons p ps)
  obtain a b w e where p: "p = ((a, b, w), e)" by (metis prod.collapse)
  from Cons.prems consider "x = w" "rollups (snd (loop (at_time clock p) s)) \<noteq> 0"
    | "x \<in> set (rolled clock ps (fst (loop (at_time clock p) s)))"
    by (auto simp: p split: if_splits)
  then show ?case
  proof cases
    case 1
    then show ?thesis by (cases "clock w") (auto simp: p rollups_loop rollups_scheduled split: if_splits)
  next
    case 2
    from Cons.IH [OF this] show ?thesis by auto
  qed
qed simp

text \<open>Lists of times that stand apart: each from the next, or each from the next but one.\<close>

fun apart :: "nat list \<Rightarrow> bool" where
  "apart [] \<longleftrightarrow> True"
| "apart (x # xs) \<longleftrightarrow> (\<forall>y \<in> set xs. x + 60000 \<le> y) \<and> apart xs"

fun apart2 :: "nat list \<Rightarrow> bool" where
  "apart2 [] \<longleftrightarrow> True"
| "apart2 (x # xs) \<longleftrightarrow> (\<forall>y \<in> set (tl xs). x + 60000 \<le> y) \<and> apart2 xs"

lemma apart_minute: "apart xs \<Longrightarrow> length (filter (in_minute m) xs) \<le> 1"
proof (induction xs)
  case (Cons x xs)
  then have "in_minute m x \<Longrightarrow> filter (in_minute m) xs = []" by (fastforce simp: in_minute_def filter_empty_conv)
  with Cons show ?case by auto
qed simp

lemma apart2_minute: "apart2 xs \<Longrightarrow> length (filter (in_minute m) xs) \<le> 2"
proof (induction xs)
  case (Cons x xs)
  then have "in_minute m x \<Longrightarrow> filter (in_minute m) (tl xs) = []" by (fastforce simp: in_minute_def filter_empty_conv)
  with Cons show ?case by (cases xs) auto
qed simp

lemma length_minutes:
  "(\<And>m. length (filter (in_minute m) xs) \<le> k) \<Longrightarrow> \<forall>x \<in> set xs. \<exists>m \<in> set ms. in_minute m x \<Longrightarrow> length xs \<le> k * length ms"
proof (induction ms arbitrary: xs)
  case (Cons m ms)
  let ?r = "filter (\<lambda>x. \<not> in_minute m x) xs"
  have "length (filter (in_minute n) ?r) \<le> length (filter (in_minute n) xs)" for n by (induction xs) auto
  then have "length (filter (in_minute n) ?r) \<le> k" for n using Cons.prems(1) [of n] le_trans by blast
  then have "length ?r \<le> k * length ms" using Cons.prems(2) by (intro Cons.IH) auto
  moreover have "length (filter (in_minute m) xs) \<le> k" by (rule Cons.prems(1))
  ultimately show ?case using sum_length_filter_compl [of "in_minute m" xs] by simp
qed simp

lemma apart_cons:
  assumes "\<forall>x \<in> set xs. b + 60000 < x" and "\<forall>x \<in> set (tl xs). w + 60000 < x" and "apart2 xs \<and> (P \<longrightarrow> apart xs)"
    and "c \<le> t" "t \<le> a" "a \<le> b" "b \<le> w" "c + 60000 < a" "Q \<Longrightarrow> w \<le> b + 1"
  shows "(\<forall>x \<in> set (w # xs). c + 60000 < x) \<and> (\<forall>x \<in> set (tl (w # xs)). t + 60000 < x)
    \<and> apart2 (w # xs) \<and> (Q \<and> P \<longrightarrow> apart (w # xs))"
  using assms by (auto dest: bspec)

text \<open>What the daily timer keeps apart. \<open>c\<close> is its last assignment, \<open>t\<close> the last time that was read.\<close>

lemma rolled_apart:
  assumes "in_order t ps" and "lastRebootCheck s = word_of_nat c" and "c \<le> t"
  shows "(\<forall>x \<in> set (rolled clock ps s). c + 60000 < x) \<and> (\<forall>x \<in> set (tl (rolled clock ps s)). t + 60000 < x)
    \<and> apart2 (rolled clock ps s) \<and> (list_all prompt ps \<longrightarrow> apart (rolled clock ps s))"
  using assms
proof (induction ps arbitrary: s c t)
  case (Cons p ps)
  obtain a b w e where p: "p = ((a, b, w), e)" by (metis prod.collapse)
  from Cons.prems have le: "c \<le> t" "t \<le> a" "a \<le> b" "b \<le> w" and ps: "in_order w ps" by (simp_all add: p)
  let ?e = "at_time clock p" let ?s = "fst (loop ?e s)"
  show ?case
  proof (cases "loop_master ?e \<and> t_reboot ?e - lastRebootCheck s > 60000")
    case True
    then have "lastRebootCheck ?s = word_of_nat b" by (simp add: loop_scheduled(1) scheduled_def p)
    note IH = Cons.IH [OF ps this le(4)]
    have "60000 < (word_of_nat a - word_of_nat c :: u32)" using True Cons.prems(2) by (simp add: p)
    from elapsed [OF _ this] have fire: "c + 60000 < a" using le by simp
    have head: "(\<forall>x \<in> set (w # rolled clock ps ?s). c + 60000 < x) \<and> (\<forall>x \<in> set (tl (w # rolled clock ps ?s)). t + 60000 < x)
      \<and> apart2 (w # rolled clock ps ?s) \<and> (prompt p \<and> list_all prompt ps \<longrightarrow> apart (w # rolled clock ps ?s))"
      by (rule apart_cons) (use IH le fire in \<open>auto simp: p\<close>)
    show ?thesis
    proof (cases "rollups (snd (loop ?e s)) = 0")
      case True
      have "\<forall>x \<in> set (tl (rolled clock ps ?s)). t + 60000 < x" using IH le by fastforce
      moreover have "\<forall>x \<in> set (rolled clock ps ?s). c + 60000 < x" using IH le by fastforce
      ultimately show ?thesis using IH True by simp
    qed (use head in \<open>simp add: p\<close>)
  next
    case False
    then have "scheduled ?e s = (s, [])" unfolding scheduled_def by (rule if_not_P)
    then have "rollups (snd (loop ?e s)) = 0" and c: "lastRebootCheck ?s = word_of_nat c"
      using Cons.prems(2) by (simp_all add: rollups_loop loop_scheduled(1)) (simp add: rollups_def)
    moreover from this(1) have "rolled clock (p # ps) s = rolled clock ps ?s" by simp
    moreover have "c \<le> w" using le by linarith
    note IH = Cons.IH [OF ps c this]
    have "\<forall>x \<in> set (tl (rolled clock ps ?s)). t + 60000 < x" using IH le by fastforce
    ultimately show ?thesis using IH by simp
  qed
qed simp

definition led_sends :: "loop_action list \<Rightarrow> led_notify list" where
  "led_sends as = concat (map (\<lambda>a. case a of SendLed v \<Rightarrow> [v] | _ \<Rightarrow> []) as)"

lemma led_sends_append [simp]: "led_sends (as @ bs) = led_sends as @ led_sends bs"
  by (simp add: led_sends_def)

lemma led_sends_loop:
  assumes "loop_master e" and "\<not> (local_hour e = 3 \<and> local_min e = 0)"
  shows "led_sends (snd (loop e s)) =
     (if service_ready e = wasReady s then [] else [if service_ready e then LED_NOTIFY_READY else LED_NOTIFY_ERROR])"
proof -
  have a: "wasReady (fst (scheduled e x)) = wasReady x" "led_sends (snd (scheduled e x)) = []"
    "RestartMaster \<notin> set (snd (scheduled e x))" for x
    using assms(2) by (auto simp: scheduled_def led_sends_def)
  have t: "wasReady (fst (timers e x)) = wasReady x" "led_sends (snd (timers e x)) = []" for x
    by (simp_all add: timers_def Let_def led_sends_def)
  have r: "led_sends (snd (readiness e x)) =
      (if service_ready e = wasReady x then [] else [if service_ready e then LED_NOTIFY_READY else LED_NOTIFY_ERROR])" for x
    by (simp add: readiness_def led_sends_def)
  have q: "led_sends (snd (resources e x)) = []" for x
    by (simp add: resources_def Let_def led_sends_def)
  have v: "led_sends (snd (service e x)) = []" for x
    by (simp add: service_def Let_def led_sends_def)
  have z: "led_sends [NetworkPass, SerialPass] = []" by (simp add: led_sends_def)
  show ?thesis using assms(1) by (simp add: loop_def case_prod_beta a t r q v z)
qed

section \<open>Properties\<close>

text \<open>C25: The wait for the clock ends: at most forty half seconds are waited, and it succeeds exactly when one
  of the forty readings is past the epoch that marks a set clock.\<close>
theorem clock_wait_ends:
  "snd (ntp_wait 0 0 reads) \<le> NTP_SYNC_RETRIES
     \<and> (setupNtp reads \<longleftrightarrow> (\<exists>k<NTP_SYNC_RETRIES. NTP_EPOCH_MIN \<le> reads k))"
proof -
  note w = ntp_wait_result [of 0 0 reads]
  have "\<not> fst (ntp_wait 0 0 reads) < NTP_EPOCH_MIN \<longleftrightarrow> (\<exists>k<NTP_SYNC_RETRIES. NTP_EPOCH_MIN \<le> reads k)"
    using w by (auto simp: not_less)
  with w show ?thesis by (simp add: setupNtp_def case_prod_beta Let_def)
qed

text \<open>C26: The nightly rollup starts once for each minute of 2:45 that the wall clock shows: over any passes in the
  order of the clock, however close together or far apart, the rollups are at most as many as the
  stretches of a minute in which the clock shows 2:45, one on an ordinary day and two on the day that
  summer time ends. That needs the wall clock to be read within a millisecond of the timer's
  assignment; without it the rollups are at most twice as many.\<close>
theorem rollup_once_per_minute:
  assumes "in_order 0 ps" and "\<forall>p \<in> set ps. clock (wall p) = (2, 45) \<longrightarrow> (\<exists>start \<in> set begins. in_minute start (wall p))"
  shows "rollups (snd (loop_run (map (at_time clock) ps) loop_start)) \<le> (if list_all prompt ps then 1 else 2) * length begins"
proof -
  note r = rolled_apart [OF assms(1), of loop_start 0 clock]
  have "\<forall>x \<in> set (rolled clock ps loop_start). \<exists>m \<in> set begins. in_minute m x"
    using rolled_clock assms(2) by metis
  moreover have "length (filter (in_minute m) (rolled clock ps loop_start)) \<le> (if list_all prompt ps then 1 else 2)" for m
    using r apart_minute [of "rolled clock ps loop_start" m] apart2_minute [of "rolled clock ps loop_start" m]
    by (simp add: loop_start_def)
  ultimately show ?thesis unfolding rolled_rollups by (intro length_minutes)
qed

definition quiet_pass :: loop_env where
  "quiet_pass = \<lparr>loop_master = True, t_reboot = 0, t_reboot_set = 0, local_hour = 0, local_min = 0, t_heart = 0, t_heart_set = 0,
     t_stack = 0, t_stack_set = 0, service_ready = True, t_res = 0, t_res_set = 0, sockets = 2, t_sock = 0, t_sock_set = 0,
     max_sockets = 12, largest_block = 80000, t_warn = 0, t_warn_set = 0, t_sample = 0, t_sample_set = 0,
     t_retry = 0, t_retry_set = 0, epoch_sec = 1700000000, t_health = 0, t_health_set = 0\<rparr>"

text \<open>An ordinary night of a board that was started at one in the morning, and the night in which
  Berlin's clock goes back from three to two.\<close>

definition clock_plain :: "nat \<Rightarrow> nat \<times> nat" where
  "clock_plain t = (let m = 60 + t div 60000 in (m div 60, m mod 60))"

definition clock_autumn :: "nat \<Rightarrow> nat \<times> nat" where
  "clock_autumn t = clock_plain (if t < 7200000 then t else t - 3600000)"

theorem rollup_once_per_minute_witness:
  "rollups (snd (loop_run (map (at_time clock_plain)
       [((6290000, 6290000, 6290000), quiet_pass), ((6300100, 6300100, 6300101), quiet_pass), ((6350001, 6350001, 6350002), quiet_pass)]) loop_start)) \<le> 1"
  using rollup_once_per_minute [of "[((6290000, 6290000, 6290000), quiet_pass), ((6300100, 6300100, 6300101), quiet_pass), ((6350001, 6350001, 6350002), quiet_pass)]"
    clock_plain "[6300000]"]
  by (simp add: in_minute_def clock_plain_def Let_def)

text \<open>The night that summer time ends has two rollups, with no restart between them: the clock shows 2:45
  twice before it shows 3:00. The zone is one of the table that the board takes its own from.\<close>
theorem rollup_twice_in_autumn:
  "filter daily (snd (loop_run (map (at_time clock_autumn)
       [((6300100, 6300100, 6300100), quiet_pass), ((9900100, 9900100, 9900100), quiet_pass), ((10800100, 10800100, 10800100), quiet_pass)]) loop_start))
     = [MoneyRollup, MoneyRollup, RestartMaster]"
  by (simp add: loop_run_Cons loop_scheduled scheduled_def loop_start_def clock_autumn_def clock_plain_def quiet_pass_def Let_def daily_def)

text \<open>The light follows the service, and takes an open window's power with it. A pass of the loop that finds
  the service back tells the light so, and the light's next pass cuts the acceptor's power and
  stops the blinking, also while a customer's window is open; a pass that finds no change leaves
  the light alone.\<close>
theorem ready_cuts_open_window:
  assumes "loop_master e" and "\<not> (local_hour e = 3 \<and> local_min e = 0)"
  shows "(service_ready e = wasReady s \<longrightarrow> fold led_send (led_sends (snd (loop e s))) l = l)
    \<and> (service_ready e \<longrightarrow> \<not> wasReady s \<longrightarrow> \<not> COINSLOT_PROGRAM_MODE l \<longrightarrow>
         (let l' = led_step True Pass (fold led_send (led_sends (snd (loop e s))) l)
          in \<not> COINSLOT_POWER l' \<and> \<not> blinking l'))"
  using led_sends_loop [OF assms, of s]
  by (simp add: led_step_def led_send_def ledTask_def set_power_def Let_def)

text \<open>The light of a board in an open window.\<close>

definition lit_window :: led where
  "lit_window = led_run True [Send LED_NOTIFY_START, Pass] setupLed"

theorem ready_cuts_open_window_witness:
  "COINSLOT_POWER lit_window \<and> blinking lit_window
   \<and> \<not> COINSLOT_POWER (led_step True Pass (fold led_send (led_sends (snd (loop quiet_pass (loop_start\<lparr>wasReady := False\<rparr>)))) lit_window))"
proof -
  have w: "COINSLOT_POWER lit_window" "blinking lit_window" "\<not> COINSLOT_PROGRAM_MODE lit_window"
    by (simp_all add: lit_window_def led_run_def led_step_def led_send_def ledTask_def set_power_def setupLed_def)
  have "\<not> COINSLOT_POWER (led_step True Pass (fold led_send (led_sends (snd (loop quiet_pass (loop_start\<lparr>wasReady := False\<rparr>)))) lit_window))"
    using ready_cuts_open_window [of quiet_pass "loop_start\<lparr>wasReady := False\<rparr>" lit_window] w
    by (simp add: quiet_pass_def Let_def)
  with w show ?thesis by simp
qed

end
