(* ===== verification/Calendar.thy ===== *)
theory Calendar
  imports Prelude "HOL-Library.Signed_Division"
begin

text \<open>
  The day numbers of the admin reports (\<open>src/web.cpp\<close>): \<open>daysFromCivil\<close> at the width of its
  variables, the platform's \<open>gmtime_r\<close> as a walk over years and months, local time as an offset
  that may depend on the instant, and months as one number. The lemmas relate them: the day
  number counts days, the walk inverts it, and the days of a month are an interval.
\<close>

section \<open>The code\<close>

text \<open>\<open>y\<close> and the result are signed; the other variables are 32-bit unsigned, and \<open>m + (m > 2 ? -3 : 9)\<close>
  relies on their wrap-around. The signed values are unbounded integers here: no intermediate of a year
  below five million in magnitude leaves 32 bits (\<open>daysFromCivil_fits\<close>).\<close>

definition daysFromCivil :: "int \<Rightarrow> u32 \<Rightarrow> u32 \<Rightarrow> int" where
  "daysFromCivil y0 m d =
     (let y = y0 - (if m \<le> 2 then 1 else 0);
          era = (if y \<ge> 0 then y else y - 399) sdiv 400;
          yoe = word_of_int (y - era * 400) :: u32;
          doy = (153 * (m + (if m > 2 then - 3 else 9)) + 2) div 5 + d - 1;
          doe = yoe * 365 + yoe div 4 - yoe div 100 + doy
      in era * 146097 + sint doe - 719468)"

text \<open>The calendar of the C library: year, month (1 to 12) and day (1 to 31) of a day number.\<close>

definition leap :: "int \<Rightarrow> bool" where
  "leap y \<longleftrightarrow> 4 dvd y \<and> (\<not> 100 dvd y \<or> 400 dvd y)"

definition ylen :: "int \<Rightarrow> int" where "ylen y = (if leap y then 366 else 365)"

definition mlen :: "int \<Rightarrow> nat \<Rightarrow> int" where
  "mlen y m = (if m = 2 then (if leap y then 29 else 28) else if m \<in> {4, 6, 9, 11} then 30 else 31)"

lemma ylen_range: "365 \<le> ylen y \<and> ylen y \<le> 366"
  by (simp add: ylen_def)

function year_walk :: "int \<Rightarrow> int \<Rightarrow> int \<times> int" where
  "year_walk y n =
     (if n < 0 then year_walk (y - 1) (n + ylen (y - 1))
      else if n < ylen y then (y, n) else year_walk (y + 1) (n - ylen y))"
  by pat_completeness auto

termination
proof (relation "measure (\<lambda>(y, n). nat (if n < 0 then 400 - n else n))")
  fix y n :: int
  show "n < 0 \<Longrightarrow> ((y - 1, n + ylen (y - 1)), y, n) \<in> measure (\<lambda>(y, n). nat (if n < 0 then 400 - n else n))"
    using ylen_range [of "y - 1"] by auto
  show "\<not> n < 0 \<Longrightarrow> \<not> n < ylen y \<Longrightarrow> ((y + 1, n - ylen y), y, n) \<in> measure (\<lambda>(y, n). nat (if n < 0 then 400 - n else n))"
    using ylen_range [of y] by auto
qed simp

declare year_walk.simps [simp del]

function month_walk :: "int \<Rightarrow> nat \<Rightarrow> int \<Rightarrow> nat \<times> int" where
  "month_walk y m n = (if m < 12 \<and> mlen y m \<le> n then month_walk y (Suc m) (n - mlen y m) else (m, n))"
  by pat_completeness auto

termination by (relation "measure (\<lambda>(y, m, n). 12 - m)") auto

declare month_walk.simps [simp del]

definition gmdate :: "int \<Rightarrow> int \<times> nat \<times> int" where
  "gmdate day = (let (y, n) = year_walk 1970 day; (m, k) = month_walk y 1 n in (y, m, k + 1))"

text \<open>The zone: seconds east of Greenwich at an instant, and \<open>mktime\<close>.\<close>

record zone =
  offset :: "int \<Rightarrow> int"
  mktime :: "int \<Rightarrow> int"

definition localDayNum :: "zone \<Rightarrow> int \<Rightarrow> int" where
  "localDayNum z utc =
     (let (y, m, d) = gmdate ((utc + offset z utc) div 86400)
      in daysFromCivil y (word_of_nat m) (word_of_int d))"

text \<open>\<open>mktime\<close> is given the local seconds of the day's midnight.\<close>

definition localDayStartUtc :: "zone \<Rightarrow> int \<Rightarrow> int" where
  "localDayStartUtc z dayNum = mktime z (dayNum * 86400)"

text \<open>Months as \<open>12 * year + (month - 1)\<close>, and the first day of a month. The reports take the date of a day
  number from its noon, whose seconds are computed in a 32-bit \<open>long\<close>.\<close>

definition month_num :: "int \<Rightarrow> int" where
  "month_num day = (case gmdate day of (y, m, d) \<Rightarrow> y * 12 + (int m - 1))"

definition noon_day :: "int \<Rightarrow> int" where
  "noon_day dayNum = long32 (dayNum * 86400 + 43200) div 86400"

definition month_key :: "int \<Rightarrow> int" where
  "month_key dayNum = month_num (noon_day dayNum)"

definition monthFirstDay :: "int \<Rightarrow> int" where
  "monthFirstDay mk = daysFromCivil (mk sdiv 12) (word_of_int (mk smod 12 + 1)) 1"

section \<open>The day number without words\<close>

definition month_off :: "nat \<Rightarrow> int" where
  "month_off m = (153 * (if m > 2 then int m - 3 else int m + 9) + 2) div 5"

definition leaps :: "int \<Rightarrow> int" where "leaps y = y div 4 - y div 100 + y div 400"

definition day_count :: "int \<Rightarrow> nat \<Rightarrow> int \<Rightarrow> int" where
  "day_count y m d =
     (let y' = (if m \<le> 2 then y - 1 else y)
      in 365 * y' + leaps y' + month_off m + d - 719469)"

definition valid_date :: "int \<times> nat \<times> int \<Rightarrow> bool" where
  "valid_date = (\<lambda>(y, m, d). 1 \<le> m \<and> m \<le> 12 \<and> 1 \<le> d \<and> d \<le> mlen y m)"

lemma month_cases:
  assumes "1 \<le> (m::nat)" and "m \<le> 12"
  obtains "m = 1" | "m = 2" | "m = 3" | "m = 4" | "m = 5" | "m = 6" | "m = 7" | "m = 8" | "m = 9" | "m = 10" | "m = 11" | "m = 12"
proof -
  have "m = 1 \<or> m = 2 \<or> m = 3 \<or> m = 4 \<or> m = 5 \<or> m = 6 \<or> m = 7 \<or> m = 8 \<or> m = 9 \<or> m = 10 \<or> m = 11 \<or> m = 12"
    using assms by presburger
  then show thesis using that by blast
qed

lemma doy_word:
  assumes "1 \<le> m" "m \<le> 12"
  shows "(153 * (word_of_nat m + (if word_of_nat m > (2 :: u32) then - 3 else 9)) + 2) div 5 = (word_of_int (month_off m) :: u32)"
    and "0 \<le> month_off m \<and> month_off m \<le> 337" and "word_of_nat m \<le> (2 :: u32) \<longleftrightarrow> m \<le> 2"
  using assms by (cases rule: month_cases; simp add: month_off_def)+

lemma era_floor: "(if y \<ge> 0 then y else y - 399) sdiv 400 = (y :: int) div 400"
proof (cases "y \<ge> 0")
  case True
  then show ?thesis by (cases "y = 0") (simp_all add: signed_divide_int_def)
next
  case False
  then have "(y - 399) sdiv 400 = - ((399 - y) div 400)"
    by (simp add: signed_divide_int_def sgn_if)
  also have "399 - y = (399 - y mod 400) + (- (y div 400)) * 400" by (simp add: minus_div_mult_eq_mod [symmetric])
  also have "\<dots> div 400 = - (y div 400) + (399 - y mod 400) div 400" by (rule div_mult_self1) simp
  also have "(399 - y mod 400) div 400 = 0" by (intro div_pos_pos_trivial) simp_all
  finally show ?thesis using False by simp
qed

lemma uint_small: "0 \<le> x \<Longrightarrow> x < 2 ^ 31 \<Longrightarrow> uint (word_of_int x :: u32) = x"
  and sint_small: "0 \<le> x \<Longrightarrow> x < 2 ^ 31 \<Longrightarrow> sint (word_of_int x :: u32) = x"
  by (simp_all add: unsigned_of_int take_bit_int_eq_self signed_of_int signed_take_bit_int_eq_self)

lemma word_div_small:
  assumes "0 \<le> x" "x < 2 ^ 31" "0 < c" "c < 2 ^ 31"
  shows "(word_of_int x :: u32) div word_of_int c = word_of_int (x div c)"
proof -
  have "x div c \<le> x" using zdiv_mono2 [of x 1 c] assms by simp
  then have "uint ((word_of_int x :: u32) div word_of_int c) = uint (word_of_int (x div c) :: u32)"
    using assms by (simp add: uint_div uint_small pos_imp_zdiv_nonneg_iff)
  then show ?thesis by (simp only: word_uint_eq_iff)
qed

lemma daysFromCivil_count:
  assumes "1 \<le> m" "m \<le> 12" "1 \<le> d" "d \<le> 31"
  shows "daysFromCivil y (word_of_nat m) (word_of_int d) = day_count y m d"
proof -
  define y' where "y' = y - (if m \<le> 2 then 1 else 0)"
  define r where "r = y' mod 400"
  have r: "0 \<le> r" "r < 400" by (simp_all add: r_def)
  have y': "y' = 400 * (y' div 400) + r" by (simp add: r_def)
  define e where "e = y' div 400"
  have yoe: "y' - e * 400 = r" by (simp add: r_def e_def minus_div_mult_eq_mod)
  have "y' = r + (100 * e) * 4" using y' unfolding e_def by simp
  then have d4: "y' div 4 = 100 * e + r div 4" by (simp only: div_mult_self1)
  have "y' = r + (4 * e) * 100" using y' unfolding e_def by simp
  then have d100: "y' div 100 = 4 * e + r div 100" by (simp only: div_mult_self1)
  from d4 d100 have closed: "e * 146097 + (r * 365 + r div 4 - r div 100) = 365 * y' + leaps y'"
    using y' e_def unfolding leaps_def by linarith
  have q4: "0 \<le> r div 4" "r div 4 \<le> 99" and q100: "0 \<le> r div 100" "r div 100 \<le> 3"
    using r zdiv_mono1 [of r 399 4] zdiv_mono1 [of r 399 100] by (simp_all add: pos_imp_zdiv_nonneg_iff)
  let ?doe = "r * 365 + r div 4 - r div 100 + (month_off m + d - 1)"
  have doe: "(word_of_int r :: u32) * 365 + word_of_int r div 4 - word_of_int r div 100 + (word_of_int (month_off m) + word_of_int d - 1)
      = word_of_int ?doe"
    using word_div_small [of r 4] word_div_small [of r 100] r by simp
  have "sint (word_of_int ?doe :: u32) = ?doe"
    by (rule sint_small) (use r q4 q100 doy_word(2) [OF assms(1,2)] assms(3,4) in \<open>simp_all\<close>)
  then have "daysFromCivil y (word_of_nat m) (word_of_int d) = e * 146097 + ?doe - 719468"
    unfolding daysFromCivil_def Let_def doy_word(1) [OF assms(1,2)] doy_word(3) [OF assms(1,2)] y'_def [symmetric]
      era_floor e_def [symmetric] yoe doe by (simp only:)
  also have "\<dots> = e * 146097 + (r * 365 + r div 4 - r div 100) + (month_off m + d - 1) - 719468" by simp
  also have "\<dots> = day_count y m d"
    unfolding closed by (simp add: day_count_def y'_def Let_def)
  finally show ?thesis .
qed

text \<open>The signed intermediates of the code: the year, the era, the product and the result.\<close>

lemma daysFromCivil_fits:
  assumes "\<bar>y0\<bar> \<le> 5000000" and "1 \<le> m" "m \<le> 12" "1 \<le> d" "d \<le> 31"
  shows "in_long (y0 - 1 - 399)" and "in_long (((if y0 \<ge> 0 then y0 else y0 - 399) sdiv 400) * 146097)"
    and "in_long (daysFromCivil y0 (word_of_nat m) (word_of_int d))"
proof -
  show "in_long (y0 - 1 - 399)" using assms(1) by (auto simp: in_long_def abs_le_iff)
  have "- 12500 \<le> y0 div 400" "y0 div 400 \<le> 12500" using assms(1) by linarith+
  then show "in_long (((if y0 \<ge> 0 then y0 else y0 - 399) sdiv 400) * 146097)" unfolding era_floor in_long_def by simp
  define y where "y = (if m \<le> 2 then y0 - 1 else y0)"
  have y: "- 5000001 \<le> y" "y \<le> 5000000" using assms(1) by (auto simp: y_def)
  have "- 1250001 \<le> y div 4" "y div 4 \<le> 1250000" "- 50001 \<le> y div 100" "y div 100 \<le> 50000"
    "- 12501 \<le> y div 400" "y div 400 \<le> 12500" using y by linarith+
  then have "- 1400000 \<le> leaps y \<and> leaps y \<le> 1400000" unfolding leaps_def by linarith
  then have "- 2147483648 \<le> 365 * y + leaps y + month_off m + d - 719469 \<and> 365 * y + leaps y + month_off m + d - 719469 < 2147483648"
    using y doy_word(2) [OF assms(2,3)] assms(4,5) by linarith
  then show "in_long (daysFromCivil y0 (word_of_nat m) (word_of_int d))"
    unfolding daysFromCivil_count [OF assms(2-5)] day_count_def Let_def in_long_def y_def [symmetric] by simp
qed

section \<open>Days in order\<close>

lemma div_step: "0 < k \<Longrightarrow> (y :: int) div k = (y - 1) div k + (if k dvd y then 1 else 0)"
proof -
  assume k: "0 < k"
  define q r where "q = y div k" and "r = y mod k"
  have y: "y = r + q * k" and r: "0 \<le> r" "r < k" using k by (simp_all add: q_def r_def)
  have d: "k dvd y \<longleftrightarrow> r = 0" by (simp add: r_def dvd_eq_mod_eq_0)
  show ?thesis
  proof (cases "r = 0")
    case True
    have "y - 1 = (k - 1) + (q - 1) * k" using y True by (simp add: algebra_simps)
    also have "\<dots> div k = (q - 1) + (k - 1) div k" using k by (intro div_mult_self1) simp
    finally show ?thesis using True d k by (simp add: q_def div_pos_pos_trivial)
  next
    case False
    have "y - 1 = (r - 1) + q * k" using y by simp
    also have "\<dots> div k = q + (r - 1) div k" using k by (intro div_mult_self1) simp
    finally show ?thesis using False d r by (simp add: q_def div_pos_pos_trivial)
  qed
qed

lemma leap_step: "leaps y = leaps (y - 1) + (if leap y then 1 else 0)"
proof -
  have "leaps y = leaps (y - 1) + ((if 4 dvd y then 1 else 0) - (if 100 dvd y then 1 else 0) + (if 400 dvd y then 1 else 0))"
    using div_step [of 4 y] div_step [of 100 y] div_step [of 400 y] by (simp only: leaps_def)
  moreover have "400 dvd y \<Longrightarrow> 100 dvd y" using dvd_trans [of 100 400 y] by simp
  moreover have "100 dvd y \<Longrightarrow> 4 dvd y" using dvd_trans [of 4 100 y] by simp
  ultimately show ?thesis by (cases "4 dvd y"; cases "100 dvd y"; cases "400 dvd y"; simp add: leap_def)
qed

lemma day_count_month:
  "1 \<le> m \<Longrightarrow> m < 12 \<Longrightarrow> day_count y (Suc m) 1 = day_count y m 1 + mlen y m"
proof -
  assume m: "1 \<le> m" "m < 12"
  then have "m \<le> 12" by simp
  with m(1) show ?thesis using m(2) leap_step [of y]
    by (cases rule: month_cases) (simp_all add: day_count_def month_off_def mlen_def Let_def)
qed

lemma day_count_year: "day_count (y + 1) 1 1 = day_count y 1 1 + ylen y"
  using leap_step [of y] by (simp add: day_count_def month_off_def ylen_def Let_def)

lemma day_count_day: "day_count y m d = day_count y m 1 + (d - 1)"
  by (simp add: day_count_def Let_def)

lemma day_count_turn: "day_count (y + 1) 1 1 = day_count y 12 1 + 31"
  by (simp add: day_count_def month_off_def Let_def)

lemma year_walk_inv:
  "year_walk y n = (y', n') \<Longrightarrow> 0 \<le> n' \<and> n' < ylen y' \<and> day_count y' 1 1 + n' = day_count y 1 1 + n"
proof (induction y n rule: year_walk.induct)
  case (1 y n)
  show ?case
    using 1 day_count_year [of y] day_count_year [of "y - 1"]
    by (subst (asm) year_walk.simps) (auto split: if_splits)
qed

lemma month_walk_inv:
  "month_walk y m n = (m', n') \<Longrightarrow> 1 \<le> m \<Longrightarrow> m \<le> 12 \<Longrightarrow> 0 \<le> n \<Longrightarrow> n < day_count (y + 1) 1 1 - day_count y m 1 \<Longrightarrow>
     1 \<le> m' \<and> m' \<le> 12 \<and> 0 \<le> n' \<and> n' < mlen y m' \<and> day_count y m' 1 + n' = day_count y m 1 + n"
proof (induction y m n rule: month_walk.induct)
  case (1 y m n)
  show ?case
  proof (cases "m < 12 \<and> mlen y m \<le> n")
    case True
    then have "month_walk y (Suc m) (n - mlen y m) = (m', n')"
      using "1.prems"(1) by (subst (asm) month_walk.simps) simp
    from "1.IH" [OF True this] "1.prems" True day_count_month [of m y] show ?thesis by simp
  next
    case False
    then have e: "m' = m" "n' = n" using "1.prems"(1) by (subst (asm) month_walk.simps; auto)+
    have "n < mlen y m"
    proof (cases "m < 12")
      case False
      with "1.prems"(3) have "m = 12" by simp
      with "1.prems"(5) day_count_turn [of y] show ?thesis by (simp add: mlen_def)
    qed (use \<open>\<not> (m < 12 \<and> mlen y m \<le> n)\<close> in simp)
    with e "1.prems" show ?thesis by simp
  qed
qed

lemma gmdate_count:
  assumes "gmdate day = (y, m, d)"
  shows "valid_date (y, m, d)" and "day_count y m d = day"
proof -
  obtain n where w: "year_walk 1970 day = (y, n)" and v: "month_walk y 1 n = (m, d - 1)"
    using assms by (auto simp: gmdate_def Let_def split: prod.splits)
  have n: "0 \<le> n" "n < ylen y" "day_count y 1 1 + n = day"
    using year_walk_inv [OF w] by (simp_all add: day_count_def month_off_def leaps_def [of 1969])
  have r: "1 \<le> m \<and> m \<le> 12 \<and> 0 \<le> d - 1 \<and> d - 1 < mlen y m \<and> day_count y m 1 + (d - 1) = day_count y 1 1 + n"
    by (rule month_walk_inv [OF v]) (use n day_count_year [of y] in simp_all)
  then show "valid_date (y, m, d)" by (simp add: valid_date_def)
  show "day_count y m d = day" using r n(3) day_count_day [of y m d] by simp
qed

lemma mlen_le: "mlen y m \<le> 31"
  by (simp add: mlen_def)

lemma daysFromCivil_gmdate: "gmdate day = (y, m, d) \<Longrightarrow> daysFromCivil y (word_of_nat m) (word_of_int d) = day"
  using gmdate_count [of day y m d] daysFromCivil_count [of m d y] mlen_le [of y m] by (simp add: valid_date_def)

lemma localDayNum_div: "localDayNum z utc = (utc + offset z utc) div 86400"
  unfolding localDayNum_def
  by (cases "gmdate ((utc + offset z utc) div 86400)") (simp add: daysFromCivil_gmdate)

section \<open>Months\<close>

definition first_day :: "int \<Rightarrow> int" where
  "first_day mk = day_count (mk div 12) (nat (mk mod 12) + 1) 1"

lemma first_day_step: "first_day (mk + 1) = first_day mk + mlen (mk div 12) (nat (mk mod 12) + 1)"
proof (cases "mk mod 12 = 11")
  case True
  have "mk + 1 = 0 + (mk div 12 + 1) * 12" using True by (simp add: algebra_simps minus_mod_eq_mult_div [symmetric])
  then have "(mk + 1) div 12 = (0 + (mk div 12 + 1) * 12) div 12" "(mk + 1) mod 12 = (0 + (mk div 12 + 1) * 12) mod 12"
    by (simp_all only:)
  then have "(mk + 1) div 12 = mk div 12 + 1" "(mk + 1) mod 12 = 0" by (simp_all only: div_mult_self1 mod_mult_self1) simp_all
  with True show ?thesis using day_count_turn [of "mk div 12"] by (simp add: first_day_def mlen_def)
next
  case False
  have m: "0 \<le> mk mod 12" "mk mod 12 < 11" using False pos_mod_bound [of 12 mk] by simp_all
  have e: "mk + 1 = (mk mod 12 + 1) + (mk div 12) * 12" by (simp add: algebra_simps)
  have "(mk + 1) div 12 = mk div 12 + (mk mod 12 + 1) div 12"
    by (subst e, rule div_mult_self1) simp
  moreover have "(mk + 1) mod 12 = (mk mod 12 + 1) mod 12" by (simp add: mod_add_left_eq)
  ultimately have "(mk + 1) div 12 = mk div 12" "(mk + 1) mod 12 = mk mod 12 + 1"
    using m by (simp_all add: div_pos_pos_trivial)
  with m show ?thesis using day_count_month [of "nat (mk mod 12) + 1" "mk div 12"]
    by (simp add: first_day_def nat_add_distrib)
qed

lemma month_number:
  assumes "1 \<le> m" "m \<le> 12"
  shows "((int m - 1) + y * 12) div 12 = y" "((int m - 1) + y * 12) mod 12 = int m - 1"
proof -
  have "((int m - 1) + y * 12) div 12 = y + (int m - 1) div 12" by (rule div_mult_self1) simp
  moreover have "((int m - 1) + y * 12) mod 12 = (int m - 1) mod 12" by (rule mod_mult_self1)
  ultimately show "((int m - 1) + y * 12) div 12 = y" "((int m - 1) + y * 12) mod 12 = int m - 1"
    using assms by (simp_all add: div_pos_pos_trivial)
qed

lemma mlen_pos: "28 \<le> mlen y m"
  by (simp add: mlen_def)

lemma first_day_mono: "j \<le> k \<Longrightarrow> first_day j \<le> first_day k"
proof (induction k rule: int_ge_induct)
  case (step i)
  then show ?case using first_day_step [of i] mlen_pos [of "i div 12" "nat (i mod 12) + 1"] by linarith
qed simp

lemma month_num_range: "first_day (month_num day) \<le> day \<and> day < first_day (month_num day + 1)"
proof -
  obtain y m d where g: "gmdate day = (y, m, d)" by (cases "gmdate day")
  note c = gmdate_count [OF g]
  have m: "1 \<le> m" "m \<le> 12" and d: "1 \<le> d" "d \<le> mlen y m" using c(1) by (simp_all add: valid_date_def)
  have k: "month_num day = (int m - 1) + y * 12" by (simp add: month_num_def g)
  have "month_num day div 12 = y" "month_num day mod 12 = int m - 1"
    unfolding k by (rule month_number [OF m])+
  moreover have "nat (int m - 1) + 1 = m" using m by simp
  ultimately have "first_day (month_num day) = day_count y m 1"
    "first_day (month_num day + 1) = day_count y m 1 + mlen y m"
    using first_day_step [of "month_num day"] by (simp_all add: first_day_def)
  with c(2) d day_count_day [of y m d] show ?thesis by simp
qed

lemma month_num_iff: "month_num day = mk \<longleftrightarrow> first_day mk \<le> day \<and> day < first_day (mk + 1)"
proof
  assume a: "first_day mk \<le> day \<and> day < first_day (mk + 1)"
  note b = month_num_range [of day]
  have "\<not> mk + 1 \<le> month_num day" using first_day_mono [of "mk + 1" "month_num day"] a b by linarith
  moreover have "\<not> month_num day + 1 \<le> mk" using first_day_mono [of "month_num day + 1" mk] a b by linarith
  ultimately show "month_num day = mk" by simp
qed (use month_num_range in blast)

text \<open>The days whose noon fits a 32-bit \<open>long\<close>: 14 December 1901 to 18 January 2038.\<close>

definition day_fits :: "int \<Rightarrow> bool" where
  "day_fits day \<longleftrightarrow> - 24855 \<le> day \<and> day \<le> 24854"

lemma noon_day_fits [simp]: "day_fits day \<Longrightarrow> noon_day day = day"
proof -
  assume d: "day_fits day"
  then have "in_long (day * 86400 + 43200)" by (simp add: day_fits_def in_long_def)
  then show ?thesis by (simp add: noon_day_def)
qed

lemma month_key_fits: "day_fits day \<Longrightarrow> month_key day = month_num day"
  by (simp add: month_key_def)

lemma month_key_range: "day_fits day \<Longrightarrow> first_day (month_key day) \<le> day \<and> day < first_day (month_key day + 1)"
  using month_num_range [of day] by (simp add: month_key_fits)

lemma month_key_iff: "day_fits day \<Longrightarrow> month_key day = mk \<longleftrightarrow> first_day mk \<le> day \<and> day < first_day (mk + 1)"
  by (simp add: month_key_fits month_num_iff)

lemma monthFirstDay_first: "0 \<le> mk \<Longrightarrow> monthFirstDay mk = first_day mk"
proof -
  assume "0 \<le> mk"
  then have s: "mk sdiv 12 = mk div 12" "mk smod 12 = mk mod 12"
    by (cases "mk = 0"; simp add: signed_divide_int_def signed_modulo_int_def minus_mult_div_eq_mod mult.commute)+
  have m: "0 \<le> mk mod 12" "mk mod 12 < 12" by simp_all
  then have w: "(word_of_int (mk mod 12 + 1) :: u32) = word_of_nat (nat (mk mod 12) + 1)" by simp
  have "daysFromCivil (mk div 12) (word_of_nat (nat (mk mod 12) + 1)) (word_of_int 1) = first_day mk"
    unfolding first_day_def by (rule daysFromCivil_count) (use m in simp_all)
  then show ?thesis unfolding monthFirstDay_def s w by simp
qed

lemma gmdate_day_count:
  assumes "valid_date (y, m, d)"
  shows "gmdate (day_count y m d) = (y, m, d)"
proof -
  let ?n = "day_count y m d" and ?k = "(int m - 1) + y * 12"
  have v: "1 \<le> m" "m \<le> 12" "1 \<le> d" "d \<le> mlen y m" using assms by (simp_all add: valid_date_def)
  obtain y' m' d' where g: "gmdate ?n = (y', m', d')" by (cases "gmdate ?n")
  note c = gmdate_count [OF g]
  have v': "1 \<le> m'" "m' \<le> 12" using c(1) by (simp_all add: valid_date_def)
  note k = month_number [OF v(1,2), of y]
  have "nat (int m - 1) + 1 = m" using v by simp
  then have "first_day ?k = day_count y m 1" "first_day (?k + 1) = day_count y m 1 + mlen y m"
    using first_day_step [of ?k] by (simp_all only: first_day_def k)
  then have "month_num ?n = ?k" using month_num_iff [of ?n ?k] v day_count_day [of y m d] by simp
  then have e: "(int m' - 1) + y' * 12 = ?k" by (simp add: month_num_def g)
  have "y' = y" using month_number(1) [OF v', of y'] unfolding e k(1) by simp
  with e have "y' = y \<and> m' = m" by simp
  with c(2) g show ?thesis using day_count_day [of y m d] day_count_day [of y m d'] by simp
qed

definition next_day :: "int \<times> nat \<times> int \<Rightarrow> int \<times> nat \<times> int" where
  "next_day = (\<lambda>(y, m, d). if d < mlen y m then (y, m, d + 1) else if m < 12 then (y, Suc m, 1) else (y + 1, 1, 1))"

definition day_of :: "int \<times> nat \<times> int \<Rightarrow> int" where
  "day_of = (\<lambda>(y, m, d). daysFromCivil y (word_of_nat m) (word_of_int d))"

lemma day_of_count: "valid_date (y, m, d) \<Longrightarrow> day_of (y, m, d) = day_count y m d"
  using daysFromCivil_count [of m d y] mlen_le [of y m] by (simp add: day_of_def valid_date_def)

lemma next_day_valid: "valid_date x \<Longrightarrow> valid_date (next_day x)"
  using mlen_pos by (auto simp: valid_date_def next_day_def split: prod.splits intro: order_trans [of 1 28])

lemma next_day_count:
  assumes "valid_date (y, m, d)"
  shows "day_of (next_day (y, m, d)) = day_count y m d + 1"
proof -
  have v: "1 \<le> m" "m \<le> 12" "1 \<le> d" "d \<le> mlen y m" using assms by (simp_all add: valid_date_def)
  obtain y' m' d' where n: "next_day (y, m, d) = (y', m', d')" by (cases "next_day (y, m, d)")
  have "day_of (y', m', d') = day_count y' m' d'"
    using next_day_valid [OF assms] n by (simp add: day_of_count)
  also have "\<dots> = day_count y m d + 1"
  proof -
    consider "d < mlen y m" | "d = mlen y m" "m < 12" | "d = mlen y m" "m = 12" using v by linarith
    then show ?thesis
    proof cases
      case 1
      with n show ?thesis by (auto simp: next_day_def day_count_def)
    next
      case 2
      with n v show ?thesis using day_count_month [of m y] day_count_day [of y m d] by (auto simp: next_day_def)
    next
      case 3
      moreover have "mlen y 12 = 31" by (simp add: mlen_def)
      ultimately show ?thesis using n day_count_turn [of y] day_count_day [of y m d] by (auto simp: next_day_def)
    qed
  qed
  finally show ?thesis by (simp add: n)
qed

section \<open>Properties\<close>

text \<open>C27: The day number counts the days of the calendar. Day 0 is 1 January 1970; after every date of
  every year the next date, across the ends of months and years and by the Gregorian leap-year
  rule, has the next number; and the date is recovered from its number.\<close>
theorem day_number_counts_days:
  assumes "valid_date date"
  shows "day_of (1970, 1, 1) = 0 \<and> day_of (next_day date) = day_of date + 1 \<and> gmdate (day_of date) = date"
proof -
  obtain y m d where d: "date = (y, m, d)" by (cases date)
  have "day_of (1970, 1, 1) = 0"
    by (simp add: day_of_count valid_date_def mlen_def day_count_def leaps_def month_off_def)
  with assms show ?thesis by (simp add: d day_of_count next_day_count gmdate_day_count)
qed

theorem day_number_counts_days_witness:
  "day_of (2024, 3, 1) = day_of (2024, 2, 29) + 1 \<and> gmdate (day_of (2024, 2, 29)) = (2024, 2, 29)"
proof -
  have "valid_date (2024, 2, 29)" by (simp add: valid_date_def mlen_def leap_def)
  moreover have "next_day (2024, 2, 29) = (2024, 3, 1)" by (simp add: next_day_def mlen_def leap_def)
  ultimately show ?thesis using day_number_counts_days [of "(2024, 2, 29)"] by simp
qed

text \<open>The reports lose the calendar in 2038. The month of every day up to 18 January 2038 is the month of its
  date; the noon of the next day does not fit a 32-bit \<open>long\<close>, and the reports take it for December 1901.\<close>
theorem report_months_until_2038:
  "(\<forall>day. 0 \<le> day \<longrightarrow> day \<le> 24854 \<longrightarrow> month_key day = month_num day)
    \<and> month_num 24855 = 2038 * 12 \<and> month_key 24855 = 1901 * 12 + 11"
proof -
  have "month_num 24855 = 2038 * 12"
    by (simp add: month_num_iff first_day_def day_count_def leaps_def month_off_def Let_def)
  moreover have "noon_day 24855 = - 24855" by code_simp
  then have "month_key 24855 = 1901 * 12 + 11"
    by (simp add: month_key_def month_num_iff first_day_def day_count_def leaps_def month_off_def Let_def)
  ultimately show ?thesis by (simp add: month_key_fits day_fits_def)
qed

text \<open>A local day is the interval between two local midnights. Where \<open>mktime\<close> inverts the local time
  and the zone does not change at the midnight that ends the day, the day's midnight and the
  second before the next midnight both have the day's number, so that a bucket stamped at its
  end is attributed, one second earlier, to the day it stands for.\<close>
theorem local_day_ends_at_midnight:
  assumes "\<forall>s. mktime z s + offset z (mktime z s) = s"
    and "offset z (mktime z ((day + 1) * 86400) - 1) = offset z (mktime z ((day + 1) * 86400))"
  shows "localDayNum z (localDayStartUtc z day) = day
    \<and> localDayNum z (localDayStartUtc z (day + 1) - 1) = day"
proof -
  have a: "mktime z s - 1 + offset z (mktime z s) = s - 1" for s
    using assms(1) [rule_format, of s] by linarith
  have "((day + 1) * 86400 - 1) div 86400 = day" "day * 86400 div 86400 = day" by simp_all
  then show ?thesis
    unfolding localDayNum_div localDayStartUtc_def assms(2) a assms(1) [rule_format] by (rule conjI [rotated])
qed

definition manila :: zone where
  "manila = \<lparr>offset = (\<lambda>_. 28800), mktime = (\<lambda>s. s - 28800)\<rparr>"

theorem local_day_ends_at_midnight_witness:
  "localDayNum manila (localDayStartUtc manila 20000) = 20000 \<and> localDayNum manila (localDayStartUtc manila 20001 - 1) = 20000"
  using local_day_ends_at_midnight [of manila 20000] by (simp add: manila_def)

end
