(* ===== verification/Reports.thy ===== *)
theory Reports
  imports Calendar Money OmadaApi "HOL-Library.Multiset"
begin

text \<open>
  The reports of the admin pages (\<open>src/web.cpp\<close>): the voucher cache by day, the sales report, the
  income statement and the leaderboard. A report reads two logs, the money record and the
  controller (through the operations of \<open>OmadaApi\<close>) and returns a JSON document. Counts and
  pesos are 32-bit \<open>int\<close> and \<open>long\<close>, whose sums and products wrap (\<open>long32\<close>); amounts are texts of
  decimal numbers.
\<close>

record report_env =
  rp_now :: int
  rp_zone :: zone
  rp_omada :: omada_env
  rp_site :: site
  PESOS_PER_COIN :: int
  MINUTES_PER_COIN :: int
  FALLBACK_PRICE_PER_VOUCHER :: int
  vendo_history :: "string list"  \<comment> \<open>the lines of \<open>/vendo_history.json\<close>; none without the file\<close>
  seller_days :: "string list"
  config_text :: "string option"

text \<open>Voucher day cache: local day to number and pesos.\<close>

type_synonym voucher_cache = "(int \<times> int \<times> int) list"

abbreviation DAYS :: nat where "DAYS \<equiv> 90"
abbreviation MONTHS :: nat where "MONTHS \<equiv> 12"

section \<open>Readers\<close>

fun is_arr :: "json \<Rightarrow> bool" where
  "is_arr (JArr _) = True"
| "is_arr _ = False"

fun as_i64 :: "json \<Rightarrow> int" where
  "as_i64 (JNum n) = (if - (2 ^ 63) \<le> n \<and> n < 2 ^ 63 then n else 0)"
| "as_i64 _ = 0"

definition json_lines :: "report_env \<Rightarrow> string list \<Rightarrow> json list" where
  "json_lines e ls =
     List.map_filter (\<lambda>l. if trim l = [] then None else parse_json (rp_omada e) (trim l)) ls"

definition voucherBuckets :: "json \<Rightarrow> json list" where
  "voucherBuckets doc =
     (let r = jget doc ''result'' in
      if is_arr (jget r ''usage'') then elements (jget r ''usage'') else elements (jget r ''data''))"

text \<open>\<open>atof\<close> of a decimal text: the part before the point, and whether the number is 0. (Exact in
  single precision for amounts below \<open>2 ^ 24\<close> with two decimals.)\<close>

definition amount_value :: "string \<Rightarrow> int \<times> bool" where
  "amount_value s =
     (let t = dropWhile is_space s; neg = starts_with ''-'' t;
          u = (if neg \<or> starts_with ''+'' t then tl t else t);
          w = takeWhile is_digit u; f = dropWhile is_digit u;
          frac = (if starts_with ''.'' f then takeWhile is_digit (tl f) else []);
          n = digits_val w
      in (if neg then - n else n, n = 0 \<and> digits_val frac = 0))"

definition voucherBucketRevenue :: "json \<Rightarrow> int \<Rightarrow> int" where
  "voucherBucketRevenue b fallbackPrice =
     (case amount_value (str_or ''0'' (jget b ''amount'')) of
        (n, zero) \<Rightarrow> if zero then long32 (as_int (jget b ''count'') * fallbackPrice) else n)"

text \<open>The day a bucket stands for: it is stamped at the end of the day.\<close>

definition bucket_day :: "report_env \<Rightarrow> json \<Rightarrow> int" where
  "bucket_day e b = localDayNum (rp_zone e) (as_i64 (jget b ''time'') sdiv 1000 - 1)"

definition missing_days :: "voucher_cache \<Rightarrow> int \<Rightarrow> int \<Rightarrow> int list" where
  "missing_days cache a b = filter (\<lambda>d. map_of cache d = None) [a..b - 1]"

definition add_bucket :: "report_env \<Rightarrow> int list \<Rightarrow> json \<Rightarrow> voucher_cache \<Rightarrow> voucher_cache" where
  "add_bucket e missing b cache =
     (let day = bucket_day e b in
      if day \<notin> set missing then cache
      else omap_update day
             (long32 (fst (omap_get (0, 0) cache day) + as_int (jget b ''count'')),
              long32 (snd (omap_get (0, 0) cache day) + voucherBucketRevenue b (FALLBACK_PRICE_PER_VOUCHER e))) cache)"

definition ensureVoucherDays ::
  "report_env \<Rightarrow> int \<Rightarrow> int \<Rightarrow> voucher_cache \<times> credentials \<Rightarrow> voucher_cache \<times> credentials" where
  "ensureVoucherDays e winStart winEnd t =
     (let (cache, c) = t; missing = missing_days cache winStart winEnd in
      if missing = [] then (cache, c)
      else case getVoucherHistoryJson (rp_omada e) (rp_site e) (localDayStartUtc (rp_zone e) (hd missing))
                  (localDayStartUtc (rp_zone e) (last missing + 2)) c of
        (c1, hist) \<Rightarrow>
          if is_null hist then (cache, c1)
          else (fold (add_bucket e missing) (voucherBuckets hist)
                  (fold (\<lambda>d m. omap_update d (0, 0) m) missing cache), c1))"

text \<open>Seller and price of a named voucher group.\<close>

definition group_price :: "report_env \<Rightarrow> json \<Rightarrow> int" where
  "group_price e g =
     (case parse_json (rp_omada e) (as_text (jget g ''description'')) of
        None \<Rightarrow> PESOS_PER_COIN e | Some d \<Rightarrow> int_or (PESOS_PER_COIN e) (jget d ''price''))"

definition group_seller :: "string \<Rightarrow> string" where
  "group_seller name =
     (let rest = drop 9 name in case index_of '' '' rest of None \<Rightarrow> rest | Some i \<Rightarrow> drop (i + 1) rest)"

definition autogenSellerPrice :: "report_env \<Rightarrow> json \<Rightarrow> (string \<times> int) option" where
  "autogenSellerPrice e g =
     (let name = as_text (jget g ''name'') in
      if \<not> starts_with ''AUTOGEN: '' name then None else Some (group_seller name, group_price e g))"

section \<open>Sales\<close>

text \<open>\<open>xs[i] += n\<close>.\<close>

definition bump :: "nat \<Rightarrow> int \<Rightarrow> int list \<Rightarrow> int list" where
  "bump i n xs = xs[i := long32 (xs ! i + n)]"

definition sales_slot :: "int \<Rightarrow> int \<Rightarrow> nat option" where
  "sales_slot mkNow day =
     (let mi = mkNow - month_key day in if 0 \<le> mi \<and> mi < int MONTHS then Some (MONTHS - 1 - nat mi) else None)"

record vendo_totals =
  dayCoinTotals :: "int list"
  dayMinTotals :: "int list"
  daySessTotals :: "int list"
  nodeCoins :: "(string \<times> int list) list"
  nodeSess :: "(string \<times> int list) list"
  monthCoins :: "int list"
  monthMin :: "int list"

definition no_vendo :: vendo_totals where
  "no_vendo = \<lparr>dayCoinTotals = replicate DAYS 0, dayMinTotals = replicate DAYS 0, daySessTotals = replicate DAYS 0,
     nodeCoins = [], nodeSess = [], monthCoins = replicate MONTHS 0, monthMin = replicate MONTHS 0\<rparr>"

definition line_day :: "report_env \<Rightarrow> json \<Rightarrow> int" where
  "line_day e doc = localDayNum (rp_zone e) (int_or 0 (jget doc ''ts''))"

definition vendo_month :: "nat option \<Rightarrow> json \<Rightarrow> vendo_totals \<Rightarrow> vendo_totals" where
  "vendo_month ms doc t =
     (case ms of None \<Rightarrow> t
      | Some i \<Rightarrow> t\<lparr>monthCoins := bump i (int_or 0 (jget doc ''coins'')) (monthCoins t),
                    monthMin := bump i (int_or 0 (jget doc ''min'')) (monthMin t)\<rparr>)"

definition vendo_node :: "string \<Rightarrow> nat \<Rightarrow> int \<Rightarrow> vendo_totals \<Rightarrow> vendo_totals" where
  "vendo_node node i coins t =
     (if node = [] then t
      else t\<lparr>nodeCoins := omap_update node (bump i coins (omap_get (replicate DAYS 0) (nodeCoins t) node)) (nodeCoins t),
             nodeSess := omap_update node (bump i 1 (omap_get (replicate DAYS 0) (nodeSess t) node)) (nodeSess t)\<rparr>)"

definition vendo_line :: "report_env \<Rightarrow> int \<Rightarrow> json \<Rightarrow> vendo_totals \<Rightarrow> vendo_totals" where
  "vendo_line e todayDay doc t0 =
     (let day = line_day e doc; coins = int_or 0 (jget doc ''coins'');
          t = vendo_month (sales_slot (month_key todayDay) day) doc t0; idx = todayDay - day
      in if idx < 0 \<or> idx \<ge> int DAYS then t
         else let i = DAYS - 1 - nat idx
              in vendo_node (str_or [] (jget doc ''node'')) i coins
                   (t\<lparr>dayCoinTotals := bump i coins (dayCoinTotals t),
                      dayMinTotals := bump i (int_or 0 (jget doc ''min'')) (dayMinTotals t),
                      daySessTotals := bump i 1 (daySessTotals t)\<rparr>))"

definition vendo_report :: "report_env \<Rightarrow> int \<Rightarrow> vendo_totals" where
  "vendo_report e todayDay = fold (vendo_line e todayDay) (json_lines e (vendo_history e)) no_vendo"

text \<open>The live buckets of today: number and pesos.\<close>

definition today_vouchers :: "report_env \<Rightarrow> int \<Rightarrow> json \<Rightarrow> int \<times> int" where
  "today_vouchers e todayDay doc =
     fold (\<lambda>b (n, r). if bucket_day e b \<noteq> todayDay then (n, r)
                      else (long32 (n + as_int (jget b ''count'')), long32 (r + voucherBucketRevenue b (FALLBACK_PRICE_PER_VOUCHER e))))
       (if is_null doc then [] else voucherBuckets doc) (0, 0)"

definition voucher_days :: "int \<Rightarrow> voucher_cache \<Rightarrow> int \<times> int \<Rightarrow> (int \<times> int) list" where
  "voucher_days todayDay cache live =
     map (\<lambda>i. omap_get (0, 0) cache (todayDay - int (DAYS - 1) + int i)) [0..<DAYS - 1] @ [live]"

definition voucher_month :: "int \<Rightarrow> int \<times> int \<times> int \<Rightarrow> int list \<times> int list \<Rightarrow> int list \<times> int list" where
  "voucher_month mkNow kv t =
     (case sales_slot mkNow (fst kv) of None \<Rightarrow> t
      | Some i \<Rightarrow> (bump i (fst (snd kv)) (fst t), bump i (snd (snd kv)) (snd t)))"

definition voucher_months_of :: "int \<Rightarrow> voucher_cache \<Rightarrow> int \<times> int \<Rightarrow> int list \<times> int list" where
  "voucher_months_of todayDay cache live =
     voucher_month (month_key todayDay) (todayDay, live)
       (fold (voucher_month (month_key todayDay)) cache (replicate MONTHS 0, replicate MONTHS 0))"

type_synonym seller_rev = "(int \<times> (string \<times> int) list) list"

definition add_seller :: "int \<Rightarrow> string \<Rightarrow> int \<Rightarrow> seller_rev \<Rightarrow> seller_rev" where
  "add_seller day seller n m = omap_update day (omap_add_long seller n (omap_get [] m day)) m"

definition seller_line :: "report_env \<Rightarrow> int \<Rightarrow> json \<Rightarrow> seller_rev \<Rightarrow> seller_rev" where
  "seller_line e todayDay doc m =
     (let day = line_day e doc - 1 in
      if day < todayDay - int (DAYS - 1) \<or> day > todayDay then m
      else fold (\<lambda>(k, v). add_seller day k (as_int v)) (members (jget doc ''sellers'')) m)"

definition seller_live :: "report_env \<Rightarrow> money \<Rightarrow> int \<Rightarrow> json \<Rightarrow> seller_rev \<Rightarrow> seller_rev" where
  "seller_live e mo todayDay g m =
     (case autogenSellerPrice e g of None \<Rightarrow> m
      | Some (seller, price) \<Rightarrow>
          (let used = int_or 0 (jget g ''usedCount''); prev = moneyGroupUsed (as_text (jget g ''id'')) mo
           in if used > prev then add_seller todayDay seller (long32 ((used - prev) * price)) m else m))"

definition seller_report :: "report_env \<Rightarrow> money \<Rightarrow> int \<Rightarrow> json \<Rightarrow> seller_rev" where
  "seller_report e mo todayDay groups =
     fold (seller_live e mo todayDay) (if is_null groups then [] else elements (jget (jget groups ''result'') ''data''))
       (fold (seller_line e todayDay) (json_lines e (seller_days e)) [])"

text \<open>The first seller, in the order of their names, with the largest amount above 0.\<close>

definition top_seller :: "(string \<times> int) list \<Rightarrow> (string \<times> int) option" where
  "top_seller kvs =
     fold (\<lambda>(k, v) best. if v > (case best of None \<Rightarrow> 0 | Some (_, r) \<Rightarrow> r) then Some (k, v) else best) kvs None"

definition MN :: "string list" where
  "MN = [''Jan'', ''Feb'', ''Mar'', ''Apr'', ''May'', ''Jun'', ''Jul'', ''Aug'', ''Sep'', ''Oct'', ''Nov'', ''Dec'']"

definition month_entry :: "int \<Rightarrow> vendo_totals \<Rightarrow> int list \<times> int list \<Rightarrow> nat \<Rightarrow> json" where
  "month_entry mkNow v vm i =
     (let mkey = mkNow - int (MONTHS - 1 - i) in
      JObj [(''label'', JStr (MN ! nat (mkey smod 12) @ '' '' @ dec_int (mkey sdiv 12))),
            (''coins'', JNum (monthCoins v ! i)), (''minutes'', JNum (monthMin v ! i)),
            (''vouchers'', JNum (fst vm ! i)), (''voucherRev'', JNum (snd vm ! i))])"

definition day_label :: "int \<Rightarrow> string" where
  "day_label day = (case gmdate (noon_day day) of (y, m, d) \<Rightarrow> dec m @ ''/'' @ dec_int d)"

definition day_entry :: "int \<Rightarrow> vendo_totals \<Rightarrow> (int \<times> int) list \<Rightarrow> seller_rev \<Rightarrow> nat \<Rightarrow> json" where
  "day_entry todayDay v vd sr i =
     (let day = todayDay - int (DAYS - 1 - i) in
      JObj ([(''date'', JStr (day_label day)), (''coins'', JNum (dayCoinTotals v ! i)),
             (''minutes'', JNum (dayMinTotals v ! i)), (''vouchers'', JNum (fst (vd ! i))),
             (''voucherRev'', JNum (snd (vd ! i))), (''sessions'', JNum (daySessTotals v ! i))]
            @ (case map_of sr day of None \<Rightarrow> []
               | Some kvs \<Rightarrow> (''sellers'', JObj (map (\<lambda>(k, r). (k, JNum r)) kvs))
                   # (case top_seller kvs of None \<Rightarrow> []
                      | Some (k, r) \<Rightarrow> [(''topSeller'', JStr k), (''topSellerRev'', JNum r)]))
            @ (if nodeCoins v = [] then []
               else [(''nodes'', JObj (map (\<lambda>(k, xs). (k, JNum (xs ! i))) (nodeCoins v))),
                     (''nodeSessions'', JObj (map (\<lambda>(k, xs). (k, JNum (xs ! i))) (nodeSess v)))])))"

definition handleAdminSales ::
  "report_env \<Rightarrow> money \<Rightarrow> voucher_cache \<times> credentials \<Rightarrow> json \<times> voucher_cache \<times> credentials" where
  "handleAdminSales e mo t =
     (let z = rp_zone e; todayDay = localDayNum z (rp_now e);
          v = vendo_report e todayDay;
          (cache, c1) = ensureVoucherDays e (todayDay - int (DAYS - 1)) todayDay t;
          (c2, todayDoc) = getVoucherHistoryJson (rp_omada e) (rp_site e) (localDayStartUtc z todayDay)
                             (localDayStartUtc z (todayDay + 1)) c1;
          live = today_vouchers e todayDay todayDoc;
          (c3, groups) = getVoucherGroupsJson (rp_omada e) (rp_site e) c2;
          sr = seller_report e mo todayDay groups
      in (JObj [(''pricePerCoin'', JNum (PESOS_PER_COIN e)), (''minutesPerCoin'', JNum (MINUTES_PER_COIN e)),
                (''months'', JArr (map (month_entry (month_key todayDay) v (voucher_months_of todayDay cache live)) [0..<MONTHS])),
                (''days'', JArr (map (day_entry todayDay v (voucher_days todayDay cache live) sr) [0..<DAYS]))],
          cache, c3))"

text \<open>The file of an older release is removed too.\<close>

definition handleAdminClearVoucherCache :: "voucher_cache \<times> credentials \<Rightarrow> fs \<Rightarrow> (voucher_cache \<times> credentials) \<times> fs" where
  "handleAdminClearVoucherCache t fs =
     (([], snd t), if fsExists fs ''/voucher_history.json'' then fs(''/voucher_history.json'' := None) else fs)"

section \<open>Income statement\<close>

text \<open>Month of a day relative to the first of the three months.\<close>

definition statement_slot :: "int \<Rightarrow> int \<Rightarrow> nat option" where
  "statement_slot mkStart day =
     (let s = month_key day - mkStart in if 0 \<le> s \<and> s < 3 then Some (nat s) else None)"

definition statement_vendo :: "report_env \<Rightarrow> int \<Rightarrow> int list" where
  "statement_vendo e mkStart =
     fold (\<lambda>doc v. case statement_slot mkStart (line_day e doc) of None \<Rightarrow> v
                  | Some s \<Rightarrow> bump s (long32 (int_or 0 (jget doc ''coins'') * PESOS_PER_COIN e)) v)
       (json_lines e (vendo_history e)) [0, 0, 0]"

definition statement_voucher :: "int \<Rightarrow> int \<Rightarrow> int \<Rightarrow> voucher_cache \<Rightarrow> int list" where
  "statement_voucher mkStart winStart winEnd cache =
     fold (\<lambda>d v. case (statement_slot mkStart d, map_of cache d) of
                  (Some s, Some (n, r)) \<Rightarrow> bump s r v | _ \<Rightarrow> v)
       [winStart..winEnd - 1] [0, 0, 0]"

definition commission_of :: "report_env \<Rightarrow> int \<Rightarrow> json \<Rightarrow> (string \<times> int list) list \<Rightarrow> (string \<times> int list) list" where
  "commission_of e mkStart g comm =
     (let name = as_text (jget g ''name''); createdMs = as_i64 (jget g ''createdTime'') in
      if \<not> starts_with ''AUTOGEN: '' name then comm
      else if createdMs \<le> 0 then comm
      else case statement_slot mkStart (localDayNum (rp_zone e) (createdMs sdiv 1000)) of
        None \<Rightarrow> comm
      | Some s \<Rightarrow>
          (let seller = group_seller name; rev = long32 (as_int (jget g ''usedCount'') * group_price e g)
           in omap_update seller
                (bump s (long32 (rev * COMMISSION_RATE_PERCENT) sdiv 100) (omap_get [0, 0, 0] comm seller)) comm))"

definition long_months :: "string list" where
  "long_months = [''January'', ''February'', ''March'', ''April'', ''May'', ''June'', ''July'', ''August'',
     ''September'', ''October'', ''November'', ''December'']"

definition statement_month ::
  "int \<Rightarrow> int list \<Rightarrow> int list \<Rightarrow> (string \<times> int list) list \<Rightarrow> nat \<Rightarrow> json" where
  "statement_month mkStart vendo voucher comm k =
     (let mk = mkStart + int k in
      JObj [(''label'', JStr (long_months ! nat (mk smod 12))), (''year'', JNum (mk sdiv 12)),
            (''vendo'', JNum (vendo ! k)), (''voucher'', JNum (voucher ! k)),
            (''sellers'', JArr (map (\<lambda>(n, v). JObj [(''name'', JStr n), (''commission'', JNum (v ! k))])
               (filter (\<lambda>kv. snd kv ! k > 0) comm)))])"

definition equipment_entry :: "json \<Rightarrow> json" where
  "equipment_entry d =
     JObj [(''type'', JStr (str_or [] (jget d ''type''))),
           (''model'', JStr (str_or [] (if is_null (jget d ''model'') then jget d ''showModel'' else jget d ''model''))),
           (''name'', JStr (str_or [] (jget d ''name'')))]"

definition handleAdminStatement ::
  "report_env \<Rightarrow> voucher_cache \<times> credentials \<Rightarrow> json \<times> voucher_cache \<times> credentials" where
  "handleAdminStatement e t =
     (let mkNow = month_num (localDayNum (rp_zone e) (rp_now e)); mkStart = mkNow - 3;
          winStart = monthFirstDay mkStart; winEnd = monthFirstDay mkNow;
          vendo = statement_vendo e mkStart;
          (cache, c1) = ensureVoucherDays e winStart winEnd t;
          voucher = statement_voucher mkStart winStart winEnd cache;
          (c2, groups) = getVoucherGroupsJson (rp_omada e) (rp_site e) c1;
          comm = fold (commission_of e mkStart) (if is_null groups then [] else elements (jget (jget groups ''result'') ''data'')) [];
          (c3, devDoc) = getDeviceGridJson (rp_omada e) (rp_site e) c2
      in (JObj [(''months'', JArr (map (statement_month mkStart vendo voucher comm) [0..<3])),
                (''equipment'', JArr (map equipment_entry
                   (if is_null devDoc then [] else elements (jget (jget devDoc ''result'') ''data''))))],
          cache, c3))"

section \<open>Leaderboard\<close>

record board =
  totals :: "(string \<times> int \<times> int) list"
  minTotals :: "(string \<times> int) list"
  wowCur :: "(string \<times> int) list"
  wowPrev :: "(string \<times> int) list"

definition empty_board :: board where
  "empty_board = \<lparr>totals = [], minTotals = [], wowCur = [], wowPrev = []\<rparr>"

text \<open>The \<open>days\<close> parameter, clamped to 1 to 365; 30 without it.\<close>

definition board_days :: "string option \<Rightarrow> int" where
  "board_days p = (case p of None \<Rightarrow> 30 | Some s \<Rightarrow> max 1 (min (atol s) 365))"

definition board_weeks :: "report_env \<Rightarrow> int \<Rightarrow> string \<Rightarrow> int \<Rightarrow> int \<Rightarrow> board \<Rightarrow> board" where
  "board_weeks e todayDay seller used createdMs b =
     (if createdMs \<le> 0 then b
      else let cd = localDayNum (rp_zone e) (createdMs sdiv 1000) in
        if todayDay - 7 \<le> cd \<and> cd \<le> todayDay - 1 then b\<lparr>wowCur := omap_add_long seller used (wowCur b)\<rparr>
        else if todayDay - 14 \<le> cd \<and> cd \<le> todayDay - 8 then b\<lparr>wowPrev := omap_add_long seller used (wowPrev b)\<rparr>
        else b)"

definition outside_window :: "int \<Rightarrow> int \<Rightarrow> bool" where
  "outside_window cutoff createdMs \<longleftrightarrow> createdMs > 0 \<and> createdMs sdiv 1000 < cutoff"

definition board_group :: "report_env \<Rightarrow> int \<Rightarrow> int \<Rightarrow> json \<Rightarrow> board \<Rightarrow> board" where
  "board_group e todayDay cutoff g b =
     (case autogenSellerPrice e g of None \<Rightarrow> b
      | Some (seller, price) \<Rightarrow>
          (let createdMs = as_i64 (jget g ''createdTime''); used = as_int (jget g ''usedCount'');
               b1 = board_weeks e todayDay seller used createdMs b
           in if outside_window cutoff createdMs then b1
              else let (n, r) = omap_get (0, 0) (totals b1) seller
                   in b1\<lparr>totals := omap_update seller (long32 (n + used), long32 (r + long32 (used * price))) (totals b1),
                         minTotals := omap_add_long seller (long32 (used * int_or 0 (jget g ''duration''))) (minTotals b1)\<rparr>))"

text \<open>The names of the sellers in \<open>config.json\<close>.\<close>

definition registeredSellers :: "report_env \<Rightarrow> string list" where
  "registeredSellers e =
     (case config_text e of None \<Rightarrow> []
      | Some t \<Rightarrow> (case parse_json (rp_omada e) t of None \<Rightarrow> []
                   | Some cfg \<Rightarrow> filter (\<lambda>n. n \<noteq> []) (map (\<lambda>s. as_text (jget s ''name'')) (elements (jget cfg ''sellers'')))))"

definition board_entry :: "report_env \<Rightarrow> board \<Rightarrow> string \<times> int \<times> int \<Rightarrow> json" where
  "board_entry e b kv =
     (let (seller, n, r) = kv in
      JObj [(''seller'', JStr seller), (''vouchers'', JNum n), (''revenue'', JNum r),
            (''commission'', JNum COMMISSION_RATE_PERCENT), (''net'', JNum (long32 (r - long32 (r * COMMISSION_RATE_PERCENT) sdiv 100))),
            (''registered'', JBool (seller \<in> set (registeredSellers e))),
            (''wowCur'', JNum (omap_get 0 (wowCur b) seller)), (''wowPrev'', JNum (omap_get 0 (wowPrev b) seller)),
            (''minutes'', JNum (omap_get 0 (minTotals b) seller))])"

text \<open>\<open>std_sort\<close> is the library's sort by falling revenue, which leaves the order of equals open.\<close>

definition leaderboard ::
  "report_env \<Rightarrow> int \<Rightarrow> json list \<Rightarrow> board" where
  "leaderboard e nDays groups =
     fold (board_group e (localDayNum (rp_zone e) (rp_now e)) (rp_now e - nDays * 86400)) groups empty_board"

definition handleAdminLeaderboard ::
  "((string \<times> int \<times> int) list \<Rightarrow> (string \<times> int \<times> int) list) \<Rightarrow> report_env \<Rightarrow> string option \<Rightarrow> credentials
     \<Rightarrow> json \<times> credentials" where
  "handleAdminLeaderboard std_sort e days c =
     (let (c1, groups) = getVoucherGroupsJson (rp_omada e) (rp_site e) c;
          b = leaderboard e (board_days days) (if is_null groups then [] else elements (jget (jget groups ''result'') ''data''))
      in (JArr (map (board_entry e b) (std_sort (totals b))), c1))"

section \<open>Lemmas\<close>

lemma length_bump [simp]: "length (bump i n xs) = length xs"
  by (simp add: bump_def)

lemma nth_bump: "j < length xs \<Longrightarrow> bump i n xs ! j = (if i = j then long32 (xs ! j + n) else xs ! j)"
  by (cases "i = j") (simp_all add: bump_def)

text \<open>A loop that adds to cells: every cell ends with the 32-bit value of the sum of what was meant for it.\<close>

lemma fold_cells_long:
  assumes "\<And>x t. I t \<Longrightarrow> I (f x t)" and "\<And>x t. I t \<Longrightarrow> cell (f x t) = (if P x then long32 (cell t + w x) else cell t)"
    and "I t" and "in_long (cell t)"
  shows "cell (fold f xs t) = long32 (cell t + (\<Sum>x\<leftarrow>xs. if P x then w x else 0))"
  using assms(3,4) by (induction xs arbitrary: t) (auto simp: assms(1,2) add.assoc)

definition vendo_ok :: "vendo_totals \<Rightarrow> bool" where
  "vendo_ok t \<longleftrightarrow> length (dayCoinTotals t) = DAYS \<and> length (dayMinTotals t) = DAYS \<and> length (daySessTotals t) = DAYS
     \<and> length (monthCoins t) = MONTHS \<and> length (monthMin t) = MONTHS
     \<and> omap_ok (nodeCoins t) \<and> (\<forall>n. length (omap_get (replicate DAYS 0) (nodeCoins t) n) = DAYS)"

lemma sales_slot_iff:
  "sales_slot mk d = Some i \<longleftrightarrow> i < MONTHS \<and> month_key d = mk - int (MONTHS - 1 - i)"
  by (auto simp: sales_slot_def Let_def)

lemma omap_get_update:
  "omap_ok m \<Longrightarrow> omap_get d (omap_update k v m) j = (if j = k then v else omap_get d m j)"
  by (simp add: omap_get_def map_of_omap_update)

lemma vendo_month_frame [simp]:
  "dayCoinTotals (vendo_month ms doc t) = dayCoinTotals t" "dayMinTotals (vendo_month ms doc t) = dayMinTotals t"
  "daySessTotals (vendo_month ms doc t) = daySessTotals t" "nodeCoins (vendo_month ms doc t) = nodeCoins t"
  "length (monthCoins (vendo_month ms doc t)) = length (monthCoins t)"
  "length (monthMin (vendo_month ms doc t)) = length (monthMin t)"
  by (simp_all add: vendo_month_def split: option.split)

lemma vendo_node_frame [simp]:
  "dayCoinTotals (vendo_node n i c t) = dayCoinTotals t" "dayMinTotals (vendo_node n i c t) = dayMinTotals t"
  "daySessTotals (vendo_node n i c t) = daySessTotals t" "monthCoins (vendo_node n i c t) = monthCoins t"
  "monthMin (vendo_node n i c t) = monthMin t"
  by (simp_all add: vendo_node_def)

lemma vendo_ok_line: "vendo_ok t \<Longrightarrow> vendo_ok (vendo_line e td doc t)"
  by (auto simp: vendo_ok_def vendo_line_def Let_def vendo_node_def omap_ok_update omap_get_update)

text \<open>What one line adds to the cells of a day and of a month.\<close>

definition on_day :: "report_env \<Rightarrow> int \<Rightarrow> nat \<Rightarrow> json \<Rightarrow> bool" where
  "on_day e td i doc \<longleftrightarrow> line_day e doc = td - int (DAYS - 1 - i)"

lemma cell_day:
  assumes "i < DAYS"
  shows "\<not> (td - day < 0 \<or> td - day \<ge> int DAYS) \<and> DAYS - 1 - nat (td - day) = i \<longleftrightarrow> day = td - int (DAYS - 1 - i)"
  using assms by auto

lemma vendo_line_day:
  assumes "vendo_ok t" and "i < DAYS"
  shows "dayCoinTotals (vendo_line e td doc t) ! i
      = (if on_day e td i doc then long32 (dayCoinTotals t ! i + int_or 0 (jget doc ''coins'')) else dayCoinTotals t ! i)"
    and "daySessTotals (vendo_line e td doc t) ! i = (if on_day e td i doc then long32 (daySessTotals t ! i + 1) else daySessTotals t ! i)"
  using assms cell_day [OF assms(2), of td "line_day e doc"]
  by (auto simp: vendo_line_def Let_def nth_bump on_day_def vendo_ok_def)

lemma vendo_line_month:
  assumes "vendo_ok t" and "i < MONTHS"
  shows "monthCoins (vendo_line e td doc t) ! i =
      (if month_key (line_day e doc) = month_key td - int (MONTHS - 1 - i)
       then long32 (monthCoins t ! i + int_or 0 (jget doc ''coins'')) else monthCoins t ! i)"
proof -
  have "monthCoins (vendo_line e td doc t) = monthCoins (vendo_month (sales_slot (month_key td) (line_day e doc)) doc t)"
    by (simp add: vendo_line_def Let_def)
  then show ?thesis
    using assms sales_slot_iff [of "month_key td" "line_day e doc" i]
    by (auto simp: vendo_month_def nth_bump vendo_ok_def split: option.split)
qed

lemma vendo_line_node:
  assumes "vendo_ok t" and "i < DAYS" and "n \<noteq> []"
  shows "omap_get (replicate DAYS 0) (nodeCoins (vendo_line e td doc t)) n ! i =
      (if on_day e td i doc \<and> str_or [] (jget doc ''node'') = n
       then long32 (omap_get (replicate DAYS 0) (nodeCoins t) n ! i + int_or 0 (jget doc ''coins''))
       else omap_get (replicate DAYS 0) (nodeCoins t) n ! i)"
  using assms cell_day [OF assms(2), of td "line_day e doc"]
  by (auto simp: vendo_line_def Let_def nth_bump on_day_def vendo_ok_def vendo_node_def omap_get_update)

lemma vendo_ok_start: "vendo_ok no_vendo"
  by (simp add: vendo_ok_def no_vendo_def omap_get_def)

lemma vendo_start_cells:
  "i < DAYS \<Longrightarrow> dayCoinTotals no_vendo ! i = 0" "i < DAYS \<Longrightarrow> daySessTotals no_vendo ! i = 0"
  "i < DAYS \<Longrightarrow> omap_get (replicate DAYS 0) (nodeCoins no_vendo) n ! i = 0" "i < MONTHS \<Longrightarrow> monthCoins no_vendo ! i = 0"
  by (simp_all add: no_vendo_def omap_get_def)

lemma vendo_report_cells:
  assumes "i < DAYS"
  shows "dayCoinTotals (vendo_report e td) ! i = long32
      (\<Sum>doc \<leftarrow> json_lines e (vendo_history e). if on_day e td i doc then int_or 0 (jget doc ''coins'') else 0)"
    and "daySessTotals (vendo_report e td) ! i = long32
      (\<Sum>doc \<leftarrow> json_lines e (vendo_history e). if on_day e td i doc then 1 else 0)"
    and "n \<noteq> [] \<Longrightarrow> omap_get (replicate DAYS 0) (nodeCoins (vendo_report e td)) n ! i = long32
      (\<Sum>doc \<leftarrow> json_lines e (vendo_history e).
         if on_day e td i doc \<and> str_or [] (jget doc ''node'') = n then int_or 0 (jget doc ''coins'') else 0)"
proof -
  show "dayCoinTotals (vendo_report e td) ! i = long32
      (\<Sum>doc \<leftarrow> json_lines e (vendo_history e). if on_day e td i doc then int_or 0 (jget doc ''coins'') else 0)"
    unfolding vendo_report_def
    by (subst fold_cells_long [where I = vendo_ok and cell = "\<lambda>t. dayCoinTotals t ! i" and P = "\<lambda>doc. on_day e td i doc" and w = "\<lambda>doc. int_or 0 (jget doc ''coins'')",
          OF vendo_ok_line vendo_line_day(1) vendo_ok_start])
      (use assms in \<open>simp_all add: vendo_start_cells\<close>)
  show "daySessTotals (vendo_report e td) ! i = long32
      (\<Sum>doc \<leftarrow> json_lines e (vendo_history e). if on_day e td i doc then 1 else 0)"
    unfolding vendo_report_def
    by (subst fold_cells_long [where I = vendo_ok and cell = "\<lambda>t. daySessTotals t ! i" and P = "\<lambda>doc. on_day e td i doc" and w = "\<lambda>doc. 1",
          OF vendo_ok_line vendo_line_day(2) vendo_ok_start])
      (use assms in \<open>simp_all add: vendo_start_cells\<close>)
  show "n \<noteq> [] \<Longrightarrow> omap_get (replicate DAYS 0) (nodeCoins (vendo_report e td)) n ! i = long32
      (\<Sum>doc \<leftarrow> json_lines e (vendo_history e).
         if on_day e td i doc \<and> str_or [] (jget doc ''node'') = n then int_or 0 (jget doc ''coins'') else 0)"
    unfolding vendo_report_def
    by (subst fold_cells_long [where I = vendo_ok and cell = "\<lambda>t. omap_get (replicate DAYS 0) (nodeCoins t) n ! i" and P = "\<lambda>doc. on_day e td i doc \<and> str_or [] (jget doc ''node'') = n" and w = "\<lambda>doc. int_or 0 (jget doc ''coins'')",
          OF vendo_ok_line vendo_line_node vendo_ok_start])
      (use assms in \<open>simp_all add: vendo_start_cells\<close>)
qed

lemma vendo_report_month:
  assumes "i < MONTHS"
  shows "monthCoins (vendo_report e td) ! i = long32
      (\<Sum>doc \<leftarrow> json_lines e (vendo_history e).
         if month_key (line_day e doc) = month_key td - int (MONTHS - 1 - i) then int_or 0 (jget doc ''coins'') else 0)"
    unfolding vendo_report_def
    by (subst fold_cells_long [where I = vendo_ok and cell = "\<lambda>t. monthCoins t ! i" and P = "\<lambda>doc. month_key (line_day e doc) = month_key td - int (MONTHS - 1 - i)" and w = "\<lambda>doc. int_or 0 (jget doc ''coins'')",
          OF vendo_ok_line vendo_line_month vendo_ok_start])
      (use assms in \<open>simp_all add: vendo_start_cells\<close>)

text \<open>The cache after a fetch.\<close>

lemma cache_fetch_start:
  "omap_ok cache \<Longrightarrow> omap_ok (fold (\<lambda>d m. omap_update d (0, 0) m) ds cache)
     \<and> map_of (fold (\<lambda>d m. omap_update d (0, 0) m) ds cache) d
         = (if d \<in> set ds then Some (0, 0) else map_of cache d)"
  by (induction ds arbitrary: cache) (auto simp: omap_ok_update map_of_omap_update)

definition bucket_sums :: "report_env \<Rightarrow> int \<Rightarrow> json list \<Rightarrow> int \<times> int" where
  "bucket_sums e d bs =
     (long32 (\<Sum>b \<leftarrow> bs. if bucket_day e b = d then as_int (jget b ''count'') else 0),
      long32 (\<Sum>b \<leftarrow> bs. if bucket_day e b = d then voucherBucketRevenue b (FALLBACK_PRICE_PER_VOUCHER e) else 0))"

definition long_pair :: "int \<times> int \<Rightarrow> bool" where
  "long_pair v \<longleftrightarrow> in_long (fst v) \<and> in_long (snd v)"

lemma add_buckets:
  assumes "omap_ok cache" and "\<forall>d \<in> set missing. \<exists>v. map_of cache d = Some v \<and> long_pair v"
  shows "omap_ok (fold (add_bucket e missing) bs cache)
     \<and> (\<forall>d. map_of (fold (add_bucket e missing) bs cache) d =
          (if d \<in> set missing then Some (long32 (fst (omap_get (0, 0) cache d) + fst (bucket_sums e d bs)),
                                       long32 (snd (omap_get (0, 0) cache d) + snd (bucket_sums e d bs)))
           else map_of cache d))"
  using assms
proof (induction bs arbitrary: cache)
  case Nil
  then show ?case by (force simp: bucket_sums_def omap_get_def long_pair_def)
next
  case (Cons b bs)
  let ?c = "add_bucket e missing b cache"
  have ok: "omap_ok ?c" using Cons.prems(1) by (simp add: add_bucket_def Let_def omap_ok_update)
  have get: "map_of ?c d = (if d \<in> set missing \<and> bucket_day e b = d
      then Some (long32 (fst (omap_get (0, 0) cache d) + as_int (jget b ''count'')),
                 long32 (snd (omap_get (0, 0) cache d) + voucherBucketRevenue b (FALLBACK_PRICE_PER_VOUCHER e)))
      else map_of cache d)" for d
    using Cons.prems(1) by (auto simp: add_bucket_def Let_def map_of_omap_update)
  have "\<forall>d \<in> set missing. \<exists>v. map_of ?c d = Some v \<and> long_pair v" using Cons.prems(2) by (simp add: get long_pair_def)
  from Cons.IH [OF ok this] show ?case
    by (auto simp: get omap_get_def bucket_sums_def add.assoc)
qed

lemma ensure_cases:
  assumes "omap_ok cache" and "ensureVoucherDays e a b (cache, c) = (cache', c')"
  shows "omap_ok cache'" and "d \<notin> set (missing_days cache a b) \<Longrightarrow> map_of cache' d = map_of cache d"
proof -
  let ?m = "missing_days cache a b"
  let ?r = "getVoucherHistoryJson (rp_omada e) (rp_site e) (localDayStartUtc (rp_zone e) (hd ?m)) (localDayStartUtc (rp_zone e) (last ?m + 2)) c"
  let ?s = "fold (\<lambda>d m. omap_update d (0, 0) m) ?m cache"
  have s: "omap_ok ?s" "map_of ?s d = (if d \<in> set ?m then Some (0, 0) else map_of cache d)" for d
    using cache_fetch_start [OF assms(1), of ?m d] by auto
  have f: "cache' = cache \<or> cache' = fold (add_bucket e ?m) (voucherBuckets (snd ?r)) ?s"
    using assms(2) by (auto simp: ensureVoucherDays_def Let_def split: prod.splits if_splits)
  have "\<forall>d \<in> set ?m. \<exists>v. map_of ?s d = Some v \<and> long_pair v" by (simp add: s(2) long_pair_def)
  note g = add_buckets [OF s(1) this, of e "voucherBuckets (snd ?r)"]
  show "omap_ok cache'" using f g assms(1) by auto
  show "d \<notin> set ?m \<Longrightarrow> map_of cache' d = map_of cache d" using f g s(2) by auto
qed

lemma ensure_answered:
  assumes "omap_ok cache" and "missing_days cache a b \<noteq> []"
    and "getVoucherHistoryJson (rp_omada e) (rp_site e) (localDayStartUtc (rp_zone e) (hd (missing_days cache a b)))
           (localDayStartUtc (rp_zone e) (last (missing_days cache a b) + 2)) c = (c1, hist)" and "\<not> is_null hist"
    and "ensureVoucherDays e a b (cache, c) = (cache', c')" and "d \<in> set (missing_days cache a b)"
  shows "map_of cache' d = Some (bucket_sums e d (voucherBuckets hist))"
proof -
  let ?m = "missing_days cache a b"
  let ?s = "fold (\<lambda>d m. omap_update d (0, 0) m) ?m cache"
  have s: "omap_ok ?s" "map_of ?s d = (if d \<in> set ?m then Some (0, 0) else map_of cache d)" for d
    using cache_fetch_start [OF assms(1), of ?m d] by auto
  have "cache' = fold (add_bucket e ?m) (voucherBuckets hist) ?s"
    using assms(2-5) by (simp add: ensureVoucherDays_def Let_def)
  moreover have "\<forall>d \<in> set ?m. \<exists>v. map_of ?s d = Some v \<and> long_pair v" by (simp add: s(2) long_pair_def)
  ultimately show ?thesis using add_buckets [OF s(1)] assms(6) by (simp add: s(2) omap_get_def bucket_sums_def)
qed

lemma missing_days_iff: "d \<in> set (missing_days cache a b) \<longleftrightarrow> a \<le> d \<and> d < b \<and> map_of cache d = None"
  by (auto simp: missing_days_def)

lemma no_missing: "(\<forall>d. a \<le> d \<longrightarrow> d < b \<longrightarrow> map_of cache d \<noteq> None) \<Longrightarrow> ensureVoucherDays e a b (cache, c) = (cache, c)"
proof -
  assume "\<forall>d. a \<le> d \<longrightarrow> d < b \<longrightarrow> map_of cache d \<noteq> None"
  then have "missing_days cache a b = []" by (auto simp: missing_days_def filter_empty_conv)
  then show ?thesis by (simp add: ensureVoucherDays_def)
qed

text \<open>The voucher sums of a month.\<close>

lemma voucher_month_cells:
  assumes "i < MONTHS"
  shows "length (fst (fold (voucher_month mk) kvs t)) = length (fst t)"
    and "length (fst t) = MONTHS \<Longrightarrow> in_long (fst t ! i) \<Longrightarrow> fst (fold (voucher_month mk) kvs t) ! i = long32 (fst t ! i
       + (\<Sum>kv \<leftarrow> kvs. if month_key (fst kv) = mk - int (MONTHS - 1 - i) then fst (snd kv) else 0))"
proof -
  have len: "length (fst (voucher_month mk kv t)) = length (fst t)" for kv t
    by (simp add: voucher_month_def split: option.split)
  then show "length (fst (fold (voucher_month mk) kvs t)) = length (fst t)"
    by (induction kvs arbitrary: t) simp_all
  show "length (fst t) = MONTHS \<Longrightarrow> in_long (fst t ! i) \<Longrightarrow> fst (fold (voucher_month mk) kvs t) ! i = long32 (fst t ! i
       + (\<Sum>kv \<leftarrow> kvs. if month_key (fst kv) = mk - int (MONTHS - 1 - i) then fst (snd kv) else 0))"
  proof (rule fold_cells_long [where I = "\<lambda>t. length (fst t) = MONTHS" and cell = "\<lambda>t. fst t ! i"])
    fix kv :: "int \<times> int \<times> int" and t :: "int list \<times> int list"
    assume l: "length (fst t) = MONTHS"
    show "fst (voucher_month mk kv t) ! i =
      (if month_key (fst kv) = mk - int (MONTHS - 1 - i) then long32 (fst t ! i + fst (snd kv)) else fst t ! i)"
      using sales_slot_iff [of mk "fst kv" i] assms l
      by (cases "sales_slot mk (fst kv)") (simp_all add: voucher_month_def nth_bump)
  qed (use len in simp_all)
qed

text \<open>The months of the statement.\<close>

lemma statement_slot_iff: "statement_slot mk d = Some k \<longleftrightarrow> k < 3 \<and> month_key d = mk + int k"
  by (auto simp: statement_slot_def Let_def)

lemma statement_step:
  assumes "k < 3" and "length v = 3"
  shows "(case statement_slot mk d of None \<Rightarrow> v | Some s \<Rightarrow> bump s n v) ! k = (if month_key d = mk + int k then long32 (v ! k + n) else v ! k)"
  using statement_slot_iff [of mk d k] assms by (cases "statement_slot mk d") (simp_all add: nth_bump)

lemma statement_start: "k < 3 \<Longrightarrow> [0, 0, 0 :: int] ! k = 0"
  by (simp add: less_Suc_eq numeral_3_eq_3) auto

lemma statement_vendo_cell:
  assumes "k < 3"
  shows "statement_vendo e mk ! k = long32
     (\<Sum>doc \<leftarrow> json_lines e (vendo_history e).
        if month_key (line_day e doc) = mk + int k then long32 (int_or 0 (jget doc ''coins'') * PESOS_PER_COIN e) else 0)"
  unfolding statement_vendo_def
  by (subst fold_cells_long [where I = "\<lambda>v. length v = 3" and cell = "\<lambda>v. v ! k"
        and P = "\<lambda>doc. month_key (line_day e doc) = mk + int k" and w = "\<lambda>doc. long32 (int_or 0 (jget doc ''coins'') * PESOS_PER_COIN e)",
        OF _ statement_step [OF assms]])
    (use statement_start [OF assms] in \<open>simp_all split: option.split\<close>)

lemma statement_voucher_cell:
  assumes "k < 3"
  shows "statement_voucher mk a b cache ! k = long32
     (\<Sum>d \<leftarrow> [a..b - 1]. if month_key d = mk + int k then snd (omap_get (0, 0) cache d) else 0)"
proof -
  let ?f = "\<lambda>d v. case (statement_slot mk d, map_of cache d) of (Some s, Some (n, r)) \<Rightarrow> bump s r v | _ \<Rightarrow> v"
    and ?P = "\<lambda>d. month_key d = mk + int k \<and> map_of cache d \<noteq> None" and ?w = "\<lambda>d. snd (omap_get (0, 0) cache d)"
  have step: "?f d v ! k = (if ?P d then long32 (v ! k + ?w d) else v ! k)" if "length v = 3" for d v
    using statement_slot_iff [of mk d k] assms that
    by (cases "statement_slot mk d"; cases "map_of cache d") (auto simp: nth_bump omap_get_def)
  have "statement_voucher mk a b cache ! k = long32 ([0, 0, 0] ! k + (\<Sum>d \<leftarrow> [a..b - 1]. if ?P d then ?w d else 0))"
    unfolding statement_voucher_def
    by (rule fold_cells_long [where I = "\<lambda>v. length v = 3" and cell = "\<lambda>v. v ! k", OF _ step])
      (use statement_start [OF assms] in \<open>simp_all split: option.split\<close>)
  also have "(\<lambda>d. if ?P d then ?w d else 0) = (\<lambda>d. if month_key d = mk + int k then ?w d else 0)"
    by (auto simp: fun_eq_iff omap_get_def split: option.split)
  finally show ?thesis using statement_start [OF assms] by simp
qed

lemma statement_voucher_month:
  assumes "k < 3" and "day_fits (first_day mk)" and "day_fits (first_day (mk + 3) - 1)"
  shows "statement_voucher mk (first_day mk) (first_day (mk + 3)) cache ! k = long32
     (\<Sum>d = first_day (mk + int k)..<first_day (mk + int k + 1). snd (omap_get (0, 0) cache d))"
proof -
  let ?f = "\<lambda>d. snd (omap_get (0, 0) cache d)" and ?P = "\<lambda>d. month_key d = mk + int k"
  have "statement_voucher mk (first_day mk) (first_day (mk + 3)) cache ! k
      = long32 (\<Sum>d \<in> {first_day mk..first_day (mk + 3) - 1}. if ?P d then ?f d else 0)"
    by (simp add: statement_voucher_cell [OF assms(1)] interv_sum_list_conv_sum_set_int)
  also have "(\<Sum>d \<in> {first_day mk..first_day (mk + 3) - 1}. if ?P d then ?f d else 0)
      = (\<Sum>d \<in> {d \<in> {first_day mk..first_day (mk + 3) - 1}. ?P d}. ?f d)"
    by (rule sum.inter_filter [symmetric]) simp
  also have "{d \<in> {first_day mk..first_day (mk + 3) - 1}. ?P d} = {first_day (mk + int k)..<first_day (mk + int k + 1)}"
  proof -
    have "month_key d = mk + int k \<longleftrightarrow> first_day (mk + int k) \<le> d \<and> d < first_day (mk + int k + 1)"
      if "first_day mk \<le> d" "d \<le> first_day (mk + 3) - 1" for d
      by (rule month_key_iff) (use that assms(2,3) in \<open>simp add: day_fits_def\<close>)
    then show ?thesis
      using first_day_mono [of mk "mk + int k"] first_day_mono [of "mk + int k + 1" "mk + 3"] assms by auto
  qed
  finally show ?thesis .
qed

text \<open>The leaderboard.\<close>

definition counted :: "report_env \<Rightarrow> int \<Rightarrow> string \<Rightarrow> json \<Rightarrow> int option" where
  "counted e nDays seller g =
     (case autogenSellerPrice e g of
        Some (s, price) \<Rightarrow> if s = seller \<and> \<not> outside_window (rp_now e - nDays * 86400) (as_i64 (jget g ''createdTime'')) then Some price else None
      | None \<Rightarrow> None)"

definition board_sums :: "report_env \<Rightarrow> int \<Rightarrow> json list \<Rightarrow> string \<Rightarrow> int \<times> int" where
  "board_sums e nDays gs seller =
     (long32 (\<Sum>g \<leftarrow> gs. case counted e nDays seller g of None \<Rightarrow> 0 | Some p \<Rightarrow> as_int (jget g ''usedCount'')),
      long32 (\<Sum>g \<leftarrow> gs. case counted e nDays seller g of None \<Rightarrow> 0 | Some p \<Rightarrow> as_int (jget g ''usedCount'') * p))"

lemma board_weeks_totals [simp]: "totals (board_weeks e td s u c b) = totals b"
  by (simp add: board_weeks_def Let_def)

lemma board_group_totals:
  assumes "omap_ok (totals b)"
  shows "omap_ok (totals (board_group e td (rp_now e - nDays * 86400) g b))"
    and "map_of (totals (board_group e td (rp_now e - nDays * 86400) g b)) seller =
      (case counted e nDays seller g of None \<Rightarrow> map_of (totals b) seller
       | Some p \<Rightarrow> Some (long32 (fst (omap_get (0, 0) (totals b) seller) + as_int (jget g ''usedCount'')),
                       long32 (snd (omap_get (0, 0) (totals b) seller) + as_int (jget g ''usedCount'') * p)))"
  using assms
  by (auto simp: board_group_def counted_def Let_def omap_ok_update map_of_omap_update split: option.split prod.split)

lemma leaderboard_totals:
  "omap_ok (totals b) \<Longrightarrow> long_pair (omap_get (0, 0) (totals b) seller) \<Longrightarrow> omap_ok (totals (fold (board_group e td (rp_now e - nDays * 86400)) gs b))
    \<and> map_of (totals (fold (board_group e td (rp_now e - nDays * 86400)) gs b)) seller =
      (if (\<exists>g \<in> set gs. counted e nDays seller g \<noteq> None) \<or> map_of (totals b) seller \<noteq> None
       then Some (long32 (fst (omap_get (0, 0) (totals b) seller) + fst (board_sums e nDays gs seller)),
                  long32 (snd (omap_get (0, 0) (totals b) seller) + snd (board_sums e nDays gs seller))) else None)"
proof (induction gs arbitrary: b)
  case Nil
  then show ?case by (cases "map_of (totals b) seller") (auto simp: board_sums_def omap_get_def long_pair_def)
next
  case (Cons g gs)
  note st = board_group_totals [OF Cons.prems(1), of e td nDays g]
  have "long_pair (omap_get (0, 0) (totals (board_group e td (rp_now e - nDays * 86400) g b)) seller)"
    using Cons.prems(2) by (cases "map_of (totals b) seller") (auto simp add: omap_get_def st(2) long_pair_def split: option.split)
  from Cons.IH [OF st(1) this] show ?case
    by (cases "counted e nDays seller g")
      (auto simp: st(2) board_sums_def omap_get_def add.assoc split: option.split)
qed

lemma omap_ok_distinct: "omap_ok m \<Longrightarrow> distinct (map fst m)"
  by (simp add: omap_ok_def strict_sorted_iff)

lemma report_keys:
  "jget (JObj [(''pricePerCoin'', a), (''minutesPerCoin'', b), (''months'', m), (''days'', d)]) ''days'' = d"
  "jget (JObj [(''pricePerCoin'', a), (''minutesPerCoin'', b), (''months'', m), (''days'', d)]) ''months'' = m"
  by simp_all

lemma sales_shape:
  "\<exists>live sr. jget (fst (handleAdminSales e mo t)) ''days'' =
       JArr (map (day_entry (localDayNum (rp_zone e) (rp_now e)) (vendo_report e (localDayNum (rp_zone e) (rp_now e)))
                    (voucher_days (localDayNum (rp_zone e) (rp_now e)) (fst (snd (handleAdminSales e mo t))) live) sr) [0..<DAYS])
     \<and> jget (fst (handleAdminSales e mo t)) ''months'' =
       JArr (map (month_entry (month_key (localDayNum (rp_zone e) (rp_now e)))
                    (vendo_report e (localDayNum (rp_zone e) (rp_now e)))
                    (voucher_months_of (localDayNum (rp_zone e) (rp_now e)) (fst (snd (handleAdminSales e mo t))) live)) [0..<MONTHS])"
  unfolding handleAdminSales_def Let_def case_prod_beta fst_conv snd_conv report_keys by (intro exI conjI; rule refl)

lemma sales_cache:
  "fst (snd (handleAdminSales e mo t))
     = fst (ensureVoucherDays e (localDayNum (rp_zone e) (rp_now e) - int (DAYS - 1)) (localDayNum (rp_zone e) (rp_now e)) t)"
  by (simp add: handleAdminSales_def case_prod_beta Let_def)

lemma sum_list_zero_all: "\<forall>x \<in> set xs. f x = (0 :: int) \<Longrightarrow> (\<Sum>x \<leftarrow> xs. f x) = 0"
  by (induction xs) simp_all

lemma voucher_months_cell:
  assumes "i < MONTHS"
  shows "fst (voucher_months_of td cache live) ! i = long32
     (\<Sum>kv \<leftarrow> cache @ [(td, live)]. if month_key (fst kv) = month_key td - int (MONTHS - 1 - i) then fst (snd kv) else 0)"
proof -
  have "voucher_months_of td cache live = fold (voucher_month (month_key td)) (cache @ [(td, live)]) (replicate MONTHS 0, replicate MONTHS 0)"
    by (simp add: voucher_months_of_def)
  then show ?thesis
    using voucher_month_cells(2) [OF assms, of "(replicate MONTHS 0, replicate MONTHS 0)" "month_key td" "cache @ [(td, live)]"] assms
    by (simp del: fold_append)
qed

lemma first_day_gap: "first_day k + 28 * int n \<le> first_day (k + int n)"
proof (induction n)
  case (Suc n)
  have "first_day (k + int n) + 28 \<le> first_day (k + int n + 1)"
    using first_day_step [of "k + int n"] mlen_pos [of "(k + int n) div 12" "nat ((k + int n) mod 12) + 1"] by simp
  moreover have "k + int (Suc n) = k + int n + 1" by simp
  ultimately show ?case using Suc.IH by (simp only:) simp
qed simp

lemma month_key_recent: "day_fits td \<Longrightarrow> day_fits d \<Longrightarrow> td - 89 \<le> d \<Longrightarrow> month_key td - 4 \<le> month_key d"
proof (rule ccontr)
  assume f: "day_fits td" "day_fits d" and a: "td - 89 \<le> d" "\<not> month_key td - 4 \<le> month_key d"
  then have "first_day (month_key d + 1) \<le> first_day (month_key td - 4)" by (intro first_day_mono) simp
  moreover have "first_day (month_key td - 4) + 112 \<le> first_day (month_key td)"
    using first_day_gap [of "month_key td - 4" 4] by simp
  ultimately show False using a(1) month_key_range [OF f(2)] month_key_range [OF f(1)] by linarith
qed

lemma statement_shape:
  "\<exists>comm eq. fst (handleAdminStatement e t) =
     JObj [(''months'', JArr (map (statement_month (month_num (localDayNum (rp_zone e) (rp_now e)) - 3)
         (statement_vendo e (month_num (localDayNum (rp_zone e) (rp_now e)) - 3))
         (statement_voucher (month_num (localDayNum (rp_zone e) (rp_now e)) - 3)
            (monthFirstDay (month_num (localDayNum (rp_zone e) (rp_now e)) - 3)) (monthFirstDay (month_num (localDayNum (rp_zone e) (rp_now e))))
            (fst (snd (handleAdminStatement e t)))) comm) [0..<3])), (''equipment'', eq)]"
  unfolding handleAdminStatement_def Let_def case_prod_beta fst_conv snd_conv by (intro exI; rule refl)

text \<open>A concrete board: day 20000 at Greenwich, two sales of seven coins, and a controller whose every
  answer has one named group and one voucher bucket.\<close>

definition demo_doc :: json where
  "demo_doc = JObj [(''result'', JObj [(''data'', JArr [JObj [(''name'', JStr ''AUTOGEN: P5 ann''), (''usedCount'', JNum 3),
     (''time'', JNum 1728000000000), (''count'', JNum 2)]])])]"

definition demo_report :: report_env where
  "demo_report = \<lparr>rp_now = 1728000000, rp_zone = \<lparr>offset = (\<lambda>_. 0), mktime = (\<lambda>s. s)\<rparr>,
     rp_omada = \<lparr>exchange = (\<lambda>r. \<lparr>rp_code = 200, rp_error = [], rp_body = ''V'', rp_cookies = []\<rparr>),
       parse_json = (\<lambda>t. if t = ''V'' then Some demo_doc
          else if t = ''L'' then Some (JObj [(''ts'', JNum 1728000000), (''coins'', JNum 7), (''node'', JStr ''N1'')]) else None),
       om_millis = 6000, om_epoch = 0, BASE_URL = [], OMADAC_ID = [], USERNAME = [], PASSWORD = []\<rparr>,
     rp_site = \<lparr>SITE_ID = ''s1'', SITE_NAME = []\<rparr>, PESOS_PER_COIN = 5, MINUTES_PER_COIN = 24, FALLBACK_PRICE_PER_VOUCHER = 5,
     vendo_history = [''L'', ''L''], seller_days = [], config_text = None\<rparr>"

definition demo_login :: credentials where
  "demo_login = \<lparr>csrfToken = ''t'', sessionId = ''s'', loginMs = 5000\<rparr>"

lemma demo_answers:
  "getCredentials (rp_omada demo_report) demo_login = (demo_login, demo_login, [])" "loginMs demo_login \<noteq> 0"
  "getVoucherGroupsJson (rp_omada demo_report) (rp_site demo_report) demo_login = (demo_login, demo_doc)"
  "getVoucherHistoryJson (rp_omada demo_report) (rp_site demo_report) a b demo_login = (demo_login, demo_doc)"
  "\<not> is_null demo_doc"
proof -
  show g: "getCredentials (rp_omada demo_report) demo_login = (demo_login, demo_login, [])" and l: "loginMs demo_login \<noteq> 0"
    by (simp_all add: getCredentials_def demo_report_def demo_login_def)
  show "getVoucherGroupsJson (rp_omada demo_report) (rp_site demo_report) demo_login = (demo_login, demo_doc)"
    using g l by (simp add: getVoucherGroupsJson_def Let_def parsed_or_null_def) (simp add: demo_report_def)
  show "getVoucherHistoryJson (rp_omada demo_report) (rp_site demo_report) a b demo_login = (demo_login, demo_doc)"
    using g l by (simp add: getVoucherHistoryJson_def Let_def) (simp add: demo_report_def demo_doc_def no_api_error_def as_int_def)
  show "\<not> is_null demo_doc" by (simp add: demo_doc_def)
qed

lemma demo_today: "localDayNum (rp_zone demo_report) (rp_now demo_report) = 20000"
  "json_lines demo_report (vendo_history demo_report) = replicate 2 (JObj [(''ts'', JNum 1728000000), (''coins'', JNum 7), (''node'', JStr ''N1'')])"
  "line_day demo_report (JObj [(''ts'', JNum 1728000000), (''coins'', JNum 7), (''node'', JStr ''N1'')]) = 20000"
  by (simp_all add: localDayNum_div line_day_def demo_report_def json_lines_def List.map_filter_def trim_def is_space_def numeral_2_eq_2)

section \<open>Properties\<close>

text \<open>The sales report adds up, in 32-bit sums. Every day of the chart shows exactly the coins and the number of the
  sale lines of that local day, each node's row of a day exactly the coins of its lines, and
  every month exactly the coins of the lines of that calendar month.\<close>
theorem sales_report_adds_up:
  "let td = localDayNum (rp_zone e) (rp_now e); docs = json_lines e (vendo_history e);
       out = fst (handleAdminSales e mo t)
   in (\<forall>i<DAYS. jget (elements (jget out ''days'') ! i) ''coins''
         = JNum (long32 (\<Sum>doc \<leftarrow> docs. if line_day e doc = td - int (DAYS - 1 - i) then int_or 0 (jget doc ''coins'') else 0)))
    \<and> (\<forall>i<DAYS. jget (elements (jget out ''days'') ! i) ''sessions''
         = JNum (long32 (\<Sum>doc \<leftarrow> docs. if line_day e doc = td - int (DAYS - 1 - i) then 1 else 0)))
    \<and> (\<forall>i<DAYS. \<forall>n. n \<noteq> [] \<longrightarrow> omap_get (replicate DAYS 0) (nodeCoins (vendo_report e td)) n ! i
         = long32 (\<Sum>doc \<leftarrow> docs. if line_day e doc = td - int (DAYS - 1 - i) \<and> str_or [] (jget doc ''node'') = n
                          then int_or 0 (jget doc ''coins'') else 0))
    \<and> (\<forall>i<MONTHS. jget (elements (jget out ''months'') ! i) ''coins''
         = JNum (long32 (\<Sum>doc \<leftarrow> docs. if month_key (line_day e doc) = month_key td - int (MONTHS - 1 - i)
                               then int_or 0 (jget doc ''coins'') else 0)))"
proof -
  let ?td = "localDayNum (rp_zone e) (rp_now e)" and ?out = "fst (handleAdminSales e mo t)"
  obtain vd sr vm where
    out: "jget ?out ''days'' = JArr (map (day_entry ?td (vendo_report e ?td) vd sr) [0..<DAYS])"
    "jget ?out ''months'' = JArr (map (month_entry (month_key ?td) (vendo_report e ?td) vm) [0..<MONTHS])"
    using sales_shape [of e mo t] by blast
  have "jget (day_entry td v vd sr i) ''coins'' = JNum (dayCoinTotals v ! i)"
    "jget (day_entry td v vd sr i) ''sessions'' = JNum (daySessTotals v ! i)" for td v vd i
    by (simp_all add: day_entry_def Let_def)
  moreover have "jget (month_entry mk v vm i) ''coins'' = JNum (monthCoins v ! i)" for mk v i
    by (simp add: month_entry_def Let_def)
  ultimately show ?thesis
    using vendo_report_cells [where e = e and td = ?td] vendo_report_month [where e = e and td = ?td]
    by (simp add: out on_day_def Let_def)
qed

theorem sales_report_adds_up_witness:
  "jget (elements (jget (fst (handleAdminSales demo_report empty_money ([], demo_login))) ''days'') ! 89) ''coins'' = JNum 14"
proof -
  have "89 < DAYS" by simp
  with sales_report_adds_up [of demo_report empty_money "([], demo_login)"]
  have "jget (elements (jget (fst (handleAdminSales demo_report empty_money ([], demo_login))) ''days'') ! 89) ''coins''
      = JNum (long32 (\<Sum>doc \<leftarrow> json_lines demo_report (vendo_history demo_report).
          if line_day demo_report doc = localDayNum (rp_zone demo_report) (rp_now demo_report) - int (DAYS - 1 - 89)
          then int_or 0 (jget doc ''coins'') else 0))"
    unfolding Let_def by blast
  then show ?thesis by (simp add: demo_today numeral_2_eq_2 in_long_def)
qed

text \<open>The leaderboard is exact. Every seller with a named group in the window has one entry, nobody
  else has one; the entry counts the used vouchers of all these groups, and their pesos at each
  group's price; and the revenue falls along the list.\<close>
theorem leaderboard_exact:
  assumes "\<forall>xs. mset (std_sort xs) = mset xs \<and> sorted_wrt (\<lambda>a b. snd (snd a) \<ge> snd (snd b)) (std_sort xs)"
    and "getVoucherGroupsJson (rp_omada e) (rp_site e) c = (c1, doc)" and "\<not> is_null doc"
  shows "let gs = elements (jget (jget doc ''result'') ''data''); n = board_days days in
    \<exists>ps. elements (fst (handleAdminLeaderboard std_sort e days c)) = map (board_entry e (leaderboard e n gs)) ps
      \<and> distinct (map fst ps) \<and> sorted_wrt (\<lambda>a b. snd (snd a) \<ge> snd (snd b)) ps
      \<and> fst ` set ps = {seller. \<exists>g \<in> set gs. counted e n seller g \<noteq> None}
      \<and> (\<forall>(seller, v) \<in> set ps. v = board_sums e n gs seller)"
proof -
  let ?gs = "elements (jget (jget doc ''result'') ''data'')" and ?n = "board_days days"
  let ?b = "leaderboard e ?n ?gs"
  define ps where "ps = std_sort (totals ?b)"
  have m: "mset ps = mset (totals ?b)" and srt: "sorted_wrt (\<lambda>a b. snd (snd a) \<ge> snd (snd b)) ps"
    using assms(1) by (simp_all add: ps_def)
  have "omap_ok (totals empty_board)" "\<And>s. map_of (totals empty_board) s = None" by (simp_all add: empty_board_def)
  then have "long_pair (omap_get (0, 0) (totals empty_board) s)" for s :: string by (simp add: omap_get_def long_pair_def)
  note l = leaderboard_totals [OF \<open>omap_ok (totals empty_board)\<close> this, where e = e and nDays = ?n and gs = ?gs]
    \<open>\<And>s. map_of (totals empty_board) s = None\<close>
  have ok: "omap_ok (totals ?b)" unfolding leaderboard_def using l(1) by blast
  have z: "board_sums e ?n ?gs s = (long32 (fst (board_sums e ?n ?gs s)), long32 (snd (board_sums e ?n ?gs s)))" for s
    by (simp add: board_sums_def)
  have get: "map_of (totals ?b) s = (if \<exists>g \<in> set ?gs. counted e ?n s g \<noteq> None then Some (board_sums e ?n ?gs s) else None)" for s
    unfolding leaderboard_def using l(1) [of _ s] l(2) [of s] z [of s, symmetric] by (simp add: omap_get_def)
  have "mset (map fst ps) = mset (map fst (totals ?b))" by (simp add: m)
  then have d: "distinct (map fst ps)" using omap_ok_distinct [OF ok] mset_eq_imp_distinct_iff by blast
  have set: "set ps = set (totals ?b)" using m by (rule mset_eq_setD)
  have mem: "(s, v) \<in> set ps \<longleftrightarrow> (\<exists>g \<in> set ?gs. counted e ?n s g \<noteq> None) \<and> v = board_sums e ?n ?gs s" for s v
    unfolding set using map_of_eq_Some_iff [OF omap_ok_distinct [OF ok], of s v] get [of s] by (auto split: if_splits)
  have "fst ` set ps = {s. \<exists>v. (s, v) \<in> set ps}"
    by (simp only: Domain_fst [symmetric] Domain_unfold)
  then have "fst ` set ps = {seller. \<exists>g \<in> set ?gs. counted e ?n seller g \<noteq> None}" by (simp only: mem) simp
  moreover have "\<forall>(seller, v) \<in> set ps. v = board_sums e ?n ?gs seller" using mem by blast
  moreover have "elements (fst (handleAdminLeaderboard std_sort e days c)) = map (board_entry e ?b) ps"
    using assms(2,3) by (simp add: handleAdminLeaderboard_def ps_def Let_def)
  ultimately show ?thesis using d srt unfolding Let_def by blast
qed

theorem leaderboard_exact_witness:
  "\<exists>ps. fst ` set ps = {seller. \<exists>g \<in> set (elements (jget (jget demo_doc ''result'') ''data'')). counted demo_report 30 seller g \<noteq> None}
     \<and> elements (fst (handleAdminLeaderboard (sort_key (\<lambda>kv. - snd (snd kv))) demo_report None demo_login))
         = map (board_entry demo_report (leaderboard demo_report 30 (elements (jget (jget demo_doc ''result'') ''data'')))) ps"
proof -
  have "sorted_wrt (\<lambda>a b. snd (snd a) \<ge> snd (snd b)) (sort_key (\<lambda>kv. - snd (snd kv)) xs)" for xs :: "(string \<times> int \<times> int) list"
    using sorted_sort_key [of "\<lambda>kv. - snd (snd kv)" xs] by (simp add: sorted_map)
  then have "\<forall>xs :: (string \<times> int \<times> int) list. mset (sort_key (\<lambda>kv. - snd (snd kv)) xs) = mset xs
      \<and> sorted_wrt (\<lambda>a b. snd (snd a) \<ge> snd (snd b)) (sort_key (\<lambda>kv. - snd (snd kv)) xs)" by simp
  from leaderboard_exact [OF this demo_answers(3,5), of None] show ?thesis
    unfolding Let_def board_days_def option.case by blast
qed

text \<open>Voucher days are fetched once. After a call of \<open>ensureVoucherDays\<close> that the controller answered,
  every day that was missing holds exactly the number and pesos of the buckets of that local
  day, also when there are none; the days that were there are unchanged; and the next call for
  the window asks the controller for nothing.\<close>
theorem voucher_days_complete:
  assumes "omap_ok cache" and "missing_days cache a b \<noteq> []"
    and "getVoucherHistoryJson (rp_omada e) (rp_site e) (localDayStartUtc (rp_zone e) (hd (missing_days cache a b)))
           (localDayStartUtc (rp_zone e) (last (missing_days cache a b) + 2)) c = (c1, hist)" and "\<not> is_null hist"
    and "ensureVoucherDays e a b (cache, c) = (cache', c')"
  shows "(\<forall>d. map_of cache' d = (if a \<le> d \<and> d < b \<and> map_of cache d = None
            then Some (bucket_sums e d (voucherBuckets hist)) else map_of cache d))
     \<and> ensureVoucherDays e a b (cache', c2) = (cache', c2)"
proof -
  have v: "map_of cache' d = (if a \<le> d \<and> d < b \<and> map_of cache d = None
            then Some (bucket_sums e d (voucherBuckets hist)) else map_of cache d)" for d
    using ensure_answered [OF assms(1-5), of d] ensure_cases(2) [OF assms(1,5), of d] by (simp add: missing_days_iff)
  then have "\<forall>d. a \<le> d \<longrightarrow> d < b \<longrightarrow> map_of cache' d \<noteq> None" by simp
  with v no_missing show ?thesis by blast
qed

theorem voucher_days_complete_witness:
  "map_of (fst (ensureVoucherDays demo_report 19999 20001 ([], demo_login))) 19999 = Some (2, 10)"
proof -
  have m: "missing_days [] 19999 20001 = [19999, 20000]" by (simp add: missing_days_def upto.simps)
  obtain cache' c' where r: "ensureVoucherDays demo_report 19999 20001 ([], demo_login) = (cache', c')" by fastforce
  have "map_of cache' 19999 = Some (bucket_sums demo_report 19999 (voucherBuckets demo_doc))"
    using voucher_days_complete [OF omap_ok_Nil _ demo_answers(4,5) r] by (simp add: m)
  moreover have "bucket_sums demo_report 19999 (voucherBuckets demo_doc) = (2, 10)"
    by (simp add: bucket_sums_def voucherBuckets_def demo_doc_def bucket_day_def localDayNum_div signed_divide_int_def
        voucherBucketRevenue_def amount_value_def digits_val_def digit_val_def is_digit_def is_space_def starts_with_def as_int_def demo_report_def in_long_def)
  ultimately show ?thesis by (simp add: r)
qed

text \<open>The voucher line of the month chart forgets. When the sales page is the first report after a
  restart, which empties the cache, the seven oldest of its twelve months show no voucher,
  whatever was sold: only the last ninety days are fetched.\<close>
theorem month_chart_forgets:
  assumes "i < 7" and "day_fits (localDayNum (rp_zone e) (rp_now e))" and "day_fits (localDayNum (rp_zone e) (rp_now e) - 89)"
  shows "jget (elements (jget (fst (handleAdminSales e mo ([], c))) ''months'') ! i) ''vouchers'' = JNum 0"
proof -
  let ?td = "localDayNum (rp_zone e) (rp_now e)" and ?cache = "fst (snd (handleAdminSales e mo ([], c)))"
  obtain live v where
    out: "jget (fst (handleAdminSales e mo ([], c))) ''months'' =
      JArr (map (month_entry (month_key ?td) v (voucher_months_of ?td ?cache live)) [0..<MONTHS])"
    using sales_shape [of e mo "([], c)"] by blast
  obtain cache' c' where ens: "ensureVoucherDays e (?td - int (DAYS - 1)) ?td ([], c) = (cache', c')" by fastforce
  have old: "?td - 89 \<le> fst kv \<and> fst kv < ?td" if "kv \<in> set ?cache" for kv
  proof -
    let ?d = "fst kv"
    have "(?d, snd kv) \<in> set ?cache" using that by simp
    then have "map_of ?cache ?d \<noteq> None" using weak_map_of_SomeI by fastforce
    moreover have "?d \<notin> set (missing_days [] (?td - int (DAYS - 1)) ?td) \<longrightarrow> map_of ?cache ?d = None"
      using ensure_cases(2) [OF _ ens, of ?d] ens by (simp add: sales_cache)
    ultimately have "?d \<in> set (missing_days [] (?td - int (DAYS - 1)) ?td)" by argo
    then show ?thesis by (simp add: missing_days_iff)
  qed
  have "month_key (fst kv) \<noteq> month_key ?td - int (MONTHS - 1 - i)" if "kv \<in> set (?cache @ [(?td, live)])" for kv
    using that old [of kv] month_key_recent [of ?td "fst kv"] assms by (auto simp: day_fits_def)
  then have "(\<Sum>kv \<leftarrow> ?cache @ [(?td, live)]. if month_key (fst kv) = month_key ?td - int (MONTHS - 1 - i) then fst (snd kv) else 0) = 0"
    by (intro sum_list_zero_all) auto
  with assms show ?thesis by (simp add: out month_entry_def Let_def voucher_months_cell)
qed

theorem month_chart_forgets_witness:
  "jget (elements (jget (fst (handleAdminSales demo_report empty_money ([], demo_login))) ''months'') ! 6) ''vouchers'' = JNum 0"
  by (rule month_chart_forgets) (simp_all add: demo_today day_fits_def)

text \<open>The income statement covers exactly the three months before this one. Its voucher income of a
  month is the sum over all days of that calendar month and no other, its vendo income the coins
  of the sale lines of that month at the price of a coin.\<close>
theorem statement_months_exact:
  assumes "23500 \<le> month_num (localDayNum (rp_zone e) (rp_now e))" and "day_fits (localDayNum (rp_zone e) (rp_now e))"
    and "\<forall>doc \<in> set (json_lines e (vendo_history e)). day_fits (line_day e doc)" and "k < 3"
  shows "let mk = month_num (localDayNum (rp_zone e) (rp_now e)) - 3 + int k; r = handleAdminStatement e t;
             m = elements (jget (fst r) ''months'') ! k
    in jget m ''voucher'' = JNum (long32 (\<Sum>d = monthFirstDay mk..<monthFirstDay (mk + 1). snd (omap_get (0, 0) (fst (snd r)) d)))
      \<and> jget m ''vendo'' = JNum (long32 (\<Sum>doc \<leftarrow> json_lines e (vendo_history e).
           if monthFirstDay mk \<le> line_day e doc \<and> line_day e doc < monthFirstDay (mk + 1)
           then long32 (int_or 0 (jget doc ''coins'') * PESOS_PER_COIN e) else 0))"
proof -
  let ?td = "localDayNum (rp_zone e) (rp_now e)" let ?mk = "month_num ?td - 3"
  obtain comm eq where out: "fst (handleAdminStatement e t) =
     JObj [(''months'', JArr (map (statement_month ?mk (statement_vendo e ?mk)
         (statement_voucher ?mk (monthFirstDay ?mk) (monthFirstDay (?mk + 3)) (fst (snd (handleAdminStatement e t)))) comm) [0..<3])),
       (''equipment'', eq)]"
    using statement_shape [of e t] by auto
  have cols: "jget (statement_month ?mk a b cm j) ''voucher'' = JNum (b ! j)" "jget (statement_month ?mk a b cm j) ''vendo'' = JNum (a ! j)"
    for a b cm j by (simp_all add: statement_month_def Let_def)
  have "first_day 23497 \<le> first_day ?mk" "first_day ?mk \<le> first_day (?mk + 3)"
    by (rule first_day_mono; use assms(1) in simp)+
  moreover have "first_day 23497 = - 4352" by code_simp
  moreover have "first_day (?mk + 3) \<le> ?td" using month_num_range [of ?td] by simp
  ultimately have fits: "day_fits (first_day ?mk)" "day_fits (first_day (?mk + 3) - 1)"
    using assms(2) by (simp_all add: day_fits_def)
  have "(\<Sum>doc \<leftarrow> json_lines e (vendo_history e).
        if month_key (line_day e doc) = ?mk + int k then long32 (int_or 0 (jget doc ''coins'') * PESOS_PER_COIN e) else 0)
    = (\<Sum>doc \<leftarrow> json_lines e (vendo_history e).
        if first_day (?mk + int k) \<le> line_day e doc \<and> line_day e doc < first_day (?mk + int k + 1)
        then long32 (int_or 0 (jget doc ''coins'') * PESOS_PER_COIN e) else 0)"
    by (intro arg_cong [where f = sum_list] map_cong refl) (use assms(3) in \<open>simp add: month_key_iff\<close>)
  moreover have "monthFirstDay ?mk = first_day ?mk" "monthFirstDay (?mk + 3) = first_day (?mk + 3)"
    "monthFirstDay (?mk + int k) = first_day (?mk + int k)" "monthFirstDay (?mk + int k + 1) = first_day (?mk + int k + 1)"
    by (rule monthFirstDay_first; use assms(1) in simp)+
  ultimately show ?thesis
    using statement_voucher_month [OF assms(4) fits, of "fst (snd (handleAdminStatement e t))"] statement_vendo_cell [OF assms(4), of e ?mk] assms(4)
    unfolding Let_def by (simp add: out cols del: diff_add_cancel)
qed

definition later_report :: report_env where
  "later_report = demo_report\<lparr>rp_now := 1728000000 + 31 * 86400\<rparr>"

theorem statement_months_exact_witness:
  "jget (elements (jget (fst (handleAdminStatement later_report ([], demo_login))) ''months'') ! 2) ''vendo'' = JNum 70"
proof -
  have td: "localDayNum (rp_zone later_report) (rp_now later_report) = 20031"
    by (simp add: localDayNum_div later_report_def demo_report_def)
  have f: "first_day 24297 = 19997" "first_day 24298 = 20028" "first_day 24299 = 20058"
    by (simp_all add: first_day_def day_count_def leaps_def month_off_def Let_def)
  then have mk: "month_num 20031 = 24298" by (simp add: month_num_iff)
  have l: "json_lines later_report (vendo_history later_report) = json_lines demo_report (vendo_history demo_report)"
    "line_day later_report = line_day demo_report" "PESOS_PER_COIN later_report = 5"
    by (simp_all add: later_report_def demo_report_def json_lines_def line_day_def fun_eq_iff)
  have h: "23500 \<le> month_num (localDayNum (rp_zone later_report) (rp_now later_report))"
    "day_fits (localDayNum (rp_zone later_report) (rp_now later_report))"
    "\<forall>doc \<in> set (json_lines later_report (vendo_history later_report)). day_fits (line_day later_report doc)" "2 < (3 :: nat)"
    by (simp_all add: td mk l demo_today day_fits_def)
  from statement_months_exact [OF h, of "([], demo_login)"] show ?thesis
    by (simp add: Let_def td mk l demo_today monthFirstDay_first f numeral_2_eq_2 in_long_def)
qed

end
