(* ===== verification/Updates.thy ===== *)
theory Updates
  imports SlaveOta AdminAuth Files
begin

text \<open>
  The master's own updates (\<open>src/web.cpp\<close>): the firmware upload, the file system image with its
  buffer and the files kept across it, the image served to the slaves, and the update from the
  latest GitHub release. What the updater, the HTTP client and the allocator answer is part of
  the chunk or of a record; the upload library calls the callback chunk by chunk, stops at the
  first one that fails, and calls the request handler only when none failed.
\<close>

section \<open>Firmware upload\<close>

record chunk =
  ck_index :: nat
  ck_data :: "u8 list"
  ck_final :: bool
  ck_cookie :: string   \<comment> \<open>the request's cookie header\<close>
  ck_length :: nat      \<comment> \<open>\<open>contentLength()\<close>\<close>
  ck_begins :: bool     \<comment> \<open>the answer of \<open>Update.begin\<close>\<close>
  ck_written :: nat     \<comment> \<open>the answer of \<open>Update.write\<close>\<close>
  ck_ends :: bool       \<comment> \<open>the answer of \<open>Update.end(true)\<close>\<close>

text \<open>The upload callback: what it did to the updater, and whether it returns \<open>ESP_OK\<close>.\<close>

definition ota_chunk :: "admin_env \<Rightarrow> chunk \<Rightarrow> admin_auth \<Rightarrow> admin_auth \<times> flash_action list \<times> bool" where
  "ota_chunk e c s =
     (let (s1, okay) = (if ck_index c = 0 then isAuthorized e (ck_cookie c) s else (s, True));
          b = (if ck_index c = 0 then [UpdateBegin (int (ck_length c))] else []);
          w = UpdateWrite (int (ck_written c))
      in if \<not> okay then (s1, [], False)
         else if ck_index c = 0 \<and> \<not> ck_begins c then (s1, b, False)
         else if ck_written c \<noteq> length (ck_data c) then (s1, b @ [w], False)
         else if \<not> ck_final c then (s1, b @ [w], True)
         else (s1, b @ [w, UpdateEnd], ck_ends c))"

text \<open>A whole upload; the last result is whether the request handler ran, which restarts the board.\<close>

fun ota_upload :: "admin_env \<Rightarrow> chunk list \<Rightarrow> admin_auth \<Rightarrow> admin_auth \<times> flash_action list \<times> bool" where
  "ota_upload e [] s = (s, [], True)"
| "ota_upload e (c # cs) s =
     (case ota_chunk e c s of
        (s1, a, False) \<Rightarrow> (s1, a, False)
      | (s1, a, True) \<Rightarrow> (case ota_upload e cs s1 of (s2, b, r) \<Rightarrow> (s2, a @ b, r)))"

section \<open>Image for the slaves\<close>

datatype fw_reply = FwNotFound | FwImage "u8 list" | FwNoMemory

text \<open>\<open>flash\<close>: the running partition; \<open>buffer\<close>: the bytes of the block in PSRAM, if there is one, after a read
  that failed. Whether the read succeeds is not looked at.\<close>

definition handleFwBin :: "nat \<Rightarrow> u8 list \<Rightarrow> bool \<Rightarrow> (nat \<Rightarrow> u8) option \<Rightarrow> bool \<Rightarrow> fw_reply" where
  "handleFwBin RUNNING_IMAGE_SIZE flash mapped buffer read =
     (if RUNNING_IMAGE_SIZE = 0 then FwNotFound
      else if mapped then FwImage (take RUNNING_IMAGE_SIZE flash)
      else case buffer of
          None \<Rightarrow> FwNoMemory
        | Some block \<Rightarrow> FwImage (if read then take RUNNING_IMAGE_SIZE flash else map block [0..<RUNNING_IMAGE_SIZE]))"

section \<open>File system upload\<close>

record fs_ota =
  FS_PSRAM_BUFFER :: "u8 list option"
  FS_PSRAM_BUFFER_LEN :: u32
  FS_PSRAM_BUFFER_POS :: u32

definition no_fs_ota :: fs_ota where
  "no_fs_ota = \<lparr>FS_PSRAM_BUFFER = None, FS_PSRAM_BUFFER_LEN = 0, FS_PSRAM_BUFFER_POS = 0\<rparr>"

text \<open>\<open>alloc n\<close>: the allocator's block of \<open>n\<close> bytes with whatever it holds.\<close>

definition fs_begin :: "(nat \<Rightarrow> u8 list option) \<Rightarrow> nat \<Rightarrow> fs_ota \<Rightarrow> fs_ota" where
  "fs_begin alloc contentLen s =
     \<lparr>FS_PSRAM_BUFFER = alloc contentLen, FS_PSRAM_BUFFER_LEN = word_of_nat contentLen, FS_PSRAM_BUFFER_POS = 0\<rparr>"

definition fs_copy :: "u8 list \<Rightarrow> fs_ota \<Rightarrow> fs_ota" where
  "fs_copy data s =
     (let pos = FS_PSRAM_BUFFER_POS s; len = word_of_nat (length data) in
      case FS_PSRAM_BUFFER s of
        None \<Rightarrow> s
      | Some buf \<Rightarrow>
          if pos + len \<le> FS_PSRAM_BUFFER_LEN s
          then s\<lparr>FS_PSRAM_BUFFER := Some (take (unat pos) buf @ data @ drop (unat pos + length data) buf),
                 FS_PSRAM_BUFFER_POS := pos + len\<rparr>
          else s)"

definition fs_chunk ::
  "admin_env \<Rightarrow> (nat \<Rightarrow> u8 list option) \<Rightarrow> chunk \<Rightarrow> admin_auth \<times> fs_ota \<Rightarrow> (admin_auth \<times> fs_ota) \<times> bool" where
  "fs_chunk e alloc c t =
     (let (s, b) = t;
          (s1, okay) = (if ck_index c = 0 then isAuthorized e (ck_cookie c) s else (s, True))
      in if \<not> okay then ((s1, b), False)
         else ((s1, fs_copy (ck_data c) (if ck_index c = 0 then fs_begin alloc (ck_length c) b else b)), True))"

fun fs_upload ::
  "admin_env \<Rightarrow> (nat \<Rightarrow> u8 list option) \<Rightarrow> chunk list \<Rightarrow> admin_auth \<times> fs_ota \<Rightarrow> (admin_auth \<times> fs_ota) \<times> bool" where
  "fs_upload e alloc [] t = (t, True)"
| "fs_upload e alloc (c # cs) t =
     (case fs_chunk e alloc c t of (t1, False) \<Rightarrow> (t1, False) | (t1, True) \<Rightarrow> fs_upload e alloc cs t1)"

definition PRESERVE :: "string list" where
  "PRESERVE = [''/config.json'', ''/vendo_history.json'', ''/errors.log'', ''/refunds.log'', ''/activity.log'']"

text \<open>Reading the files to keep; \<open>keeps path\<close>: the file was opened, a buffer allocated and the whole
  file read. The array has four entries: a fifth is written past its end.\<close>

fun preserve :: "(string \<Rightarrow> bool) \<Rightarrow> fs \<Rightarrow> string list \<Rightarrow> (string \<times> string) list \<Rightarrow> (string \<times> string) list option" where
  "preserve keeps files [] kept = Some kept"
| "preserve keeps files (p # ps) kept =
     (case files p of
        None \<Rightarrow> preserve keeps files ps kept
      | Some text \<Rightarrow>
          if \<not> keeps p then preserve keeps files ps kept
          else if length kept < 4 then preserve keeps files ps (kept @ [(p, text)])
          else None)"

datatype fs_request = FsSkip | FsOverrun | FsFlash "u8 list" "(string \<times> string) list"

definition fs_onRequest :: "(string \<Rightarrow> bool) \<Rightarrow> fs \<Rightarrow> fs_ota \<Rightarrow> fs_ota \<times> fs_request" where
  "fs_onRequest keeps files s =
     (case FS_PSRAM_BUFFER s of
        None \<Rightarrow> (s, FsSkip)
      | Some buf \<Rightarrow>
          if FS_PSRAM_BUFFER_LEN s = 0 then (s, FsSkip)
          else (s\<lparr>FS_PSRAM_BUFFER := None\<rparr>,
                case preserve keeps files PRESERVE [] of None \<Rightarrow> FsOverrun | Some kept \<Rightarrow> FsFlash buf kept))"

record fs_flash_env =
  fs_timer :: bool   \<comment> \<open>without a timer the board restarts at once\<close>
  fs_begins :: bool
  fs_written :: nat
  fs_ends :: bool
  image_files :: "u8 list \<Rightarrow> fs"   \<comment> \<open>the files of a complete image\<close>
  torn_files :: "nat \<Rightarrow> u8 list \<Rightarrow> fs"   \<comment> \<open>what is left after a write that stopped\<close>
  reopens :: "string \<Rightarrow> bool"

text \<open>The flash timer: the files the board finds at the restart that ends it.\<close>

definition fs_self_flash :: "fs_flash_env \<Rightarrow> u8 list \<Rightarrow> (string \<times> string) list \<Rightarrow> fs \<Rightarrow> fs" where
  "fs_self_flash e buf kept files =
     (if \<not> fs_timer e \<or> \<not> fs_begins e then files
      else if fs_written e \<noteq> length buf then torn_files e (fs_written e) buf
      else if \<not> fs_ends e then torn_files e (length buf) buf
      else fold (\<lambda>(p, text) fs. if reopens e p then fs(p \<mapsto> text) else fs) kept (image_files e buf))"

section \<open>GitHub release\<close>

record release =
  rel_build :: int
  rel_tag :: string
  rel_url :: string
  rel_err :: string

record web_answer =
  wa_begins :: bool
  wa_code :: int
  wa_body :: string

definition no_release :: release where
  "no_release = \<lparr>rel_build = 0, rel_tag = [], rel_url = [], rel_err = []\<rparr>"

definition firmware_name :: "string \<Rightarrow> bool" where
  "firmware_name name \<longleftrightarrow> starts_with ''firmware-'' name \<and> ends_with ''.bin'' name"

definition release_asset :: "json list \<Rightarrow> release \<Rightarrow> release" where
  "release_asset assets r =
     (case filter (\<lambda>a. firmware_name (as_text (jget a ''name''))) assets of
        [] \<Rightarrow> r
      | a # _ \<Rightarrow>
          (let name = as_text (jget a ''name'') in
           r\<lparr>rel_build := atol (substring 9 (length name - 4) name), rel_url := as_text (jget a ''browser_download_url'')\<rparr>))"

definition fetchLatestRelease :: "(string \<Rightarrow> json option) \<Rightarrow> web_answer \<Rightarrow> release" where
  "fetchLatestRelease parse w =
     (if \<not> wa_begins w then no_release\<lparr>rel_err := ''connect failed''\<rparr>
      else if wa_code w \<noteq> 200 then no_release\<lparr>rel_err := ''HTTP '' @ dec_int (wa_code w)\<rparr>
      else case parse (wa_body w) of
        None \<Rightarrow> no_release\<lparr>rel_err := ''parse error''\<rparr>
      | Some doc \<Rightarrow>
          (let r = release_asset (elements (jget doc ''assets'')) (no_release\<lparr>rel_tag := as_text (jget doc ''tag_name'')\<rparr>)
           in if rel_build r = 0 then r\<lparr>rel_err := ''no firmware asset in latest release''\<rparr> else r))"

text \<open>The read loop: what it sees of the stream is a list of observations ended by the close of the
  connection. The results are the bytes missing and whether the download stalled.\<close>

fun download_loop :: "flash_event list \<Rightarrow> u32 \<Rightarrow> int \<Rightarrow> int \<times> bool \<times> flash_action list" where
  "download_loop [] lastData remaining = (remaining, False, [])"
| "download_loop (Data n t # evs) lastData remaining =
     (if remaining \<le> 0 then (remaining, False, [])
      else if n > 0 then
        (let (r, st, a) = download_loop evs t (remaining - n) in (r, st, UpdateWrite n # a))
      else download_loop evs lastData remaining)"
| "download_loop (Quiet t # evs) lastData remaining =
     (if remaining \<le> 0 then (remaining, False, [])
      else if t - lastData > 10000 then (remaining, True, [])
      else download_loop evs lastData remaining)"

record download_env =
  dl_connects :: bool
  dl_code :: int
  dl_size :: int
  dl_begins :: bool
  dl_ends :: bool
  dl_error :: string   \<comment> \<open>\<open>Update.errorString()\<close>\<close>

text \<open>\<open>Inr\<close> the bytes written, or \<open>Inl\<close> the error.\<close>

definition flashFirmwareFromUrl :: "download_env \<Rightarrow> u32 \<Rightarrow> flash_event list \<Rightarrow> (string + int) \<times> flash_action list" where
  "flashFirmwareFromUrl e t0 evs =
     (if \<not> dl_connects e then (Inl ''connect failed'', [])
      else if dl_code e \<noteq> 200 then (Inl (''HTTP '' @ dec_int (dl_code e)), [])
      else if dl_size e \<le> 0 then (Inl ''unknown content length'', [])
      else if \<not> dl_begins e then (Inl (dl_error e), [])
      else case download_loop evs t0 (dl_size e) of
        (remaining, stalled, a) \<Rightarrow>
          (let w = UpdateBegin (dl_size e) # a in
           if stalled then (Inl ''download stalled'', w @ [UpdateAbort])
           else if remaining > 0
             then (Inl (''incomplete ('' @ dec_int (dl_size e - remaining) @ ''/'' @ dec_int (dl_size e) @ '')''), w @ [UpdateAbort])
           else if \<not> dl_ends e then (Inl (dl_error e), w @ [UpdateEnd])
           else (Inr (dl_size e), w @ [UpdateEnd])))"

definition githubOtaTask ::
  "(string \<Rightarrow> json option) \<Rightarrow> web_answer \<Rightarrow> (string \<Rightarrow> download_env \<times> u32 \<times> flash_event list) \<Rightarrow> ota_outcome \<times> flash_action list" where
  "githubOtaTask parse w net =
     (let rel = fetchLatestRelease parse w in
      if rel_url rel = [] then (OtaIdle, [])
      else case net (rel_url rel) of
        (e, t0, evs) \<Rightarrow>
          (case flashFirmwareFromUrl e t0 evs of (Inr n, a) \<Rightarrow> (OtaRestart, a) | (Inl err, a) \<Rightarrow> (OtaIdle, a)))"

definition handleGithubCheck :: "(string \<Rightarrow> json option) \<Rightarrow> int \<Rightarrow> web_answer \<Rightarrow> json" where
  "handleGithubCheck parse FIRMWARE_BUILD w =
     (let rel = fetchLatestRelease parse w in
      JObj ([(''current'', JNum FIRMWARE_BUILD), (''latest'', JNum (rel_build rel)), (''version'', JStr (rel_tag rel)),
             (''updateAvailable'', JBool (rel_build rel > FIRMWARE_BUILD))]
            @ (if rel_err rel \<noteq> [] then [(''error'', JStr (rel_err rel))] else [])))"

definition handleGithubUpdate :: "bool \<Rightarrow> nat \<times> string" where
  "handleGithubUpdate task_created =
     (if task_created then (200, ''{\"ok\":true}'') else (500, ''Could not start update''))"

section \<open>Lemmas\<close>

lemma ota_chunk_ok:
  assumes "ota_chunk e c s = (s', a, True)"
  shows "ck_written c = length (ck_data c)" and "ck_final c \<Longrightarrow> ck_ends c"
    and "ck_index c = 0 \<Longrightarrow> snd (isAuthorized e (ck_cookie c) s) \<and> ck_begins c"
    and "written_bytes a = int (length (ck_data c))"
  using assms by (auto simp: ota_chunk_def Let_def split: if_splits prod.splits)

lemma ota_upload_ok:
  "ota_upload e cs s = (s', a, True) \<Longrightarrow>
     (\<forall>c \<in> set cs. ck_written c = length (ck_data c) \<and> (ck_final c \<longrightarrow> ck_ends c))
     \<and> written_bytes a = int (length (concat (map ck_data cs)))"
proof (induction cs arbitrary: s a)
  case (Cons c cs)
  obtain s1 b x where c: "ota_chunk e c s = (s1, b, x)" by (cases "ota_chunk e c s")
  obtain s2 d r where r: "ota_upload e cs s1 = (s2, d, r)" by (cases "ota_upload e cs s1")
  have x: x and a: "a = b @ d" "r" using Cons.prems c r by (auto split: bool.splits)
  have c': "ota_chunk e c s = (s1, b, True)" using c x by simp
  have r': "ota_upload e cs s1 = (s2, d, True)" using r a by simp
  have "s' = s2" using Cons.prems c' r' by simp
  with ota_chunk_ok [OF c'] Cons.IH [of s1 d] r' a show ?case by auto
qed simp

definition fs_ok :: "fs_ota \<Rightarrow> bool" where
  "fs_ok s \<longleftrightarrow> FS_PSRAM_BUFFER_LEN s < 2 ^ 31
     \<and> (case FS_PSRAM_BUFFER s of None \<Rightarrow> True
        | Some buf \<Rightarrow> length buf = unat (FS_PSRAM_BUFFER_LEN s) \<and> FS_PSRAM_BUFFER_POS s \<le> FS_PSRAM_BUFFER_LEN s)"

lemma no_wrap_31:
  assumes "(p :: u32) < 2 ^ 31" and "n < 2 ^ 31"
  shows "unat (p + word_of_nat n) = unat p + n"
proof -
  have "unat p < 2 ^ 31" using assms(1) by (simp add: word_less_nat_alt)
  then show ?thesis using assms(2) by (simp add: unat_word_ariths(1) unsigned_of_nat take_bit_nat_eq_self)
qed

lemma fs_ok_begin:
  assumes "\<forall>n b. alloc n = Some b \<longrightarrow> length b = n" and "len < 2 ^ 31"
  shows "fs_ok (fs_begin alloc len s)"
  using assms by (auto simp: fs_ok_def fs_begin_def word_less_nat_alt unsigned_of_nat take_bit_nat_eq_self split: option.split)

lemma fs_copy_inside:
  assumes "fs_ok s" and "length data < 2 ^ 31" and "FS_PSRAM_BUFFER s = Some buf"
  shows "FS_PSRAM_BUFFER_POS s + word_of_nat (length data) \<le> FS_PSRAM_BUFFER_LEN s
      \<longleftrightarrow> unat (FS_PSRAM_BUFFER_POS s) + length data \<le> length buf"
    and "unat (FS_PSRAM_BUFFER_POS s + word_of_nat (length data)) = unat (FS_PSRAM_BUFFER_POS s) + length data"
proof -
  have "FS_PSRAM_BUFFER_POS s < 2 ^ 31" using assms(1,3) by (auto simp: fs_ok_def)
  then show u: "unat (FS_PSRAM_BUFFER_POS s + word_of_nat (length data)) = unat (FS_PSRAM_BUFFER_POS s) + length data"
    using assms(2) by (rule no_wrap_31)
  show "FS_PSRAM_BUFFER_POS s + word_of_nat (length data) \<le> FS_PSRAM_BUFFER_LEN s
      \<longleftrightarrow> unat (FS_PSRAM_BUFFER_POS s) + length data \<le> length buf"
    using assms(1,3) by (simp add: word_le_nat_alt u fs_ok_def)
qed

lemma fs_ok_copy:
  assumes "fs_ok s" and "length data < 2 ^ 31"
  shows "fs_ok (fs_copy data s)"
proof (cases "FS_PSRAM_BUFFER s")
  case None
  with assms show ?thesis by (simp add: fs_copy_def fs_ok_def)
next
  case (Some buf)
  note f = fs_copy_inside [OF assms Some]
  show ?thesis using assms(1) Some f by (auto simp: fs_copy_def fs_ok_def Let_def)
qed

lemma fs_ok_chunk:
  assumes "\<forall>n b. alloc n = Some b \<longrightarrow> length b = n" and "ck_length c < 2 ^ 31" and "length (ck_data c) < 2 ^ 31"
    and "fs_ok (snd t)"
  shows "fs_ok (snd (fst (fs_chunk e alloc c t)))"
  using assms fs_ok_copy fs_ok_begin by (auto simp: fs_chunk_def Let_def split: prod.split)

text \<open>Chunks that follow the first one in order fill the buffer from where it stands.\<close>

lemma fs_fill:
  assumes "fs_ok b" and "FS_PSRAM_BUFFER b = Some buf" and "\<forall>c \<in> set cs. ck_index c \<noteq> 0"
    and "unat (FS_PSRAM_BUFFER_POS b) + length (concat (map ck_data cs)) \<le> length buf" and "length buf < 2 ^ 31"
  shows "\<exists>b'. fs_upload e alloc cs (s, b) = ((s, b'), True) \<and> FS_PSRAM_BUFFER_LEN b' = FS_PSRAM_BUFFER_LEN b
     \<and> FS_PSRAM_BUFFER b' = Some (take (unat (FS_PSRAM_BUFFER_POS b)) buf @ concat (map ck_data cs)
          @ drop (unat (FS_PSRAM_BUFFER_POS b) + length (concat (map ck_data cs))) buf)"
  using assms
proof (induction cs arbitrary: b buf)
  case Nil
  then show ?case by simp
next
  case (Cons c cs)
  let ?p = "unat (FS_PSRAM_BUFFER_POS b)" and ?d = "ck_data c"
  let ?buf = "take ?p buf @ ?d @ drop (?p + length ?d) buf"
  have d: "length ?d < 2 ^ 31" "?p + length ?d \<le> length buf" using Cons.prems(4,5) by simp_all
  note f = fs_copy_inside [OF Cons.prems(1) d(1) Cons.prems(2)]
  have st: "fs_chunk e alloc c (s, b) = ((s, fs_copy ?d b), True)" using Cons.prems(3) by (simp add: fs_chunk_def Let_def)
  have cp: "FS_PSRAM_BUFFER (fs_copy ?d b) = Some ?buf" "unat (FS_PSRAM_BUFFER_POS (fs_copy ?d b)) = ?p + length ?d"
    "FS_PSRAM_BUFFER_LEN (fs_copy ?d b) = FS_PSRAM_BUFFER_LEN b"
    using Cons.prems(2) d f by (simp_all add: fs_copy_def Let_def)
  have len: "length ?buf = length buf" using d by simp
  have "unat (FS_PSRAM_BUFFER_POS (fs_copy ?d b)) + length (concat (map ck_data cs)) \<le> length ?buf"
    unfolding cp(2) len using Cons.prems(4) by simp
  moreover have "\<forall>c \<in> set cs. ck_index c \<noteq> 0" "length ?buf < 2 ^ 31"
    unfolding len using Cons.prems(3,5) by simp_all
  ultimately obtain b' where b': "fs_upload e alloc cs (s, fs_copy ?d b) = ((s, b'), True)"
    "FS_PSRAM_BUFFER_LEN b' = FS_PSRAM_BUFFER_LEN (fs_copy ?d b)"
    "FS_PSRAM_BUFFER b' = Some (take (?p + length ?d) ?buf @ concat (map ck_data cs)
          @ drop (?p + length ?d + length (concat (map ck_data cs))) ?buf)"
    using Cons.IH [OF fs_ok_copy [OF Cons.prems(1) d(1)] cp(1)] unfolding cp(2) by blast
  then show ?case using d by (simp add: st cp(3) ac_simps)
qed

definition kept_one :: "(string \<Rightarrow> bool) \<Rightarrow> fs \<Rightarrow> string \<Rightarrow> (string \<times> string) option" where
  "kept_one keeps files p = (case files p of Some t \<Rightarrow> if keeps p then Some (p, t) else None | None \<Rightarrow> None)"

lemma preserve_acc:
  "preserve keeps files ps kept = (let new = List.map_filter (kept_one keeps files) ps
     in if length kept + length new \<le> 4 \<or> new = [] then Some (kept @ new) else None)"
  by (induction keeps files ps kept rule: preserve.induct) (auto simp: Let_def List.map_filter_simps kept_one_def split: option.splits)

definition kept_files :: "(string \<Rightarrow> bool) \<Rightarrow> fs \<Rightarrow> (string \<times> string) list" where
  "kept_files keeps files =
     List.map_filter (kept_one keeps files) PRESERVE"

lemma restore_fold:
  "distinct (map fst kept) \<Longrightarrow>
     fold (\<lambda>(p, text) fs. if r p then fs(p \<mapsto> text) else fs) kept (fs0 :: fs) q =
       (case map_of kept q of Some t \<Rightarrow> if r q then Some t else fs0 q | None \<Rightarrow> fs0 q)"
proof (induction kept arbitrary: fs0)
  case (Cons x kept)
  then have "map_of kept (fst x) = None" by (simp add: map_of_eq_None_iff)
  with Cons show ?case by (cases x) (auto split: option.split)
qed simp

lemma download_written:
  "case download_loop evs t rem of (r, st, a) \<Rightarrow> written_bytes a = rem - r \<and> UpdateAbort \<notin> set a \<and> UpdateEnd \<notin> set a
     \<and> (st \<longrightarrow> r > 0)"
proof (induction evs t rem rule: download_loop.induct)
  case (2 n t evs lastData remaining)
  obtain r st a where "download_loop evs t (remaining - n) = (r, st, a)" by (cases "download_loop evs t (remaining - n)")
  with 2 show ?case by (cases "0 < n") (auto simp: Let_def)
qed simp_all

lemma kept_lookup:
  shows "distinct ps \<Longrightarrow> distinct (map fst (List.map_filter (kept_one keeps files) ps))"
    and "map_of (List.map_filter (kept_one keeps files) ps) p = (if p \<in> set ps \<and> keeps p then files p else None)"
    and "set (map fst (List.map_filter (kept_one keeps files) ps)) \<subseteq> set ps"
proof -
  show sub: "set (map fst (List.map_filter (kept_one keeps files) ps)) \<subseteq> set ps" for ps
    by (induction ps) (auto simp: List.map_filter_simps kept_one_def split: option.splits if_splits)
  show "distinct ps \<Longrightarrow> distinct (map fst (List.map_filter (kept_one keeps files) ps))"
  proof (induction ps)
    case (Cons q ps)
    have "q \<notin> set (map fst (List.map_filter (kept_one keeps files) ps))" using Cons.prems sub [of ps] by auto
    with Cons show ?case by (simp add: List.map_filter_simps kept_one_def [of keeps files q] split: option.split)
  qed (simp add: List.map_filter_simps)
  show "map_of (List.map_filter (kept_one keeps files) ps) p = (if p \<in> set ps \<and> keeps p then files p else None)"
    by (induction ps) (auto simp: List.map_filter_simps kept_one_def split: option.split)
qed

lemma preserve_kept:
  "preserve keeps files PRESERVE [] = (if length (kept_files keeps files) \<le> 4 then Some (kept_files keeps files) else None)"
  by (auto simp: preserve_acc kept_files_def Let_def)

lemma fs_first_chunk:
  assumes "ck_index c = 0" and "snd (isAuthorized e (ck_cookie c) s)"
  shows "fs_upload e alloc (c # cs) (s, b) =
     fs_upload e alloc (c\<lparr>ck_index := 1\<rparr> # cs) (fst (isAuthorized e (ck_cookie c) s), fs_begin alloc (ck_length c) b)"
  using assms by (simp add: fs_chunk_def Let_def case_prod_beta)

text \<open>A board with a login, an upload of three bytes in two chunks, and an allocator that gives zeros.\<close>

definition up_env :: admin_env where
  "up_env = \<lparr>sha256 = (\<lambda>_. []), ADMIN_PASSWORD = ''pw'', parse_body = (\<lambda>_. None)\<rparr>"

definition up_auth :: admin_auth where
  "up_auth = \<lparr>ADMIN_NONCES = [], ADMIN_FAILS = [], cookie_token = ''T''\<rparr>"

definition up_chunk :: "nat \<Rightarrow> u8 list \<Rightarrow> bool \<Rightarrow> string \<Rightarrow> chunk" where
  "up_chunk i data final cookie = \<lparr>ck_index = i, ck_data = data, ck_final = final, ck_cookie = cookie, ck_length = 3,
     ck_begins = True, ck_written = length data, ck_ends = True\<rparr>"

definition zeros :: "nat \<Rightarrow> u8 list option" where "zeros n = Some (replicate n 0)"

lemma up_login: "snd (isAuthorized up_env ''ellafi_admin=T'' up_auth)" "\<not> snd (isAuthorized up_env [] up_auth)"
  by code_simp+

section \<open>Properties\<close>

text \<open>A firmware upload needs a login and a whole image. When the request does not carry the cookie of
  a login, nothing is done to the updater and the board does not restart; when the board restarts,
  the request was authorised, the updater began, every chunk was written in full and the end was
  accepted.\<close>
theorem upload_needs_login_and_image:
  assumes "ck_index c = 0"
  shows "(\<not> snd (isAuthorized e (ck_cookie c) s) \<longrightarrow> fst (snd (ota_upload e (c # cs) s)) = [] \<and> \<not> snd (snd (ota_upload e (c # cs) s)))
    \<and> (snd (snd (ota_upload e (c # cs) s)) \<longrightarrow>
        snd (isAuthorized e (ck_cookie c) s) \<and> ck_begins c
        \<and> (\<forall>d \<in> set (c # cs). ck_written d = length (ck_data d) \<and> (ck_final d \<longrightarrow> ck_ends d))
        \<and> written_bytes (fst (snd (ota_upload e (c # cs) s))) = int (length (concat (map ck_data (c # cs)))))"
proof -
  obtain s' a r where u: "ota_upload e (c # cs) s = (s', a, r)" by (cases "ota_upload e (c # cs) s")
  have "\<not> snd (isAuthorized e (ck_cookie c) s) \<Longrightarrow> ota_chunk e c s = (fst (isAuthorized e (ck_cookie c) s), [], False)"
    using assms by (simp add: ota_chunk_def Let_def case_prod_beta)
  then have refused: "\<not> snd (isAuthorized e (ck_cookie c) s) \<Longrightarrow> a = [] \<and> \<not> r" using u by simp
  moreover have "snd (isAuthorized e (ck_cookie c) s) \<and> ck_begins c" if r
  proof -
    obtain s1 b x where k: "ota_chunk e c s = (s1, b, x)" by (cases "ota_chunk e c s")
    then have x using u that by (auto split: bool.splits)
    with k have "ota_chunk e c s = (s1, b, True)" by simp
    from ota_chunk_ok(3) [OF this assms] show ?thesis .
  qed
  ultimately show ?thesis using ota_upload_ok [of e "c # cs" s s' a] u by auto
qed

theorem upload_needs_login_and_image_witness:
  "fst (snd (ota_upload up_env [up_chunk 0 [1, 2] False [], up_chunk 2 [3] True []] up_auth)) = []
   \<and> written_bytes (fst (snd (ota_upload up_env [up_chunk 0 [1, 2] False ''ellafi_admin=T'', up_chunk 2 [3] True []] up_auth))) = 3"
proof -
  have i: "ck_index (up_chunk 0 d f k) = 0" and k: "ck_cookie (up_chunk 0 d f k) = k" for d f k by (simp_all add: up_chunk_def)
  have r: "snd (snd (ota_upload up_env [up_chunk 0 [1, 2] False ''ellafi_admin=T'', up_chunk 2 [3] True []] up_auth))"
    using up_login(1) by (simp add: ota_chunk_def up_chunk_def Let_def case_prod_beta)
  show ?thesis
    using upload_needs_login_and_image [OF i, of up_env "[1, 2]" False "[]" up_auth "[up_chunk 2 [3] True []]"] up_login(2)
      upload_needs_login_and_image [OF i, of up_env "[1, 2]" False "''ellafi_admin=T''" up_auth "[up_chunk 2 [3] True []]"] r
    by (simp add: k) (simp add: up_chunk_def)
qed

text \<open>C28: The image buffer is never overrun. Whatever chunks an upload brings, in any number and order,
  also beyond the announced length and across several uploads, the write position stays inside the
  buffer, the buffer keeps the length that was allocated, and the 32-bit position does not wrap.\<close>
theorem fs_buffer_bounded:
  assumes "\<forall>n b. alloc n = Some b \<longrightarrow> length b = n"
    and "\<forall>c \<in> set cs. ck_length c < 2 ^ 31 \<and> length (ck_data c) < 2 ^ 31" and "fs_ok b"
    and "fs_upload e alloc cs (s, b) = ((s', b'), r)"
  shows "FS_PSRAM_BUFFER b' = Some buf \<longrightarrow>
    length buf = unat (FS_PSRAM_BUFFER_LEN b') \<and> unat (FS_PSRAM_BUFFER_POS b') \<le> length buf"
proof -
  have "fs_ok b'"
    using assms(2-4)
  proof (induction cs arbitrary: s b)
    case (Cons c cs)
    obtain t x where k: "fs_chunk e alloc c (s, b) = (t, x)" by fastforce
    have "fs_ok (snd t)" using fs_ok_chunk [OF assms(1), of c "(s, b)" e] Cons.prems k by simp
    with Cons k show ?case by (cases x; cases t) auto
  qed simp
  then show ?thesis by (auto simp: fs_ok_def word_le_nat_alt)
qed

theorem fs_buffer_bounded_witness:
  "case FS_PSRAM_BUFFER (snd (fst (fs_upload up_env zeros [up_chunk 0 [1, 2] False ''ellafi_admin=T'', up_chunk 2 [3, 4] True []] (up_auth, no_fs_ota)))) of
     None \<Rightarrow> True | Some buf \<Rightarrow> length buf = unat (FS_PSRAM_BUFFER_LEN (snd (fst (fs_upload up_env zeros
       [up_chunk 0 [1, 2] False ''ellafi_admin=T'', up_chunk 2 [3, 4] True []] (up_auth, no_fs_ota)))))"
proof -
  let ?u = "fs_upload up_env zeros [up_chunk 0 [1, 2] False ''ellafi_admin=T'', up_chunk 2 [3, 4] True []] (up_auth, no_fs_ota)"
  have "?u = ((fst (fst ?u), snd (fst ?u)), snd ?u)" by simp
  from fs_buffer_bounded [OF _ _ _ this] show ?thesis
    by (simp add: zeros_def up_chunk_def fs_ok_def no_fs_ota_def split: option.split)
qed

text \<open>A file system update keeps the board's own files. When an authorised upload brings exactly the
  announced number of bytes and at most four of the five files can be read, what is flashed is the
  image as it was sent, and after the restart every file that was read has its old content and
  every other file is that of the image.\<close>
theorem fs_update_keeps_files:
  assumes "\<forall>n b. alloc n = Some b \<longrightarrow> length b = n" and "alloc (ck_length c) \<noteq> None"
    and "ck_index c = 0" and "\<forall>d \<in> set cs. ck_index d \<noteq> 0" and "snd (isAuthorized e (ck_cookie c) s)"
    and "length (concat (map ck_data (c # cs))) = ck_length c" and "0 < ck_length c" and "ck_length c < 2 ^ 31"
    and "length (kept_files keeps files) \<le> 4"
    and "fs_timer fe" and "fs_begins fe" and "fs_written fe = ck_length c" and "fs_ends fe" and "\<forall>p. reopens fe p"
  shows "\<exists>t b'. fs_upload e alloc (c # cs) (s, b) = ((t, b'), True)
    \<and> snd (fs_onRequest keeps files b') = FsFlash (concat (map ck_data (c # cs))) (kept_files keeps files)
    \<and> fs_self_flash fe (concat (map ck_data (c # cs))) (kept_files keeps files) files p
        = (if p \<in> set PRESERVE \<and> files p \<noteq> None \<and> keeps p then files p
           else image_files fe (concat (map ck_data (c # cs))) p)"
proof -
  let ?b = "fs_begin alloc (ck_length c) b" and ?cs = "c\<lparr>ck_index := 1\<rparr> # cs" and ?img = "concat (map ck_data (c # cs))"
  obtain buf where buf: "alloc (ck_length c) = Some buf" and len: "length buf = ck_length c"
    using assms(1,2) by auto
  have b: "FS_PSRAM_BUFFER ?b = Some buf" "unat (FS_PSRAM_BUFFER_POS ?b) = 0"
    and l: "FS_PSRAM_BUFFER_LEN ?b = word_of_nat (ck_length c)" by (simp_all add: fs_begin_def buf)
  have cs: "concat (map ck_data ?cs) = ?img" by simp
  have "\<exists>b'. fs_upload e alloc ?cs (fst (isAuthorized e (ck_cookie c) s), ?b) = ((fst (isAuthorized e (ck_cookie c) s), b'), True)
     \<and> FS_PSRAM_BUFFER_LEN b' = FS_PSRAM_BUFFER_LEN ?b
     \<and> FS_PSRAM_BUFFER b' = Some (take 0 buf @ concat (map ck_data ?cs) @ drop (0 + length (concat (map ck_data ?cs))) buf)"
    unfolding b(2) [symmetric]
    by (rule fs_fill [OF fs_ok_begin [OF assms(1,8)] b(1)]) (use assms(4,6,8) len b(2) in simp_all)
  then obtain t b' where up: "fs_upload e alloc (c # cs) (s, b) = ((t, b'), True)"
    and len': "FS_PSRAM_BUFFER_LEN b' = word_of_nat (ck_length c)" and buf': "FS_PSRAM_BUFFER b' = Some ?img"
    unfolding fs_first_chunk [OF assms(3,5)] cs l using assms(6) len by auto
  have "unat (word_of_nat (ck_length c) :: u32) = ck_length c" using assms(8) by (simp add: unsigned_of_nat take_bit_nat_eq_self)
  then have "(word_of_nat (ck_length c) :: u32) \<noteq> 0" using assms(7) by (metis unat_0 less_irrefl)
  then have req: "snd (fs_onRequest keeps files b') = FsFlash ?img (kept_files keeps files)"
    using assms(9) by (simp add: fs_onRequest_def buf' len' preserve_kept)
  have "distinct PRESERVE" by (simp add: PRESERVE_def)
  then have "distinct (map fst (kept_files keeps files))" unfolding kept_files_def by (rule kept_lookup(1))
  note restored = restore_fold [OF this, of "reopens fe" "image_files fe ?img" p]
  have "map_of (kept_files keeps files) p = (if p \<in> set PRESERVE \<and> keeps p then files p else None)"
    unfolding kept_files_def by (rule kept_lookup(2))
  then have "fs_self_flash fe ?img (kept_files keeps files) files p
      = (if p \<in> set PRESERVE \<and> files p \<noteq> None \<and> keeps p then files p else image_files fe ?img p)"
    using assms(6,10-14) restored by (simp add: fs_self_flash_def split: option.split)
  with up req show ?thesis by blast
qed

definition up_flash :: fs_flash_env where
  "up_flash = \<lparr>fs_timer = True, fs_begins = True, fs_written = 3, fs_ends = True, image_files = (\<lambda>_. [''/config.json'' \<mapsto> ''new'']),
     torn_files = (\<lambda>_ _. Map.empty), reopens = (\<lambda>_. True)\<rparr>"

theorem fs_update_keeps_files_witness:
  "fs_self_flash up_flash [1, 2, 3] (kept_files (\<lambda>_. True) [''/config.json'' \<mapsto> ''old'']) [''/config.json'' \<mapsto> ''old''] ''/config.json'' = Some ''old''"
proof -
  have k: "length (kept_files (\<lambda>_. True) [''/config.json'' \<mapsto> ''old'']) \<le> 4"
    by (simp add: kept_files_def PRESERVE_def List.map_filter_simps kept_one_def)
  have "\<exists>t b'. fs_upload up_env zeros [up_chunk 0 [1, 2] False ''ellafi_admin=T'', up_chunk 2 [3] True []] (up_auth, no_fs_ota) = ((t, b'), True)
    \<and> snd (fs_onRequest (\<lambda>_. True) [''/config.json'' \<mapsto> ''old''] b') = FsFlash (concat (map ck_data [up_chunk 0 [1, 2] False ''ellafi_admin=T'', up_chunk 2 [3] True []]))
        (kept_files (\<lambda>_. True) [''/config.json'' \<mapsto> ''old''])
    \<and> fs_self_flash up_flash (concat (map ck_data [up_chunk 0 [1, 2] False ''ellafi_admin=T'', up_chunk 2 [3] True []]))
        (kept_files (\<lambda>_. True) [''/config.json'' \<mapsto> ''old'']) [''/config.json'' \<mapsto> ''old''] ''/config.json''
        = (if ''/config.json'' \<in> set PRESERVE \<and> [''/config.json'' \<mapsto> ''old''] ''/config.json'' \<noteq> None \<and> (\<lambda>_. True) ''/config.json''
           then [''/config.json'' \<mapsto> ''old''] ''/config.json''
           else image_files up_flash (concat (map ck_data [up_chunk 0 [1, 2] False ''ellafi_admin=T'', up_chunk 2 [3] True []])) ''/config.json'')"
    by (rule fs_update_keeps_files) (use k up_login(1) in \<open>simp_all add: zeros_def up_chunk_def up_flash_def\<close>)
  then show ?thesis by (elim exE conjE) (simp add: up_chunk_def PRESERVE_def)
qed

text \<open>The backup overruns its array exactly when all five files are there. With the configuration, the
  sale log and the error, refund and activity logs all present and readable, which is the normal
  state of a board in service, the fifth entry is written past the end of an array of four.\<close>
theorem fs_backup_overrun_iff:
  assumes "FS_PSRAM_BUFFER b = Some buf" and "FS_PSRAM_BUFFER_LEN b \<noteq> 0"
  shows "snd (fs_onRequest keeps files b) = FsOverrun \<longleftrightarrow> (\<forall>p \<in> set PRESERVE. files p \<noteq> None \<and> keeps p)"
proof -
  have "4 < length (kept_files keeps files) \<longleftrightarrow> (\<forall>p \<in> set PRESERVE. files p \<noteq> None \<and> keeps p)"
    by (simp add: kept_files_def PRESERVE_def List.map_filter_simps kept_one_def split: option.split)
  then show ?thesis using assms by (auto simp: fs_onRequest_def preserve_kept)
qed

theorem fs_backup_overrun_iff_witness:
  "snd (fs_onRequest (\<lambda>_. True) (\<lambda>p. Some ''x'') \<lparr>FS_PSRAM_BUFFER = Some [1], FS_PSRAM_BUFFER_LEN = 1, FS_PSRAM_BUFFER_POS = 1\<rparr>) = FsOverrun
   \<and> snd (fs_onRequest (\<lambda>_. True) Map.empty \<lparr>FS_PSRAM_BUFFER = Some [1], FS_PSRAM_BUFFER_LEN = 1, FS_PSRAM_BUFFER_POS = 1\<rparr>) \<noteq> FsOverrun"
proof -
  let ?b = "\<lparr>FS_PSRAM_BUFFER = Some [1], FS_PSRAM_BUFFER_LEN = 1, FS_PSRAM_BUFFER_POS = 1\<rparr> :: fs_ota"
  have "FS_PSRAM_BUFFER ?b = Some [1]" "FS_PSRAM_BUFFER_LEN ?b \<noteq> 0" by simp_all
  note f = fs_backup_overrun_iff [OF this]
  show ?thesis using f [of "\<lambda>_. True" "\<lambda>p. Some ''x''"] f [of "\<lambda>_. True" Map.empty] by (auto simp: PRESERVE_def)
qed

text \<open>An update from GitHub is all or nothing. The board restarts exactly when a release with an asset
  was found, the announced number of bytes (at least) arrived and was written, and the updater
  accepted the end; a download that stalls or breaks off is aborted.\<close>
theorem github_restarts_iff_flashed:
  assumes "net (rel_url (fetchLatestRelease parse w)) = (e, t0, evs)" and "githubOtaTask parse w net = (out, a)"
  shows "(out = OtaRestart \<longleftrightarrow> rel_url (fetchLatestRelease parse w) \<noteq> []
      \<and> dl_connects e \<and> dl_code e = 200 \<and> 0 < dl_size e \<and> dl_begins e \<and> dl_ends e \<and> dl_size e \<le> written_bytes a)
    \<and> (UpdateBegin (dl_size e) \<in> set a \<longrightarrow> last a = UpdateAbort \<or> last a = UpdateEnd)"
proof -
  obtain r st b where d: "download_loop evs t0 (dl_size e) = (r, st, b)" by (cases "download_loop evs t0 (dl_size e)")
  have b: "written_bytes b = dl_size e - r" "st \<longrightarrow> r > 0" using download_written [of "dl_size e" evs t0] d by simp_all
  show ?thesis
    using assms b by (auto simp: githubOtaTask_def flashFirmwareFromUrl_def d Let_def split: if_splits)
qed

definition gh_parse :: "string \<Rightarrow> json option" where
  "gh_parse t = Some (JObj [(''tag_name'', JStr ''v7''), (''assets'', JArr [JObj [(''name'', JStr ''firmware-7.bin''), (''browser_download_url'', JStr ''u'')]])])"

definition gh_net :: "flash_event list \<Rightarrow> string \<Rightarrow> download_env \<times> u32 \<times> flash_event list" where
  "gh_net evs url = (\<lparr>dl_connects = True, dl_code = 200, dl_size = 1500, dl_begins = True, dl_ends = True, dl_error = []\<rparr>, 0, evs)"

theorem github_restarts_iff_flashed_witness:
  "fst (githubOtaTask gh_parse \<lparr>wa_begins = True, wa_code = 200, wa_body = []\<rparr> (gh_net [Data 1024 5, Quiet 900, Data 476 1000])) = OtaRestart
   \<and> fst (githubOtaTask gh_parse \<lparr>wa_begins = True, wa_code = 200, wa_body = []\<rparr> (gh_net [Data 1024 5, Quiet 20000, Data 476 20001])) \<noteq> OtaRestart"
proof -
  let ?w = "\<lparr>wa_begins = True, wa_code = 200, wa_body = []\<rparr> :: web_answer"
  have u: "rel_url (fetchLatestRelease gh_parse ?w) = ''u''" by code_simp
  let ?a = "githubOtaTask gh_parse ?w (gh_net [Data 1024 5, Quiet 900, Data 476 1000])"
  let ?b = "githubOtaTask gh_parse ?w (gh_net [Data 1024 5, Quiet 20000, Data 476 20001])"
  have a: "written_bytes (snd ?a) = 1500" and b: "written_bytes (snd ?b) = 1024" by code_simp+
  have n: "gh_net evs (rel_url (fetchLatestRelease gh_parse ?w)) =
      (\<lparr>dl_connects = True, dl_code = 200, dl_size = 1500, dl_begins = True, dl_ends = True, dl_error = []\<rparr>, 0, evs)" for evs
    by (simp add: gh_net_def)
  show ?thesis
    using github_restarts_iff_flashed [where net = "gh_net [Data 1024 5, Quiet 900, Data 476 1000]" and out = "fst ?a" and a = "snd ?a", OF n]
      github_restarts_iff_flashed [where net = "gh_net [Data 1024 5, Quiet 20000, Data 476 20001]" and out = "fst ?b" and a = "snd ?b", OF n] a b u
    by simp
qed

end
