(* ===== verification/AdminPages.thy ===== *)
theory AdminPages
  imports LogBuffer Files Calendar
begin

text \<open>
  The diagnostic pages of the admin (\<open>src/web.cpp\<close>): the refund and error logs as text, the client
  activity as JSON, the log ring page by page, the open sockets, and the history of resources,
  which keeps the worst moment of every ten minutes in a ring of 144 buckets. A page that reads a
  file is given the lines of the file, if it exists and opens.
\<close>

datatype page = Page (page_code: nat) (page_body: string)

text \<open>A file as a page finds it: absent, not to be opened, or its lines.\<close>

datatype log_file = NoFile | Unopened | Lines "string list"

definition trimmed_lines :: "string list \<Rightarrow> string list" where
  "trimmed_lines ls = filter (\<lambda>l. l \<noteq> []) (map trim ls)"

section \<open>Refund and error log\<close>

definition pad2 :: "nat \<Rightarrow> string" where "pad2 n = (if n < 10 then ''0'' @ dec n else dec n)"

definition pad4 :: "nat \<Rightarrow> string" where
  "pad4 n = (if n < 10 then ''000'' @ dec n else if n < 100 then ''00'' @ dec n else if n < 1000 then ''0'' @ dec n else dec n)"

text \<open>\<open>strftime\<close> with \<open>%Y-%m-%d %H:%M:%S\<close>, for the years of a 32-bit \<open>long\<close>.\<close>

definition formatTimestamp :: "int \<Rightarrow> string" where
  "formatTimestamp ts =
     (case gmdate (ts div 86400) of (y, m, d) \<Rightarrow>
        let s = nat (ts mod 86400) in
        pad4 (nat y) @ ''-'' @ pad2 m @ ''-'' @ pad2 (nat d) @ '' ''
        @ pad2 (s div 3600) @ '':'' @ pad2 (s div 60 mod 60) @ '':'' @ pad2 (s mod 60))"

definition refund_line :: "json \<Rightarrow> string" where
  "refund_line doc =
     formatTimestamp (int_or 0 (jget doc ''ts'')) @ ''  '' @ str_or ''?'' (jget doc ''mac'')
     @ ''  '' @ dec_int (int_or 0 (jget doc ''coins'')) @ '' coin(s)''
     @ '' / '' @ dec_int (int_or 0 (jget doc ''minutes'')) @ '' min''
     @ ''  Code: '' @ str_or ''?'' (jget doc ''code'') @ NL"

definition readable :: "(string \<Rightarrow> json option) \<Rightarrow> string list \<Rightarrow> json list" where
  "readable parse ls = List.map_filter parse ls"

definition handleRefunds :: "(string \<Rightarrow> json option) \<Rightarrow> log_file \<Rightarrow> page" where
  "handleRefunds parse f =
     (case f of
        NoFile \<Rightarrow> Page 200 ''No refunds logged.''
      | Unopened \<Rightarrow> Page 500 ''Could not open refunds.log''
      | Lines ls \<Rightarrow> Page 200 (''REFUNDS'' @ NL @ ''======='' @ NL
          @ concat (map refund_line (readable parse (trimmed_lines ls)))))"

abbreviation MAX_SHOW :: nat where "MAX_SHOW \<equiv> 200"

text \<open>\<open>doc["ms"] | 0UL\<close>.\<close>

fun ulong_or :: "int \<Rightarrow> json \<Rightarrow> int" where
  "ulong_or d (JNum n) = (if 0 \<le> n \<and> n < 2 ^ 32 then n else d)"
| "ulong_or d _ = d"

definition error_line :: "json \<Rightarrow> string" where
  "error_line doc =
     (let ts = int_or 0 (jget doc ''ts'') in
      (if ts < NTP_EPOCH_MIN then ''(boot +'' @ dec_int (ulong_or 0 (jget doc ''ms'') div 1000) @ ''s)      ''
       else formatTimestamp ts)
      @ ''  ['' @ str_or ''?'' (jget doc ''tag'') @ '']  '' @ str_or ''?'' (jget doc ''msg'') @ NL)"

text \<open>The second pass: the first \<open>skip\<close> lines that are not empty are counted and passed over.\<close>

fun errors_from :: "nat \<Rightarrow> nat \<Rightarrow> string list \<Rightarrow> string list" where
  "errors_from skip idx [] = []"
| "errors_from skip idx (l # ls) =
     (if trim l = [] then errors_from skip idx ls
      else if idx < skip then errors_from skip (Suc idx) ls
      else trim l # errors_from skip (Suc idx) ls)"

definition handleErrors :: "(string \<Rightarrow> json option) \<Rightarrow> log_file \<Rightarrow> page" where
  "handleErrors parse f =
     (case f of
        NoFile \<Rightarrow> Page 200 ''No errors logged.''
      | Unopened \<Rightarrow> Page 500 ''Could not open errors.log''
      | Lines ls \<Rightarrow>
          (let total = length (filter (\<lambda>l. trim l \<noteq> []) ls); skip = (if total > MAX_SHOW then total - MAX_SHOW else 0)
           in Page 200 (''ERRORS'' @ NL @ ''======'' @ NL
                @ (if skip \<noteq> 0 then ''(showing last '' @ dec MAX_SHOW @ '' of '' @ dec total @ '')'' @ NL else [])
                @ concat (map error_line (readable parse (errors_from skip 0 ls))))))"

section \<open>Client activity\<close>

abbreviation ACTIVITY_MAX :: nat where "ACTIVITY_MAX \<equiv> 200"

definition activity_push :: "string \<Rightarrow> string list \<times> nat \<times> nat \<Rightarrow> string list \<times> nat \<times> nat" where
  "activity_push line t =
     (let (ring, head, n) = t in
      (ring[head := line], Suc head mod ACTIVITY_MAX, if n < ACTIVITY_MAX then Suc n else n))"

fun join_comma :: "string list \<Rightarrow> string" where
  "join_comma [] = []"
| "join_comma [s] = s"
| "join_comma (s # ss) = s @ '','' @ join_comma ss"

definition activity_out :: "string list \<times> nat \<times> nat \<Rightarrow> string" where
  "activity_out t =
     (let (ring, head, n) = t
      in ''['' @ join_comma (map (\<lambda>i. ring ! (nat ((int head - 1 - int i + 2 * int ACTIVITY_MAX) mod int ACTIVITY_MAX))) [0..<n]) @ '']'')"

definition handleActivity :: "log_file \<Rightarrow> page" where
  "handleActivity f =
     (case f of
        NoFile \<Rightarrow> Page 200 ''[]''
      | Unopened \<Rightarrow> Page 500 ''Could not open activity.log''
      | Lines ls \<Rightarrow> Page 200 (activity_out (fold activity_push (trimmed_lines ls) (replicate ACTIVITY_MAX [], 0, 0))))"

section \<open>Log ring\<close>

abbreviation BATCH :: nat where "BATCH \<equiv> 50"

definition log_entry_json :: "log_entry \<Rightarrow> json" where
  "log_entry_json e =
     JObj [(''seq'', JNum (uint (le_seq e))), (''ms'', JNum (uint (le_uptimeMs e))), (''ts'', JNum (le_ts e)),
           (''level'', JStr [le_level e]), (''tag'', JStr (le_tag e)), (''msg'', JStr (le_msg e))]"

text \<open>\<open>since\<close>: the parameter; \<open>locked1\<close> and \<open>locked2\<close>: the two takes of the log's mutex; \<open>writes\<close>:
  what other tasks log between them. \<open>None\<close> is the reply 500 without memory.\<close>

definition handleAdminLog ::
  "string option \<Rightarrow> bool \<Rightarrow> bool \<Rightarrow> bool \<Rightarrow> log_write list \<Rightarrow> log_buffer \<Rightarrow> json option" where
  "handleAdminLog since memory locked1 locked2 writes b =
     (let sinceSeq = (case since of None \<Rightarrow> 0 | Some s \<Rightarrow> word_of_int (atol s)) in
      if \<not> memory then None
      else Some (JObj [(''seq'', JNum (uint (logBufferLastSeq locked2 (fold write_one writes b)))),
                       (''entries'', JArr (map log_entry_json (logBufferSnapshot locked1 BATCH sinceSeq b)))]))"

fun json_number :: "json \<Rightarrow> int" where
  "json_number (JNum n) = n"
| "json_number _ = 0"

text \<open>The page's poll (\<open>web/admin.html\<close>, \<open>pollDevLog\<close>): the entries it shows, which are those above the
  level V, and its next \<open>since\<close>.\<close>

definition shown_entry :: "json \<Rightarrow> bool" where
  "shown_entry e \<longleftrightarrow> jget e ''level'' \<noteq> JStr ''V''"

definition pollDevLog :: "int \<Rightarrow> (string \<Rightarrow> json option) \<Rightarrow> json list \<times> int" where
  "pollDevLog since server =
     (case server (dec_int since) of
        None \<Rightarrow> ([], since)
      | Some d \<Rightarrow> if elements (jget d ''entries'') = [] then ([], since)
                  else (filter shown_entry (elements (jget d ''entries'')), json_number (jget d ''seq'')))"

section \<open>Sockets\<close>

definition handleAdminSockets :: "nat \<Rightarrow> (int \<times> string \<times> bool) list \<Rightarrow> json" where
  "handleAdminSockets max_open_sockets clients =
     (let nWs = length (filter (\<lambda>(fd, ip, ws). ws) clients) in
      JObj [(''max'', JNum (int max_open_sockets)),
            (''sockets'', JArr (map (\<lambda>(fd, ip, ws). JObj [(''fd'', JNum fd), (''ip'', JStr ip), (''ws'', JBool ws)]) clients)),
            (''count'', JNum (int (length clients))), (''ws'', JNum (int nWs)),
            (''http'', JNum (int (length clients) - int nWs))])"

section \<open>Resources\<close>

record res_bucket =
  rb_t :: u32
  rb_dram :: u32
  rb_psram :: u32
  rb_sock :: u16

abbreviation RES_N :: nat where "RES_N \<equiv> 144"
abbreviation RES_BUCKET_MILLIS :: u32 where "RES_BUCKET_MILLIS \<equiv> 600000"

record res_history =
  RES_RING :: "res_bucket list"
  RES_HEAD :: nat
  RES_COUNT :: nat
  RES_ACC_DRAM :: u32
  RES_ACC_PSRAM :: u32
  RES_ACC_SOCK :: u16
  RES_ACC_DIRTY :: bool
  RES_BUCKET_START :: u32

definition no_resources :: res_history where
  "no_resources = \<lparr>RES_RING = replicate RES_N \<lparr>rb_t = 0, rb_dram = 0, rb_psram = 0, rb_sock = 0\<rparr>, RES_HEAD = 0, RES_COUNT = 0,
     RES_ACC_DRAM = - 1, RES_ACC_PSRAM = - 1, RES_ACC_SOCK = 0, RES_ACC_DIRTY = False, RES_BUCKET_START = 0\<rparr>"

text \<open>A sample: what the board has free, its sockets, and the clocks.\<close>

record res_sample =
  sm_dram :: u32
  sm_psram :: u32
  sm_sock :: u16
  sm_millis :: u32
  sm_time :: int

definition res_commit :: "res_bucket \<Rightarrow> res_history \<Rightarrow> res_history" where
  "res_commit b r = r\<lparr>RES_RING := (RES_RING r)[RES_HEAD r := b], RES_HEAD := Suc (RES_HEAD r) mod RES_N,
     RES_COUNT := (if RES_COUNT r < RES_N then Suc (RES_COUNT r) else RES_COUNT r)\<rparr>"

definition res_fold :: "res_sample \<Rightarrow> res_history \<Rightarrow> res_history" where
  "res_fold x r = r\<lparr>RES_ACC_DRAM := (if sm_dram x < RES_ACC_DRAM r then sm_dram x else RES_ACC_DRAM r),
     RES_ACC_PSRAM := (if sm_psram x < RES_ACC_PSRAM r then sm_psram x else RES_ACC_PSRAM r),
     RES_ACC_SOCK := (if sm_sock x > RES_ACC_SOCK r then sm_sock x else RES_ACC_SOCK r),
     RES_ACC_DIRTY := True,
     RES_BUCKET_START := (if RES_BUCKET_START r = 0 then sm_millis x else RES_BUCKET_START r)\<rparr>"

definition sampleResources :: "res_sample \<Rightarrow> res_history \<Rightarrow> res_history" where
  "sampleResources x r0 =
     (let r = res_fold x r0 in
      if sm_millis x - RES_BUCKET_START r \<ge> RES_BUCKET_MILLIS
      then (res_commit \<lparr>rb_t = word_of_int (sm_time x), rb_dram = RES_ACC_DRAM r, rb_psram = RES_ACC_PSRAM r, rb_sock = RES_ACC_SOCK r\<rparr> r)
             \<lparr>RES_ACC_DRAM := - 1, RES_ACC_PSRAM := - 1, RES_ACC_SOCK := 0, RES_ACC_DIRTY := False, RES_BUCKET_START := sm_millis x\<rparr>
      else r)"

definition bucket_json :: "res_bucket \<Rightarrow> json" where
  "bucket_json b = JObj [(''t'', JNum (sint (rb_t b))), (''dram'', JNum (uint (rb_dram b))), (''psram'', JNum (uint (rb_psram b))),
     (''sock'', JNum (uint (rb_sock b)))]"

definition handleResources :: "nat \<Rightarrow> int \<Rightarrow> res_history \<Rightarrow> json" where
  "handleResources max_open_sockets now r =
     (let start = (RES_HEAD r + RES_N - RES_COUNT r) mod RES_N in
      JObj [(''maxSock'', JNum (int max_open_sockets)),
            (''samples'', JArr (map (\<lambda>i. bucket_json (RES_RING r ! ((start + i) mod RES_N))) [0..<RES_COUNT r]
               @ (if RES_ACC_DIRTY r
                  then [bucket_json \<lparr>rb_t = word_of_int now, rb_dram = RES_ACC_DRAM r, rb_psram = RES_ACC_PSRAM r, rb_sock = RES_ACC_SOCK r\<rparr>]
                  else [])))])"

section \<open>Lemmas\<close>

lemma decimal_dec_int: "decimal (dec_int (int n)) = int n"
proof -
  obtain c cs where d: "dec n = c # cs" using dec_digits(1) [of n] by (cases "dec n") auto
  then have c: "is_digit c" using dec_digits(2) [of n] by simp
  then have "\<not> is_space c" "c \<noteq> CHR ''-''" "c \<noteq> CHR ''+''" by (auto simp: is_digit_def is_space_def)
  then show ?thesis using digits_val_dec [of n] d by (simp add: decimal_def dec_int_def)
qed

lemma atol_dec_int: "int n < 2 ^ 31 \<Longrightarrow> atol (dec_int (int n)) = int n"
  by (simp add: atol_def decimal_dec_int)

lemma trimmed_skip: "errors_from skip idx ls = drop (skip - idx) (trimmed_lines ls)"
  by (induction skip idx ls rule: errors_from.induct) (auto simp: trimmed_lines_def Suc_diff_Suc drop_Cons')

lemma length_trimmed: "length (trimmed_lines ls) = length (filter (\<lambda>l. trim l \<noteq> []) ls)"
  by (induction ls) (simp_all add: trimmed_lines_def)

text \<open>The activity ring.\<close>

definition activity_contents :: "string list \<times> nat \<times> nat \<Rightarrow> string list" where
  "activity_contents t = (case t of (ring, head, n) \<Rightarrow> ring_window ring head n)"

definition activity_ok :: "string list \<times> nat \<times> nat \<Rightarrow> bool" where
  "activity_ok t = (case t of (ring, head, n) \<Rightarrow> ring_ok ACTIVITY_MAX ring head n)"

lemma count_min: "n \<le> cap \<Longrightarrow> (if n < cap then Suc n else n) = min cap (Suc n)"
  by simp

interpretation activity: recent_history ACTIVITY_MAX activity_push activity_contents activity_ok
proof unfold_locales
  fix t :: "string list \<times> nat \<times> nat" and x
  assume "activity_ok t"
  then obtain ring head n where t: "t = (ring, head, n)" and r: "ring_ok ACTIVITY_MAX ring head n"
    by (cases t) (simp add: activity_ok_def)
  then have "n \<le> ACTIVITY_MAX" by (simp add: ring_ok_def)
  then have p: "activity_push x t = (ring[head := x], Suc head mod ACTIVITY_MAX, min ACTIVITY_MAX (Suc n))"
    by (simp add: activity_push_def t)
  show "activity_ok (activity_push x t)"
    unfolding p using ring_ok_push [OF r, of x] by (simp only: activity_ok_def prod.case)
  show "activity_contents (activity_push x t) = last_n ACTIVITY_MAX (activity_contents t @ [x])"
    unfolding p using ring_window_push [OF r, of x] by (simp only: t activity_contents_def prod.case)
  show "length (activity_contents t) \<le> ACTIVITY_MAX" using r by (simp add: t activity_contents_def ring_ok_def)
qed

lemma activity_backwards:
  assumes "activity_ok (ring, head, n)"
  shows "map (\<lambda>i. ring ! (nat ((int head - 1 - int i + 2 * int ACTIVITY_MAX) mod int ACTIVITY_MAX))) [0..<n]
     = rev (ring_window ring head n)"
proof (rule nth_equalityI)
  fix i
  assume "i < length (map (\<lambda>i. ring ! (nat ((int head - 1 - int i + 2 * int ACTIVITY_MAX) mod int ACTIVITY_MAX))) [0..<n])"
  then have i: "i < n" by simp
  have r: "length ring = ACTIVITY_MAX" "head < ACTIVITY_MAX" "n \<le> ACTIVITY_MAX" using assms by (simp_all add: activity_ok_def ring_ok_def)
  have "int head - 1 - int i + 2 * int ACTIVITY_MAX = int (head + ACTIVITY_MAX - n + (n - 1 - i)) + 1 * int ACTIVITY_MAX"
    using i r by (simp add: of_nat_diff)
  then have "(int head - 1 - int i + 2 * int ACTIVITY_MAX) mod int ACTIVITY_MAX = int (head + ACTIVITY_MAX - n + (n - 1 - i)) mod int ACTIVITY_MAX"
    by (simp only: mod_mult_self1)
  then have "nat ((int head - 1 - int i + 2 * int ACTIVITY_MAX) mod int ACTIVITY_MAX) = (head + ACTIVITY_MAX - n + (n - 1 - i)) mod ACTIVITY_MAX"
    by (simp only: zmod_int [symmetric] nat_int)
  then show "map (\<lambda>i. ring ! (nat ((int head - 1 - int i + 2 * int ACTIVITY_MAX) mod int ACTIVITY_MAX))) [0..<n] ! i
      = rev (ring_window ring head n) ! i"
    using i r(1) by (simp add: rev_nth ring_window_def)
qed simp

text \<open>The resource ring.\<close>

definition res_contents :: "res_history \<Rightarrow> res_bucket list" where
  "res_contents r = ring_window (RES_RING r) (RES_HEAD r) (RES_COUNT r)"

definition res_ok :: "res_history \<Rightarrow> bool" where
  "res_ok r \<longleftrightarrow> ring_ok RES_N (RES_RING r) (RES_HEAD r) (RES_COUNT r)"

interpretation res: recent_history RES_N res_commit res_contents res_ok
proof unfold_locales
  fix r x
  assume "res_ok r"
  then have r: "ring_ok RES_N (RES_RING r) (RES_HEAD r) (RES_COUNT r)" by (simp add: res_ok_def)
  then have c: "(if RES_COUNT r < RES_N then Suc (RES_COUNT r) else RES_COUNT r) = min RES_N (Suc (RES_COUNT r))"
    by (simp add: ring_ok_def)
  show "res_ok (res_commit x r)" using ring_ok_push [OF r, of x] unfolding res_ok_def res_commit_def c by simp
  show "res_contents (res_commit x r) = last_n RES_N (res_contents r @ [x])"
    using ring_window_push [OF r, of x] unfolding res_contents_def res_commit_def c by simp
  show "length (res_contents r) \<le> RES_N" using r by (simp add: res_contents_def ring_ok_def)
qed

text \<open>What the history stands for: the buckets that were completed, each the worst of its samples,
  and the samples of the one that is open.\<close>

definition worst :: "int \<Rightarrow> res_sample list \<Rightarrow> res_bucket" where
  "worst t xs = \<lparr>rb_t = word_of_int t, rb_dram = Min (sm_dram ` set xs), rb_psram = Min (sm_psram ` set xs),
     rb_sock = Max (sm_sock ` set xs)\<rparr>"

definition spec_sample :: "res_sample \<Rightarrow> res_bucket list \<times> res_sample list \<times> u32 \<Rightarrow> res_bucket list \<times> res_sample list \<times> u32" where
  "spec_sample x t =
     (case t of (buckets, open, start) \<Rightarrow>
        let start' = (if start = 0 then sm_millis x else start) in
        if sm_millis x - start' \<ge> RES_BUCKET_MILLIS then (buckets @ [worst (sm_time x) (open @ [x])], [], sm_millis x)
        else (buckets, open @ [x], start'))"

definition res_rel :: "res_history \<Rightarrow> res_bucket list \<times> res_sample list \<times> u32 \<Rightarrow> bool" where
  "res_rel r t = (case t of (buckets, open, start) \<Rightarrow>
     res_ok r \<and> res_contents r = last_n RES_N buckets \<and> RES_BUCKET_START r = start \<and> (RES_ACC_DIRTY r \<longleftrightarrow> open \<noteq> [])
     \<and> (if open = [] then RES_ACC_DRAM r = - 1 \<and> RES_ACC_PSRAM r = - 1 \<and> RES_ACC_SOCK r = 0
        else RES_ACC_DRAM r = Min (sm_dram ` set open) \<and> RES_ACC_PSRAM r = Min (sm_psram ` set open)
             \<and> RES_ACC_SOCK r = Max (sm_sock ` set open)))"

lemma acc_min:
  "(if x < b then x else b) = min x (b :: 'a::linorder)" and acc_max: "(if x > b then x else b) = max x (b :: 'a::linorder)"
  by (auto simp: min_def max_def)

lemma min_top: "min x (- 1) = (x :: 'a::len word)" and max_bot: "max x 0 = (x :: 'a::len word)"
  by (simp_all add: min_def max_def)

lemma res_fold_worst:
  assumes "res_rel r (buckets, open, start)"
  shows "RES_ACC_DRAM (res_fold x r) = Min (sm_dram ` set (open @ [x]))"
    and "RES_ACC_PSRAM (res_fold x r) = Min (sm_psram ` set (open @ [x]))"
    and "RES_ACC_SOCK (res_fold x r) = Max (sm_sock ` set (open @ [x]))"
proof -
  have f: "RES_ACC_DRAM (res_fold x r) = min (sm_dram x) (RES_ACC_DRAM r)"
    "RES_ACC_PSRAM (res_fold x r) = min (sm_psram x) (RES_ACC_PSRAM r)"
    "RES_ACC_SOCK (res_fold x r) = max (sm_sock x) (RES_ACC_SOCK r)"
    by (simp_all only: res_fold_def res_history.simps acc_min acc_max) simp_all
  have i: "f ` set (open @ [x]) = insert (f x) (f ` set open)" for f :: "res_sample \<Rightarrow> 'b" by auto
  show "RES_ACC_DRAM (res_fold x r) = Min (sm_dram ` set (open @ [x]))"
    "RES_ACC_PSRAM (res_fold x r) = Min (sm_psram ` set (open @ [x]))"
    "RES_ACC_SOCK (res_fold x r) = Max (sm_sock ` set (open @ [x]))"
    using assms unfolding f i res_rel_def by (cases "open = []"; simp add: min_top max_bot)+
qed

lemma res_rel_step:
  assumes "res_rel r t"
  shows "res_rel (sampleResources x r) (spec_sample x t)"
proof -
  obtain buckets opn start where t: "t = (buckets, opn, start)" by (cases t)
  note w = res_fold_worst [OF assms [unfolded t], of x]
  have r: "res_ok r" "res_contents r = last_n RES_N buckets" "RES_BUCKET_START r = start" using assms by (simp_all add: t res_rel_def)
  let ?f = "res_fold x r" and ?start = "if start = 0 then sm_millis x else start"
  have f: "res_ok ?f" "res_contents ?f = last_n RES_N buckets" "RES_BUCKET_START ?f = ?start" "RES_ACC_DIRTY ?f"
    using r by (simp_all add: res_fold_def res_ok_def res_contents_def)
  show ?thesis
  proof (cases "sm_millis x - ?start \<ge> RES_BUCKET_MILLIS")
    case True
    let ?b = "worst (sm_time x) (opn @ [x])"
    have b: "\<lparr>rb_t = word_of_int (sm_time x), rb_dram = RES_ACC_DRAM ?f, rb_psram = RES_ACC_PSRAM ?f, rb_sock = RES_ACC_SOCK ?f\<rparr> = ?b"
      unfolding w worst_def ..
    have "res_contents (res_commit ?b ?f) = last_n RES_N (buckets @ [?b])"
      using res.contents_push [OF f(1), of ?b] by (simp add: f(2) last_n_append_last_n)
    moreover have "res_ok (res_commit ?b ?f)" by (rule res.ok_push [OF f(1)])
    moreover have "sampleResources x r = (res_commit ?b ?f)\<lparr>RES_ACC_DRAM := - 1, RES_ACC_PSRAM := - 1, RES_ACC_SOCK := 0,
        RES_ACC_DIRTY := False, RES_BUCKET_START := sm_millis x\<rparr>"
      using True unfolding sampleResources_def Let_def b f(3) by simp
    ultimately show ?thesis using True
      by (simp add: t spec_sample_def Let_def res_rel_def res_ok_def res_contents_def)
  next
    case False
    then have "sampleResources x r = ?f" by (simp add: sampleResources_def Let_def f(3))
    with False f w show ?thesis by (simp add: t spec_sample_def Let_def res_rel_def)
  qed
qed

lemma res_rel_start: "res_rel no_resources ([], [], 0)"
  by (simp add: res_rel_def no_resources_def res_ok_def ring_ok_def res_contents_def)

lemma res_rel_run: "res_rel r t \<Longrightarrow> res_rel (fold sampleResources xs r) (fold spec_sample xs t)"
  by (induction xs arbitrary: r t) (simp_all add: res_rel_step)

section \<open>Properties\<close>

text \<open>The resource history is the worst of every bucket. After any samples the page shows, oldest
  first, the last 144 completed ten-minute buckets, each with the least free memory and the most
  sockets of exactly the samples that fell into it, and then the bucket that is open, when it has a
  sample.\<close>
theorem resources_show_worst:
  "case fold spec_sample xs ([], [], 0) of (buckets, open, start) \<Rightarrow>
     elements (jget (handleResources m now (fold sampleResources xs no_resources)) ''samples'')
       = map bucket_json (last_n RES_N buckets) @ (if open = [] then [] else [bucket_json (worst now open)])"
proof -
  let ?r = "fold sampleResources xs no_resources"
  obtain buckets opn start where t: "fold spec_sample xs ([], [], 0) = (buckets, opn, start)"
    by (cases "fold spec_sample xs ([], [], 0)")
  have rel: "res_rel ?r (buckets, opn, start)" using res_rel_run [OF res_rel_start, of xs] by (simp add: t)
  then have ring: "length (RES_RING ?r) = RES_N" "RES_COUNT ?r \<le> RES_N"
    and c: "res_contents ?r = last_n RES_N buckets" and d: "RES_ACC_DIRTY ?r \<longleftrightarrow> opn \<noteq> []"
    by (simp_all add: res_rel_def res_ok_def ring_ok_def)
  have "map (\<lambda>i. bucket_json (RES_RING ?r ! (((RES_HEAD ?r + RES_N - RES_COUNT ?r) mod RES_N + i) mod RES_N))) [0..<RES_COUNT ?r]
      = map bucket_json (res_contents ?r)"
    by (simp add: res_contents_def ring_window_def ring(1) mod_add_left_eq)
  moreover have "opn \<noteq> [] \<Longrightarrow> \<lparr>rb_t = word_of_int now, rb_dram = RES_ACC_DRAM ?r, rb_psram = RES_ACC_PSRAM ?r, rb_sock = RES_ACC_SOCK ?r\<rparr> = worst now opn"
    using rel by (simp add: res_rel_def worst_def)
  ultimately show ?thesis unfolding t prod.case handleResources_def Let_def c d by simp
qed

text \<open>The activity page shows the newest entries first. Whatever the file holds, the page is a JSON
  array of its last 200 lines that are not empty, trimmed, in reverse order.\<close>
theorem activity_newest_first:
  "handleActivity (Lines ls) = Page 200 (''['' @ join_comma (rev (last_n ACTIVITY_MAX (trimmed_lines ls))) @ '']'')"
proof -
  let ?t0 = "(replicate ACTIVITY_MAX [], 0, 0) :: string list \<times> nat \<times> nat"
  have ok: "activity_ok ?t0" by (simp add: activity_ok_def ring_ok_def)
  obtain ring head n where t: "fold activity_push (trimmed_lines ls) ?t0 = (ring, head, n)"
    by (cases "fold activity_push (trimmed_lines ls) ?t0")
  have "activity_ok (ring, head, n)" using activity.ok_fold [OF ok, of "trimmed_lines ls"] by (simp only: t)
  note backwards = activity_backwards [OF this]
  have "activity_contents (ring, head, n) = last_n ACTIVITY_MAX (activity_contents ?t0 @ trimmed_lines ls)"
    using activity.contents_fold [OF ok, of "trimmed_lines ls"] by (simp only: t)
  then have "ring_window ring head n = last_n ACTIVITY_MAX (trimmed_lines ls)" by (simp add: activity_contents_def)
  then show ?thesis unfolding handleActivity_def log_file.case t activity_out_def Let_def prod.case backwards by simp
qed

text \<open>The error page shows the last 200 lines. Of the lines of the log that are not empty, exactly the
  last 200 are read as JSON and those that can be read are shown, in order.\<close>
theorem errors_show_last:
  "handleErrors parse (Lines ls) =
     Page 200 (''ERRORS'' @ NL @ ''======'' @ NL
       @ (if length (trimmed_lines ls) > MAX_SHOW
          then ''(showing last '' @ dec MAX_SHOW @ '' of '' @ dec (length (trimmed_lines ls)) @ '')'' @ NL else [])
       @ concat (map error_line (readable parse (last_n MAX_SHOW (trimmed_lines ls)))))"
  by (simp add: handleErrors_def Let_def trimmed_skip length_trimmed last_n_def)

text \<open>The log page loses the newest entries. When between 51 and 200 entries are new since the last
  poll, the page shows the oldest fifty of them only, takes the log's current sequence number for
  its next poll, and that poll shows nothing: the other entries are never shown.\<close>
theorem log_page_loses_newest:
  assumes "log_ok b" and "BATCH < length ws" and "length ws \<le> LOG_BUF_ENTRIES" and "unat (LOG_SEQUENCE b) + length ws < 2 ^ 31"
  shows "let n = uint (LOG_SEQUENCE b); server = (\<lambda>s. handleAdminLog (Some s) True True True [] (fold write_one ws b))
    in pollDevLog n server = (filter shown_entry (map log_entry_json (take BATCH (entries_from (LOG_SEQUENCE b) ws))), n + int (length ws))
     \<and> pollDevLog (n + int (length ws)) server = ([], n + int (length ws))"
proof -
  let ?b = "fold write_one ws b" and ?n = "LOG_SEQUENCE b"
  let ?server = "\<lambda>s. handleAdminLog (Some s) True True True [] ?b"
  have param: "word_of_int (atol (dec_int (uint w))) = w" if "unat w < 2 ^ 31" for w :: u32
  proof -
    have "int (unat w) < int (2 ^ 31)" using that by (simp only: of_nat_less_iff)
    then have "int (unat w) < 2 ^ 31" by simp
    then show ?thesis by (simp only: uint_nat atol_dec_int) simp
  qed
  have small: "unat ?n + length ws < 2 ^ 32" "unat ?n < 2 ^ 31" "unat (LOG_SEQUENCE ?b) < 2 ^ 31"
  proof -
    show s: "unat ?n + length ws < 2 ^ 32" using assms(4) by simp
    show "unat ?n < 2 ^ 31" using assms(4) by simp
    show "unat (LOG_SEQUENCE ?b) < 2 ^ 31" unfolding sequence_writes unat_sequence [OF s] by (rule assms(4))
  qed
  have m: "LOG_SEQUENCE ?b = ?n + word_of_nat (length ws)" by (rule sequence_writes)
  have u: "uint (LOG_SEQUENCE ?b) = uint ?n + int (length ws)"
    unfolding m uint_nat unat_sequence [OF small(1)] of_nat_add by (rule refl)
  have "logBufferSnapshot True BATCH ?n ?b = take BATCH (entries_from ?n ws)"
    using new_entries [OF assms(1,3) small(1)] by (simp add: logBufferSnapshot_def)
  then have "?server (dec_int (uint ?n)) = Some (JObj [(''seq'', JNum (uint ?n + int (length ws))),
      (''entries'', JArr (map log_entry_json (take BATCH (entries_from ?n ws))))])"
    by (simp add: handleAdminLog_def logBufferLastSeq_def param [OF small(2)] u)
  moreover have "take BATCH (entries_from ?n ws) \<noteq> []" using assms(2) length_entries_from [of ?n ws]
    by (metis length_0_conv less_zeroE take_eq_Nil zero_neq_numeral)
  ultimately have first: "pollDevLog (uint ?n) ?server
      = (filter shown_entry (map log_entry_json (take BATCH (entries_from ?n ws))), uint ?n + int (length ws))"
    by (simp add: pollDevLog_def)
  have "logBufferSnapshot True BATCH (LOG_SEQUENCE ?b) ?b = []"
    using new_entries [OF log_ok_writes [OF assms(1) small(1)], of "[]"] unsigned_less [of "LOG_SEQUENCE ?b", where ?'a = nat] by (simp add: logBufferSnapshot_def)
  then have "elements (jget (the (?server (dec_int (uint ?n + int (length ws))))) ''entries'') = []"
    by (simp add: handleAdminLog_def param [OF small(3)] u [symmetric])
  moreover obtain d where "?server (dec_int (uint ?n + int (length ws))) = Some d"
    by (simp add: handleAdminLog_def Let_def)
  ultimately have "pollDevLog (uint ?n + int (length ws)) ?server = ([], uint ?n + int (length ws))"
    by (simp add: pollDevLog_def)
  with first show ?thesis by (simp add: Let_def)
qed

theorem log_page_loses_newest_witness:
  "let server = (\<lambda>s. handleAdminLog (Some s) True True True [] (fold write_one (replicate 51 (5, 0, CHR ''W'', ''net'', ''a'')) empty_log))
   in length (fst (pollDevLog 0 server)) \<le> 50 \<and> snd (pollDevLog 0 server) = 51 \<and> fst (pollDevLog 51 server) = []"
proof -
  let ?ws = "replicate 51 (5, 0, CHR ''W'', ''net'', ''a'') :: log_write list"
  have s: "LOG_SEQUENCE empty_log = 0" by (simp add: empty_log_def)
  have "length (filter P (map f (take BATCH xs))) \<le> 50" for P and f :: "log_entry \<Rightarrow> json" and xs
    by (rule order_trans [OF length_filter_le]) simp
  moreover have "BATCH < length ?ws" "length ?ws \<le> LOG_BUF_ENTRIES" "unat (LOG_SEQUENCE empty_log) + length ?ws < 2 ^ 31"
    by (simp_all add: s)
  note log_page_loses_newest [OF log_ok_empty this]
  ultimately show ?thesis by (simp add: Let_def s)
qed

end
