(* ===== verification/Vouchers.thy ===== *)
theory Vouchers
  imports Reports
begin

text \<open>
  The voucher desk of the admin (\<open>handleAdminVouchers\<close> in \<open>src/web.cpp\<close>): listing the groups of
  vouchers that were sold, reading the codes of one page, deleting a group and selling a new one.
  A group's seller and price live in its name and description only, so the name that a sale makes
  is what the listing, the leaderboard and the nightly rollup read them from.
\<close>

section \<open>The handler\<close>

datatype http_method = HTTP_GET | HTTP_POST | HTTP_DELETE | HTTP_OTHER

datatype desk_reply = DeskJson json | DeskText nat string

text \<open>The platform's \<open>int\<close>.\<close>

definition wrap32 :: "int \<Rightarrow> int" where "wrap32 n = sint (word_of_int n :: u32)"

abbreviation CODES_PER_PAGE :: int where "CODES_PER_PAGE \<equiv> 130"

definition page_count :: "int \<Rightarrow> int" where "page_count n = wrap32 (n + 129) sdiv CODES_PER_PAGE"

definition voucher_codes :: "json \<Rightarrow> json" where
  "voucher_codes doc = JArr (map (\<lambda>v. JStr (as_text (jget v ''code''))) (elements (jget (jget doc ''result'') ''data'')))"

definition voucher_page :: "json \<Rightarrow> json" where
  "voucher_page raw =
     JObj [(''codes'', voucher_codes raw),
           (''totalPages'', JNum (page_count (as_int (jget (jget raw ''result'') ''totalRows''))))]"

text \<open>One group of the listing; the seller is what follows the first blank after the prefix.\<close>

definition group_total :: "json \<Rightarrow> int" where
  "group_total g =
     (let n = as_int (jget g ''totalCount'')
      in if n = 0 then as_int (jget (jget g ''statisticsCount'') ''totalStatisticsCount'') else n)"

definition listed_price :: "omada_env \<Rightarrow> json \<Rightarrow> int" where
  "listed_price e g =
     (case parse_json e (as_text (jget g ''description'')) of None \<Rightarrow> 0 | Some d \<Rightarrow> as_int (jget d ''price''))"

definition voucher_entry :: "omada_env \<Rightarrow> json \<Rightarrow> json option" where
  "voucher_entry e g =
     (let name = as_text (jget g ''name'') in
      if \<not> starts_with ''AUTOGEN: '' name then None
      else Some (JObj
        [(''id'', jget g ''id''), (''name'', JStr name), (''seller'', JStr (rollup_seller name)),
         (''pages'', JNum (max 1 (page_count (group_total g)))), (''duration'', JNum (as_int (jget g ''duration''))),
         (''price'', JNum (listed_price e g)), (''createdTime'', JNum (uint (as_u64 (jget g ''createdTime'')))),
         (''unusedCount'', JNum (as_int (jget g ''unusedCount''))), (''usedCount'', JNum (as_int (jget g ''usedCount''))),
         (''totalCount'', JNum (group_total g))]))"

definition voucher_list :: "omada_env \<Rightarrow> json \<Rightarrow> json" where
  "voucher_list e raw = JArr (List.map_filter (voucher_entry e) (elements (jget (jget raw ''result'') ''data'')))"

text \<open>The name of a new group: price, hours, a tag of the clock's low 24 bits, and the seller.\<close>

fun hex_text_of :: "nat \<Rightarrow> string" where
  "hex_text_of n = (if n < 16 then [hex_digit n] else hex_text_of (n div 16) @ [hex_digit (n mod 16)])"

declare hex_text_of.simps [simp del]

definition voucher_tag :: "int \<Rightarrow> string" where
  "voucher_tag now = hex_text_of (unat ((word_of_int now :: u32) AND 0xFFFFFF))"

definition voucher_name :: "int \<Rightarrow> int \<Rightarrow> int \<Rightarrow> string \<Rightarrow> string" where
  "voucher_name price durationHrs now seller =
     ''AUTOGEN: '' @ dec_int price @ ''P'' @ dec_int durationHrs @ ''H-'' @ voucher_tag now @ '' '' @ seller"

definition voucher_desc :: "int \<Rightarrow> string" where
  "voucher_desc price = ''{\"price\":'' @ dec_int price @ ''}''"

definition sellVouchers ::
  "omada_env \<Rightarrow> site \<Rightarrow> int \<Rightarrow> int \<Rightarrow> int \<Rightarrow> int \<Rightarrow> string \<Rightarrow> credentials \<Rightarrow> credentials \<times> desk_reply" where
  "sellVouchers e st now pages durationMin price seller c =
     (case createVoucherGroup e st (voucher_name price (durationMin sdiv 60) now seller) durationMin
             (wrap32 (pages * CODES_PER_PAGE)) (voucher_desc price) c of
        (c1, Inl err) \<Rightarrow> (c1, DeskText 502 (''Controller error: '' @ err))
      | (c1, Inr groupId) \<Rightarrow>
          (case getVoucherCodesJson e st groupId 1 c1 of
             (c2, codesDoc) \<Rightarrow>
               (c2, DeskJson (JObj [(''id'', JStr groupId), (''pages'', JNum pages),
                  (''codes'', if is_null codesDoc then JArr [] else voucher_codes codesDoc)]))))"

definition query_param :: "(string \<times> string) list \<Rightarrow> string \<Rightarrow> string" where
  "query_param ps k = (case map_of ps k of None \<Rightarrow> [] | Some v \<Rightarrow> v)"

definition handleAdminVouchers ::
  "omada_env \<Rightarrow> site \<Rightarrow> int \<Rightarrow> http_method \<Rightarrow> (string \<times> string) list \<Rightarrow> string \<Rightarrow> credentials \<Rightarrow> credentials \<times> desk_reply" where
  "handleAdminVouchers e st now m ps body c =
     (let groupId = query_param ps ''id'' in
      if m = HTTP_GET then
        (if groupId \<noteq> [] then
           (case getVoucherCodesJson e st groupId (case map_of ps ''page'' of None \<Rightarrow> 1 | Some p \<Rightarrow> atol p) c of
              (c1, raw) \<Rightarrow> (c1, if is_null raw then DeskText 502 ''Failed to fetch from controller'' else DeskJson (voucher_page raw)))
         else
           (case getVoucherGroupsJson e st c of
              (c1, raw) \<Rightarrow> (c1, if is_null raw then DeskText 502 ''Failed to fetch from controller'' else DeskJson (voucher_list e raw))))
      else if m = HTTP_DELETE then
        (if groupId = [] then (c, DeskText 400 ''Missing id'')
         else (case deleteVoucherGroup e st groupId c of
                 (c1, Some err) \<Rightarrow> (c1, DeskText 502 (''Controller error: '' @ err))
               | (c1, None) \<Rightarrow> (c1, DeskJson (JObj [(''ok'', JBool True)]))))
      else
        (case parse_json e body of
           None \<Rightarrow> (c, DeskText 400 ''Bad JSON'')
         | Some req \<Rightarrow>
             (let pages = as_int (jget req ''pages''); durationMin = as_int (jget req ''duration_min'');
                  price = as_int (jget req ''price''); seller = as_text (jget req ''seller'') in
              if pages < 1 \<or> durationMin < 1 \<or> price < 1 \<or> seller = []
              then (c, DeskText 400 ''Missing required fields'')
              else sellVouchers e st now pages durationMin price seller c)))"

section \<open>Names\<close>

lemma index_of_first: "c \<notin> set t \<Longrightarrow> index_of [c] (t @ c # s) = Some (length t)"
  by (induction t) (auto simp: starts_with_def)

lemma hex_digit_not_blank: "n < 16 \<Longrightarrow> hex_digit n \<noteq> CHR '' ''"
proof -
  have "list_all (\<lambda>n. hex_digit n \<noteq> CHR '' '') [0..<16]" by code_simp
  then show "n < 16 \<Longrightarrow> hex_digit n \<noteq> CHR '' ''" by (simp add: list_all_iff)
qed

lemma hex_text_of_no_blank: "CHR '' '' \<notin> set (hex_text_of n)"
proof (induction n rule: hex_text_of.induct)
  case (1 n)
  show ?case
  proof (cases "n < 16")
    case True
    then show ?thesis using hex_digit_not_blank [of n] by (simp add: hex_text_of.simps [of n])
  next
    case False
    then show ?thesis using 1 hex_digit_not_blank [of "n mod 16"] by (simp add: hex_text_of.simps [of n])
  qed
qed

lemma dec_int_no_blank: "CHR '' '' \<notin> set (dec_int n)"
proof -
  have "\<forall>c \<in> set (dec k). is_digit c" for k using dec_digits(2) [of k] by (simp add: list_all_iff)
  moreover have "\<not> is_digit (CHR '' '')" by (simp add: is_digit_def)
  ultimately show ?thesis by (auto simp: dec_int_def)
qed

definition name_token :: "int \<Rightarrow> int \<Rightarrow> int \<Rightarrow> string" where
  "name_token price hours now = dec_int price @ ''P'' @ dec_int hours @ ''H-'' @ voucher_tag now"

lemma name_token_no_blank: "CHR '' '' \<notin> set (name_token price hours now)"
  by (simp add: name_token_def voucher_tag_def dec_int_no_blank hex_text_of_no_blank)

lemma voucher_name_token: "voucher_name price hours now seller = ''AUTOGEN: '' @ name_token price hours now @ '' '' @ seller"
  by (simp add: voucher_name_def name_token_def)

lemma first_blank: "index_of '' '' (drop 9 (voucher_name price hours now seller)) = Some (length (name_token price hours now))"
  using index_of_first [OF name_token_no_blank] by (simp add: voucher_name_token)

lemma sold_name:
  "starts_with ''AUTOGEN: '' (voucher_name price hours now seller)"
  "group_seller (voucher_name price hours now seller) = seller"
  "rollup_seller (voucher_name price hours now seller) = seller"
  unfolding group_seller_def rollup_seller_def Let_def first_blank
  by (simp_all add: starts_with_def voucher_name_token)

lemma wrap32_id: "0 \<le> n \<Longrightarrow> n < 2 ^ 31 \<Longrightarrow> wrap32 n = n"
  unfolding wrap32_def int_word_sint by simp

lemma page_count_pages: "1 \<le> p \<Longrightarrow> p * CODES_PER_PAGE + 129 < 2 ^ 31 \<Longrightarrow> page_count (p * CODES_PER_PAGE) = p"
proof -
  assume p: "1 \<le> p" "p * CODES_PER_PAGE + 129 < 2 ^ 31"
  have "(p * CODES_PER_PAGE + 129) div CODES_PER_PAGE = (129 + p * 130) div 130" by (simp add: add.commute)
  also have "\<dots> = p" unfolding div_mult_self1 [OF numeral_neq_zero] by simp
  finally show ?thesis using p by (simp add: page_count_def wrap32_id signed_divide_int_def)
qed

section \<open>Properties\<close>

text \<open>C29: A sold group keeps its seller, its price and its pages. A valid order asks the controller for
  exactly the ordered number of codes under one name; and a group of that name, description and
  size is read as the seller and price of the order by the listing, the reports and the nightly
  rollup alike, whatever the seller's name is, and listed with the ordered pages.\<close>
theorem sold_group_attributed:
  assumes "parse_json e body = Some req" and "as_int (jget req ''pages'') = pages" and "as_int (jget req ''duration_min'') = dur"
    and "as_int (jget req ''price'') = price" and "jget req ''seller'' = JStr seller"
    and "1 \<le> pages" and "pages * CODES_PER_PAGE + 129 < 2 ^ 31" and "1 \<le> dur" and "1 \<le> price" and "seller \<noteq> []"
    and "rp_omada r = e" and "parse_json e (voucher_desc price) = Some (JObj [(''price'', JNum price)])"
  shows "\<exists>name. handleAdminVouchers e st now HTTP_POST ps body c =
      (case createVoucherGroup e st name dur (pages * CODES_PER_PAGE) (voucher_desc price) c of
        (c1, Inl err) \<Rightarrow> (c1, DeskText 502 (''Controller error: '' @ err))
      | (c1, Inr groupId) \<Rightarrow> (case getVoucherCodesJson e st groupId 1 c1 of
          (c2, codes) \<Rightarrow> (c2, DeskJson (JObj [(''id'', JStr groupId), (''pages'', JNum pages),
             (''codes'', if is_null codes then JArr [] else voucher_codes codes)]))))
    \<and> rollup_seller name = seller
    \<and> (\<forall>g. jget g ''name'' = JStr name \<and> jget g ''description'' = JStr (voucher_desc price) \<and> group_total g = pages * CODES_PER_PAGE \<longrightarrow>
         autogenSellerPrice r g = Some (seller, price)
       \<and> (\<exists>entry. voucher_entry e g = Some entry \<and> jget entry ''seller'' = JStr seller \<and> jget entry ''price'' = JNum price
            \<and> jget entry ''pages'' = JNum pages))"
proof (intro exI conjI allI impI)
  let ?name = "voucher_name price (dur sdiv 60) now seller"
  have w: "wrap32 (pages * CODES_PER_PAGE) = pages * CODES_PER_PAGE" using assms(6,7) by (intro wrap32_id) simp_all
  have "handleAdminVouchers e st now HTTP_POST ps body c = sellVouchers e st now pages dur price seller c"
    using assms by (simp add: handleAdminVouchers_def Let_def)
  then show "handleAdminVouchers e st now HTTP_POST ps body c = (case createVoucherGroup e st ?name dur (pages * CODES_PER_PAGE) (voucher_desc price) c of
        (c1, Inl err) \<Rightarrow> (c1, DeskText 502 (''Controller error: '' @ err))
      | (c1, Inr groupId) \<Rightarrow> (case getVoucherCodesJson e st groupId 1 c1 of
          (c2, codes) \<Rightarrow> (c2, DeskJson (JObj [(''id'', JStr groupId), (''pages'', JNum pages),
             (''codes'', if is_null codes then JArr [] else voucher_codes codes)]))))"
    unfolding sellVouchers_def w .
  show "rollup_seller ?name = seller" by (rule sold_name)
  fix g
  assume g: "jget g ''name'' = JStr ?name \<and> jget g ''description'' = JStr (voucher_desc price) \<and> group_total g = pages * CODES_PER_PAGE"
  have price: "price < 2 ^ 31" using assms(4,9) by (cases "jget req ''price''") (auto simp: as_int_def split: if_splits)
  then show "autogenSellerPrice r g = Some (seller, price)"
    using g assms(9,11,12) by (simp add: autogenSellerPrice_def Let_def sold_name group_price_def)
  show "voucher_entry e g = Some (the (voucher_entry e g))" using g by (simp add: voucher_entry_def Let_def sold_name)
  show "jget (the (voucher_entry e g)) ''seller'' = JStr seller" using g by (simp add: voucher_entry_def Let_def sold_name)
  show "jget (the (voucher_entry e g)) ''price'' = JNum price"
    using g price assms(9,12) by (simp add: voucher_entry_def Let_def sold_name listed_price_def as_int_def)
  show "jget (the (voucher_entry e g)) ''pages'' = JNum pages"
    using g page_count_pages [OF assms(6,7)] assms(6) by (simp add: voucher_entry_def Let_def sold_name)
qed

text \<open>A concrete order.\<close>

definition desk_env :: omada_env where
  "desk_env = (demo_omada_env (\<lambda>r. \<lparr>rp_code = 0, rp_error = [], rp_body = [], rp_cookies = []\<rparr>))\<lparr>parse_json := (\<lambda>t.
     if t = ''order'' then Some (JObj [(''pages'', JNum 1), (''duration_min'', JNum 60), (''price'', JNum 5), (''seller'', JStr ''KANO DE'')])
     else if t = voucher_desc 5 then Some (JObj [(''price'', JNum 5)]) else None)\<rparr>"

theorem sold_group_attributed_witness:
  "\<exists>name. autogenSellerPrice (demo_report\<lparr>rp_omada := desk_env\<rparr>) (JObj [(''name'', JStr name),
       (''description'', JStr (voucher_desc 5)), (''totalCount'', JNum 130)]) = Some (''KANO DE'', 5)"
proof -
  let ?req = "JObj [(''pages'', JNum 1), (''duration_min'', JNum 60), (''price'', JNum 5), (''seller'', JStr ''KANO DE'')]"
    and ?r = "demo_report\<lparr>rp_omada := desk_env\<rparr>"
  have "voucher_desc 5 \<noteq> ''order''" by (simp add: voucher_desc_def)
  then have d: "parse_json desk_env (voucher_desc 5) = Some (JObj [(''price'', JNum 5)])" by (simp add: desk_env_def)
  have "parse_json desk_env ''order'' = Some ?req" "as_int (jget ?req ''pages'') = 1" "as_int (jget ?req ''duration_min'') = 60"
    "as_int (jget ?req ''price'') = 5" "jget ?req ''seller'' = JStr ''KANO DE''" "(1::int) \<le> 1" "1 * CODES_PER_PAGE + 129 < 2 ^ 31"
    "(1::int) \<le> 60" "(1::int) \<le> 5" "''KANO DE'' \<noteq> []" "rp_omada ?r = desk_env"
    by (simp_all add: desk_env_def as_int_def)
  note sold = sold_group_attributed [OF this d]
  obtain name where "\<forall>g. jget g ''name'' = JStr name \<and> jget g ''description'' = JStr (voucher_desc 5) \<and> group_total g = 1 * CODES_PER_PAGE
      \<longrightarrow> autogenSellerPrice ?r g = Some (''KANO DE'', 5)"
    using sold [where ?now = 0 and ?st = demo_site and ?ps = "[]" and ?c = demo_credentials] by blast
  then have "autogenSellerPrice ?r (JObj [(''name'', JStr name), (''description'', JStr (voucher_desc 5)), (''totalCount'', JNum 130)])
      = Some (''KANO DE'', 5)"
    by (simp add: group_total_def as_int_def)
  then show ?thesis by blast
qed

text \<open>An order without a seller is not refused. The guard against an empty seller never fires for a
  request that leaves the seller out: the group is sold for a seller of the name null.\<close>
theorem missing_seller_sold_as_null:
  assumes "parse_json e body = Some req" and "jget req ''seller'' = JNull"
    and "1 \<le> as_int (jget req ''pages'')" and "1 \<le> as_int (jget req ''duration_min'')" and "1 \<le> as_int (jget req ''price'')"
    and "createVoucherGroup e st (voucher_name (as_int (jget req ''price'')) (as_int (jget req ''duration_min'') sdiv 60) now ''null'')
           (as_int (jget req ''duration_min'')) (wrap32 (as_int (jget req ''pages'') * CODES_PER_PAGE))
           (voucher_desc (as_int (jget req ''price''))) c = (c1, Inr groupId)"
  shows "\<exists>codes. snd (handleAdminVouchers e st now HTTP_POST ps body c)
      = DeskJson (JObj [(''id'', JStr groupId), (''pages'', JNum (as_int (jget req ''pages''))), (''codes'', codes)])"
  using assms by (auto simp: handleAdminVouchers_def Let_def sellVouchers_def split: prod.splits)

end
