(* ===== verification/AdminNodes.thy ===== *)
theory AdminNodes
  imports Vouchers Portal Config Network AdminAuth AdminPages
begin

text \<open>
  The other handlers of the admin (\<open>src/web.cpp\<close>): the node page with the nicknames and commissions
  that live in the controller's client names, the sellers, the configuration, the restarts and the
  table of routes with the ones that need a login, as \<open>TEST_MODE\<close>, which this commit defines, has it.
\<close>

section \<open>Node aliases\<close>

text \<open>\<open>NODE_ALIAS\<close>: MAC with colons in upper case to \<open>nickname|commission\<close>.\<close>

record node_aliases =
  NODE_ALIAS :: "(string \<times> string) list"
  NODE_ALIAS_SYNC_MS :: u32

definition no_aliases :: node_aliases where
  "no_aliases = \<lparr>NODE_ALIAS = [], NODE_ALIAS_SYNC_MS = 0\<rparr>"

definition macColonUpper :: "string \<Rightarrow> string" where
  "macColonUpper m = to_upper (replace_char (CHR ''-'') '':'' m)"

definition has_bar :: "string \<Rightarrow> bool" where "has_bar s \<longleftrightarrow> index_of ''|'' s \<noteq> None"

text \<open>The client names of the controller by MAC; a later client of the same MAC wins.\<close>

definition client_names :: "json \<Rightarrow> string \<Rightarrow> string option" where
  "client_names all =
     map_of (rev (map (\<lambda>c. (macColonUpper (as_text (jget c ''mac'')), as_text (jget c ''name'')))
       (elements (jget (jget all ''result'') ''data''))))"

definition take_alias :: "(string \<Rightarrow> string option) \<Rightarrow> string \<Rightarrow> (string \<times> string) list \<Rightarrow> (string \<times> string) list" where
  "take_alias names mac m =
     (case names mac of None \<Rightarrow> m | Some name \<Rightarrow> if has_bar name then omap_update mac name m else m)"

definition syncNodeAliases ::
  "omada_env \<Rightarrow> site \<Rightarrow> bool \<Rightarrow> string \<Rightarrow> node_info list \<Rightarrow> credentials \<times> node_aliases \<Rightarrow> credentials \<times> node_aliases" where
  "syncNodeAliases e st master self known t =
     (let (c, a) = t in
      if \<not> master \<or> (NODE_ALIAS_SYNC_MS a \<noteq> 0 \<and> om_millis e - NODE_ALIAS_SYNC_MS a < 60000) then (c, a)
      else let a1 = a\<lparr>NODE_ALIAS_SYNC_MS := om_millis e\<rparr> in
        (case getAllClientsJson e st c of (c1, all) \<Rightarrow>
           if is_null all then (c1, a1)
           else (c1, a1\<lparr>NODE_ALIAS := fold (take_alias (client_names all))
                          (macColonUpper self # map (\<lambda>ni. macColonUpper (ni_mac ni)) known) (NODE_ALIAS a1)\<rparr>)))"

text \<open>The two parts of an alias; without a bar both are taken from the whole text.\<close>

definition alias_nickname :: "string \<Rightarrow> string" where
  "alias_nickname s = (case index_of ''|'' s of None \<Rightarrow> s | Some i \<Rightarrow> take i s)"

definition alias_commission :: "string \<Rightarrow> int" where
  "alias_commission s = atol (case index_of ''|'' s of None \<Rightarrow> s | Some i \<Rightarrow> drop (i + 1) s)"

definition nickFor :: "node_aliases \<Rightarrow> string \<Rightarrow> string" where
  "nickFor a mac = (case map_of (NODE_ALIAS a) (to_upper mac) of None \<Rightarrow> [] | Some s \<Rightarrow> alias_nickname s)"

definition commFor :: "node_aliases \<Rightarrow> string \<Rightarrow> int" where
  "commFor a mac = (case map_of (NODE_ALIAS a) (to_upper mac) of None \<Rightarrow> 0 | Some s \<Rightarrow> alias_commission s)"

section \<open>Node page\<close>

text \<open>What the page reads of the board: its address, its counters and its clocks. \<open>bd_now\<close> is the clock
  that is read before the list of nodes.\<close>

record board_info =
  bd_master :: bool
  bd_mac :: string
  bd_ip :: string
  bd_version :: string
  bd_build :: u32
  bd_uptime :: u32
  bd_now :: u32
  bd_freeHeap :: u32
  bd_minFreeHeap :: u32
  bd_rssi :: int
  bd_tempC :: int
  bd_rejW :: u16
  bd_rejI :: u16
  bd_epoch :: u64
  bd_time :: int
  bd_ssid :: string
  bd_sockets :: int
  bd_maxSockets :: int
  bd_fsUsed :: int
  bd_fsTotal :: int
  bd_image :: u32

definition master_entry :: "board_info \<Rightarrow> node_aliases \<Rightarrow> json" where
  "master_entry d a = JObj
     [(''mac'', JStr (bd_mac d)), (''ip'', JStr (bd_ip d)), (''role'', JStr ''master''),
      (''nickname'', JStr (nickFor a (to_upper (bd_mac d)))), (''commission'', JNum (commFor a (to_upper (bd_mac d)))),
      (''version'', JStr (bd_version d)), (''build'', JNum (uint (bd_build d))), (''uptimeSec'', JNum (uint (bd_uptime d div 1000))),
      (''freeHeap'', JNum (uint (bd_freeHeap d))), (''rssi'', JNum (bd_rssi d)), (''tempC'', JNum (bd_tempC d)),
      (''rejW'', JNum (uint (bd_rejW d))), (''rejI'', JNum (uint (bd_rejI d))), (''online'', JBool True)]"

abbreviation NODE_OFFLINE_MILLIS :: u32 where "NODE_OFFLINE_MILLIS \<equiv> 60000"

definition slave_entry :: "board_info \<Rightarrow> node_aliases \<Rightarrow> node_info \<Rightarrow> json" where
  "slave_entry d a ni =
     (let downForMs = bd_now d - ni_lastSeenMs ni in JObj
      [(''mac'', JStr (ni_mac ni)), (''ip'', JStr (ni_ip ni)), (''role'', JStr ''slave''),
       (''nickname'', JStr (nickFor a (ni_mac ni))), (''commission'', JNum (commFor a (ni_mac ni))),
       (''version'', JStr (ni_version ni)), (''build'', JNum (uint (ni_buildNumber ni))), (''uptimeSec'', JNum (uint (ni_uptimeSec ni))),
       (''freeHeap'', JNum (uint (ni_freeHeap ni))), (''rssi'', JNum (sint (ni_rssi ni))),
       (''rejW'', JNum (uint (ni_rejectWidth ni))), (''rejI'', JNum (uint (ni_rejectInterval ni))),
       (''online'', JBool (downForMs < NODE_OFFLINE_MILLIS)), (''downForSec'', JNum (uint (downForMs div 1000))),
       (''otaSentCount'', JNum (uint (ni_otaSentCount ni))), (''lastOtaSentMs'', JNum (uint (ni_lastOtaSentMs ni)))])"

definition vendo_active :: "u64 \<Rightarrow> session_cache \<Rightarrow> nat" where
  "vendo_active nowMs cache = length (filter (\<lambda>(mac, x). sessionEndMillis x > nowMs) (byMac cache))"

definition controller_entry :: "board_info \<Rightarrow> omada \<Rightarrow> json" where
  "controller_entry d s =
     (let cs = CONTROLLER_STATUS s in JObj
      [(''reachable'', JBool (cs_reachable cs)), (''model'', JStr (cs_model cs)), (''version'', JStr (cs_version cs)),
       (''timeZone'', JStr (cs_timeZone cs)), (''uptimeMs'', JNum (uint (cs_uptimeMillis cs))),
       (''clockSkewSec'', JNum (cs_clockSkewSec cs)), (''mgmtSsid'', JStr (bd_ssid d)),
       (''mgmtSsidBreach'', JBool (cs_mgmtSsidBreach cs)), (''siteLoaded'', JBool (SITE_ID (om_site s) \<noteq> []))])"

definition sys_entry :: "board_info \<Rightarrow> u32 \<Rightarrow> omada \<Rightarrow> json" where
  "sys_entry d now s = JObj
     [(''freeHeap'', JNum (uint (bd_freeHeap d))), (''minFreeHeap'', JNum (uint (bd_minFreeHeap d))),
      (''activeSockets'', JNum (bd_sockets d)), (''maxSockets'', JNum (bd_maxSockets d)),
      (''omadaSessionAgeMs'', JNum (uint (getOmadaSessionAgeMs now (CREDS s)))),
      (''lastCacheRefreshMs'', JNum (uint (getLastCacheRefreshMs now s))),
      (''littleFsUsed'', JNum (bd_fsUsed d)), (''littleFsTotal'', JNum (bd_fsTotal d)),
      (''ntpSynced'', JBool (bd_time d > NTP_EPOCH_MIN)), (''fwSize'', JNum (uint (bd_image d))),
      (''firmwareBuild'', JNum (uint (bd_build d)))]"

text \<open>\<open>known1\<close> and \<open>known2\<close>: the nodes when the aliases are synchronised and when the page is built.\<close>

definition handleAdminNodes ::
  "omada_env \<Rightarrow> board_info \<Rightarrow> node_info list \<Rightarrow> node_info list \<Rightarrow> omada \<times> node_aliases \<Rightarrow> (omada \<times> node_aliases) \<times> json" where
  "handleAdminNodes e d known1 known2 t =
     (let (s0, a0) = t;
          (c, a) = syncNodeAliases e (om_site s0) (bd_master d) (bd_mac d) known1 (CREDS s0, a0);
          s = s0\<lparr>CREDS := c\<rparr>
      in ((s, a), JObj
        [(''nodes'', JArr (master_entry d a #
            map (slave_entry d a) (filter (\<lambda>ni. to_upper (ni_mac ni) \<noteq> to_upper (bd_mac d)) known2))),
         (''vendoActive'', JNum (int (vendo_active (bd_epoch d) (HOTSPOT_SESSION_CACHE s)))),
         (''voucherActive'', JNum (int (VOUCHER_ACTIVE_COUNT s))), (''serviceReady'', JBool (isServiceReady (bd_time d) s)),
         (''controller'', controller_entry d s), (''sys'', sys_entry d (bd_now d) s)]))"

section \<open>Sellers\<close>

text \<open>\<open>file\<close>: the files and whether the configuration can be opened for writing.\<close>

definition node_alias :: "json \<Rightarrow> string" where
  "node_alias n = as_text (jget n ''nickname'') @ ''|'' @ dec_int (as_int (jget n ''commission''))"

definition push_node :: "omada_env \<Rightarrow> site \<Rightarrow> json \<Rightarrow> credentials \<times> node_aliases \<Rightarrow> credentials \<times> node_aliases" where
  "push_node e st n t =
     (let (c, a) = t; mac = as_text (jget n ''mac'') in
      if mac = [] then (c, a)
      else (fst (setClientName e st mac (node_alias n) c),
            a\<lparr>NODE_ALIAS := omap_update (macColonUpper mac) (node_alias n) (NODE_ALIAS a)\<rparr>))"

definition listed_sellers :: "omada_env \<Rightarrow> fs \<Rightarrow> json" where
  "listed_sellers e fs =
     (case fs ''/config.json'' of
        None \<Rightarrow> JArr []
      | Some text \<Rightarrow>
          (case parse_json e text of
             None \<Rightarrow> JArr []
           | Some conf \<Rightarrow> (if is_arr (jget conf ''sellers'') then jget conf ''sellers'' else JArr [])))"

definition handleAdminSellers ::
  "omada_env \<Rightarrow> site \<Rightarrow> (json \<Rightarrow> string) \<Rightarrow> bool \<Rightarrow> http_method \<Rightarrow> string \<Rightarrow> fs \<Rightarrow> credentials \<times> node_aliases
     \<Rightarrow> (fs \<times> credentials \<times> node_aliases) \<times> desk_reply" where
  "handleAdminSellers e st ser opened m body fs t =
     (if m = HTTP_GET then ((fs, t), DeskJson (JObj [(''sellers'', listed_sellers e fs), (''nodes'', JArr [])]))
      else case parse_json e body of
          None \<Rightarrow> ((fs, t), DeskText 400 ''Bad request'')
        | Some doc \<Rightarrow>
            if \<not> is_arr (jget doc ''sellers'') then ((fs, t), DeskText 400 ''Bad request'')
            else (case mergeAndSaveConfig (parse_json e) ser opened (ser (JObj [(''sellers'', jget doc ''sellers'')])) fs of
                (fs1, Some err) \<Rightarrow> ((fs1, t), DeskText 500 (''Failed to save config: '' @ err))
              | (fs1, None) \<Rightarrow>
                  ((fs1, fold (push_node e st) (elements (jget doc ''nodes'')) t), DeskJson (JObj [(''ok'', JBool True)]))))"

section \<open>Configuration and restarts\<close>

datatype admin_action = Broadcast "u8 list option" | Respond page | RestartBoard

definition handleAdminConfig ::
  "(string \<Rightarrow> json option) \<Rightarrow> (json \<Rightarrow> string) \<Rightarrow> bool \<Rightarrow> http_method \<Rightarrow> string \<Rightarrow> fs \<Rightarrow> fs \<times> admin_action list" where
  "handleAdminConfig parse ser opened m body fs =
     (if m = HTTP_GET then
        (let json = maskedConfigJson parse ser fs
         in (fs, [Respond (if json = [] then Page 500 ''Config unreadable'' else Page 200 json)]))
      else (case mergeAndSaveConfig parse ser opened body fs of
          (fs1, Some err) \<Rightarrow> (fs1, [Respond (Page (if starts_with ''Failed'' err then 500 else 400) err)])
        | (fs1, None) \<Rightarrow> (fs1, [Respond (Page 200 (''Saved '' @ [CHR 0xE2, CHR 0x80, CHR 0x94] @ '' restarting...'')), RestartBoard])))"

definition handleAdminReboot :: "admin_action list" where
  "handleAdminReboot = [Respond (Page 200 ''Rebooting...''), RestartBoard]"

text \<open>\<open>clock\<close>: the network environment at each of the three broadcasts.\<close>

definition handleAdminRebootAll :: "(nat \<Rightarrow> net_env) \<Rightarrow> admin_action list" where
  "handleAdminRebootAll clock =
     map (\<lambda>i. Broadcast (masterBroadcastReboot (clock i))) [0..<3] @ [Respond (Page 200 ''Rebooting all nodes...''), RestartBoard]"

definition handleAdminClearErrors :: "fs \<Rightarrow> fs \<times> page" where
  "handleAdminClearErrors fs = (if fsExists fs ''/errors.log'' then fs(''/errors.log'' := None) else fs, Page 200 ''OK'')"

definition handleAdminRecheck :: "ws_job list \<Rightarrow> ws_job list \<times> page" where
  "handleAdminRecheck js = (q_post WEBSOCKET_JOB_QUEUE_SIZE JOB_REFRESH_CACHE js, Page 200 ''{\"queued\":true}'')"

text \<open>The stress endpoint of \<open>TEST_MODE\<close>: one refresh for the job task, one in the server's own task.\<close>

definition handleDiagHammer :: "omada_env \<Rightarrow> ws_job list \<times> omada \<Rightarrow> (ws_job list \<times> omada) \<times> page" where
  "handleDiagHammer e t =
     (let (js, s) = t in ((q_post WEBSOCKET_JOB_QUEUE_SIZE JOB_REFRESH_CACHE js, refreshControllerStatus e s), Page 200 ''{\"ok\":true}''))"

definition handleNotFound :: page where "handleNotFound = Page 404 ''Not found''"

section \<open>Routes\<close>

text \<open>\<open>setupWeb\<close>: path, method (\<open>None\<close> for \<open>HTTP_ANY\<close>), handler, and whether \<open>adminAuth\<close> runs before it. A handler
  without a name is given its path. \<open>TEST_MODE\<close> is defined, so the routes of the boot test and of the
  stress endpoint \<open>/diag/hammer\<close> are there, the latter without a gate.\<close>

record route =
  rt_path :: string
  rt_method :: "http_method option"
  rt_handler :: string
  rt_gated :: bool

definition on :: "string \<Rightarrow> http_method option \<Rightarrow> string \<Rightarrow> route" where
  "on path m h = \<lparr>rt_path = path, rt_method = m, rt_handler = h, rt_gated = False\<rparr>"

definition gated :: "route \<Rightarrow> route" where "gated r = r\<lparr>rt_gated := True\<rparr>"

definition routes :: "route list" where
  "routes =
     [on ''/'' (Some HTTP_GET) ''handleRoot'', on ''/ws'' None ''WEBSOCKET_HANDLER'',
      gated (on ''/refunds'' (Some HTTP_GET) ''handleRefunds''), gated (on ''/admin/activity'' (Some HTTP_GET) ''handleActivity''),
      gated (on ''/errors'' (Some HTTP_GET) ''handleErrors''), gated (on ''/program'' (Some HTTP_GET) ''handleProgram''),
      gated (on ''/admin/nodes'' (Some HTTP_GET) ''handleAdminNodes''), gated (on ''/admin/recheck'' (Some HTTP_POST) ''handleAdminRecheck''),
      gated (on ''/admin/money'' (Some HTTP_GET) ''handleAdminMoney''),
      gated (on ''/admin/money/import'' (Some HTTP_POST) ''handleAdminMoneyImport''),
      gated (on ''/admin/money/migrate'' (Some HTTP_GET) ''handleAdminMoneyMigrate''),
      gated (on ''/admin/money/migrate'' (Some HTTP_POST) ''handleAdminMoneyMigrate''),
      gated (on ''/admin/coinslot/boottest'' (Some HTTP_POST) ''handleCoinBootTest''),
      gated (on ''/admin/coinslot/boottest'' (Some HTTP_GET) ''handleCoinBootTest''),
      on ''/diag/hammer'' (Some HTTP_GET) ''handleDiagHammer'',
      gated (on ''/admin/log'' (Some HTTP_GET) ''handleAdminLog''), gated (on ''/admin/sockets'' (Some HTTP_GET) ''handleAdminSockets''),
      gated (on ''/admin/resources'' (Some HTTP_GET) ''handleResources''), gated (on ''/admin/sales'' (Some HTTP_GET) ''handleAdminSales''),
      gated (on ''/admin/statement'' (Some HTTP_GET) ''handleAdminStatement''),
      gated (on ''/admin/leaderboard'' (Some HTTP_GET) ''handleAdminLeaderboard''),
      gated (on ''/admin/sellers'' None ''handleAdminSellers''), gated (on ''/admin/vouchers'' None ''handleAdminVouchers''),
      gated (on ''/admin/config'' None ''handleAdminConfig''), gated (on ''/admin/reboot'' (Some HTTP_POST) ''handleAdminReboot''),
      gated (on ''/admin/reboot-all'' (Some HTTP_POST) ''handleAdminRebootAll''),
      gated (on ''/admin/clear-voucher-cache'' (Some HTTP_POST) ''handleAdminClearVoucherCache''),
      gated (on ''/admin/clear-errors'' (Some HTTP_POST) ''handleAdminClearErrors''),
      gated (on ''/admin/github-check'' (Some HTTP_GET) ''handleGithubCheck''),
      gated (on ''/admin/update-github'' (Some HTTP_POST) ''handleGithubUpdate''),
      on ''/admin'' (Some HTTP_GET) ''handleAdminPage'', on ''/admin/challenge'' (Some HTTP_GET) ''handleAdminChallenge'',
      on ''/admin/login'' (Some HTTP_POST) ''handleAdminLogin'', on ''/admin/logout'' (Some HTTP_POST) ''handleAdminLogout'',
      on ''/sha256.min.js'' (Some HTTP_GET) ''handleSha256Js'', on ''/config.json'' (Some HTTP_GET) ''/config.json'',
      on ''/status'' (Some HTTP_GET) ''handleGetStatus'', on ''/index.html'' (Some HTTP_GET) ''handleRoot'',
      on ''/map.svg'' (Some HTTP_GET) ''/map.svg'', on ''/theme.css'' (Some HTTP_GET) ''/theme.css'',
      on ''/update'' (Some HTTP_POST) ''otaHandler'', on ''/update-fs'' (Some HTTP_POST) ''fsHandler'',
      on ''/fw.bin'' (Some HTTP_GET) ''handleFwBin'', on ''/jspdf.umd.min.js'' (Some HTTP_GET) ''handleJsPdf'',
      on ''/assets/insertcoinbg.mp3'' (Some HTTP_GET) ''/assets/insertcoinbg.mp3'',
      on ''/assets/coin-received.mp3'' (Some HTTP_GET) ''/assets/coin-received.mp3'',
      on ''/EllaFi.webp'' (Some HTTP_GET) ''/EllaFi.webp'', on ''/favicon.ico'' (Some HTTP_GET) ''/favicon.ico'']"

text \<open>A request on a route that the server chose: the reply of the gate, or the handler that runs.\<close>

definition serve :: "admin_env \<Rightarrow> string \<Rightarrow> route \<Rightarrow> admin_auth \<Rightarrow> admin_auth \<times> (admin_reply + string)" where
  "serve e cookie r s =
     (if \<not> rt_gated r then (s, Inr (rt_handler r))
      else case adminAuth e cookie s of
          (s1, Some reply) \<Rightarrow> (s1, Inl reply)
        | (s1, None) \<Rightarrow> (s1, Inr (rt_handler r)))"

section \<open>Lemmas\<close>

lemma index_of_takeWhile: "index_of [c] (t @ c # s) = Some (length (takeWhile (\<lambda>x. x \<noteq> c) t))"
  by (induction t) (auto simp: starts_with_def)

lemma alias_parts:
  "alias_nickname (t @ ''|'' @ u) = takeWhile (\<lambda>x. x \<noteq> CHR ''|'') t"
  "CHR ''|'' \<notin> set t \<Longrightarrow> alias_commission (t @ ''|'' @ u) = atol u"
proof -
  have "take (length (takeWhile P t)) (t @ w) = takeWhile P t" for P and w :: string
    by (metis append.assoc append_eq_conv_conj takeWhile_dropWhile_id)
  then show "alias_nickname (t @ ''|'' @ u) = takeWhile (\<lambda>x. x \<noteq> CHR ''|'') t"
    by (simp add: alias_nickname_def index_of_takeWhile)
  show "CHR ''|'' \<notin> set t \<Longrightarrow> alias_commission (t @ ''|'' @ u) = atol u"
    using index_of_first [of "CHR ''|''" t u] by (simp add: alias_commission_def)
qed

lemma atol_dec_signed: "- (2 ^ 31) \<le> n \<Longrightarrow> n < 2 ^ 31 \<Longrightarrow> atol (dec_int n) = n"
proof (cases "0 \<le> n")
  case True
  then show "n < 2 ^ 31 \<Longrightarrow> atol (dec_int n) = n" using atol_dec_int [of "nat n"] by simp
next
  case False
  then have "decimal (dec_int n) = n" by (simp add: decimal_def dec_int_def is_space_def)
  then show "- (2 ^ 31) \<le> n \<Longrightarrow> n < 2 ^ 31 \<Longrightarrow> atol (dec_int n) = n" by (simp add: atol_def)
qed

lemma as_int_range: "- (2 ^ 31) \<le> as_int v" "as_int v < 2 ^ 31"
  by (cases v; simp add: as_int_def)+

lemma push_nodes_ok: "omap_ok (NODE_ALIAS (snd t)) \<Longrightarrow> omap_ok (NODE_ALIAS (snd (fold (push_node e st) ns t)))"
proof (induction ns arbitrary: t)
  case (Cons n ns)
  have "omap_ok (NODE_ALIAS (snd (push_node e st n t)))"
    using Cons.prems by (cases t) (simp add: push_node_def Let_def omap_ok_update)
  then show ?case using Cons.IH by simp
qed simp

lemma push_node_alias:
  assumes "omap_ok (NODE_ALIAS (snd t))" and "as_text (jget n ''mac'') \<noteq> []"
  shows "map_of (NODE_ALIAS (snd (push_node e st n t))) (macColonUpper (as_text (jget n ''mac''))) = Some (node_alias n)"
  using assms by (cases t) (simp add: push_node_def Let_def map_of_omap_update)

lemma sellers_posted:
  assumes "parse_json e body = Some doc" and "handleAdminSellers e st ser opened HTTP_POST body fs t = ((fs1, t1), DeskJson r)"
  shows "is_arr (jget doc ''sellers'')" and "t1 = fold (push_node e st) (elements (jget doc ''nodes'')) t"
    and "mergeAndSaveConfig (parse_json e) ser opened (ser (JObj [(''sellers'', jget doc ''sellers'')])) fs = (fs1, None)"
  using assms by (auto simp: handleAdminSellers_def split: if_splits option.splits prod.splits)

section \<open>Properties\<close>

text \<open>A concrete save of the sellers page: one seller, one node.\<close>

definition demo_sellers :: "json list" where "demo_sellers = [JObj [(''name'', JStr ''KANO'')]]"

definition shop_node :: json where
  "shop_node = JObj [(''mac'', JStr ''aa-bb''), (''nickname'', JStr ''Sari''), (''commission'', JNum 20)]"

definition demo_post :: json where
  "demo_post = JObj [(''sellers'', JArr demo_sellers), (''nodes'', JArr [shop_node])]"

definition demo_ser :: "json \<Rightarrow> string" where
  "demo_ser j = (if j = JObj [(''sellers'', JArr demo_sellers)] then ''m'' else ''s'')"

definition save_env :: omada_env where
  "save_env = (demo_omada_env (\<lambda>r. \<lparr>rp_code = 0, rp_error = [], rp_body = [], rp_cookies = []\<rparr>))\<lparr>parse_json := (\<lambda>t.
     if t = ''post'' then Some demo_post else if t = ''m'' then Some (JObj [(''sellers'', JArr demo_sellers)])
     else if t = ''c'' then Some (demo_config []) else if t = ''s'' then Some (demo_config [(''sellers'', JArr demo_sellers)]) else None)\<rparr>"

definition save_files :: fs where "save_files = [''/config.json'' \<mapsto> ''c'']"

lemma save_docs:
  "parse_json save_env ''post'' = Some demo_post" "jget demo_post ''sellers'' = JArr demo_sellers" "jget demo_post ''nodes'' = JArr ([] @ [shop_node])"
  "current_config (parse_json save_env) save_files = demo_config []" "jset ''sellers'' (JArr demo_sellers) (demo_config []) = demo_config [(''sellers'', JArr demo_sellers)]"
  "parse_json save_env (demo_ser (JObj [(''sellers'', JArr demo_sellers)])) = Some (JObj [(''sellers'', JArr demo_sellers)])"
  "parse_json save_env (demo_ser (demo_config [(''sellers'', JArr demo_sellers)])) = Some (demo_config [(''sellers'', JArr demo_sellers)])"
  by (simp_all add: save_env_def demo_post_def save_files_def current_config_def demo_config_def demo_ser_def)

lemma save_merges:
  "merge_config (JObj [(''sellers'', JArr demo_sellers)]) (demo_config []) = Inr (demo_config [(''sellers'', JArr demo_sellers)])"
  by (simp add: merge_config_def merge_field_def demo_config_def active_env_def required_fields_def field_missing_def cfg_def Let_def)

lemma save_accepted:
  "\<exists>fs1 c1 a1. handleAdminSellers save_env demo_site demo_ser True HTTP_POST ''post'' save_files (demo_credentials, no_aliases)
     = ((fs1, c1, a1), DeskJson (JObj [(''ok'', JBool True)]))"
proof -
  have "mergeAndSaveConfig (parse_json save_env) demo_ser True (demo_ser (JObj [(''sellers'', jget demo_post ''sellers'')])) save_files
      = (save_files(''/config.json'' \<mapsto> demo_ser (demo_config [(''sellers'', JArr demo_sellers)])), None)"
    by (simp add: mergeAndSaveConfig_def save_docs save_merges)
  then show ?thesis by (simp add: handleAdminSellers_def save_docs)
qed

text \<open>A nickname and a commission reach the node page. After the sellers page has been saved with a
  node's nickname and commission, the node page shows the nickname up to its first bar, and the
  commission exactly when the nickname has no bar; a MAC may be written with dashes and in lower case.\<close>
theorem alias_reaches_node_page:
  assumes "parse_json e body = Some doc" and "handleAdminSellers e st ser opened HTTP_POST body fs (c, a) = ((fs1, c1, a1), DeskJson r)"
    and "jget doc ''nodes'' = JArr (ns @ [n])" and "jget n ''mac'' = JStr mac" and "mac \<noteq> []" and "omap_ok (NODE_ALIAS a)"
    and "to_upper (ni_mac ni) = macColonUpper mac"
  shows "jget (slave_entry d a1 ni) ''nickname'' = JStr (takeWhile (\<lambda>x. x \<noteq> CHR ''|'') (as_text (jget n ''nickname'')))
    \<and> (CHR ''|'' \<notin> set (as_text (jget n ''nickname'')) \<longrightarrow>
         jget (slave_entry d a1 ni) ''commission'' = JNum (as_int (jget n ''commission'')))"
proof -
  let ?t = "fold (push_node e st) ns (c, a)"
  have a1: "a1 = snd (push_node e st n ?t)" using sellers_posted(2) [OF assms(1,2)] assms(3) by (simp add: prod_eq_iff)
  have ok: "omap_ok (NODE_ALIAS (snd ?t))" using push_nodes_ok assms(6) by simp
  have "map_of (NODE_ALIAS a1) (to_upper (ni_mac ni)) = Some (node_alias n)"
    using push_node_alias [OF ok, of n] assms(4,5,7) unfolding a1 by simp
  then have "nickFor a1 (ni_mac ni) = alias_nickname (node_alias n)" "commFor a1 (ni_mac ni) = alias_commission (node_alias n)"
    by (simp_all add: nickFor_def commFor_def)
  moreover note alias_parts [of "as_text (jget n ''nickname'')" "dec_int (as_int (jget n ''commission''))"]
  ultimately show ?thesis using atol_dec_signed [OF as_int_range]
    unfolding node_alias_def slave_entry_def Let_def by (simp add: slave_entry_def)
qed

theorem alias_reaches_node_page_witness:
  "\<exists>fs1 c1 a1. handleAdminSellers save_env demo_site demo_ser True HTTP_POST ''post'' save_files (demo_credentials, no_aliases)
       = ((fs1, c1, a1), DeskJson (JObj [(''ok'', JBool True)]))
     \<and> (\<forall>d. jget (slave_entry d a1 (default_node\<lparr>ni_mac := ''AA:BB''\<rparr>)) ''nickname'' = JStr ''Sari''
          \<and> jget (slave_entry d a1 (default_node\<lparr>ni_mac := ''AA:BB''\<rparr>)) ''commission'' = JNum 20)"
proof -
  obtain fs1 c1 a1 where s: "handleAdminSellers save_env demo_site demo_ser True HTTP_POST ''post'' save_files (demo_credentials, no_aliases)
       = ((fs1, c1, a1), DeskJson (JObj [(''ok'', JBool True)]))"
    using save_accepted by blast
  have n: "jget shop_node ''mac'' = JStr ''aa-bb''" "''aa-bb'' \<noteq> []" "omap_ok (NODE_ALIAS no_aliases)"
    by (simp_all add: shop_node_def no_aliases_def)
  have m: "to_upper (ni_mac (default_node\<lparr>ni_mac := ''AA:BB''\<rparr>)) = macColonUpper ''aa-bb''" by code_simp
  have "as_text (jget shop_node ''nickname'') = ''Sari''" "as_int (jget shop_node ''commission'') = 20"
    by (simp_all add: shop_node_def as_int_def)
  then have "jget (slave_entry d a1 (default_node\<lparr>ni_mac := ''AA:BB''\<rparr>)) ''nickname'' = JStr ''Sari''
     \<and> jget (slave_entry d a1 (default_node\<lparr>ni_mac := ''AA:BB''\<rparr>)) ''commission'' = JNum 20"
    for d
    using alias_reaches_node_page [OF save_docs(1) s save_docs(3) n m, of d] by (simp only:) simp
  with s show ?thesis by blast
qed

text \<open>Saved sellers are read back and nothing else changes. When the sellers page is saved, the next
  read shows exactly the posted sellers, every other member of the configuration keeps its value,
  and no other file is touched.\<close>
theorem sellers_saved:
  assumes "parse_json e body = Some doc" and "jget doc ''sellers'' = JArr xs"
    and "handleAdminSellers e st ser opened HTTP_POST body fs t = ((fs1, t1), DeskJson r)"
    and "is_null (current_config (parse_json e) fs) \<or> is_obj (current_config (parse_json e) fs)"
    and "parse_json e (ser (JObj [(''sellers'', JArr xs)])) = Some (JObj [(''sellers'', JArr xs)])"
    and "parse_json e (ser (jset ''sellers'' (JArr xs) (current_config (parse_json e) fs)))
           = Some (jset ''sellers'' (JArr xs) (current_config (parse_json e) fs))"
  shows "snd (handleAdminSellers e st ser opened HTTP_GET q fs1 t1) = DeskJson (JObj [(''sellers'', JArr xs), (''nodes'', JArr [])])
    \<and> (\<forall>k. k \<noteq> ''sellers'' \<longrightarrow> jget (current_config (parse_json e) fs1) k = jget (current_config (parse_json e) fs) k)
    \<and> (\<forall>f. f \<noteq> ''/config.json'' \<longrightarrow> fs1 f = fs f)"
proof -
  let ?cur = "current_config (parse_json e) fs" and ?new = "jset ''sellers'' (JArr xs) (current_config (parse_json e) fs)"
  have "merge_config (JObj [(''sellers'', JArr xs)]) ?cur = Inr m \<Longrightarrow> m = ?new" for m
    by (auto simp: merge_config_def merge_field_def Let_def split: sum.splits list.splits)
  then have fs1: "fs1 = fs(''/config.json'' \<mapsto> ser ?new)"
    using sellers_posted(3) [OF assms(1,3)] assms(2,5) by (auto simp: mergeAndSaveConfig_def split: sum.splits if_splits)
  then have "fs1 ''/config.json'' = Some (ser ?new)" by simp
  then have new: "current_config (parse_json e) fs1 = ?new" unfolding current_config_def [of _ fs1] using assms(6) by simp
  have "listed_sellers e fs1 = JArr xs" using assms(4) by (simp add: listed_sellers_def fs1 assms(6))
  with new fs1 assms(4) show ?thesis by (simp add: handleAdminSellers_def)
qed

theorem sellers_saved_witness:
  "\<exists>fs1 t1. handleAdminSellers save_env demo_site demo_ser True HTTP_POST ''post'' save_files (demo_credentials, no_aliases)
       = ((fs1, t1), DeskJson (JObj [(''ok'', JBool True)]))
     \<and> snd (handleAdminSellers save_env demo_site demo_ser True HTTP_GET [] fs1 t1)
         = DeskJson (JObj [(''sellers'', JArr demo_sellers), (''nodes'', JArr [])])"
proof -
  obtain fs1 t1 where s: "handleAdminSellers save_env demo_site demo_ser True HTTP_POST ''post'' save_files (demo_credentials, no_aliases)
       = ((fs1, t1), DeskJson (JObj [(''ok'', JBool True)]))"
    using save_accepted by (metis prod.collapse)
  have "is_null (current_config (parse_json save_env) save_files) \<or> is_obj (current_config (parse_json save_env) save_files)"
    "parse_json save_env (demo_ser (jset ''sellers'' (JArr demo_sellers) (current_config (parse_json save_env) save_files)))
       = Some (jset ''sellers'' (JArr demo_sellers) (current_config (parse_json save_env) save_files))"
    unfolding save_docs by (simp_all add: demo_config_def)
  note saved = sellers_saved [OF save_docs(1,2) s this(1) save_docs(6) this(2), of "[]"]
  show ?thesis using s saved by blast
qed

text \<open>The node page shows who is online, save for a heartbeat that comes while the page is built. Every
  known slave has an entry; one heard of \<open>k\<close> milliseconds before the page read its clock is online
  exactly when \<open>k\<close> is below a minute, but one whose heartbeat arrived after the clock was read and
  before the nodes were copied is shown down, for about 49 days.\<close>
theorem late_heartbeat_shown_down:
  assumes "ni \<in> set known2" and "to_upper (ni_mac ni) \<noteq> to_upper (bd_mac d)"
  shows "\<exists>entry \<in> set (elements (jget (snd (handleAdminNodes e d known1 known2 t)) ''nodes'')).
      jget entry ''mac'' = JStr (ni_mac ni)
    \<and> (ni_lastSeenMs ni = bd_now d - k \<longrightarrow> jget entry ''online'' = JBool (k < 60000))
    \<and> (ni_lastSeenMs ni = bd_now d + k \<and> 0 < k \<and> k \<le> 60000 \<longrightarrow>
         jget entry ''online'' = JBool False \<and> (\<exists>s. jget entry ''downForSec'' = JNum s \<and> s \<ge> 4294907))"
proof -
  obtain a where "slave_entry d a ni \<in> set (elements (jget (snd (handleAdminNodes e d known1 known2 t)) ''nodes''))"
    using assms that by (auto simp: handleAdminNodes_def Let_def case_prod_beta)
  moreover have down: "\<not> - k < 60000" "uint (- k div 1000) \<ge> 4294907" if "0 < k" "k \<le> 60000" for k :: u32
  proof -
    have k: "0 < uint k" "uint k \<le> 60000" using that by (simp_all add: word_less_def word_le_def)
    then have m: "uint (- k) = 2 ^ 32 - uint k" by (simp add: uint_word_ariths zmod_zminus1_eq_if)
    then show "\<not> - k < 60000" using k by (simp add: word_less_def)
    show "uint (- k div 1000) \<ge> 4294907" using k m by (simp add: uint_div)
  qed
  moreover have "jget (slave_entry d a ni) ''mac'' = JStr (ni_mac ni)"
    "ni_lastSeenMs ni = bd_now d - k \<Longrightarrow> jget (slave_entry d a ni) ''online'' = JBool (k < 60000)"
    "ni_lastSeenMs ni = bd_now d + k \<Longrightarrow> jget (slave_entry d a ni) ''online'' = JBool (- k < 60000)"
    "ni_lastSeenMs ni = bd_now d + k \<Longrightarrow> jget (slave_entry d a ni) ''downForSec'' = JNum (uint (- k div 1000))"
    by (simp_all add: slave_entry_def Let_def)
  ultimately show ?thesis by (intro bexI [of _ "slave_entry d a ni"]) auto
qed

theorem late_heartbeat_shown_down_witness:
  "\<exists>d. let page = (\<lambda>n. snd (handleAdminNodes save_env d [] [default_node\<lparr>ni_mac := ''AA'', ni_lastSeenMs := n\<rparr>] (demo_omada empty_cache, no_aliases)))
     in (\<exists>entry \<in> set (elements (jget (page 940000) ''nodes'')). jget entry ''mac'' = JStr ''AA'' \<and> jget entry ''online'' = JBool False)
      \<and> (\<exists>entry \<in> set (elements (jget (page 1000005) ''nodes'')). jget entry ''mac'' = JStr ''AA'' \<and> jget entry ''online'' = JBool False)"
proof -
  let ?ni = "\<lambda>n. default_node\<lparr>ni_mac := ''AA'', ni_lastSeenMs := n\<rparr>"
  obtain d :: board_info where d: "bd_now d = 1000000" "bd_mac d = ''BB''" by (metis board_info.select_convs(2,7))
  have "to_upper (ni_mac (?ni n)) \<noteq> to_upper (bd_mac d)" for n unfolding d by (simp add: to_upper_def upper_char_def)
  note shown = late_heartbeat_shown_down [OF _ this, of _ "[?ni _]"]
  show ?thesis
    using shown [of 940000 940000 save_env "[]" "(demo_omada empty_cache, no_aliases)" 60000]
      shown [of 1000005 1000005 save_env "[]" "(demo_omada empty_cache, no_aliases)" 5] d
    by (intro exI [of _ d]) (auto simp: Let_def)
qed

text \<open>C30: Only the public routes answer without a login. Whatever route of the table the server chooses for
  a request that does not carry the cookie of a login, a handler runs only when it is one of the
  customer's pages and assets, the login itself, the image for the slaves, an upload handler,
  which checks the login at its first chunk, or the stress endpoint, which this commit compiles in
  with no gate; a request with the cookie reaches every route.\<close>
theorem admin_routes_gated:
  assumes "r \<in> set routes"
  shows "(snd (isAuthorized e cookie s) \<longrightarrow> snd (serve e cookie r s) = Inr (rt_handler r))
    \<and> (\<not> snd (isAuthorized e cookie s) \<longrightarrow>
        snd (serve e cookie r s) = (if rt_handler r \<in> {''handleRoot'', ''WEBSOCKET_HANDLER'', ''handleGetStatus'', ''handleAdminPage'',
            ''handleAdminChallenge'', ''handleAdminLogin'', ''handleAdminLogout'', ''handleSha256Js'', ''handleJsPdf'', ''handleFwBin'', ''handleDiagHammer'',
            ''otaHandler'', ''fsHandler'', ''/config.json'', ''/map.svg'', ''/theme.css'', ''/assets/insertcoinbg.mp3'',
            ''/assets/coin-received.mp3'', ''/EllaFi.webp'', ''/favicon.ico''}
          then Inr (rt_handler r) else Inl (Reply 401 None)))"
proof -
  have gate: "snd (serve e cookie r s) = (if \<not> rt_gated r \<or> snd (isAuthorized e cookie s) then Inr (rt_handler r) else Inl (Reply 401 None))"
    by (simp add: serve_def adminAuth_def case_prod_beta)
  have "list_all (\<lambda>r. rt_gated r \<longleftrightarrow> rt_handler r \<notin> {''handleRoot'', ''WEBSOCKET_HANDLER'', ''handleGetStatus'', ''handleAdminPage'',
            ''handleAdminChallenge'', ''handleAdminLogin'', ''handleAdminLogout'', ''handleSha256Js'', ''handleJsPdf'', ''handleFwBin'', ''handleDiagHammer'',
            ''otaHandler'', ''fsHandler'', ''/config.json'', ''/map.svg'', ''/theme.css'', ''/assets/insertcoinbg.mp3'',
            ''/assets/coin-received.mp3'', ''/EllaFi.webp'', ''/favicon.ico''}) routes"
    by code_simp
  then show ?thesis using assms unfolding gate by (simp only: list_all_iff) auto
qed

theorem admin_routes_gated_witness:
  "snd (serve demo_admin [] (routes ! 24) boot_auth) = Inl (Reply 401 None) \<and> rt_handler (routes ! 24) = ''handleAdminReboot''"
proof -
  have r: "routes ! 24 \<in> set routes" by (rule nth_mem) (simp add: routes_def)
  have h: "rt_handler (routes ! 24) = ''handleAdminReboot''" by code_simp
  have a: "\<not> snd (isAuthorized demo_admin [] boot_auth)" by code_simp
  from admin_routes_gated [OF r, of demo_admin "[]" boot_auth] a show ?thesis unfolding h by simp
qed

text \<open>The stress endpoint is open to everybody: whoever reaches the server, with or without the cookie of a login, gets
  the board to call the controller in the server's own task.\<close>
theorem diag_hammer_open:
  "\<exists>r \<in> set routes. rt_path r = ''/diag/hammer'' \<and> serve e cookie r s = (s, Inr ''handleDiagHammer'')"
  by (rule bexI [where x = "on ''/diag/hammer'' (Some HTTP_GET) ''handleDiagHammer''"])
    (simp_all add: serve_def on_def routes_def)

end
