(* ===== verification/CertBundle.thy ===== *)
theory CertBundle
  imports Wire "HOL-Library.Signed_Division"
begin

text \<open>
  The certificate bundle of the TLS client (\<open>lib/WiFiClientSecure/src/esp_crt_bundle.c\<close>): the bytes of
  the bundle in flash, the array of pointers that is built over them, and the callback that looks up
  the issuer of a certificate by binary search and checks the signature with the key it finds. Memory
  is a function from offsets to bytes, so that a read past the end of a name is a read of whatever is
  there. The routines of mbedtls are parameters.
\<close>

section \<open>The array of certificates\<close>

type_synonym memory = "nat \<Rightarrow> u8"

definition at :: "memory \<Rightarrow> nat \<Rightarrow> memory" where "at m off = (\<lambda>i. m (off + i))"

text \<open>\<open>p[0] << 8 | p[1]\<close>.\<close>

definition be16 :: "memory \<Rightarrow> nat" where "be16 m = unat (m 0) * 256 + unat (m 1)"

abbreviation BUNDLE_HEADER_OFFSET :: nat where "BUNDLE_HEADER_OFFSET \<equiv> 2"
abbreviation CRT_HEADER_OFFSET :: nat where "CRT_HEADER_OFFSET \<equiv> 4"

definition name_len :: "memory \<Rightarrow> nat" where "name_len crt = be16 crt"
definition key_len :: "memory \<Rightarrow> nat" where "key_len crt = be16 (at crt 2)"

text \<open>\<open>s_crt_bundle\<close>: the offsets of the certificates, or the null pointer, and their number.\<close>

record crt_bundle =
  crts :: "nat list option"
  num_certs :: nat

definition no_bundle :: crt_bundle where "no_bundle = \<lparr>crts = None, num_certs = 0\<rparr>"

fun walk_certs :: "memory \<Rightarrow> nat \<Rightarrow> nat \<Rightarrow> nat list" where
  "walk_certs m 0 cur = []"
| "walk_certs m (Suc n) cur =
     cur # walk_certs m n (cur + CRT_HEADER_OFFSET + name_len (at m cur) + key_len (at m cur))"

definition esp_crt_bundle_init :: "memory \<Rightarrow> bool \<Rightarrow> crt_bundle" where
  "esp_crt_bundle_init m allocated =
     \<lparr>crts = (if allocated then Some (walk_certs m (be16 m) BUNDLE_HEADER_OFFSET) else None), num_certs = be16 m\<rparr>"

definition arduino_esp_crt_bundle_detach :: "crt_bundle \<Rightarrow> crt_bundle" where
  "arduino_esp_crt_bundle_detach b = b\<lparr>crts := None\<rparr>"

definition arduino_esp_crt_bundle_set :: "memory \<Rightarrow> bool \<Rightarrow> crt_bundle \<Rightarrow> crt_bundle" where
  "arduino_esp_crt_bundle_set m allocated b = esp_crt_bundle_init m allocated"

text \<open>Whether the callback was installed; the result is \<open>ESP_OK\<close> in both cases.\<close>

definition arduino_esp_crt_bundle_attach :: "crt_bundle \<Rightarrow> bool \<times> int" where
  "arduino_esp_crt_bundle_attach b = (crts b \<noteq> None, 0)"

section \<open>Signature\<close>

text \<open>What mbedtls answers for a public key: parsing it, whether it suits the signature, the digest of
  the certificate, and the verification.\<close>

record signature_env =
  pk_parse :: "u8 list \<Rightarrow> int"
  pk_can_do :: "u8 list \<Rightarrow> bool"
  md_result :: int
  pk_verify :: "u8 list \<Rightarrow> int"

definition esp_crt_check_signature :: "signature_env \<Rightarrow> u8 list \<Rightarrow> int" where
  "esp_crt_check_signature e key =
     (if pk_parse e key \<noteq> 0 then pk_parse e key
      else if \<not> pk_can_do e key then - 1
      else if md_result e \<noteq> 0 then md_result e
      else pk_verify e key)"

section \<open>The callback\<close>

fun memcmp :: "nat \<Rightarrow> memory \<Rightarrow> memory \<Rightarrow> int" where
  "memcmp 0 p q = 0"
| "memcmp (Suc n) p q =
     (if p 0 < q 0 then - 1 else if q 0 < p 0 then 1 else memcmp n (at p 1) (at q 1))"

lemma middle_between:
  "(a :: int) \<le> b \<Longrightarrow> a \<le> (a + b) sdiv 2 \<and> (a + b) sdiv 2 \<le> b"
  by (cases "0 \<le> a + b") (auto simp: signed_divide_int_def sgn_if)

text \<open>The loop; \<open>middle\<close> is half of \<open>start + end\<close> at every test of its condition.\<close>

function crt_search :: "(int \<Rightarrow> int) \<Rightarrow> int \<Rightarrow> int \<Rightarrow> int option" where
  "crt_search cmp start stop =
     (if start > stop then None
      else let middle = (start + stop) sdiv 2; cmp_res = cmp middle in
        if cmp_res = 0 then Some middle
        else if cmp_res < 0 then crt_search cmp start (middle - 1)
        else crt_search cmp (middle + 1) stop)"
  by pat_completeness auto

termination
proof (relation "measure (\<lambda>(cmp, a, b). nat (b - a + 1))")
  fix cmp :: "int \<Rightarrow> int" and start stop middle cmp_res :: int
  assume a: "\<not> start > stop" "middle = (start + stop) sdiv 2"
  then have m: "start \<le> middle" "middle \<le> stop" using middle_between [of start stop] by simp_all
  show "((cmp, start, middle - 1), cmp, start, stop) \<in> measure (\<lambda>(cmp, a, b). nat (b - a + 1))" using a(1) m by simp
  show "((cmp, middle + 1, stop), cmp, start, stop) \<in> measure (\<lambda>(cmp, a, b). nat (b - a + 1))" using a(1) m by simp
qed simp

declare crt_search.simps [simp del]

abbreviation BADCERT_NOT_TRUSTED :: u32 where "BADCERT_NOT_TRUSTED \<equiv> 0x08"
abbreviation BADCERT_BAD_MD :: u32 where "BADCERT_BAD_MD \<equiv> 0x4000"
abbreviation X509_FATAL_ERROR :: int where "X509_FATAL_ERROR \<equiv> - 0x3000"

text \<open>The bytes of the key of the certificate at \<open>crt\<close>.\<close>

definition crt_key :: "memory \<Rightarrow> u8 list" where
  "crt_key crt = map (at crt (CRT_HEADER_OFFSET + name_len crt)) [0..<key_len crt]"

definition crt_compare :: "memory \<Rightarrow> memory \<Rightarrow> int" where
  "crt_compare issuer crt = memcmp (name_len crt) issuer (at crt CRT_HEADER_OFFSET)"

text \<open>The result and the flags after the call.\<close>

definition esp_crt_verify_callback ::
  "signature_env \<Rightarrow> memory \<Rightarrow> crt_bundle \<Rightarrow> memory \<Rightarrow> u32 \<Rightarrow> int \<times> u32" where
  "esp_crt_verify_callback e m b issuer flags =
     (if and flags (not BADCERT_BAD_MD) \<noteq> BADCERT_NOT_TRUSTED then (0, flags)
      else case crts b of
          None \<Rightarrow> (X509_FATAL_ERROR, flags)
        | Some offs \<Rightarrow>
            (let ret = (case crt_search (\<lambda>i. crt_compare issuer (at m (offs ! nat i))) 0 (int (num_certs b) - 1) of
                          None \<Rightarrow> X509_FATAL_ERROR
                        | Some i \<Rightarrow> esp_crt_check_signature e (crt_key (at m (offs ! nat i))))
             in if ret = 0 then (0, 0) else (X509_FATAL_ERROR, flags)))"

section \<open>Layout\<close>

definition put16 :: "nat \<Rightarrow> u8 list" where "put16 n = [word_of_nat (n div 256), word_of_nat n]"

text \<open>The bundle of a list of names and keys, as the generator writes it.\<close>

definition crt_bytes :: "u8 list \<times> u8 list \<Rightarrow> u8 list" where
  "crt_bytes c = put16 (length (fst c)) @ put16 (length (snd c)) @ fst c @ snd c"

definition bundle_bytes :: "(u8 list \<times> u8 list) list \<Rightarrow> u8 list" where
  "bundle_bytes cs = put16 (length cs) @ concat (map crt_bytes cs)"

definition holds :: "memory \<Rightarrow> u8 list \<Rightarrow> bool" where
  "holds m bs \<longleftrightarrow> (\<forall>i < length bs. m i = bs ! i)"

lemma holds_append: "holds m (xs @ ys) \<longleftrightarrow> holds m xs \<and> holds (at m (length xs)) ys"
proof
  assume h: "holds m (xs @ ys)"
  have "m i = xs ! i" if "i < length xs" for i using h that unfolding holds_def by (metis length_append nth_append trans_less_add1)
  moreover have "m (length xs + i) = ys ! i" if "i < length ys" for i
    using h that unfolding holds_def by (metis length_append nat_add_left_cancel_less nth_append_length_plus)
  ultimately show "holds m xs \<and> holds (at m (length xs)) ys" by (simp add: holds_def at_def)
next
  assume h: "holds m xs \<and> holds (at m (length xs)) ys"
  show "holds m (xs @ ys)"
    unfolding holds_def
  proof (intro allI impI)
    fix i assume "i < length (xs @ ys)"
    then show "m i = (xs @ ys) ! i"
      using h by (cases "i < length xs") (auto simp: holds_def at_def nth_append dest: spec [of _ "i - length xs"])
  qed
qed

lemma at_at [simp]: "at (at m a) b = at m (a + b)" by (simp add: at_def add.assoc)
lemma at_0 [simp]: "at m 0 = m" by (simp add: at_def)

lemma length_put16 [simp]: "length (put16 n) = 2"
  by (simp add: put16_def)

lemma be16_put16: "n < 65536 \<Longrightarrow> holds m (put16 n) \<Longrightarrow> be16 m = n"
proof -
  assume n: "n < 65536" and h: "holds m (put16 n)"
  have "m 0 = word_of_nat (n div 256)" "m 1 = word_of_nat n" using h by (auto simp: holds_def put16_def nth_Cons')
  then show "be16 m = n" using n by (simp add: be16_def unsigned_of_nat take_bit_eq_mod)
qed

lemma holds_map: "holds m bs \<Longrightarrow> map m [0..<length bs] = bs"
  by (rule nth_equalityI) (simp_all add: holds_def)

abbreviation fits :: "u8 list \<times> u8 list \<Rightarrow> bool" where
  "fits c \<equiv> length (fst c) < 65536 \<and> length (snd c) < 65536"

lemma crt_fields:
  assumes "holds m (crt_bytes c)" and "fits c"
  shows "name_len m = length (fst c)" and "key_len m = length (snd c)" and "crt_key m = snd c"
    and "holds (at m CRT_HEADER_OFFSET) (fst c)"
proof -
  have h: "holds m (put16 (length (fst c)))" "holds (at m 2) (put16 (length (snd c)))" "holds (at m 4) (fst c)"
    "holds (at m (4 + length (fst c))) (snd c)"
    using assms(1) by (simp_all add: crt_bytes_def holds_append)
  show n: "name_len m = length (fst c)" and k: "key_len m = length (snd c)"
    using be16_put16 [OF _ h(1)] be16_put16 [OF _ h(2)] assms(2) by (simp_all add: name_len_def key_len_def)
  show "crt_key m = snd c" using holds_map [OF h(4)] by (simp add: crt_key_def n k)
  show "holds (at m CRT_HEADER_OFFSET) (fst c)" by (rule h(3))
qed

lemma walk_certs_layout:
  assumes "holds (at m cur) (concat (map crt_bytes cs))" and "\<forall>c \<in> set cs. fits c"
  shows "list_all2 (\<lambda>off c. holds (at m off) (crt_bytes c)) (walk_certs m (length cs) cur) cs"
  using assms
proof (induction cs arbitrary: cur)
  case (Cons c cs)
  have h: "holds (at m cur) (crt_bytes c)" "holds (at m (cur + length (crt_bytes c))) (concat (map crt_bytes cs))"
    using Cons.prems(1) by (simp_all add: holds_append)
  have n: "cur + CRT_HEADER_OFFSET + name_len (at m cur) + key_len (at m cur) = cur + length (crt_bytes c)"
    using crt_fields(1,2) [OF h(1)] Cons.prems(2) by (simp add: crt_bytes_def put16_def)
  show ?case unfolding length_Cons walk_certs.simps(2) n using h Cons.IH [OF h(2)] Cons.prems(2) by simp
qed simp

section \<open>Order of names\<close>

text \<open>The order of a sorted bundle: the names differ at a position that both have.\<close>

fun name_lt :: "u8 list \<Rightarrow> u8 list \<Rightarrow> bool" where
  "name_lt (x # xs) (y # ys) \<longleftrightarrow> x < y \<or> x = y \<and> name_lt xs ys"
| "name_lt _ _ \<longleftrightarrow> False"

lemma memcmp_zero: "holds q n \<Longrightarrow> memcmp (length n) p q = 0 \<longleftrightarrow> holds p n"
proof (induction n arbitrary: p q)
  case (Cons x n)
  have split: "holds r (x # n) \<longleftrightarrow> r 0 = x \<and> holds (at r 1) n" for r
    using holds_append [of r "[x]" n] by (simp add: holds_def [of r "[x]"])
  show ?case using Cons by (auto simp: split)
qed (simp add: holds_def)

lemma memcmp_sorted:
  "name_lt a b \<Longrightarrow> holds p a \<Longrightarrow> holds q b \<Longrightarrow> memcmp (length a) f p \<le> 0 \<Longrightarrow> memcmp (length b) f q < 0"
proof (induction a b arbitrary: f p q rule: name_lt.induct)
  case (1 x xs y ys)
  have "p 0 = x" "holds (at p 1) xs" "q 0 = y" "holds (at q 1) ys"
    using "1.prems" holds_append [of p "[x]" xs] holds_append [of q "[y]" ys] by (simp_all add: holds_def [of _ "[_]"])
  then show ?case using 1 by (auto split: if_splits)
qed simp_all

lemma crt_search_sound:
  assumes "\<And>i j. lo \<le> i \<Longrightarrow> i < j \<Longrightarrow> j \<le> hi \<Longrightarrow> cmp i \<le> 0 \<Longrightarrow> cmp j < 0"
  shows "case crt_search cmp lo hi of Some m \<Rightarrow> lo \<le> m \<and> m \<le> hi \<and> cmp m = 0 | None \<Rightarrow> \<forall>i. lo \<le> i \<and> i \<le> hi \<longrightarrow> cmp i \<noteq> 0"
  using assms
proof (induction cmp lo hi rule: crt_search.induct)
  case (1 cmp lo hi)
  show ?case
  proof (cases "lo > hi")
    case False
    let ?m = "(lo + hi) sdiv 2"
    have m: "lo \<le> ?m" "?m \<le> hi" using middle_between [of lo hi] False by simp_all
    consider "cmp ?m = 0" | "cmp ?m < 0" | "cmp ?m > 0" by linarith
    then show ?thesis
    proof cases
      case 1
      with m False show ?thesis by (simp add: crt_search.simps [of _ lo hi])
    next
      case 2
      then have "cmp i < 0" if "?m \<le> i" "i \<le> hi" for i using "1.prems" [of ?m i] that m(1) by (cases "i = ?m") auto
      then have upper: "cmp i \<noteq> 0" if "?m \<le> i" "i \<le> hi" for i using that by (metis less_irrefl)
      have "case crt_search cmp lo (?m - 1) of Some k \<Rightarrow> lo \<le> k \<and> k \<le> ?m - 1 \<and> cmp k = 0
          | None \<Rightarrow> \<forall>i. lo \<le> i \<and> i \<le> ?m - 1 \<longrightarrow> cmp i \<noteq> 0"
        by (rule "1.IH"(1) [OF False refl refl]) (use 2 m "1.prems" in auto)
      moreover have "crt_search cmp lo hi = crt_search cmp lo (?m - 1)" using 2 False by (simp add: crt_search.simps [of _ lo hi])
      ultimately show ?thesis using upper m(2) by (auto split: option.splits) (meson linorder_not_less zle_diff1_eq)
    next
      case 3
      then have lower: "cmp i \<noteq> 0" if "lo \<le> i" "i \<le> ?m" for i
        using "1.prems" [of i ?m] m(2) that by (cases "i = ?m") auto
      have "case crt_search cmp (?m + 1) hi of Some k \<Rightarrow> ?m + 1 \<le> k \<and> k \<le> hi \<and> cmp k = 0
          | None \<Rightarrow> \<forall>i. ?m + 1 \<le> i \<and> i \<le> hi \<longrightarrow> cmp i \<noteq> 0"
      proof (rule "1.IH"(2) [OF False refl refl])
        show "cmp j < 0" if "?m + 1 \<le> i" "i < j" "j \<le> hi" "cmp i \<le> 0" for i j
          by (rule "1.prems" [of i j]) (use that m(1) in linarith)+
      qed (use 3 in simp_all)
      moreover have "crt_search cmp lo hi = crt_search cmp (?m + 1) hi" using 3 False by (simp add: crt_search.simps [of _ lo hi])
      ultimately show ?thesis using lower m(1) by (auto split: option.splits) (meson linorder_not_less zless_imp_add1_zle)
    qed
  qed (simp add: crt_search.simps [of _ lo hi])
qed

section \<open>Lookup\<close>

lemma bundle_layout:
  assumes "holds m (bundle_bytes cs)" and "length cs < 65536" and "\<forall>c \<in> set cs. fits c"
  shows "num_certs (esp_crt_bundle_init m True) = length cs"
    and "list_all2 (\<lambda>off c. holds (at m off) (crt_bytes c)) (the (crts (esp_crt_bundle_init m True))) cs"
proof -
  have h: "holds m (put16 (length cs))" "holds (at m 2) (concat (map crt_bytes cs))"
    using assms(1) by (simp_all add: bundle_bytes_def holds_append)
  have n: "be16 m = length cs" by (rule be16_put16 [OF assms(2) h(1)])
  then show "num_certs (esp_crt_bundle_init m True) = length cs" by (simp add: esp_crt_bundle_init_def)
  show "list_all2 (\<lambda>off c. holds (at m off) (crt_bytes c)) (the (crts (esp_crt_bundle_init m True))) cs"
    using walk_certs_layout [OF h(2) assms(3)] by (simp add: esp_crt_bundle_init_def n)
qed

lemma find_unique:
  assumes "i < length cs" and "P (cs ! i)" and "\<And>j. j < length cs \<Longrightarrow> P (cs ! j) \<Longrightarrow> j = i"
  shows "find P cs = Some (cs ! i)"
  unfolding find_Some_iff using assms by (metis less_trans nat_neq_iff)

text \<open>The binary search is a search. For a bundle laid out as the generator writes it and sorted by
  name, a certificate that is not trusted yet is accepted exactly when a certificate of the bundle
  has a name with which the issuer begins and the signature verifies with that certificate's key.\<close>
theorem bundle_lookup:
  assumes "holds m (bundle_bytes cs)" and "length cs < 65536" and "\<forall>c \<in> set cs. fits c"
    and "sorted_wrt (\<lambda>a b. name_lt (fst a) (fst b)) cs"
    and "and flags (not BADCERT_BAD_MD) = BADCERT_NOT_TRUSTED"
  shows "esp_crt_verify_callback e m (esp_crt_bundle_init m True) issuer flags =
     (case find (\<lambda>c. holds issuer (fst c)) cs of
        None \<Rightarrow> (X509_FATAL_ERROR, flags)
      | Some c \<Rightarrow> if esp_crt_check_signature e (snd c) = 0 then (0, 0) else (X509_FATAL_ERROR, flags))"
proof -
  let ?b = "esp_crt_bundle_init m True"
  obtain offs where o: "crts ?b = Some offs" by (simp add: esp_crt_bundle_init_def)
  note layout = bundle_layout [OF assms(1-3), unfolded o option.sel]
  have at: "holds (at m (offs ! i)) (crt_bytes (cs ! i))" "fits (cs ! i)" if "i < length cs" for i
    using list_all2_nthD2 [OF layout(2) that] assms(3) that by auto
  let ?cmp = "\<lambda>i. crt_compare issuer (at m (offs ! nat i))"
  have cmp: "?cmp i = memcmp (length (fst (cs ! nat i))) issuer (at (at m (offs ! nat i)) CRT_HEADER_OFFSET)"
    and name: "holds (at (at m (offs ! nat i)) CRT_HEADER_OFFSET) (fst (cs ! nat i))"
    if "0 \<le> i" "i \<le> int (length cs) - 1" for i
  proof -
    have n: "nat i < length cs" using that by linarith
    show "?cmp i = memcmp (length (fst (cs ! nat i))) issuer (at (at m (offs ! nat i)) CRT_HEADER_OFFSET)"
      using crt_fields(1) [OF at [OF n]] by (simp add: crt_compare_def)
    show "holds (at (at m (offs ! nat i)) CRT_HEADER_OFFSET) (fst (cs ! nat i))" by (rule crt_fields(4) [OF at [OF n]])
  qed
  have zero: "?cmp i = 0 \<longleftrightarrow> holds issuer (fst (cs ! nat i))" if "0 \<le> i" "i \<le> int (length cs) - 1" for i
    unfolding cmp [OF that] by (rule memcmp_zero [OF name [OF that]])
  have mono: "?cmp j < 0" if "0 \<le> i" "i < j" "j \<le> int (length cs) - 1" "?cmp i \<le> 0" for i j
  proof -
    have r: "0 \<le> i" "i \<le> int (length cs) - 1" "0 \<le> j" "j \<le> int (length cs) - 1" using that by linarith+
    have "nat i < nat j" "nat j < length cs" using that by linarith+
    then have "name_lt (fst (cs ! nat i)) (fst (cs ! nat j))" using assms(4) by (simp add: sorted_wrt_iff_nth_less)
    from memcmp_sorted [OF this name [OF r(1,2)] name [OF r(3,4)]] that(4) show ?thesis
      unfolding cmp [OF r(1,2)] cmp [OF r(3,4)] .
  qed
  have found: "case crt_search ?cmp 0 (int (length cs) - 1) of Some k \<Rightarrow> 0 \<le> k \<and> k \<le> int (length cs) - 1 \<and> ?cmp k = 0
      | None \<Rightarrow> \<forall>i. 0 \<le> i \<and> i \<le> int (length cs) - 1 \<longrightarrow> ?cmp i \<noteq> 0"
    by (rule crt_search_sound) (rule mono)
  have callback: "esp_crt_verify_callback e m ?b issuer flags =
      (let ret = (case crt_search ?cmp 0 (int (length cs) - 1) of None \<Rightarrow> X509_FATAL_ERROR
                  | Some i \<Rightarrow> esp_crt_check_signature e (crt_key (at m (offs ! nat i))))
       in if ret = 0 then (0, 0) else (X509_FATAL_ERROR, flags))"
    unfolding esp_crt_verify_callback_def assms(5) o layout(1) by (simp only: option.case simp_thms if_False)
  have none: "find (\<lambda>c. holds issuer (fst c)) cs = None" if "crt_search ?cmp 0 (int (length cs) - 1) = None"
    unfolding find_None_iff
  proof
    assume "\<exists>c. c \<in> set cs \<and> holds issuer (fst c)"
    then obtain i where i: "i < length cs" "holds issuer (fst (cs ! i))" by (metis in_set_conv_nth)
    then have "?cmp (int i) = 0" using zero [of "int i"] by simp
    moreover have "?cmp (int i) \<noteq> 0" using found i(1) that by (simp del: nat_int)
    ultimately show False by contradiction
  qed
  have some: "find (\<lambda>c. holds issuer (fst c)) cs = Some (cs ! nat i) \<and> crt_key (at m (offs ! nat i)) = snd (cs ! nat i)"
    if "crt_search ?cmp 0 (int (length cs) - 1) = Some i" for i
  proof -
    have i: "0 \<le> i" "i \<le> int (length cs) - 1" "?cmp i = 0" using found that by simp_all
    then have n: "nat i < length cs" by linarith
    have uniq: "j = nat i" if "j < length cs" "holds issuer (fst (cs ! j))" for j
    proof (rule ccontr)
      assume "j \<noteq> nat i"
      have j: "?cmp (int j) = 0" using zero [of "int j"] that by simp
      from \<open>j \<noteq> nat i\<close> consider "int j < i" | "i < int j" using i(1) by linarith
      then show False using mono [of "int j" i] mono [of i "int j"] i j that(1) by cases simp_all
    qed
    have "holds issuer (fst (cs ! nat i))" using zero [OF i(1,2)] i(3) by simp
    then have "find (\<lambda>c. holds issuer (fst c)) cs = Some (cs ! nat i)"
      by (rule find_unique [OF n]) (rule uniq)
    then show ?thesis using crt_fields(3) [OF at [OF n]] by simp
  qed
  show ?thesis
  proof (cases "crt_search ?cmp 0 (int (length cs) - 1)")
    case None
    show ?thesis unfolding callback none [OF None] unfolding None by (simp add: Let_def)
  next
    case (Some i)
    show ?thesis unfolding callback conjunct1 [OF some [OF Some]] unfolding Some option.case conjunct2 [OF some [OF Some]]
      by (simp add: Let_def)
  qed
qed

theorem bundle_lookup_witness:
  "esp_crt_verify_callback \<lparr>pk_parse = (\<lambda>k. 0), pk_can_do = (\<lambda>k. True), md_result = 0, pk_verify = (\<lambda>k. if k = [8] then 0 else 1)\<rparr>
     (\<lambda>i. bundle_bytes [([1], [9]), ([2, 5], [8])] ! i) (esp_crt_bundle_init (\<lambda>i. bundle_bytes [([1], [9]), ([2, 5], [8])] ! i) True)
     (\<lambda>i. if i = 0 then 2 else 5) 0x4008 = (0, 0)"
proof -
  let ?cs = "[([1], [9]), ([2, 5], [8])] :: (u8 list \<times> u8 list) list" and ?issuer = "\<lambda>i::nat. if i = 0 then 2 else 5 :: u8"
  have "holds (\<lambda>i. bundle_bytes ?cs ! i) (bundle_bytes ?cs)" "length ?cs < 65536" "\<forall>c \<in> set ?cs. fits c"
    "sorted_wrt (\<lambda>a b. name_lt (fst a) (fst b)) ?cs" "and (0x4008 :: u32) (not BADCERT_BAD_MD) = BADCERT_NOT_TRUSTED"
    by (simp_all add: holds_def)
  moreover have "\<not> holds ?issuer [1]" "holds ?issuer [2, 5]"
    by (auto simp: holds_def nth_Cons')
  ultimately show ?thesis by (simp only: bundle_lookup) (simp add: esp_crt_check_signature_def)
qed

end
