(* ===== verification/TlsClient.thy ===== *)
theory TlsClient
  imports Wire CertBundle
begin

text \<open>
  The TLS client under every call to the controller and to the release server
  (\<open>lib/WiFiClientSecure/src/ssl_client.cpp\<close>, \<open>WiFiClientSecure.cpp\<close>), with the repository's patch of
  \<open>stop_ssl_socket\<close>. The model has the socket descriptor and who closes it, the flags of the context
  that decide what is freed, the peeked byte, the timeouts and every return of the connection set-up.
  The answers of lwIP and mbedtls are given: single values, or the list of what a loop sees.
\<close>

section \<open>Context\<close>

datatype fd_action = FdOpen int | FdClose int

text \<open>The pointers of the configuration that are tested, and which of the three certificate objects
  hold memory.\<close>

record ssl_context =
  ssl_socket :: int
  ca_chain :: bool
  key_cert :: bool
  ca_cert_held :: bool
  client_cert_held :: bool
  client_key_held :: bool
  socket_timeout :: u32
  handshake_timeout :: u32

definition zero_context :: ssl_context where
  "zero_context = \<lparr>ssl_socket = 0, ca_chain = False, key_cert = False, ca_cert_held = False, client_cert_held = False,
     client_key_held = False, socket_timeout = 0, handshake_timeout = 0\<rparr>"

text \<open>What a client is configured with.\<close>

record tls_config =
  CA_cert :: "string option"
  cli_cert :: "string option"
  private_key :: "string option"
  pskIdent :: "string option"
  psKey :: "string option"
  use_insecure :: bool
  use_ca_bundle :: bool
  alpn_protos :: bool

definition no_config :: tls_config where
  "no_config = \<lparr>CA_cert = None, cli_cert = None, private_key = None, pskIdent = None, psKey = None, use_insecure = False,
     use_ca_bundle = False, alpn_protos = False\<rparr>"

section \<open>Setting up a connection\<close>

text \<open>The answers during one set-up. A handshake answer comes with the clock read after it.\<close>

record tls_env =
  te_socket :: int
  te_connected :: bool
  te_select :: int
  te_getsockopt :: int
  te_sockerr :: int
  te_setsockopt :: "int list"
  te_seed :: int
  te_defaults :: int
  te_alpn :: int
  te_ca_parse :: int
  te_bundle :: crt_bundle
  te_psk :: int
  te_cert_parse :: int
  te_key_parse :: int
  te_hostname :: int
  te_setup :: int
  te_start :: u32
  te_handshake :: "(int \<times> u32) list"
  te_expansion :: int
  te_verify :: u32

abbreviation WANT_READ :: int where "WANT_READ \<equiv> - 0x6900"
abbreviation WANT_WRITE :: int where "WANT_WRITE \<equiv> - 0x6880"

text \<open>The TCP part; the last result is a return of the function, \<open>None\<close> when it goes on.\<close>

definition tcp_connect :: "tls_env \<Rightarrow> int \<Rightarrow> ssl_context \<Rightarrow> ssl_context \<times> fd_action list \<times> int option" where
  "tcp_connect e timeout c =
     (let s = te_socket e; c1 = c\<lparr>ssl_socket := s\<rparr> in
      if s < 0 then (c1, [], Some s)
      else let c2 = c1\<lparr>socket_timeout := word_of_int (if timeout \<le> 0 then 30000 else timeout)\<rparr>;
               closed = (c2\<lparr>ssl_socket := - 1\<rparr>, [FdOpen s, FdClose s], Some (- 1))
           in if \<not> te_connected e then closed
              else if te_select e < 0 then closed
              else if te_select e = 0 then closed
              else if te_getsockopt e < 0 then closed
              else if te_sockerr e \<noteq> 0 then closed
              else if (\<exists>r \<in> set (te_setsockopt e). r < 0) then (c2, [FdOpen s], Some (- 1))
              else (c2, [FdOpen s], None))"

text \<open>The pre-shared key in hexadecimal.\<close>

abbreviation PSK_MAX_LEN :: nat where "PSK_MAX_LEN \<equiv> 32"

definition psk_nibble :: "char \<Rightarrow> u8 option" where
  "psk_nibble c =
     (if CHR ''0'' \<le> c \<and> c \<le> CHR ''9'' then Some (byte_of c - byte_of (CHR ''0''))
      else if CHR ''A'' \<le> c \<and> c \<le> CHR ''F'' then Some (byte_of c - (byte_of (CHR ''A'') - 10))
      else if CHR ''a'' \<le> c \<and> c \<le> CHR ''f'' then Some (byte_of c - (byte_of (CHR ''a'') - 10))
      else None)"

fun psk_pairs :: "string \<Rightarrow> u8 list option" where
  "psk_pairs [] = Some []"
| "psk_pairs [c] = None"
| "psk_pairs (a # b # s) =
     (case (psk_nibble a, psk_nibble b) of
        (Some h, Some l) \<Rightarrow> map_option (\<lambda>bs. (push_bit 4 h OR l) # bs) (psk_pairs s)
      | _ \<Rightarrow> None)"

definition psk_bytes :: "string \<Rightarrow> u8 list option" where
  "psk_bytes s = (if odd (length s) \<or> length s > 2 * PSK_MAX_LEN then None else psk_pairs s)"

text \<open>The TLS configuration up to the handshake.\<close>

definition tls_trust :: "tls_env \<Rightarrow> tls_config \<Rightarrow> ssl_context \<Rightarrow> ssl_context \<times> int option" where
  "tls_trust e f c =
     (if use_insecure f then (c, None)
      else if CA_cert f \<noteq> None then
        (if te_ca_parse e < 0 then (c\<lparr>ca_chain := True, ca_cert_held := False\<rparr>, Some (te_ca_parse e))
         else (c\<lparr>ca_chain := True, ca_cert_held := True\<rparr>, None))
      else if use_ca_bundle f then
        (case arduino_esp_crt_bundle_attach (te_bundle e) of
           (attached, ret) \<Rightarrow> (c\<lparr>ca_chain := ca_chain c \<or> attached\<rparr>, if ret < 0 then Some ret else None))
      else case (pskIdent f, psKey f) of
          (Some i, Some k) \<Rightarrow>
            (c, if psk_bytes k = None then Some (- 1) else if te_psk e \<noteq> 0 then Some (te_psk e) else None)
        | _ \<Rightarrow> (c, Some (- 1)))"

definition tls_own_cert :: "tls_env \<Rightarrow> tls_config \<Rightarrow> ssl_context \<Rightarrow> ssl_context \<times> int option" where
  "tls_own_cert e f c =
     (if use_insecure f \<or> cli_cert f = None \<or> private_key f = None then (c, None)
      else if te_cert_parse e < 0 then (c\<lparr>client_cert_held := False\<rparr>, Some (te_cert_parse e))
      else if te_key_parse e \<noteq> 0 then (c\<lparr>client_cert_held := False\<rparr>, Some (te_key_parse e))
      else (c\<lparr>client_cert_held := True, client_key_held := True, key_cert := True\<rparr>, None))"

definition tls_configure :: "tls_env \<Rightarrow> tls_config \<Rightarrow> ssl_context \<Rightarrow> ssl_context \<times> int option" where
  "tls_configure e f c =
     (if te_seed e < 0 then (c, Some (te_seed e))
      else if te_defaults e \<noteq> 0 then (c, Some (te_defaults e))
      else if alpn_protos f \<and> te_alpn e \<noteq> 0 then (c, Some (te_alpn e))
      else case tls_trust e f c of
          (c1, Some r) \<Rightarrow> (c1, Some r)
        | (c1, None) \<Rightarrow>
            (case tls_own_cert e f c1 of
               (c2, Some r) \<Rightarrow> (c2, Some r)
             | (c2, None) \<Rightarrow>
                 (c2, if te_hostname e \<noteq> 0 then Some (te_hostname e) else if te_setup e \<noteq> 0 then Some (te_setup e) else None)))"

text \<open>The handshake loop: \<open>None\<close> while it still waits, \<open>Some None\<close> when it is done, \<open>Some (Some r)\<close> when the
  function returns \<open>r\<close>.\<close>

fun handshake_loop :: "u32 \<Rightarrow> u32 \<Rightarrow> (int \<times> u32) list \<Rightarrow> int option option" where
  "handshake_loop start limit [] = None"
| "handshake_loop start limit ((ret, now) # obs) =
     (if ret = 0 then Some None
      else if ret \<noteq> WANT_READ \<and> ret \<noteq> WANT_WRITE then Some (Some ret)
      else if now - start > limit then Some (Some (- 1))
      else handshake_loop start limit obs)"

text \<open>After the handshake: \<open>ret\<close> is what the last call left, 0 or the record expansion.\<close>

definition tls_verified :: "tls_env \<Rightarrow> tls_config \<Rightarrow> ssl_context \<Rightarrow> ssl_context \<times> int" where
  "tls_verified e f c =
     (let ret = (if cli_cert f \<noteq> None \<and> private_key f \<noteq> None then te_expansion e else 0) in
      if te_verify e \<noteq> 0 then (c, ret)
      else (c\<lparr>ca_cert_held := ca_cert_held c \<and> CA_cert f = None, client_cert_held := client_cert_held c \<and> cli_cert f = None,
              client_key_held := client_key_held c \<and> private_key f = None\<rparr>, ssl_socket c))"

text \<open>\<open>None\<close>: the handshake goes on.\<close>

definition start_ssl_client ::
  "tls_env \<Rightarrow> int \<Rightarrow> tls_config \<Rightarrow> ssl_context \<Rightarrow> (ssl_context \<times> fd_action list \<times> int) option" where
  "start_ssl_client e timeout f c =
     (if CA_cert f = None \<and> pskIdent f = None \<and> psKey f = None \<and> \<not> use_insecure f \<and> \<not> use_ca_bundle f then Some (c, [], - 1)
      else case tcp_connect e timeout c of
          (c1, a, Some r) \<Rightarrow> Some (c1, a, r)
        | (c1, a, None) \<Rightarrow>
            (case tls_configure e f c1 of
               (c2, Some r) \<Rightarrow> Some (c2, a, r)
             | (c2, None) \<Rightarrow>
                 (case handshake_loop (te_start e) (handshake_timeout c2) (te_handshake e) of
                    None \<Rightarrow> None
                  | Some (Some r) \<Rightarrow> Some (c2, a, r)
                  | Some None \<Rightarrow> (case tls_verified e f c2 of (c3, r) \<Rightarrow> Some (c3, a, r)))))"

text \<open>The certificate objects that the set pointers lead to are freed before the context is zeroed.\<close>

definition stop_ssl_socket :: "ssl_context \<Rightarrow> ssl_context \<times> fd_action list" where
  "stop_ssl_socket c =
     (zero_context\<lparr>handshake_timeout := handshake_timeout c, socket_timeout := socket_timeout c, ssl_socket := - 1\<rparr>,
      if ssl_socket c \<ge> 0 then [FdClose (ssl_socket c)] else [])"

section \<open>Client\<close>

record tls_client =
  ctx :: ssl_context
  conf :: tls_config
  timeout :: int
  connected :: bool
  peeked :: int
  lastError :: int

definition new_client :: tls_client where
  "new_client = \<lparr>ctx = zero_context\<lparr>ssl_socket := - 1, handshake_timeout := 120000\<rparr>, conf = no_config, timeout = 30000,
     connected = False, peeked = - 1, lastError = 0\<rparr>"

definition tls_stop :: "tls_client \<Rightarrow> tls_client \<times> fd_action list" where
  "tls_stop w =
     (let s = ssl_socket (ctx w);
          w1 = (if s \<ge> 0 then w\<lparr>ctx := (ctx w)\<lparr>ssl_socket := - 1\<rparr>, connected := False, peeked := - 1\<rparr> else w);
          (c, a) = stop_ssl_socket (ctx w1)
      in (w1\<lparr>ctx := c\<rparr>, (if s \<ge> 0 then [FdClose s] else []) @ a))"

text \<open>\<open>resolved\<close>: whether \<open>hostByName\<close> found the host. Without a pre-shared key the certificates of the client
  are used, with one only the key.\<close>

definition psk_config :: "tls_config \<Rightarrow> tls_config" where
  "psk_config f = f\<lparr>CA_cert := None, use_ca_bundle := False, cli_cert := None, private_key := None\<rparr>"

definition cert_config :: "tls_config \<Rightarrow> tls_config" where
  "cert_config f = f\<lparr>pskIdent := None, psKey := None\<rparr>"

definition tls_connect_with :: "tls_env \<Rightarrow> tls_config \<Rightarrow> tls_client \<Rightarrow> (tls_client \<times> fd_action list \<times> int) option" where
  "tls_connect_with e f w =
     (case start_ssl_client e (timeout w) f (ctx w) of
        None \<Rightarrow> None
      | Some (c, a, ret) \<Rightarrow>
          (let w1 = w\<lparr>ctx := c, lastError := ret\<rparr> in
           if ret < 0 then (case tls_stop w1 of (w2, b) \<Rightarrow> Some (w2, a @ b, 0))
           else Some (w1\<lparr>connected := True\<rparr>, a, 1)))"

definition tls_connect :: "tls_env \<Rightarrow> bool \<Rightarrow> int option \<Rightarrow> tls_client \<Rightarrow> (tls_client \<times> fd_action list \<times> int) option" where
  "tls_connect e resolved t w0 =
     (let w = (case t of None \<Rightarrow> w0 | Some ms \<Rightarrow> w0\<lparr>timeout := ms\<rparr>) in
      if \<not> resolved then Some (w, [], 0)
      else tls_connect_with e
        (if pskIdent (conf w) \<noteq> None \<and> psKey (conf w) \<noteq> None then psk_config (conf w) else cert_config (conf w)) w)"

text \<open>\<open>(ret, res)\<close>: what \<open>mbedtls_ssl_read\<close> of nothing and \<open>mbedtls_ssl_get_bytes_avail\<close> answer.\<close>

definition data_to_read :: "int \<times> int \<Rightarrow> int" where
  "data_to_read t = (case t of (ret, res) \<Rightarrow> if ret \<noteq> WANT_READ \<and> ret \<noteq> WANT_WRITE \<and> ret < 0 then ret else res)"

definition tls_available :: "int \<times> int \<Rightarrow> tls_client \<Rightarrow> tls_client \<times> fd_action list \<times> int" where
  "tls_available t w =
     (let p = (if peeked w \<ge> 0 then 1 else 0) in
      if \<not> connected w then (w, [], p)
      else if data_to_read t < 0 then (case tls_stop w of (w1, a) \<Rightarrow> (w1, a, if p \<noteq> 0 then p else data_to_read t))
      else (w, [], data_to_read t + p))"

text \<open>\<open>receive n\<close>: the answer of \<open>get_ssl_receive\<close> for a buffer of \<open>n\<close> bytes, with the bytes it stores.\<close>

definition tls_read ::
  "int \<times> int \<Rightarrow> (nat \<Rightarrow> int \<times> u8 list) \<Rightarrow> nat \<Rightarrow> tls_client \<Rightarrow> tls_client \<times> fd_action list \<times> int \<times> u8 list" where
  "tls_read t receive len w =
     (case tls_available t w of (w1, a, avail) \<Rightarrow>
      if avail \<le> 0 then (w1, a, - 1, [])
      else if len = 0 then (w1, a, 0, [])
      else let had = peeked w1 \<ge> 0; first = (if had then [word_of_int (peeked w1)] else []);
               w2 = (if had then w1\<lparr>peeked := - 1\<rparr> else w1) in
        if had \<and> (len = 1 \<or> avail = 1) then (w2, a, 1, first)
        else case receive (if had then len - 1 else len) of (res, bs) \<Rightarrow>
            if res < 0 then (case tls_stop w2 of (w3, b) \<Rightarrow> (w3, a @ b, if had then 1 else res, first))
            else (w2, a, res + (if had then 1 else 0), first @ bs))"

text \<open>\<open>read()\<close>: one byte; when nothing was stored the byte is the initial value of the variable.\<close>

definition tls_read1 :: "int \<times> int \<Rightarrow> (nat \<Rightarrow> int \<times> u8 list) \<Rightarrow> tls_client \<Rightarrow> tls_client \<times> fd_action list \<times> int" where
  "tls_read1 t receive w =
     (case tls_read t receive 1 w of (w1, a, res, bs) \<Rightarrow> (w1, a, if res < 0 then res else uint (case bs of [] \<Rightarrow> - 1 | b # _ \<Rightarrow> b)))"

text \<open>\<open>peek()\<close>: \<open>timedRead\<close> of the stream class reads until a byte comes or the time is over; the list has what
  each of its reads sees.\<close>

fun timed_read :: "((int \<times> int) \<times> (nat \<Rightarrow> int \<times> u8 list)) list \<Rightarrow> tls_client \<Rightarrow> tls_client \<times> fd_action list \<times> int" where
  "timed_read [] w = (w, [], - 1)"
| "timed_read ((t, receive) # obs) w =
     (case tls_read1 t receive w of (w1, a, r) \<Rightarrow>
        if r \<ge> 0 then (w1, a, r) else (case timed_read obs w1 of (w2, b, r2) \<Rightarrow> (w2, a @ b, r2)))"

definition tls_peek :: "((int \<times> int) \<times> (nat \<Rightarrow> int \<times> u8 list)) list \<Rightarrow> tls_client \<Rightarrow> tls_client \<times> fd_action list \<times> int" where
  "tls_peek obs w =
     (if peeked w \<ge> 0 then (w, [], peeked w)
      else case timed_read obs w of (w1, a, r) \<Rightarrow> (w1\<lparr>peeked := r\<rparr>, a, r))"

text \<open>The write loop, with the clock read after each answer; \<open>None\<close> while it waits.\<close>

fun send_ssl_data :: "u32 \<Rightarrow> u32 \<Rightarrow> (int \<times> u32) list \<Rightarrow> int option" where
  "send_ssl_data start limit [] = None"
| "send_ssl_data start limit ((ret, now) # obs) =
     (if ret > 0 then Some ret
      else if now - start > limit then Some (- 1)
      else if ret \<noteq> WANT_READ \<and> ret \<noteq> WANT_WRITE \<and> ret < 0 then Some ret
      else send_ssl_data start limit obs)"

definition tls_write :: "u32 \<Rightarrow> (int \<times> u32) list \<Rightarrow> tls_client \<Rightarrow> (tls_client \<times> fd_action list \<times> int) option" where
  "tls_write start obs w =
     (if \<not> connected w then Some (w, [], 0)
      else case send_ssl_data start (socket_timeout (ctx w)) obs of
          None \<Rightarrow> None
        | Some res \<Rightarrow> if res < 0 then (case tls_stop w of (w1, a) \<Rightarrow> Some (w1, a, 0)) else Some (w, [], res))"

definition setInsecure :: "tls_client \<Rightarrow> tls_client" where
  "setInsecure w = w\<lparr>conf := (conf w)\<lparr>CA_cert := None, cli_cert := None, private_key := None, pskIdent := None, psKey := None,
     use_insecure := True\<rparr>\<rparr>"

definition setCACert :: "string option \<Rightarrow> tls_client \<Rightarrow> tls_client" where
  "setCACert ca w = w\<lparr>conf := (conf w)\<lparr>CA_cert := ca, use_insecure := False\<rparr>\<rparr>"

definition setHandshakeTimeout :: "u32 \<Rightarrow> tls_client \<Rightarrow> tls_client" where
  "setHandshakeTimeout t w = w\<lparr>ctx := (ctx w)\<lparr>handshake_timeout := t * 1000\<rparr>\<rparr>"

text \<open>\<open>setTimeout\<close>: the argument is in seconds; \<open>r\<close> and \<open>s\<close> are the answers of the two socket options.\<close>

definition setTimeout :: "int \<times> int \<Rightarrow> u32 \<Rightarrow> tls_client \<Rightarrow> tls_client \<times> int" where
  "setTimeout answers seconds w =
     (case answers of (r, s) \<Rightarrow>
       (w\<lparr>timeout := sint (seconds * 1000)\<rparr>, if ssl_socket (ctx w) \<ge> 0 then (if r < 0 then - 1 else s) else 0))"

definition setCACertBundle :: "(memory \<times> bool) option \<Rightarrow> crt_bundle \<Rightarrow> tls_client \<Rightarrow> crt_bundle \<times> tls_client" where
  "setCACertBundle bundle b w =
     (case bundle of
        Some (m, allocated) \<Rightarrow> (arduino_esp_crt_bundle_set m allocated b, w\<lparr>conf := (conf w)\<lparr>use_ca_bundle := True\<rparr>\<rparr>)
      | None \<Rightarrow> (arduino_esp_crt_bundle_detach b, w\<lparr>conf := (conf w)\<lparr>use_ca_bundle := False\<rparr>\<rparr>))"

definition setCertificate :: "string option \<Rightarrow> tls_client \<Rightarrow> tls_client" where
  "setCertificate client_ca w = w\<lparr>conf := (conf w)\<lparr>cli_cert := client_ca\<rparr>\<rparr>"

definition setPrivateKey :: "string option \<Rightarrow> tls_client \<Rightarrow> tls_client" where
  "setPrivateKey key w = w\<lparr>conf := (conf w)\<lparr>private_key := key\<rparr>\<rparr>"

definition setPreSharedKey :: "string option \<Rightarrow> string option \<Rightarrow> tls_client \<Rightarrow> tls_client" where
  "setPreSharedKey i k w = w\<lparr>conf := (conf w)\<lparr>pskIdent := i, psKey := k\<rparr>\<rparr>"

definition setAlpnProtocols :: "bool \<Rightarrow> tls_client \<Rightarrow> tls_client" where
  "setAlpnProtocols present w = w\<lparr>conf := (conf w)\<lparr>alpn_protos := present\<rparr>\<rparr>"

text \<open>\<open>got\<close>: what the stream delivers of the \<open>n\<close> bytes asked for, \<open>None\<close> when there is no memory. The old
  text of a \<open>load\<close> is freed before; with the result comes whether the pointer that is kept was freed.\<close>

definition streamLoad :: "string option \<Rightarrow> nat \<Rightarrow> string option" where
  "streamLoad got n = (case got of None \<Rightarrow> None | Some bs \<Rightarrow> if n \<noteq> length bs then None else Some bs)"

definition loadCACert :: "string option \<Rightarrow> nat \<Rightarrow> tls_client \<Rightarrow> tls_client \<times> bool \<times> bool" where
  "loadCACert got n w =
     (case streamLoad got n of None \<Rightarrow> (w, False, CA_cert (conf w) \<noteq> None) | Some d \<Rightarrow> (setCACert (Some d) w, True, False))"

definition loadCertificate :: "string option \<Rightarrow> nat \<Rightarrow> tls_client \<Rightarrow> tls_client \<times> bool \<times> bool" where
  "loadCertificate got n w =
     (case streamLoad got n of None \<Rightarrow> (w, False, cli_cert (conf w) \<noteq> None) | Some d \<Rightarrow> (setCertificate (Some d) w, True, False))"

definition loadPrivateKey :: "string option \<Rightarrow> nat \<Rightarrow> tls_client \<Rightarrow> tls_client \<times> bool \<times> bool" where
  "loadPrivateKey got n w =
     (case streamLoad got n of None \<Rightarrow> (w, False, private_key (conf w) \<noteq> None) | Some d \<Rightarrow> (setPrivateKey (Some d) w, True, False))"

text \<open>\<open>connected()\<close> reads nothing, which looks at the connection. The constructor on a socket leaves two
  flags as the memory has them.\<close>

definition tls_is_connected :: "int \<times> int \<Rightarrow> tls_client \<Rightarrow> tls_client \<times> fd_action list \<times> bool" where
  "tls_is_connected t w = (case tls_read t (\<lambda>n. (0, [])) 0 w of (w1, a, r, bs) \<Rightarrow> (w1, a, connected w1))"

definition client_of_socket :: "bool \<Rightarrow> bool \<Rightarrow> int \<Rightarrow> tls_client" where
  "client_of_socket insecure bundle sock =
     \<lparr>ctx = zero_context\<lparr>ssl_socket := sock, handshake_timeout := 120000\<rparr>,
      conf = no_config\<lparr>use_insecure := insecure, use_ca_bundle := bundle\<rparr>, timeout = 30000,
      connected = (sock \<ge> 0), peeked = - 1, lastError = 0\<rparr>"

text \<open>Assignment: the socket of the other client is taken over, which keeps it. \<open>None\<close> assigns a client to itself.\<close>

definition tls_assign :: "tls_client option \<Rightarrow> tls_client \<Rightarrow> tls_client \<times> fd_action list" where
  "tls_assign other w =
     (case tls_stop w of (w1, a) \<Rightarrow>
        let c = (case other of None \<Rightarrow> w1 | Some c \<Rightarrow> c)
        in (w1\<lparr>ctx := (ctx w1)\<lparr>ssl_socket := ssl_socket (ctx c)\<rparr>, connected := connected c\<rparr>, a))"

text \<open>\<open>socket()\<close> of the class definition assigns; the comparison with a \<open>bool\<close> compares \<open>bool()\<close>, the value
  false, and not the client.\<close>

definition tls_socket :: "tls_client \<Rightarrow> tls_client \<times> int" where
  "tls_socket w = (w\<lparr>ctx := (ctx w)\<lparr>ssl_socket := - 1\<rparr>\<rparr>, - 1)"

definition tls_equals_bool :: "bool \<Rightarrow> tls_client \<Rightarrow> bool" where
  "tls_equals_bool value w = (False = value)"

section \<open>Names and fingerprints\<close>

text \<open>\<open>name.find\<close> gives the largest number when there is no such character.\<close>

definition matchName :: "string \<Rightarrow> string \<Rightarrow> bool" where
  "matchName name domainName =
     (case index_of ''*'' name of
        None \<Rightarrow> name = domainName
      | Some wildcardPos \<Rightarrow>
          (case index_of ''.'' name of
             None \<Rightarrow> False
           | Some firstDotPos \<Rightarrow>
               if wildcardPos > firstDotPos then False
               else if wildcardPos \<noteq> 0 \<or> firstDotPos \<noteq> 1 then False
               else case index_of ''.'' domainName of
                   None \<Rightarrow> False
                 | Some d \<Rightarrow> drop d domainName = drop firstDotPos name))"

text \<open>The certificate of the peer: its alternative names, and the fields of its subject with whether the
  field is the common name. Names of the subject are compared as they are.\<close>

record peer_cert =
  raw_cert :: "u8 list"
  alt_names :: "string list"
  subject :: "(bool \<times> string) list"

definition verify_ssl_dn :: "peer_cert \<Rightarrow> string \<Rightarrow> bool" where
  "verify_ssl_dn crt domain_name =
     (let d = to_lower domain_name in
      (\<exists>san \<in> set (alt_names crt). matchName (to_lower san) d) \<or> (\<exists>(cn, n) \<in> set (subject crt). cn \<and> matchName n d))"

definition get_peer_fingerprint :: "(u8 list \<Rightarrow> u8 list) \<Rightarrow> peer_cert option \<Rightarrow> u8 list option" where
  "get_peer_fingerprint sha crt = map_option (\<lambda>c. sha (raw_cert c)) crt"

definition parseHexNibble :: "char \<Rightarrow> u8 option" where
  "parseHexNibble pb =
     (if CHR ''0'' \<le> pb \<and> pb \<le> CHR ''9'' then Some (byte_of pb - byte_of (CHR ''0''))
      else if CHR ''a'' \<le> pb \<and> pb \<le> CHR ''f'' then Some (byte_of pb - byte_of (CHR ''a'') + 10)
      else if CHR ''A'' \<le> pb \<and> pb \<le> CHR ''F'' then Some (byte_of pb - byte_of (CHR ''A'') + 10)
      else None)"

text \<open>The first \<open>n\<close> bytes of a fingerprint's text; separators before a byte are passed over.\<close>

fun fingerprint_bytes :: "nat \<Rightarrow> string \<Rightarrow> u8 list option" where
  "fingerprint_bytes 0 fp = Some []"
| "fingerprint_bytes (Suc n) fp =
     (case dropWhile (\<lambda>c. c = CHR '' '' \<or> c = CHR '':'') fp of
        a # b # rest \<Rightarrow>
          (case (parseHexNibble a, parseHexNibble b) of
             (Some high, Some low) \<Rightarrow> map_option (\<lambda>bs. (low OR push_bit 4 high) # bs) (fingerprint_bytes n rest)
           | _ \<Rightarrow> None)
      | _ \<Rightarrow> None)"

definition verify_ssl_fingerprint ::
  "(u8 list \<Rightarrow> u8 list) \<Rightarrow> peer_cert option \<Rightarrow> string \<Rightarrow> string option \<Rightarrow> bool" where
  "verify_ssl_fingerprint sha crt fp domain_name =
     (case fingerprint_bytes 32 fp of
        None \<Rightarrow> False
      | Some own \<Rightarrow>
          (case get_peer_fingerprint sha crt of
             None \<Rightarrow> False
           | Some remote \<Rightarrow>
               own = remote \<and> (case domain_name of None \<Rightarrow> True | Some d \<Rightarrow> verify_ssl_dn (the crt) d)))"

definition tls_verify :: "(u8 list \<Rightarrow> u8 list) \<Rightarrow> peer_cert option \<Rightarrow> string \<Rightarrow> string option \<Rightarrow> bool" where
  "tls_verify sha crt fp domain_name = verify_ssl_fingerprint sha crt fp domain_name"

section \<open>Descriptors\<close>

text \<open>The descriptors that are open after actions, when every close is of an open one.\<close>

fun owned :: "int set \<Rightarrow> fd_action list \<Rightarrow> int set option" where
  "owned S [] = Some S"
| "owned S (FdOpen f # a) = owned (insert f S) a"
| "owned S (FdClose f # a) = (if f \<in> S then owned (S - {f}) a else None)"

text \<open>What a client is born with: nothing, or the socket that its constructor is given.\<close>

definition born :: "(bool \<times> bool \<times> int) option \<Rightarrow> tls_client" where
  "born b = (case b of None \<Rightarrow> new_client | Some (insecure, bundle, sock) \<Rightarrow> client_of_socket insecure bundle sock)"

definition held :: "tls_client \<Rightarrow> int set" where
  "held w = {f. f = ssl_socket (ctx w) \<and> f \<ge> 0}"

text \<open>What happens to a client's descriptors: an action of the client, or an assignment that hands it the
  descriptor of another.\<close>

datatype fd_event = Did fd_action | Took int

fun holds :: "int set \<Rightarrow> fd_event list \<Rightarrow> int set option" where
  "holds S [] = Some S"
| "holds S (Did x # a) = (case owned S [x] of None \<Rightarrow> None | Some T \<Rightarrow> holds T a)"
| "holds S (Took f # a) = holds (insert f S) a"

text \<open>What a program does with a client; its end is a stop.\<close>

datatype tls_op =
    Connect tls_env bool "int option"
  | ConnectWith tls_env tls_config
  | Stop
  | Available "int \<times> int"
  | IsConnected "int \<times> int"
  | Read "int \<times> int" "nat \<Rightarrow> int \<times> u8 list" nat
  | Peek "((int \<times> int) \<times> (nat \<Rightarrow> int \<times> u8 list)) list"
  | Write u32 "(int \<times> u32) list"
  | Configure "tls_client \<Rightarrow> tls_config" int u32
  | Assign "tls_client option"
  | SocketCall

fun tls_step :: "tls_op \<Rightarrow> tls_client \<Rightarrow> (tls_client \<times> fd_action list) option" where
  "tls_step (Connect e resolved t) w = map_option (\<lambda>(w1, a, r). (w1, a)) (tls_connect e resolved t w)"
| "tls_step (ConnectWith e f) w = map_option (\<lambda>(w1, a, r). (w1, a)) (tls_connect_with e f w)"
| "tls_step Stop w = Some (tls_stop w)"
| "tls_step (Available t) w = (case tls_available t w of (w1, a, r) \<Rightarrow> Some (w1, a))"
| "tls_step (IsConnected t) w = (case tls_is_connected t w of (w1, a, r) \<Rightarrow> Some (w1, a))"
| "tls_step (Read t receive n) w = (case tls_read t receive n w of (w1, a, r, bs) \<Rightarrow> Some (w1, a))"
| "tls_step (Peek obs) w = (case tls_peek obs w of (w1, a, r) \<Rightarrow> Some (w1, a))"
| "tls_step (Write start obs) w = map_option (\<lambda>(w1, a, r). (w1, a)) (tls_write start obs w)"
| "tls_step (Configure f t h) w = Some (w\<lparr>conf := f w, timeout := t, ctx := (ctx w)\<lparr>handshake_timeout := h\<rparr>\<rparr>, [])"
| "tls_step (Assign other) w = Some (tls_assign other w)"
| "tls_step SocketCall w = Some (fst (tls_socket w), [])"

fun taken :: "tls_op \<Rightarrow> int list" where
  "taken (Assign (Some c)) = (if ssl_socket (ctx c) \<ge> 0 then [ssl_socket (ctx c)] else [])"
| "taken x = []"

text \<open>A run ends in an operation that still waits.\<close>

fun tls_run :: "tls_op list \<Rightarrow> tls_client \<Rightarrow> tls_client \<times> fd_event list" where
  "tls_run [] w = (w, [])"
| "tls_run (x # xs) w =
     (case tls_step x w of
        None \<Rightarrow> (w, [])
      | Some (w1, a) \<Rightarrow> (case tls_run xs w1 of (w2, b) \<Rightarrow> (w2, map Did a @ map Took (taken x) @ b)))"

text \<open>No connect, and no call of \<open>socket()\<close>, on a client that has a socket.\<close>

fun drops_socket :: "tls_op \<Rightarrow> bool" where
  "drops_socket (Connect e resolved t) \<longleftrightarrow> True"
| "drops_socket (ConnectWith e f) \<longleftrightarrow> True"
| "drops_socket SocketCall \<longleftrightarrow> True"
| "drops_socket x \<longleftrightarrow> False"

fun stops_first :: "tls_op list \<Rightarrow> tls_client \<Rightarrow> bool" where
  "stops_first [] w = True"
| "stops_first (x # xs) w =
     ((drops_socket x \<longrightarrow> ssl_socket (ctx w) < 0)
      \<and> (case tls_step x w of None \<Rightarrow> True | Some (w1, a) \<Rightarrow> stops_first xs w1))"

lemma owned_append: "owned S (a @ b) = (case owned S a of None \<Rightarrow> None | Some T \<Rightarrow> owned T b)"
  by (induction S a rule: owned.induct) simp_all

lemma holds_did: "holds S (map Did a @ b) = (case owned S a of None \<Rightarrow> None | Some T \<Rightarrow> holds T b)"
proof (induction a arbitrary: S)
  case (Cons x a)
  then show ?case by (cases x) simp_all
qed simp

lemma holds_took: "holds S (map Took fs @ b) = holds (S \<union> set fs) b"
  by (induction fs arbitrary: S) simp_all

lemma tls_stop_shape:
  assumes "tls_stop w = (w1, a)"
  shows "ssl_socket (ctx w1) = - 1" and "a = (if ssl_socket (ctx w) \<ge> 0 then [FdClose (ssl_socket (ctx w))] else [])"
  using assms by (auto simp: tls_stop_def stop_ssl_socket_def Let_def)

text \<open>The descriptors a client accounts for: its socket is open, and when it is careful nothing else is.\<close>

definition accounted :: "bool \<Rightarrow> int set \<Rightarrow> tls_client \<Rightarrow> bool" where
  "accounted careful S w \<longleftrightarrow> (ssl_socket (ctx w) \<ge> 0 \<longrightarrow> ssl_socket (ctx w) \<in> S) \<and> (careful \<longrightarrow> S \<subseteq> {f. f = ssl_socket (ctx w) \<and> f \<ge> 0})"

lemma accounted_stop:
  assumes "accounted careful S w" and "tls_stop w = (w1, a)"
  shows "\<exists>T. owned S a = Some T \<and> accounted careful T w1"
  using assms(1) tls_stop_shape [OF assms(2)] by (auto simp: accounted_def)

lemma tls_configure_socket: "ssl_socket (fst (tls_configure e f c)) = ssl_socket c"
proof -
  have t: "ssl_socket (fst (tls_trust e f c)) = ssl_socket c"
    by (simp add: tls_trust_def arduino_esp_crt_bundle_attach_def split: option.split)
  have o: "ssl_socket (fst (tls_own_cert e f c1)) = ssl_socket c1" for c1
    by (simp add: tls_own_cert_def)
  obtain c1 r1 where t1: "tls_trust e f c = (c1, r1)" by (cases "tls_trust e f c")
  obtain c2 r2 where o1: "tls_own_cert e f c1 = (c2, r2)" by (cases "tls_own_cert e f c1")
  show ?thesis using t o [of c1] by (cases r1; cases r2) (simp_all add: tls_configure_def t1 o1)
qed

lemma tls_verified_socket: "ssl_socket (fst (tls_verified e f c)) = ssl_socket c"
  by (simp add: tls_verified_def Let_def)

lemma start_shape:
  assumes "start_ssl_client e t f c = Some (c1, a, r)"
  obtains "a = []" "r < 0" "ssl_socket c1 = ssl_socket c \<or> ssl_socket c1 < 0"
    | s where "a = [FdOpen s, FdClose s]" "ssl_socket c1 = - 1" "r < 0"
    | s where "a = [FdOpen s]" "ssl_socket c1 = s" "s \<ge> 0"
proof -
  obtain c0 a0 r0 where t0: "tcp_connect e t c = (c0, a0, r0)" by (cases "tcp_connect e t c")
  obtain c2 r2 where k2: "tls_configure e f c0 = (c2, r2)" by (cases "tls_configure e f c0")
  obtain c3 r3 where v3: "tls_verified e f c2 = (c3, r3)" by (cases "tls_verified e f c2")
  have sockets: "ssl_socket c2 = ssl_socket c0" "ssl_socket c3 = ssl_socket c2"
    using tls_configure_socket [of e f c0] tls_verified_socket [of e f c2] by (simp_all add: k2 v3)
  consider "start_ssl_client e t f c = Some (c, [], - 1)"
    | r' where "tcp_connect e t c = (c0, a0, Some r')" "c1 = c0" "a = a0" "r = r'"
    | "tcp_connect e t c = (c0, a0, None)" "a = a0" "ssl_socket c1 = ssl_socket c0"
    using assms sockets unfolding start_ssl_client_def t0 prod.case
    by (cases r0; cases r2) (auto simp: k2 v3 split: if_splits option.splits)
  then show ?thesis
  proof cases
    case 1
    with assms show ?thesis by (intro that(1)) simp_all
  next
    case 2
    then show ?thesis by (auto simp: tcp_connect_def Let_def split: if_splits intro: that)
  next
    case 3
    then show ?thesis by (auto simp: tcp_connect_def Let_def split: if_splits intro: that)
  qed
qed

lemma accounted_same: "ssl_socket (ctx w1) = ssl_socket (ctx w) \<Longrightarrow> accounted careful S w \<Longrightarrow> accounted careful S w1"
  by (simp add: accounted_def)

lemma accounted_connect_with:
  assumes w: "accounted careful S w" and c: "careful \<longrightarrow> ssl_socket (ctx w) < 0" and r: "tls_connect_with e f w = Some (w1, a, r)"
  shows "\<exists>T. owned S a = Some T \<and> accounted careful T w1"
proof -
  obtain c1 a1 ret where s: "start_ssl_client e (timeout w) f (ctx w) = Some (c1, a1, ret)"
    using r by (cases "start_ssl_client e (timeout w) f (ctx w)") (auto simp: tls_connect_with_def)
  let ?w1 = "w\<lparr>ctx := c1, lastError := ret\<rparr>"
  obtain w2 b where stop: "tls_stop ?w1 = (w2, b)" by (cases "tls_stop ?w1")
  have res: "ret < 0 \<Longrightarrow> w1 = w2 \<and> a = a1 @ b" "\<not> ret < 0 \<Longrightarrow> w1 = ?w1\<lparr>connected := True\<rparr> \<and> a = a1"
    using r by (simp_all add: tls_connect_with_def s Let_def stop)
  note b = tls_stop_shape [OF stop]
  from s show ?thesis
    by (cases rule: start_shape; cases "ret < 0") (use w c res b in \<open>auto simp: accounted_def\<close>)
qed

lemma accounted_connect:
  assumes w: "accounted careful S w" and c: "careful \<longrightarrow> ssl_socket (ctx w) < 0" and r: "tls_connect e resolved t w = Some (w1, a, r)"
  shows "\<exists>T. owned S a = Some T \<and> accounted careful T w1"
proof -
  let ?w = "case t of None \<Rightarrow> w | Some ms \<Rightarrow> w\<lparr>timeout := ms\<rparr>"
  have same: "ctx ?w = ctx w" by (simp split: option.split)
  then have "accounted careful S ?w" "careful \<longrightarrow> ssl_socket (ctx ?w) < 0" using w c by (simp_all add: accounted_def)
  from accounted_connect_with [OF this] r this(1) show ?thesis
    unfolding tls_connect_def Let_def by (cases resolved) auto
qed

lemma accounted_available:
  assumes "accounted careful S w" and "tls_available t w = (w1, a, r)"
  shows "\<exists>T. owned S a = Some T \<and> accounted careful T w1"
  using assms accounted_stop [OF assms(1)] by (auto simp: tls_available_def Let_def split: if_splits prod.splits)

lemma accounted_read:
  assumes "accounted careful S w" and "tls_read t receive n w = (w1, a, r, bs)"
  shows "\<exists>T. owned S a = Some T \<and> accounted careful T w1"
proof -
  obtain w0 a0 avail where v: "tls_available t w = (w0, a0, avail)" by (cases "tls_available t w")
  obtain T where T: "owned S a0 = Some T" "accounted careful T w0" using accounted_available [OF assms(1) v] by blast
  let ?w = "if peeked w0 \<ge> 0 then w0\<lparr>peeked := - 1\<rparr> else w0"
  have w: "accounted careful T ?w" using T(2) by (simp add: accounted_def)
  obtain w3 b where stop: "tls_stop ?w = (w3, b)" by (cases "tls_stop ?w")
  obtain res xs where rec: "receive (if peeked w0 \<ge> 0 then n - 1 else n) = (res, xs)"
    by (cases "receive (if peeked w0 \<ge> 0 then n - 1 else n)")
  have "w1 = w0 \<and> a = a0 \<or> w1 = ?w \<and> a = a0 \<or> w1 = w3 \<and> a = a0 @ b"
    using assms(2) unfolding tls_read_def v prod.case Let_def rec stop by (auto split: if_splits)
  then show ?thesis using T w accounted_stop [OF w stop] by (auto simp: owned_append)
qed

lemma accounted_timed_read:
  "accounted careful S w \<Longrightarrow> timed_read obs w = (w1, a, r) \<Longrightarrow> \<exists>T. owned S a = Some T \<and> accounted careful T w1"
proof (induction obs w arbitrary: S w1 a r rule: timed_read.induct)
  case (2 t receive obs w)
  obtain w0 a0 r0 bs where rd: "tls_read t receive 1 w = (w0, a0, r0, bs)" by (cases "tls_read t receive 1 w")
  obtain T where T: "owned S a0 = Some T" "accounted careful T w0" using accounted_read [OF "2.prems"(1) rd] by blast
  obtain v where one: "tls_read1 t receive w = (w0, a0, v)" unfolding tls_read1_def rd by simp
  obtain w2 b r2 where rest: "timed_read obs w0 = (w2, b, r2)" by (cases "timed_read obs w0")
  show ?case
  proof (cases "v \<ge> 0")
    case True
    with "2.prems"(2) T show ?thesis by (simp add: one)
  next
    case False
    then have "w1 = w2" "a = a0 @ b" using "2.prems"(2) by (simp_all add: one rest)
    with "2.IH" [OF one [symmetric] refl False T(2) rest] T(1) show ?thesis by (simp add: owned_append)
  qed
qed simp

lemma accounted_step:
  assumes w: "accounted careful S w" and "tls_step x w = Some (w1, a)"
    and "careful \<longrightarrow> drops_socket x \<longrightarrow> ssl_socket (ctx w) < 0"
  shows "\<exists>T. owned S a = Some T \<and> accounted careful (T \<union> set (taken x)) w1"
proof (cases x)
  case (Connect e resolved t)
  with assms show ?thesis by (auto intro: accounted_connect [OF w])
next
  case (ConnectWith e f)
  with assms show ?thesis by (auto intro: accounted_connect_with [OF w])
next
  case Stop
  with assms show ?thesis by (auto intro: accounted_stop [OF w])
next
  case (Available t)
  with assms show ?thesis by (auto split: prod.splits intro: accounted_available [OF w])
next
  case (IsConnected t)
  with assms show ?thesis by (auto simp: tls_is_connected_def split: prod.splits intro: accounted_read [OF w])
next
  case (Read t receive n)
  with assms show ?thesis by (auto split: prod.splits intro: accounted_read [OF w])
next
  case (Peek obs)
  obtain w2 b r where p: "timed_read obs w = (w2, b, r)" by (cases "timed_read obs w")
  have "w1 = w \<and> a = [] \<or> ssl_socket (ctx w1) = ssl_socket (ctx w2) \<and> a = b"
    using assms(2) by (auto simp: Peek tls_peek_def p split: if_splits)
  with accounted_timed_read [OF w p] w show ?thesis by (auto simp: Peek intro: accounted_same)
next
  case (Write start obs)
  obtain w2 b where stop: "tls_stop w = (w2, b)" by (cases "tls_stop w")
  have "w1 = w \<and> a = [] \<or> w1 = w2 \<and> a = b"
    using assms(2) by (auto simp: Write tls_write_def stop split: if_splits option.splits)
  with accounted_stop [OF w stop] w show ?thesis by (auto simp: Write)
next
  case (Configure f t h)
  with assms show ?thesis by (auto simp: accounted_def)
next
  case (Assign other)
  obtain w2 b where stop: "tls_stop w = (w2, b)" by (cases "tls_stop w")
  have "a = b" and s: "ssl_socket (ctx w1) = (case other of None \<Rightarrow> - 1 | Some c \<Rightarrow> ssl_socket (ctx c))"
    using assms(2) tls_stop_shape(1) [OF stop] by (auto simp: Assign tls_assign_def stop Let_def split: option.splits)
  with w show ?thesis
    by (cases other) (auto simp: Assign accounted_def tls_stop_shape(2) [OF stop])
next
  case SocketCall
  with assms show ?thesis by (auto simp: accounted_def tls_socket_def)
qed

lemma accounted_run:
  "accounted careful S w \<Longrightarrow> (careful \<longrightarrow> stops_first xs w)
     \<Longrightarrow> \<exists>T. holds S (snd (tls_run xs w)) = Some T \<and> accounted careful T (fst (tls_run xs w))"
proof (induction xs arbitrary: S w)
  case (Cons x xs)
  show ?case
  proof (cases "tls_step x w")
    case None
    with Cons.prems show ?thesis by simp
  next
    case (Some p)
    then obtain w1 a where p: "tls_step x w = Some (w1, a)" by (cases p) simp
    obtain T where T: "owned S a = Some T" "accounted careful (T \<union> set (taken x)) w1"
      using accounted_step [OF Cons.prems(1) p] Cons.prems(2) by auto
    have "careful \<longrightarrow> stops_first xs w1" using Cons.prems(2) by (simp add: p)
    from Cons.IH [OF T(2) this] T(1) show ?thesis by (simp add: p case_prod_beta holds_did holds_took)
  qed
qed simp

lemma took_run: "Took f \<in> set (snd (tls_run xs w)) \<Longrightarrow> \<exists>c. Assign (Some c) \<in> set xs \<and> f = ssl_socket (ctx c)"
proof (induction xs arbitrary: w)
  case (Cons x xs)
  have x: "f \<in> set (taken x) \<Longrightarrow> \<exists>c. x = Assign (Some c) \<and> f = ssl_socket (ctx c)" by (cases x rule: taken.cases) (auto split: if_splits)
  show ?case
  proof (cases "tls_step x w")
    case (Some p)
    with Cons.prems have "f \<in> set (taken x) \<or> Took f \<in> set (snd (tls_run xs (fst p)))" by (auto simp: case_prod_beta)
    with x Cons.IH show ?thesis by fastforce
  qed (use Cons.prems in simp)
qed simp

section \<open>Properties\<close>

text \<open>C31: A client closes each of its descriptors once. Whatever a program does with a client, new or made on a
  socket, and whatever lwIP and mbedtls answer, every descriptor that the client closes is one that it was
  made on, has opened or was handed by an assignment, and has not closed since; the descriptors it is
  handed are the sockets of the clients that are assigned to it. When the program connects, or calls
  \<open>socket()\<close>, only on a client without a socket, the client's socket is the only descriptor it
  holds, so that a stop leaves none.\<close>
theorem descriptors_closed_once:
  "\<exists>T. holds (held (born b)) (snd (tls_run xs (born b))) = Some T
     \<and> (\<forall>f. Took f \<in> set (snd (tls_run xs (born b))) \<longrightarrow> (\<exists>c. Assign (Some c) \<in> set xs \<and> f = ssl_socket (ctx c)))
     \<and> (stops_first xs (born b) \<longrightarrow> T \<subseteq> held (fst (tls_run xs (born b))))"
proof -
  have "accounted careful (held (born b)) (born b)" for careful by (simp add: accounted_def held_def)
  from accounted_run [OF this [of "stops_first xs (born b)"], of xs] took_run [of _ xs "born b"] show ?thesis
    by (auto simp: accounted_def held_def)
qed


text \<open>A certificate that fails its verification does not fail the connection. When everything up to the
  handshake succeeds and no client certificate is set, a result of the verification that is not zero
  is returned as the 0 of the handshake, which the client takes for a connection: a client that skips
  the verification connects only this way.\<close>
theorem failed_verification_connects:
  assumes "0 \<le> te_socket e" and "te_connected e" and "0 < te_select e" and "0 \<le> te_getsockopt e" and "te_sockerr e = 0"
    and "\<forall>r \<in> set (te_setsockopt e). 0 \<le> r" and "tls_configure e (cert_config f) c = (c1, None)"
    and "c = (ctx w)\<lparr>ssl_socket := te_socket e, socket_timeout := word_of_int (if timeout w \<le> 0 then 30000 else timeout w)\<rparr>"
    and "handshake_loop (te_start e) (handshake_timeout c1) (te_handshake e) = Some None" and "te_verify e \<noteq> 0"
    and "conf w = f" and "psKey f = None" and "use_insecure f \<or> CA_cert f \<noteq> None \<or> use_ca_bundle f" and "cli_cert f = None"
  shows "\<exists>w1. tls_connect e True None w = Some (w1, [FdOpen (te_socket e)], 1) \<and> connected w1"
proof -
  have "tcp_connect e (timeout w) (ctx w) = (c, [FdOpen (te_socket e)], None)"
    using assms(1-6) by (auto simp: tcp_connect_def Let_def assms(8))
  then have "start_ssl_client e (timeout w) (cert_config f) (ctx w) = Some (c1, [FdOpen (te_socket e)], 0)"
    using assms by (simp add: start_ssl_client_def tls_verified_def) (auto simp: cert_config_def)
  then show ?thesis using assms(11,12) by (simp add: tls_connect_def tls_connect_with_def Let_def)
qed


definition demo_tls :: "int \<Rightarrow> u32 \<Rightarrow> tls_env" where
  "demo_tls s flags = \<lparr>te_socket = s, te_connected = True, te_select = 1, te_getsockopt = 0, te_sockerr = 0,
     te_setsockopt = [0, 0, 0, 0], te_seed = 0, te_defaults = 0, te_alpn = 0, te_ca_parse = 0, te_bundle = no_bundle, te_psk = 0,
     te_cert_parse = 0, te_key_parse = 0, te_hostname = 0, te_setup = 0, te_start = 7, te_handshake = [(WANT_READ, 9), (0, 11)],
     te_expansion = 0, te_verify = flags\<rparr>"

definition demo_secure :: tls_client where
  "demo_secure = setCACert (Some ''CA'') new_client"

theorem failed_verification_connects_witness:
  "\<exists>w1. tls_connect (demo_tls 5 8) True None demo_secure = Some (w1, [FdOpen 5], 1) \<and> connected w1"
proof -
  let ?e = "demo_tls 5 8" and ?w = demo_secure
  let ?c = "(ctx ?w)\<lparr>ssl_socket := te_socket ?e, socket_timeout := word_of_int (if timeout ?w \<le> 0 then 30000 else timeout ?w)\<rparr>"
  have "tls_configure ?e (cert_config (conf ?w)) ?c = (?c\<lparr>ca_chain := True, ca_cert_held := True\<rparr>, None)"
    by (simp add: tls_configure_def tls_trust_def tls_own_cert_def demo_tls_def demo_secure_def setCACert_def new_client_def no_config_def cert_config_def)
  moreover have "handshake_loop (te_start ?e) (handshake_timeout (?c\<lparr>ca_chain := True, ca_cert_held := True\<rparr>)) (te_handshake ?e) = Some None"
    by (simp add: demo_tls_def demo_secure_def setCACert_def new_client_def)
  moreover have "\<exists>w1. tls_connect ?e True None ?w = Some (w1, [FdOpen (te_socket ?e)], 1) \<and> connected w1"
    if "tls_configure ?e (cert_config (conf ?w)) ?c = (?c\<lparr>ca_chain := True, ca_cert_held := True\<rparr>, None)"
      "handshake_loop (te_start ?e) (handshake_timeout (?c\<lparr>ca_chain := True, ca_cert_held := True\<rparr>)) (te_handshake ?e) = Some None"
    by (rule failed_verification_connects [OF _ _ _ _ _ _ that(1) refl that(2) _ refl])
      (simp_all add: demo_tls_def demo_secure_def setCACert_def new_client_def no_config_def)
  ultimately show ?thesis by (simp add: demo_tls_def)
qed

lemmas tls_demo_defs = born_def held_def client_of_socket_def zero_context_def new_client_def no_config_def demo_tls_def tls_connect_def
  tls_connect_with_def start_ssl_client_def tcp_connect_def tls_configure_def tls_trust_def tls_own_cert_def tls_verified_def
  tls_stop_def stop_ssl_socket_def cert_config_def tls_assign_def tls_socket_def Let_def

theorem descriptors_closed_once_witness:
  "holds {} (snd (tls_run [Configure (\<lambda>w. no_config\<lparr>use_insecure := True\<rparr>) 0 9, Connect (demo_tls 5 0) True None,
      Assign (Some (client_of_socket True False 7)), Stop] (born None))) = Some {}"
proof -
  let ?xs = "[Configure (\<lambda>w. no_config\<lparr>use_insecure := True\<rparr>) 0 9, Connect (demo_tls 5 0) True None,
      Assign (Some (client_of_socket True False 7)), Stop]"
  have "stops_first ?xs (born None)" and "held (fst (tls_run ?xs (born None))) = {}" and "held (born None) = {}"
    by (auto simp: tls_demo_defs)
  then show ?thesis using descriptors_closed_once [of None ?xs] by auto
qed

text \<open>A second connect without a stop loses a descriptor: the socket of the first is overwritten and
  never closed. So does a call of \<open>socket()\<close>, which the class defines as an assignment.\<close>
theorem reconnect_leaks_descriptor:
  assumes "x = Connect (demo_tls 6 0) True None \<or> x = SocketCall"
  shows "\<exists>T. holds {} (snd (tls_run ([Configure (\<lambda>w. no_config\<lparr>use_insecure := True\<rparr>) 0 9, Connect (demo_tls 5 0) True None, x]
     @ [Stop]) (born None))) = Some T \<and> T \<noteq> {}"
  using assms by (elim disjE) (auto simp: tls_demo_defs)

theorem reconnect_leaks_descriptor_witness:
  "\<exists>T. holds {} (snd (tls_run ([Configure (\<lambda>w. no_config\<lparr>use_insecure := True\<rparr>) 0 9, Connect (demo_tls 5 0) True None, SocketCall]
     @ [Stop]) (born None))) = Some T \<and> T \<noteq> {}"
  by (rule reconnect_leaks_descriptor) simp

text \<open>After an assignment two clients hold one descriptor, and each of them closes it.\<close>
theorem assignment_shares_descriptor:
  assumes "tls_assign (Some other) w = (w1, a)" and "ssl_socket (ctx other) \<ge> 0"
  shows "FdClose (ssl_socket (ctx other)) \<in> set (snd (tls_stop w1)) \<and> FdClose (ssl_socket (ctx other)) \<in> set (snd (tls_stop other))"
proof -
  have "ssl_socket (ctx w1) = ssl_socket (ctx other)" using assms(1) by (auto simp: tls_assign_def Let_def split: prod.splits)
  then show ?thesis using assms(2) tls_stop_shape(2) [of w1] tls_stop_shape(2) [of other]
    by (cases "tls_stop w1"; cases "tls_stop other") simp
qed

theorem assignment_shares_descriptor_witness:
  "FdClose 7 \<in> set (snd (tls_stop (fst (tls_assign (Some (client_of_socket True False 7)) new_client))))"
proof -
  obtain w1 a where w: "tls_assign (Some (client_of_socket True False 7)) new_client = (w1, a)" by fastforce
  have "ssl_socket (ctx (client_of_socket True False 7)) = 7" by (simp add: client_of_socket_def)
  with assignment_shares_descriptor [OF w] w show ?thesis by simp
qed

text \<open>The waits of a connection end. When the clock advances at least a millisecond with every pass, the
  handshake returns within its timeout, and so does a write.\<close>
theorem tls_waits_end:
  assumes "\<forall>i < length obs. i \<le> unat (snd (obs ! i) - start)" and "unat limit + 1 < length obs"
  shows "handshake_loop start limit obs \<noteq> None \<and> send_ssl_data start limit obs \<noteq> None"
proof -
  have waits: "handshake_loop start limit os = None \<or> send_ssl_data start limit os = None \<Longrightarrow> \<forall>(ret, now) \<in> set os. \<not> now - start > limit"
    for os
    by (induction os) (auto split: if_splits)
  have "\<not> (\<forall>(ret, now) \<in> set obs. \<not> now - start > limit)"
  proof
    assume "\<forall>(ret, now) \<in> set obs. \<not> now - start > limit"
    moreover have "obs ! (unat limit + 1) \<in> set obs" using assms(2) by (rule nth_mem)
    ultimately have "\<not> snd (obs ! (unat limit + 1)) - start > limit" by (auto simp: case_prod_beta)
    then show False using spec [OF assms(1), of "unat limit + 1"] assms(2) by (simp add: word_less_nat_alt)
  qed
  then have "\<not> (handshake_loop start limit obs = None \<or> send_ssl_data start limit obs = None)"
    by (rule contrapos_nn) (rule waits)
  then show ?thesis by (simp only: de_Morgan_disj simp_thms)
qed

theorem tls_waits_end_witness:
  "send_ssl_data 0xFFFFFFFE 1 [(WANT_WRITE, 0xFFFFFFFE), (WANT_WRITE, 0xFFFFFFFF), (WANT_WRITE, 0)] \<noteq> None"
proof -
  let ?obs = "[(WANT_WRITE, 0xFFFFFFFE), (WANT_WRITE, 0xFFFFFFFF), (WANT_WRITE, 0)] :: (int \<times> u32) list"
  have "\<forall>i < length ?obs. i \<le> unat (snd (?obs ! i) - 0xFFFFFFFE)" by (simp add: All_less_Suc)
  moreover have "unat (1 :: u32) + 1 < length ?obs" by simp
  ultimately show ?thesis using tls_waits_end by blast
qed

lemma index_of_char: "index_of [c] s = (if c \<in> set s then Some (length (takeWhile (\<lambda>x. x \<noteq> c) s)) else None)"
  by (induction s) (auto simp: starts_with_def)

text \<open>Names match as the standard says. A name without a wildcard matches exactly itself; one with a
  wildcard matches exactly when the wildcard is its whole first label and the domain differs from it
  in the first label only.\<close>
theorem match_name_spec:
  "matchName name domain \<longleftrightarrow>
     (if CHR ''*'' \<notin> set name then name = domain
      else \<exists>label rest. name = ''*.'' @ rest \<and> domain = label @ ''.'' @ rest \<and> CHR ''.'' \<notin> set label)"
proof (cases "CHR ''*'' \<in> set name")
  case False
  then show ?thesis by (simp add: matchName_def index_of_char del: index_of.simps)
next
  case True
  have "matchName name domain \<longleftrightarrow> (\<exists>rest. name = ''*.'' @ rest \<and> CHR ''.'' \<in> set domain
      \<and> drop (length (takeWhile (\<lambda>x. x \<noteq> CHR ''.'') domain)) domain = ''.'' @ rest)"
  proof (cases name rule: list.exhaust)
    case Nil
    with True show ?thesis by simp
  next
    case (Cons a t)
    then show ?thesis using True by (cases t) (auto simp: matchName_def index_of_char simp del: index_of.simps)
  qed
  also have "\<dots> \<longleftrightarrow> (\<exists>label rest. name = ''*.'' @ rest \<and> domain = label @ ''.'' @ rest \<and> CHR ''.'' \<notin> set label)"
  proof -
    let ?P = "\<lambda>x. x \<noteq> CHR ''.''"
    have "domain = takeWhile ?P domain @ drop (length (takeWhile ?P domain)) domain"
      unfolding dropWhile_eq_drop [symmetric] by simp
    moreover have "CHR ''.'' \<notin> set (takeWhile ?P domain)" by (auto dest: set_takeWhileD)
    moreover have "takeWhile ?P (label @ ''.'' @ rest) = label" if "CHR ''.'' \<notin> set label" for label rest
      using that by (auto simp: takeWhile_append)
    ultimately show ?thesis by (smt (verit) append_eq_conv_conj in_set_conv_decomp append_Cons append_Nil)
  qed
  finally show ?thesis using True by simp
qed


lemma nibble_of_digit: "k < 16 \<Longrightarrow> parseHexNibble (hex_digit k) = Some (word_of_nat k)"
proof -
  have "list_all (\<lambda>k. parseHexNibble (hex_digit k) = Some (word_of_nat k)) [0..<16]" by code_simp
  then show "k < 16 \<Longrightarrow> parseHexNibble (hex_digit k) = Some (word_of_nat k)" by (simp add: list_all_iff)
qed

lemma digit_no_separator: "k < 16 \<Longrightarrow> hex_digit k \<noteq> CHR '' '' \<and> hex_digit k \<noteq> CHR '':''"
proof -
  have "list_all (\<lambda>k. hex_digit k \<noteq> CHR '' '' \<and> hex_digit k \<noteq> CHR '':'') [0..<16]" by code_simp
  then show "k < 16 \<Longrightarrow> hex_digit k \<noteq> CHR '' '' \<and> hex_digit k \<noteq> CHR '':''" by (simp add: list_all_iff)
qed

lemma nibbles_join: "word_of_nat (unat (b :: u8) mod 16) OR push_bit 4 (word_of_nat (unat b div 16)) = b"
proof -
  have "unat b mod 16 = unat (take_bit 4 b)" by (simp only: unsigned_take_bit_eq) (simp add: take_bit_eq_mod)
  moreover have "unat b div 16 = unat (drop_bit 4 b)" by (simp only: unat_drop_bit_eq) (simp add: drop_bit_eq_div)
  moreover have "take_bit 4 b OR push_bit 4 (drop_bit 4 b) = b"
  proof (rule bit_word_eqI)
    show "bit (take_bit 4 b OR push_bit 4 (drop_bit 4 b)) n = bit b n" if "n < LENGTH(8)" for n
      using that by (cases "n < 4") (simp_all add: bit_simps)
  qed
  ultimately show ?thesis by simp
qed

lemma fingerprint_text:
  assumes "length seps = length bs" and "\<forall>s \<in> set seps. \<forall>c \<in> set s. c = CHR '' '' \<or> c = CHR '':''"
  shows "fingerprint_bytes (length bs) (concat (map2 (\<lambda>s b. s @ hex_byte b) seps bs)) = Some bs"
  using assms
proof (induction seps bs rule: list_induct2)
  case (Cons s seps b bs)
  let ?P = "\<lambda>c. c = CHR '' '' \<or> c = CHR '':''" and ?rest = "concat (map2 (\<lambda>s b. s @ hex_byte b) seps bs)"
  have k: "unat b div 16 < 16" "unat b mod 16 < 16" using unsigned_less [of b, where ?'a = nat] by simp_all
  have "dropWhile ?P (s @ t) = dropWhile ?P t" for t using Cons.prems by (simp add: dropWhile_append1)
  then have "dropWhile ?P (s @ hex_byte b @ ?rest) = hex_digit (unat b div 16) # hex_digit (unat b mod 16) # ?rest"
    using digit_no_separator [OF k(1)] by (simp add: hex_byte_def)
  then show ?case using Cons nibble_of_digit [OF k(1)] nibble_of_digit [OF k(2)] nibbles_join [of b] by simp
qed simp

text \<open>A fingerprint is accepted exactly when it is the one of the peer's certificate. Written in
  hexadecimal with any blanks and colons between the bytes, 32 bytes are accepted exactly when they
  are the digest of the certificate.\<close>
theorem fingerprint_accepted_iff:
  assumes "length bs = 32" and "length seps = 32" and "\<forall>s \<in> set seps. \<forall>c \<in> set s. c = CHR '' '' \<or> c = CHR '':''"
  shows "verify_ssl_fingerprint sha (Some crt) (concat (map2 (\<lambda>s b. s @ hex_byte b) seps bs)) None \<longleftrightarrow> bs = sha (raw_cert crt)"
  using fingerprint_text [of seps bs] assms by (simp add: verify_ssl_fingerprint_def get_peer_fingerprint_def)

theorem fingerprint_accepted_iff_witness:
  "verify_ssl_fingerprint (\<lambda>_. replicate 32 7) (Some \<lparr>raw_cert = [1], alt_names = [], subject = []\<rparr>) (concat (map2 (\<lambda>s b. s @ hex_byte b) (replicate 32 '':'') (replicate 32 7))) None"
proof -
  have "\<forall>s \<in> set (replicate 32 '':''). \<forall>c \<in> set s. c = CHR '' '' \<or> c = CHR '':''" by (simp add: set_replicate_conv_if)
  then show ?thesis using fingerprint_accepted_iff [of "replicate 32 7" "replicate 32 '':''" "\<lambda>_. replicate 32 7" "\<lparr>raw_cert = [1], alt_names = [], subject = []\<rparr>"] by simp
qed

end
