(* ===== verification/JsonText.thy ===== *)
theory JsonText
  imports Portal "HOL-Library.Monad_Syntax"
begin

text \<open>
  The JSON texts that the sources put together by hand: the requests to the controller
  (\<open>src/omada.cpp\<close>: login, grant, rename, voucher group), the status message and the errors of the
  customer's page (\<open>src/web.cpp\<close>) and the device map. A reader of JSON without blanks, escapes by
  number and fractions is the reference: a text is good when the reader gives the members that the
  code means.
\<close>

section \<open>A reader\<close>

text \<open>The quote and the backslash.\<close>

abbreviation DQ :: char where "DQ \<equiv> CHR 0x22"
abbreviation BS :: char where "BS \<equiv> CHR 0x5C"

definition unescape :: "char \<Rightarrow> char option" where
  "unescape c = map_of [(DQ, DQ), (BS, BS), (CHR ''/'', CHR ''/''), (CHR ''b'', CHR 0x08), (CHR ''f'', CHR 0x0C),
     (CHR ''n'', CHR 0x0A), (CHR ''r'', CHR 0x0D), (CHR ''t'', CHR 0x09)] c"

text \<open>The text after an opening quote: its characters, and what follows the closing one.\<close>

fun read_string :: "string \<Rightarrow> (string \<times> string) option" where
  "read_string [] = None"
| "read_string (c # s) =
     (if c = DQ then Some ([], s)
      else if c = BS then
        (case s of
           [] \<Rightarrow> None
         | d # t \<Rightarrow> (case unescape d of None \<Rightarrow> None | Some x \<Rightarrow> map_option (\<lambda>(u, r). (x # u, r)) (read_string t)))
      else if of_char c < (32 :: nat) then None
      else map_option (\<lambda>(u, r). (c # u, r)) (read_string s))"

definition read_natural :: "string \<Rightarrow> (int \<times> string) option" where
  "read_natural s =
     (let ds = takeWhile is_digit s
      in if ds = [] \<or> hd ds = CHR ''0'' \<and> length ds > 1 then None else Some (digits_val ds, dropWhile is_digit s))"

definition read_number :: "string \<Rightarrow> (int \<times> string) option" where
  "read_number s =
     (if s \<noteq> [] \<and> hd s = CHR ''-'' then map_option (\<lambda>(i, r). (- i, r)) (read_natural (tl s)) else read_natural s)"

definition eat :: "char \<Rightarrow> string \<Rightarrow> string option" where
  "eat c s = (case s of [] \<Rightarrow> None | d # r \<Rightarrow> if d = c then Some r else None)"

text \<open>The fuel bounds the characters read. The members and the elements are read with their closing
  bracket.\<close>

fun read_value :: "nat \<Rightarrow> string \<Rightarrow> (json \<times> string) option"
  and read_members :: "nat \<Rightarrow> string \<Rightarrow> ((string \<times> json) list \<times> string) option"
  and read_elements :: "nat \<Rightarrow> string \<Rightarrow> (json list \<times> string) option"
where
  "read_value 0 s = None"
| "read_value (Suc n) s =
     (case s of
        [] \<Rightarrow> None
      | c # t \<Rightarrow>
          if c = DQ then map_option (\<lambda>(u, r). (JStr u, r)) (read_string t)
          else if c = CHR ''{'' then
            (case eat (CHR ''}'') t of Some r \<Rightarrow> Some (JObj [], r) | None \<Rightarrow> map_option (\<lambda>(m, r). (JObj m, r)) (read_members n t))
          else if c = CHR ''['' then
            (case eat (CHR '']'') t of Some r \<Rightarrow> Some (JArr [], r) | None \<Rightarrow> map_option (\<lambda>(x, r). (JArr x, r)) (read_elements n t))
          else if starts_with ''true'' s then Some (JBool True, drop 4 s)
          else if starts_with ''false'' s then Some (JBool False, drop 5 s)
          else if starts_with ''null'' s then Some (JNull, drop 4 s)
          else map_option (\<lambda>(i, r). (JNum i, r)) (read_number s))"
| "read_members 0 s = None"
| "read_members (Suc n) s =
     do { s1 \<leftarrow> eat DQ s;
          (k, s2) \<leftarrow> read_string s1;
          s3 \<leftarrow> eat (CHR '':'') s2;
          (v, s4) \<leftarrow> read_value n s3;
          (case eat (CHR ''}'') s4 of
             Some r \<Rightarrow> Some ([(k, v)], r)
           | None \<Rightarrow> do { s5 \<leftarrow> eat (CHR '','') s4; (m, r) \<leftarrow> read_members n s5; Some ((k, v) # m, r) }) }"
| "read_elements 0 s = None"
| "read_elements (Suc n) s =
     do { (v, s1) \<leftarrow> read_value n s;
          (case eat (CHR '']'') s1 of
             Some r \<Rightarrow> Some ([v], r)
           | None \<Rightarrow> do { s2 \<leftarrow> eat (CHR '','') s1; (x, r) \<leftarrow> read_elements n s2; Some (v # x, r) }) }"

definition read_json :: "string \<Rightarrow> json option" where
  "read_json s = (case read_value (length s) s of Some (v, []) \<Rightarrow> Some v | _ \<Rightarrow> None)"

section \<open>Texts and their values\<close>

text \<open>A character that stands for itself in a JSON string.\<close>

definition plain :: "string \<Rightarrow> bool" where
  "plain s \<longleftrightarrow> (\<forall>c \<in> set s. c \<noteq> DQ \<and> c \<noteq> BS \<and> 32 \<le> (of_char c :: nat))"

definition encodes :: "string \<Rightarrow> string \<Rightarrow> bool" where
  "encodes t s \<longleftrightarrow> (\<forall>rest. read_string (t @ DQ # rest) = Some (s, rest))"

text \<open>The text of a value, whatever follows it that is no digit.\<close>

definition ends_number :: "string \<Rightarrow> bool" where
  "ends_number rest \<longleftrightarrow> rest = [] \<or> \<not> is_digit (hd rest)"

definition json_text :: "string \<Rightarrow> json \<Rightarrow> bool" where
  "json_text t v \<longleftrightarrow> t \<noteq> [] \<and> (\<forall>n rest. length t \<le> n \<and> ends_number rest \<longrightarrow> read_value n (t @ rest) = Some (v, rest))"

definition member_text :: "string \<times> string \<Rightarrow> string" where
  "member_text m = quoted (fst m) @ '':'' @ snd m"

definition object_text :: "(string \<times> string) list \<Rightarrow> string" where
  "object_text ms = ''{'' @ join_commas (map member_text ms) @ ''}''"

definition array_text :: "string list \<Rightarrow> string" where
  "array_text ts = ''['' @ join_commas ts @ '']''"

lemma json_textI:
  assumes "t \<noteq> []" and "\<And>k rest. length t \<le> Suc k \<Longrightarrow> ends_number rest \<Longrightarrow> read_value (Suc k) (t @ rest) = Some (v, rest)"
  shows "json_text t v"
  unfolding json_text_def
proof (intro conjI allI impI)
  fix n rest
  assume n: "length t \<le> n \<and> ends_number rest"
  with assms(1) obtain k where "n = Suc k" by (cases n) auto
  with n assms(2) show "read_value n (t @ rest) = Some (v, rest)" by blast
qed (rule assms(1))

lemma json_textD: "json_text t v \<Longrightarrow> length t \<le> n \<Longrightarrow> ends_number rest \<Longrightarrow> read_value n (t @ rest) = Some (v, rest)"
  unfolding json_text_def by blast

lemma read_json_text: "json_text t v \<Longrightarrow> read_json t = Some v"
  using json_textD [of t v "length t" "[]"] by (simp add: read_json_def ends_number_def)

lemma plain_simps [simp]: "plain []" "plain (c # s) \<longleftrightarrow> c \<noteq> DQ \<and> c \<noteq> BS \<and> 32 \<le> (of_char c :: nat) \<and> plain s"
  "plain (s @ t) \<longleftrightarrow> plain s \<and> plain t"
  by (auto simp: plain_def)

lemma encodes_Nil [simp]: "encodes [] []"
  by (simp add: encodes_def)

lemma encodes_plain: "plain s \<Longrightarrow> encodes s s"
  unfolding encodes_def by (induction s) auto

lemma encodes_Cons: "c \<noteq> DQ \<Longrightarrow> c \<noteq> BS \<Longrightarrow> 32 \<le> (of_char c :: nat) \<Longrightarrow> encodes t s \<Longrightarrow> encodes (c # t) (c # s)"
  by (simp add: encodes_def)

lemma encodes_escaped: "unescape d = Some x \<Longrightarrow> encodes t s \<Longrightarrow> encodes (BS # d # t) (x # s)"
  by (simp add: encodes_def)

lemma text_string: "encodes t s \<Longrightarrow> json_text (quoted t) (JStr s)"
  by (rule json_textI) (simp_all add: quoted_def QUOTE_def encodes_def)

lemma hd_dec: "n < f \<Longrightarrow> 0 < n \<Longrightarrow> hd (dec_fuel f n) \<noteq> CHR ''0''"
proof (induction f n rule: dec_fuel.induct)
  case (2 f n)
  show ?case
  proof (cases "n < 10")
    case True
    then have "n \<in> {1, 2, 3, 4, 5, 6, 7, 8, 9}" using "2.prems" by auto
    then show ?thesis by (auto simp: char_of_def)
  next
    case False
    then have "n div 10 < f" "0 < n div 10" using "2.prems" by linarith+
    with 2 False dec_fuel_digits [of "n div 10" f] show ?thesis by simp
  qed
qed simp

lemma natural_text: "ends_number rest \<Longrightarrow> read_natural (dec n @ rest) = Some (int n, rest)"
proof -
  assume r: "ends_number rest"
  have d: "list_all is_digit (dec n)" "dec n \<noteq> []" using dec_digits [of n] by simp_all
  have t: "takeWhile is_digit (dec n @ rest) = dec n" "dropWhile is_digit (dec n @ rest) = rest"
    using d(1) r by (cases rest; simp add: list_all_iff ends_number_def)+
  have "hd (dec n) \<noteq> CHR ''0'' \<or> length (dec n) = 1"
  proof (cases "n = 0")
    case True
    then show ?thesis by (simp add: dec_def)
  next
    case False
    then show ?thesis using hd_dec [of n "Suc n"] by (simp add: dec_def)
  qed
  with t d(2) show ?thesis by (auto simp: read_natural_def Let_def)
qed

lemma digit_starts: "is_digit c \<Longrightarrow> c \<noteq> DQ \<and> c \<noteq> CHR ''{'' \<and> c \<noteq> CHR ''['' \<and> c \<noteq> CHR ''-'' \<and> c \<noteq> CHR ''t'' \<and> c \<noteq> CHR ''f'' \<and> c \<noteq> CHR ''n''"
  by (auto simp: is_digit_def less_eq_char_def)

lemma text_number: "json_text (dec_int i) (JNum i)"
proof (rule json_textI)
  show "dec_int i \<noteq> []" using dec_digits(1) by (simp add: dec_int_def)
  fix k rest
  assume "ends_number rest"
  note nat = natural_text [OF this]
  show "read_value (Suc k) (dec_int i @ rest) = Some (JNum i, rest)"
  proof (cases "i < 0")
    case True
    then show ?thesis using nat [of "nat (- i)"] by (simp add: dec_int_def read_number_def starts_with_def)
  next
    case False
    obtain c ds where d: "dec (nat i) = c # ds" using dec_digits(1) by (cases "dec (nat i)") auto
    then have "is_digit c" using dec_digits(2) [of "nat i"] by simp
    from digit_starts [OF this] False show ?thesis
      using nat [of "nat i"] by (simp add: d dec_int_def read_number_def starts_with_def)
  qed
qed

lemma text_nat: "json_text (dec n) (JNum (int n))"
  using text_number [of "int n"] by (simp add: dec_int_def)

lemma text_word: "json_text (dec (unat (w :: 'a :: len word))) (JNum (uint w))"
  using text_nat [of "unat w"] by simp

lemma plain_dec: "plain (dec n)"
  using dec_digits(2) [of n] by (auto simp: plain_def list_all_iff is_digit_def less_eq_char_def)

lemma text_constant: "json_text ''true'' (JBool True)" "json_text ''false'' (JBool False)" "json_text ''null'' JNull"
  by (rule json_textI; simp add: starts_with_def)+

lemma encodes_member: "encodes t k \<Longrightarrow> read_string (t @ DQ # rest) = Some (k, rest)"
  by (simp add: encodes_def)

text \<open>Members and elements with the closing bracket.\<close>

lemma members_text:
  "list_all2 (\<lambda>m kv. plain (fst m) \<and> fst kv = fst m \<and> json_text (snd m) (snd kv)) ms kvs \<Longrightarrow> ms \<noteq> []
     \<Longrightarrow> length (join_commas (map member_text ms)) < n
     \<Longrightarrow> read_members n (join_commas (map member_text ms) @ CHR ''}'' # rest) = Some (kvs, rest)"
proof (induction ms kvs arbitrary: n rule: list_all2_induct)
  case (Cons m ms kv kvs)
  obtain k t where m: "m = (k, t)" by (cases m)
  obtain v where kv: "kv = (k, v)" using Cons.hyps(1) by (cases kv) (simp add: m)
  obtain f where f: "n = Suc f" using Cons.prems by (cases n) auto
  have k: "read_string (k @ DQ # r) = Some (k, r)" for r
    using Cons.hyps(1) encodes_plain by (simp add: m encodes_def)
  have v: "ends_number r \<Longrightarrow> length t \<le> f \<Longrightarrow> read_value f (t @ r) = Some (v, r)" for r
    using Cons.hyps(1) by (simp add: m kv json_textD)
  show ?case
  proof (cases ms)
    case Nil
    with Cons.hyps(2) have "kvs = []" by simp
    moreover have "length t \<le> f" using Cons.prems by (simp add: m f Nil member_text_def)
    ultimately show ?thesis
      using v [of "CHR ''}'' # rest"]
      by (simp add: m kv f Nil member_text_def quoted_def QUOTE_def eat_def k ends_number_def is_digit_def less_eq_char_def)
  next
    case (Cons m' ms')
    then have j: "join_commas (map member_text (m # ms)) = member_text m @ '','' @ join_commas (map member_text ms)"
      by (simp add: Cons)
    have len: "length t \<le> f" "length (join_commas (map member_text ms)) < f"
      using Cons.prems unfolding j by (simp_all add: m f member_text_def quoted_def QUOTE_def)
    have rest: "read_members f (join_commas (map member_text ms) @ CHR ''}'' # rest) = Some (kvs, rest)"
      using Cons.IH len(2) Cons by simp
    show ?thesis
      using v [of "CHR '','' # join_commas (map member_text ms) @ CHR ''}'' # rest"] len(1) rest unfolding j
      by (simp add: m kv f member_text_def quoted_def QUOTE_def eat_def k ends_number_def is_digit_def less_eq_char_def)
  qed
qed simp

lemma elements_text:
  "list_all2 json_text ts vs \<Longrightarrow> ts \<noteq> [] \<Longrightarrow> length (join_commas ts) < n
     \<Longrightarrow> read_elements n (join_commas ts @ CHR '']'' # rest) = Some (vs, rest)"
proof (induction ts vs arbitrary: n rule: list_all2_induct)
  case (Cons t ts v vs)
  obtain f where f: "n = Suc f" using Cons.prems by (cases n) auto
  have v: "ends_number r \<Longrightarrow> length t \<le> f \<Longrightarrow> read_value f (t @ r) = Some (v, r)" for r
    using Cons.hyps(1) by (simp add: json_textD)
  show ?case
  proof (cases ts)
    case Nil
    with Cons.hyps(2) have "vs = []" by simp
    moreover have "length t \<le> f" using Cons.prems by (simp add: f Nil)
    ultimately show ?thesis
      using v [of "CHR '']'' # rest"] by (simp add: f Nil eat_def ends_number_def is_digit_def less_eq_char_def)
  next
    case (Cons t' ts')
    then have j: "join_commas (t # ts) = t @ '','' @ join_commas ts" by simp
    have len: "length t \<le> f" "length (join_commas ts) < f"
      using Cons.prems \<open>list_all2 json_text ts vs\<close> unfolding j by (simp_all add: f)
    have rest: "read_elements f (join_commas ts @ CHR '']'' # rest) = Some (vs, rest)"
      using Cons.IH len(2) Cons by simp
    show ?thesis
      using v [of "CHR '','' # join_commas ts @ CHR '']'' # rest"] len(1) rest unfolding j
      by (simp add: f eat_def ends_number_def is_digit_def less_eq_char_def)
  qed
qed simp

abbreviation member_value :: "string \<times> string \<Rightarrow> string \<times> json \<Rightarrow> bool" where
  "member_value m kv \<equiv> plain (fst m) \<and> fst kv = fst m \<and> json_text (snd m) (snd kv)"

lemma text_object: "list_all2 member_value ms kvs \<Longrightarrow> json_text (object_text ms) (JObj kvs)"
proof (rule json_textI)
  fix k rest
  assume all: "list_all2 member_value ms kvs" and k: "length (object_text ms) \<le> Suc k"
  show "read_value (Suc k) (object_text ms @ rest) = Some (JObj kvs, rest)"
  proof (cases ms)
    case Nil
    with all show ?thesis by (simp add: object_text_def eat_def)
  next
    case (Cons m ms')
    have "eat (CHR ''}'') (join_commas (map member_text ms) @ CHR ''}'' # rest) = None"
      unfolding Cons by (cases ms') (simp_all add: eat_def member_text_def quoted_def QUOTE_def)
    moreover have "length (join_commas (map member_text ms)) < k" using k by (simp add: object_text_def)
    ultimately show ?thesis using members_text [OF all, of k rest] Cons by (simp add: object_text_def)
  qed
qed (simp add: object_text_def)

lemma text_start: "json_text t v \<Longrightarrow> t \<noteq> [] \<and> hd t \<noteq> CHR '']''"
proof
  assume t: "json_text t v"
  then show "t \<noteq> []" by (simp add: json_text_def)
  then obtain c s where c: "t = c # s" by (cases t) auto
  with json_textD [OF t le_refl, of "[]"] show "hd t \<noteq> CHR '']''"
    by (auto simp: ends_number_def starts_with_def read_number_def read_natural_def is_digit_def less_eq_char_def)
qed

lemma text_array: "list_all2 json_text ts vs \<Longrightarrow> json_text (array_text ts) (JArr vs)"
proof (rule json_textI)
  fix k rest
  assume all: "list_all2 json_text ts vs" and k: "length (array_text ts) \<le> Suc k"
  show "read_value (Suc k) (array_text ts @ rest) = Some (JArr vs, rest)"
  proof (cases ts)
    case Nil
    with all show ?thesis by (simp add: array_text_def eat_def)
  next
    case (Cons t ts')
    then have "t \<noteq> [] \<and> hd t \<noteq> CHR '']''" using all text_start by (auto simp: list_all2_Cons1)
    then have "eat (CHR '']'') (join_commas ts @ CHR '']'' # rest) = None"
      unfolding Cons by (cases ts'; cases t) (simp_all add: eat_def)
    moreover have "length (join_commas ts) < k" using k by (simp add: array_text_def)
    ultimately show ?thesis using elements_text [OF all, of k rest] Cons by (simp add: array_text_def)
  qed
qed (simp add: array_text_def)

section \<open>Escapes\<close>

lemma printable_not_special: "plain s \<Longrightarrow> DQ \<notin> set s \<and> BS \<notin> set s"
  by (auto simp: plain_def)

text \<open>A name without control characters.\<close>

definition printable :: "string \<Rightarrow> bool" where
  "printable s \<longleftrightarrow> (\<forall>c \<in> set s. 32 \<le> (of_char c :: nat))"

lemma replace_char_Cons: "replace_char c r (x # s) = (if x = c then r else [x]) @ replace_char c r s"
  by (simp add: replace_char_def)

lemma json_escape_Cons:
  "json_escape (x # s) = (if x = BS then [BS, BS] else if x = DQ then [BS, DQ] else [x]) @ json_escape s"
  by (simp add: json_escape_def replace_char_def)

lemma encodes_json_escape: "printable s \<Longrightarrow> encodes (json_escape s) s"
proof (induction s)
  case (Cons x s)
  then have "encodes (json_escape s) s" by (simp add: printable_def)
  with Cons.prems show ?case
    by (auto simp: json_escape_Cons printable_def intro!: encodes_escaped encodes_Cons simp: unescape_def)
qed (simp add: json_escape_def replace_char_def)

lemma encodes_escape_quotes: "printable s \<Longrightarrow> BS \<notin> set s \<Longrightarrow> encodes (escape_quotes s) s"
proof (induction s)
  case (Cons x s)
  then have "encodes (escape_quotes s) s" by (simp add: printable_def)
  with Cons.prems show ?case
    by (auto simp: escape_quotes_def replace_char_Cons printable_def intro!: encodes_escaped encodes_Cons simp: unescape_def)
qed (simp add: escape_quotes_def replace_char_def)

text \<open>The first character that a reader of a text sees.\<close>

lemma read_string_plain: "plain p \<Longrightarrow> read_string (p @ s) = map_option (\<lambda>(u, r). (p @ u, r)) (read_string s)"
proof (induction p)
  case Nil
  then show ?case by (cases "read_string s") auto
next
  case (Cons c p)
  then show ?case by (cases "read_string s") auto
qed

lemma plain_upper:
  assumes c: "plain [c]"
  shows "plain [upper_char c]"
proof (cases "CHR ''a'' \<le> c \<and> c \<le> CHR ''z''")
  case True
  then have r: "97 \<le> (of_char c :: nat)" "(of_char c :: nat) \<le> 122" by (simp_all add: less_eq_char_def)
  then have "(of_char (upper_char c) :: nat) = of_char c - 32" using True by (simp add: upper_char_def)
  with r have u: "65 \<le> (of_char (upper_char c) :: nat)" "(of_char (upper_char c) :: nat) \<le> 90" by simp_all
  then have "upper_char c \<noteq> DQ" "upper_char c \<noteq> BS" by auto
  with u show ?thesis by simp
next
  case False
  then have "upper_char c = c" by (simp only: upper_char_def if_False)
  with c show ?thesis by simp
qed

lemma plain_dash_mac: "plain s \<Longrightarrow> plain (dash_mac s)"
proof (induction s)
  case (Cons c s)
  have "dash_mac (c # s) = upper_char (if c = CHR '':'' then CHR ''-'' else c) # dash_mac s"
    by (simp add: dash_mac_def to_upper_def replace_char_def)
  moreover have "plain [upper_char (if c = CHR '':'' then CHR ''-'' else c)]"
    using Cons.prems by (intro plain_upper) simp
  ultimately show ?case using Cons by simp
qed (simp add: dash_mac_def to_upper_def replace_char_def)

lemma dec_digit_texts: "dec_int 0 = ''0''" "dec_int 1 = ''1''" "dec_int 2 = ''2''"
  by code_simp+

section \<open>Properties\<close>

lemmas object_rules = list_all2_Cons list_all2_Nil text_string encodes_plain text_number text_nat text_word text_constant plain_dec

text \<open>C32: The status message is an object of the announced members. Whatever the state of the portal, when
  the addresses have no quote and the device map is a JSON text, the customer's page reads every
  member with its value, the coin count and the time of the window only for the owner of the slot.\<close>
theorem status_message_typed:
  assumes "plain type" and "plain (clientMac sess)" and "plain (clientIp sess)" and "json_text (DEVICE_STATUS_JSON (om s)) devices"
    and "cs = coinSessionSnapshot (coin_st s)"
    and "mine = (st_accepting cs \<and> coinIpToU32 (parse_ip e) (clientIp sess) = st_clientIpV4 cs)"
  shows "read_json (buildStatusJson e s sess type) = Some (JObj
    [(''type'', JStr type), (''coinCount'', JNum (if mine then st_count cs else 0)),
     (''coinInsertTimeLeft'', JNum (int (if mine then coin_time_left (millis_now e) cs else 0))),
     (''sessionStartMillis'', JNum (uint (sessionStartMillis sess))), (''sessionEndMillis'', JNum (uint (sessionEndMillis sess))),
     (''pausedRemainingMillis'', JNum (uint (pausedRemainingMillis sess))), (''clientMac'', JStr (clientMac sess)),
     (''clientIp'', JStr (clientIp sess)), (''minutesPerCoin'', JNum (minutes_coin e)), (''devices'', devices)])"
proof -
  let ?ms = "[(''type'', quoted type), (''coinCount'', dec_int (if mine then st_count cs else 0)),
     (''coinInsertTimeLeft'', dec (if mine then coin_time_left (millis_now e) cs else 0)),
     (''sessionStartMillis'', dec (unat (sessionStartMillis sess))), (''sessionEndMillis'', dec (unat (sessionEndMillis sess))),
     (''pausedRemainingMillis'', dec (unat (pausedRemainingMillis sess))), (''clientMac'', quoted (clientMac sess)),
     (''clientIp'', quoted (clientIp sess)), (''minutesPerCoin'', dec_int (minutes_coin e)), (''devices'', DEVICE_STATUS_JSON (om s))]"
  have "buildStatusJson e s sess type = object_text ?ms"
    unfolding buildStatusJson_def assms(5,6) Let_def by (simp add: object_text_def member_text_def quoted_def QUOTE_def)
  then show ?thesis
    using assms(1-4) by (intro read_json_text) (simp only:, rule text_object, simp add: object_rules)
qed

text \<open>C33: A grant asks for the time that was paid. When the addresses and names of the session have no quote
  or backslash, the controller reads the request as the client and its address, the site and exactly that time.\<close>
theorem auth_request_reads_back:
  assumes "plain (clientMac s)" and "plain (clientIp s)" and "plain (SITE_NAME st)" and "plain (apMac s)" and "plain (ssidName s)" and "plain (radioId s)"
  shows "read_json (rq_body (auth_request e st c s d)) = Some (JObj
    [(''clientMac'', JStr (clientMac s)), (''clientIp'', JStr (clientIp s)), (''site'', JStr (SITE_NAME st)),
     (''time'', JStr (dec (unat d))), (''authType'', JNum 4),
     (''apMac'', JStr (apMac s)), (''ssidName'', JStr (ssidName s)), (''radioId'', JStr (radioId s))])"
proof -
  let ?ms = "[(''clientMac'', quoted (clientMac s)), (''clientIp'', quoted (clientIp s)), (''site'', quoted (SITE_NAME st)), (''time'', quoted (dec (unat d))),
     (''authType'', dec_int 4), (''apMac'', quoted (apMac s)), (''ssidName'', quoted (ssidName s)), (''radioId'', quoted (radioId s))]"
  have "rq_body (auth_request e st c s d) = object_text ?ms"
    by (simp add: auth_request_def object_text_def member_text_def quoted_def QUOTE_def)
  then show ?thesis
    using assms by (intro read_json_text) (simp only:, rule text_object, simp add: object_rules)
qed

lemma visit_session:
  assumes "cache_ok (cache_of s)" and "mac \<noteq> []" and "map_of params ''clientMac'' = Some mac" and "map_of params ''clientIp'' = None"
  shows "findByMac (cache_of (fst (handleRoot e page unidentified params ip s))) mac
    = Some (restore_paused (file_opens e) mac (files s) (seed_fields params (upsert_entry ip mac (cache_of s))))"
proof -
  have o: "omap_ok (byMac (cache_of s))" using assms(1) by (simp add: cache_ok_def)
  have k: "upsert_key ip mac (cache_of s) = mac" using assms(2) by (simp add: upsert_key_def)
  obtain c1 where up: "upsert ip mac (cache_of s) = (c1, mac)"
    using k by (cases "upsert ip mac (cache_of s)") (auto simp: upsert_def Let_def split: if_splits)
  have "map_of (byMac c1) mac = Some (upsert_entry ip mac (cache_of s))"
    using byMac_upsert [OF o, of ip mac] by (simp add: up k)
  moreover have "omap_ok (byMac c1)" using cache_ok_upsert [OF assms(1), of ip mac] by (simp add: up cache_ok_def)
  ultimately show ?thesis
    using assms(2-4) by (simp add: handleRoot_def request_ip_def param_def seedPortalSession_def up findByMac_def map_of_modify Let_def set_cache_def)
qed

lemma restore_paused_fields [simp]:
  "clientMac (restore_paused b m fs x) = clientMac x" "clientIp (restore_paused b m fs x) = clientIp x" "apMac (restore_paused b m fs x) = apMac x"
  "ssidName (restore_paused b m fs x) = ssidName x" "radioId (restore_paused b m fs x) = radioId x"
  by (simp_all add: restore_paused_def)

text \<open>C34: A customer can name the time of the grant. The network's name comes from the address of the portal
  page as the customer's browser sends it, is kept in the session and goes into the request as it is:
  for any text there is a name with which the request for the visitor's session has a second, later
  member \<open>time\<close> with that text, whatever was paid.\<close>
theorem paid_time_overridable:
  assumes "cache_ok (cache_of s)" and "mac \<noteq> []" and "plain mac" and "plain ap" and "plain radio" and "plain (SITE_NAME st)" and "plain t"
    and "plain ip" and "ip \<noteq> []"
  shows "\<exists>name x m. findByMac (cache_of (fst (handleRoot e page unidentified
        [(''clientMac'', mac), (''apMac'', ap), (''ssidName'', name), (''radioId'', radio)] ip s))) mac = Some x
    \<and> read_json (rq_body (auth_request oe st c x d)) = Some (JObj m)
    \<and> map_of m ''time'' = Some (JStr (dec (unat d))) \<and> map_of (rev m) ''time'' = Some (JStr t)"
proof -
  let ?name = "DQ # '','' @ quoted ''time'' @ '':'' @ DQ # t"
  let ?params = "[(''clientMac'', mac), (''apMac'', ap), (''ssidName'', ?name), (''radioId'', radio)]"
  let ?x = "restore_paused (file_opens e) mac (files s) (seed_fields ?params (upsert_entry ip mac (cache_of s)))"
  let ?ms = "[(''clientMac'', quoted mac), (''clientIp'', quoted ip), (''site'', quoted (SITE_NAME st)), (''time'', quoted (dec (unat d))),
     (''authType'', dec_int 4), (''apMac'', quoted ap), (''ssidName'', quoted []), (''time'', quoted t), (''radioId'', quoted radio)]"
  let ?m = "[(''clientMac'', JStr mac), (''clientIp'', JStr ip), (''site'', JStr (SITE_NAME st)), (''time'', JStr (dec (unat d))), (''authType'', JNum 4),
     (''apMac'', JStr ap), (''ssidName'', JStr []), (''time'', JStr t), (''radioId'', JStr radio)]"
  have "rq_body (auth_request oe st c ?x d) = object_text ?ms"
    using assms(9) by (simp add: auth_request_def seed_fields_def upsert_entry_def Let_def object_text_def member_text_def quoted_def QUOTE_def)
  then have "read_json (rq_body (auth_request oe st c ?x d)) = Some (JObj ?m)"
    using assms by (intro read_json_text) (simp only:, rule text_object, simp add: object_rules)
  moreover have "findByMac (cache_of (fst (handleRoot e page unidentified ?params ip s))) mac = Some ?x"
    using assms(1,2) by (intro visit_session) simp_all
  moreover have "map_of ?m ''time'' = Some (JStr (dec (unat d)))" "map_of (rev ?m) ''time'' = Some (JStr t)" by simp_all
  ultimately show ?thesis by blast
qed

text \<open>The device map stays a JSON object. A refresh writes one member per device that has an address,
  with its colour, as long as the controller's addresses are plain; otherwise the map is kept.\<close>
theorem device_map_readable:
  assumes "\<exists>m. json_text old (JObj m)"
    and "\<forall>d \<in> set (elements (jget (jget (snd (getDeviceGridJson e st c)) ''result'') ''data'')). plain (str_or [] (jget d ''mac''))"
  shows "\<exists>m. json_text (snd (refreshDeviceStatus e st fs old c)) (JObj m)
    \<and> (fsExists fs ''/map.svg'' \<and> \<not> is_null (snd (getDeviceGridJson e st c)) \<longrightarrow>
        map fst m = map (\<lambda>d. dash_mac (str_or [] (jget d ''mac'')))
          (filter (\<lambda>d. str_or [] (jget d ''mac'') \<noteq> []) (elements (jget (jget (snd (getDeviceGridJson e st c)) ''result'') ''data''))))"
proof -
  obtain c1 doc where g: "getDeviceGridJson e st c = (c1, doc)" by (cases "getDeviceGridJson e st c")
  let ?ds = "filter (\<lambda>d. str_or [] (jget d ''mac'') \<noteq> []) (elements (jget (jget doc ''result'') ''data''))"
  let ?ms = "map (\<lambda>d. (dash_mac (str_or [] (jget d ''mac'')), device_code d)) ?ds"
  let ?color = "\<lambda>d. if int_or (- 1) (jget d ''statusCategory'') = 1 then 2 else if int_or (- 1) (jget d ''statusCategory'') = 0 then 0 else 1 :: int"
  let ?kvs = "map (\<lambda>d. (dash_mac (str_or [] (jget d ''mac'')), JNum (?color d))) ?ds"
  have code: "json_text (device_code d) (JNum (?color d))" for d
    using text_number [of "?color d"] dec_digit_texts by (auto simp: device_code_def Let_def)
  have "plain (dash_mac (str_or [] (jget d ''mac'')))" if "d \<in> set ?ds" for d
    using that assms(2) plain_dash_mac by (auto simp: g)
  then have "list_all2 member_value ?ms ?kvs" by (auto simp: list_all2_map1 list_all2_map2 list_all2_same code)
  then have new: "json_text (object_text ?ms) (JObj ?kvs)" by (rule text_object)
  have same: "''{'' @ join_commas (device_entries (elements (jget (jget doc ''result'') ''data''))) @ ''}'' = object_text ?ms"
    by (simp add: device_entries_def object_text_def member_text_def comp_def)
  have keys: "map fst ?kvs = map (\<lambda>d. dash_mac (str_or [] (jget d ''mac''))) ?ds" by (simp add: comp_def)
  show ?thesis
  proof (cases "fsExists fs ''/map.svg'' \<and> \<not> is_null doc")
    case True
    then have "snd (refreshDeviceStatus e st fs old c) = object_text ?ms" using same by (simp add: refreshDeviceStatus_def g)
    with new keys show ?thesis by (simp only: g snd_conv) blast
  next
    case False
    then have "snd (refreshDeviceStatus e st fs old c) = old" by (auto simp: refreshDeviceStatus_def g)
    with assms(1) False show ?thesis by (simp only: g snd_conv) blast
  qed
qed

text \<open>The page reads an error exactly when its detail allows it. A plain detail is read as it is; one in
  which the controller's message has a quote followed by anything but a comma or a brace is no JSON
  text, and the customer sees nothing.\<close>
theorem error_detail_readable:
  assumes "plain msg" and "plain detail"
  shows "read_json (detail_text msg detail) = Some (JObj [(''type'', JStr ''error''), (''message'', JStr msg), (''detail'', JStr detail)])"
    and "x \<noteq> CHR '','' \<Longrightarrow> x \<noteq> CHR ''}'' \<Longrightarrow> read_json (detail_text msg (detail @ DQ # x # after)) = None"
proof -
  have "detail_text msg detail = object_text [(''type'', quoted ''error''), (''message'', quoted msg), (''detail'', quoted detail)]"
    by (simp add: detail_text_def object_text_def member_text_def quoted_def QUOTE_def)
  then show "read_json (detail_text msg detail) = Some (JObj [(''type'', JStr ''error''), (''message'', JStr msg), (''detail'', JStr detail)])"
    using assms by (intro read_json_text) (simp only:, rule text_object, simp add: object_rules)
  show "read_json (detail_text msg (detail @ DQ # x # after)) = None" if "x \<noteq> CHR '',''" "x \<noteq> CHR ''}''"
    using that assms by (simp add: read_json_def detail_text_def quoted_def QUOTE_def read_string_plain eat_def eval_nat_numeral)
qed

text \<open>Names are read back. A name that \<open>setClientName\<close> escapes is read back for every printable text; one of a
  voucher group only without a backslash, and a backslash at its end leaves the text open.\<close>
theorem escaped_names_read_back:
  assumes "printable s"
  shows "read_json (quoted (json_escape s)) = Some (JStr s)"
    and "BS \<notin> set s \<Longrightarrow> read_json (quoted (escape_quotes s)) = Some (JStr s)"
    and "plain p \<Longrightarrow> read_json (quoted (escape_quotes (p @ [BS]))) = None"
proof -
  show "read_json (quoted (json_escape s)) = Some (JStr s)"
    by (intro read_json_text text_string encodes_json_escape assms)
  show "BS \<notin> set s \<Longrightarrow> read_json (quoted (escape_quotes s)) = Some (JStr s)"
    by (intro read_json_text text_string encodes_escape_quotes assms)
  show "read_json (quoted (escape_quotes (p @ [BS]))) = None" if "plain p"
  proof -
    have "escape_quotes (p @ [BS]) = p @ [BS]"
      using that by (induction p) (simp_all add: escape_quotes_def replace_char_def)
    then show ?thesis
      using that by (simp add: read_json_def quoted_def QUOTE_def read_string_plain unescape_def)
  qed
qed

text \<open>Inputs of the witnesses.\<close>

definition text_portal :: portal where
  "text_portal = demo_portal demo_active"

lemma text_empty_object: "json_text ''{}'' (JObj [])"
  using text_object [of "[]" "[]"] by (simp add: object_text_def)

theorem status_message_typed_witness:
  "\<exists>m. read_json (buildStatusJson (demo_portal_env 5) text_portal demo_active_session ''status'') = Some (JObj m)
     \<and> map_of m ''clientMac'' = Some (JStr (clientMac demo_active_session)) \<and> map_of m ''devices'' = Some (JObj [])"
proof -
  have "plain ''status''" "plain (clientMac demo_active_session)" "plain (clientIp demo_active_session)" by code_simp+
  moreover have "json_text (DEVICE_STATUS_JSON (om text_portal)) (JObj [])"
    using text_empty_object by (simp add: text_portal_def demo_portal_def demo_omada_def)
  ultimately show ?thesis
    using status_message_typed [of "''status''" demo_active_session text_portal "JObj []", OF _ _ _ _ refl refl] by simp
qed

abbreviation text_env :: omada_env where
  "text_env \<equiv> demo_omada_env (\<lambda>r. \<lparr>rp_code = 200, rp_error = [], rp_body = ''{}'', rp_cookies = []\<rparr>)"

theorem auth_request_reads_back_witness:
  "\<exists>m. read_json (rq_body (auth_request text_env demo_site demo_credentials demo_active_session 7)) = Some (JObj m)
     \<and> map_of m ''time'' = Some (JStr ''7'')"
proof -
  have "plain (clientMac demo_active_session)" "plain (clientIp demo_active_session)" "plain (SITE_NAME demo_site)" "plain (apMac demo_active_session)"
    "plain (ssidName demo_active_session)" "plain (radioId demo_active_session)" by code_simp+
  moreover have "dec (unat (7 :: u64)) = ''7''" by code_simp
  ultimately show ?thesis
    using auth_request_reads_back [of demo_active_session demo_site text_env demo_credentials 7] by simp
qed

theorem paid_time_overridable_witness:
  "\<exists>name x m. findByMac (cache_of (fst (handleRoot (demo_portal_env 5) ''page'' ''none''
        [(''clientMac'', ''AA''), (''apMac'', ''BB''), (''ssidName'', name), (''radioId'', ''1'')] ''10.0.0.7'' text_portal))) ''AA'' = Some x
    \<and> read_json (rq_body (auth_request text_env demo_site demo_credentials x 60000)) = Some (JObj m)
    \<and> map_of (rev m) ''time'' = Some (JStr ''86400000000'')"
proof -
  have c: "cache_ok (cache_of text_portal)" using cache_ok_demo_active by (simp add: text_portal_def demo_portal_def demo_omada_def)
  have p: "plain ''AA''" "plain ''BB''" "plain ''1''" "plain (SITE_NAME demo_site)" "plain ''86400000000''" "plain ''10.0.0.7''" by code_simp+
  from paid_time_overridable [OF c _ p _, of "demo_portal_env 5" "''page''" "''none''" text_env demo_credentials 60000]
  show ?thesis by blast
qed

theorem device_map_readable_witness:
  "\<exists>m. json_text (snd (refreshDeviceStatus text_env demo_site Map.empty ''{}'' demo_credentials)) (JObj m)"
proof -
  have "elements (jget (jget (snd (getDeviceGridJson text_env demo_site demo_credentials)) ''result'') ''data'') = []" by code_simp
  then show ?thesis
    using device_map_readable [of "''{}''" text_env demo_site demo_credentials Map.empty] text_empty_object by auto
qed

theorem escaped_names_read_back_witness:
  "read_json (quoted (json_escape [DQ, BS])) = Some (JStr [DQ, BS]) \<and> read_json (quoted (escape_quotes [DQ])) = Some (JStr [DQ])
     \<and> read_json (quoted (escape_quotes [BS])) = None"
proof -
  have "printable [DQ, BS]" "printable [DQ]" "printable []" "plain []" by (simp_all add: printable_def)
  with escaped_names_read_back(1) [of "[DQ, BS]"] escaped_names_read_back(2) [of "[DQ]"] escaped_names_read_back(3) [of "[]" "[]"]
  show ?thesis by simp
qed

theorem error_detail_readable_witness:
  "read_json (detail_text ''Pause failed'' ''Extend: no'') \<noteq> None \<and> read_json (detail_text ''Pause failed'' [DQ, CHR ''a'']) = None"
proof -
  have "plain ''Pause failed''" "plain ''Extend: no''" by code_simp+
  with error_detail_readable(1) [of "''Pause failed''" "''Extend: no''"]
    error_detail_readable(2) [of "''Pause failed''" "[]" "CHR ''a''" "[]"]
  show ?thesis by simp
qed

end
