(* ===== verification/Fleet.thy ===== *)
theory Fleet
  imports Network SlaveOta Updates
begin

text \<open>
  The firmware of the fleet, composed of the node network, the update worker and the image that the
  master serves (\<open>src/network.cpp\<close>, \<open>src/web.cpp\<close>): a slave's heartbeat, the master's answer, the slave's
  worker, the download and the restart are one round. What each part does is the definition of its
  own component; the theorems say what becomes of the image of a slave over the rounds.
\<close>

section \<open>Rounds\<close>

text \<open>What one round meets: the boards at the times they act, the addresses, the master's flash, the
  updater of the slave, the stream, and the state of the slave after a restart.\<close>

record round =
  rd_master :: net_env
  rd_sends :: net_env
  rd_receives :: net_env
  rd_slave_ip :: u32
  rd_master_ip :: u32
  rd_image_size :: nat
  rd_flash :: "u8 list"
  rd_mapped :: bool
  rd_copy :: "(nat \<Rightarrow> u8) option"
  rd_read :: bool
  rd_begins :: bool
  rd_buffer :: bool
  rd_ends :: bool
  rd_start :: u32
  rd_events :: "flash_event list"
  rd_boot :: net_node

definition served :: "round \<Rightarrow> fw_reply" where
  "served r = handleFwBin (rd_image_size r) (rd_flash r) (rd_mapped r) (rd_copy r) (rd_read r)"

text \<open>The reply as the HTTP client of the slave sees it: status and length.\<close>

definition fetched :: "round \<Rightarrow> flash_env" where
  "fetched r = \<lparr>http_code = (case served r of FwNotFound \<Rightarrow> 404 | FwImage img \<Rightarrow> 200 | FwNoMemory \<Rightarrow> 500),
     http_size = (case served r of FwNotFound \<Rightarrow> 9 | FwImage img \<Rightarrow> int (length img) | FwNoMemory \<Rightarrow> 13),
     update_begins = rd_begins r, buffer_ok = rd_buffer r, update_ends = rd_ends r\<rparr>"

text \<open>The image of the slave after its worker: the updater switches to what it was given when the update
  ends, and only then.\<close>

definition installed :: "round \<Rightarrow> flash_action list \<Rightarrow> u8 list \<Rightarrow> u8 list" where
  "installed r acts old =
     (case served r of
        FwImage img \<Rightarrow> if UpdateEnd \<in> set acts \<and> rd_ends r then take (nat (written_bytes acts)) img else old
      | _ \<Rightarrow> old)"

definition commands :: "net_action list \<Rightarrow> u8 list list" where
  "commands acts = concat (map (\<lambda>a. case a of NetSend i (Some cmd) \<Rightarrow> [cmd] | _ \<Rightarrow> []) acts)"

text \<open>The state of the slave and its image, and whether it restarted.\<close>

definition slave_round :: "round \<Rightarrow> u8 list \<Rightarrow> net_node \<times> u8 list \<Rightarrow> (net_node \<times> u8 list) \<times> bool" where
  "slave_round r cmd s =
     (case networkLoop (rd_receives r) (rd_master_ip r) cmd (fst s) of (sl, b) \<Rightarrow>
        if SpawnSlaveOta (rd_master_ip r) \<notin> set b then ((sl, snd s), False)
        else case slaveOtaTask (fetched r) (rd_start r) (rd_events r) of
            (OtaRestart, busy, acts) \<Rightarrow> ((rd_boot r, installed r acts (snd s)), True)
          | (OtaIdle, busy, acts) \<Rightarrow> ((sl\<lparr>OTA_IN_PROGRESS := busy\<rparr>, installed r acts (snd s)), False))"

definition fleet_round :: "round \<Rightarrow> net_node \<times> net_node \<times> u8 list \<Rightarrow> (net_node \<times> net_node \<times> u8 list) \<times> bool" where
  "fleet_round r s =
     (case s of (sm, sl) \<Rightarrow>
      case broadcastHeartbeat (rd_sends r) of
        None \<Rightarrow> (s, False)
      | Some pkt \<Rightarrow>
          (case networkLoop (rd_master r) (rd_slave_ip r) pkt sm of (sm1, a) \<Rightarrow>
             (case commands a of
                [] \<Rightarrow> ((sm1, sl), False)
              | cmd # _ \<Rightarrow> (case slave_round r cmd sl of (sl1, restarted) \<Rightarrow> ((sm1, sl1), restarted)))))"

fun fleet_run :: "round list \<Rightarrow> net_node \<times> net_node \<times> u8 list \<Rightarrow> (net_node \<times> net_node \<times> u8 list) \<times> nat" where
  "fleet_run [] s = (s, 0)"
| "fleet_run (r # rs) s =
     (case fleet_round r s of (s1, restarted) \<Rightarrow>
      case fleet_run rs s1 of (s2, n) \<Rightarrow> (s2, if restarted then Suc n else n))"

text \<open>The boards of a round belong together: one key, fresh packets, their roles and addresses.\<close>

definition linked :: "round \<Rightarrow> bool" where
  "linked r \<longleftrightarrow> sound_hmac (rd_master r) \<and> sound_hmac (rd_receives r)
     \<and> hmac (rd_master r) = hmac (rd_sends r) \<and> NET_KEY (rd_master r) = NET_KEY (rd_sends r)
     \<and> hmac (rd_receives r) = hmac (rd_master r) \<and> NET_KEY (rd_receives r) = NET_KEY (rd_master r)
     \<and> fresh (netNowMs (rd_master r)) (netNowMs (rd_sends r)) \<and> fresh (netNowMs (rd_receives r)) (netNowMs (rd_master r))
     \<and> IS_MASTER (rd_master r) \<and> \<not> IS_MASTER (rd_receives r) \<and> net_own_mac (rd_receives r) = net_own_mac (rd_sends r)
     \<and> to_upper (net_own_mac (rd_sends r)) \<noteq> to_upper (net_own_mac (rd_master r))
     \<and> cstr 18 (net_own_mac (rd_sends r)) = net_own_mac (rd_sends r)"

definition outdated :: "round \<Rightarrow> bool" where
  "outdated r \<longleftrightarrow> FIRMWARE_BUILD (rd_sends r) < FIRMWARE_BUILD (rd_master r)"

text \<open>The slave can start its worker.\<close>

definition worker_free :: "round \<Rightarrow> net_node \<Rightarrow> bool" where
  "worker_free r sl \<longleftrightarrow> \<not> OTA_IN_PROGRESS sl \<and> malloc_ok (rd_receives r) \<and> task_ok (rd_receives r)"

section \<open>Steps of a round\<close>

abbreviation slave_mac :: "round \<Rightarrow> string" where
  "slave_mac r \<equiv> to_upper (net_own_mac (rd_sends r))"

lemma mac_text:
  assumes "cstr 18 mac = mac"
  shows "to_upper (cstr 18 (to_upper mac)) = to_upper mac"
proof -
  have "length mac < 18" using length_cstr [of 18 mac] assms by simp
  moreover have "CHR 0x00 \<notin> set (to_upper mac)"
  proof -
    have "CHR 0x00 \<notin> set mac" using cstr_no_nul [of 18 mac] assms by simp
    moreover have "upper_char c = CHR 0x00 \<Longrightarrow> c = CHR 0x00" for c by (rule upper_char_0)
    ultimately show ?thesis by (force simp: to_upper_def)
  qed
  ultimately show ?thesis by (simp add: cstr_id)
qed

lemma commands_health: "commands (snd (wifi_health e s)) = []"
  by (simp add: wifi_health_def commands_def)

lemma commands_append: "commands (a @ b) = commands a @ commands b"
  by (simp add: commands_def)

lemma commands_simps [simp]: "commands [] = []" "commands [NetSend i (Some cmd)] = [cmd]"
  by (simp_all add: commands_def)

text \<open>The master answers an outdated slave with one command, and an up to date one with none.\<close>

lemma heartbeat_answered:
  assumes "linked r" and "broadcastHeartbeat (rd_sends r) = Some pkt"
    and "networkLoop (rd_master r) (rd_slave_ip r) pkt sm = (sm1, a)"
  obtains cmd where "masterSendOtaToNode (rd_master r) (slave_mac r) = Some cmd" "commands a = (if outdated r then [cmd] else [])"
proof -
  obtain cmd where cmd: "masterSendOtaToNode (rd_master r) (slave_mac r) = Some cmd"
    by (simp add: masterSendOtaToNode_def netTransmit_def Let_def)
  let ?es = "rd_sends r"
  have "net_receive (rd_master r) pkt = Inr (NET_MSG_HEARTBEAT, netNowMs ?es, put_heartbeat
     \<lparr>hb_buildNumber = FIRMWARE_BUILD ?es, hb_uptimeSec = net_millis ?es div 1000,
      hb_freeHeap = net_free_heap ?es, hb_rssi = net_rssi ?es, hb_rejectWidth = net_reject_width ?es,
      hb_rejectInterval = net_reject_interval ?es, hb_version = FIRMWARE_VERSION ?es,
      hb_ip = net_local_ip ?es, hb_mac = net_own_mac ?es\<rparr>)"
    using assms(1,2) by (intro transmit_received) (simp_all add: broadcastHeartbeat_def linked_def)
  note loop = loop_accepted [OF this, of "rd_slave_ip r" sm]
  have "commands a = (if outdated r then [cmd] else [])"
    using assms(1,3) unfolding loop
    by (auto simp: commands_append commands_health net_dispatch_def recv_heartbeat_def heartbeat_roundtrip Let_def
        linked_def outdated_def cmd)
  with cmd show ?thesis by (rule that)
qed

text \<open>The slave starts its worker on the address that the command comes from.\<close>

lemma command_starts_worker:
  assumes "linked r" and "worker_free r sl" and "masterSendOtaToNode (rd_master r) (slave_mac r) = Some cmd"
  shows "SpawnSlaveOta ip \<in> set (snd (networkLoop (rd_receives r) ip cmd sl))"
proof -
  have "net_receive (rd_receives r) cmd = Inr (NET_MSG_OTA_AVAILABLE, netNowMs (rd_master r), put_chars 18 (slave_mac r))"
    using assms(1,3) by (intro transmit_received) (simp_all add: masterSendOtaToNode_def linked_def)
  note loop = loop_accepted [OF this, of ip sl]
  have "to_upper (cstr 18 (slave_mac r)) = slave_mac r" using assms(1) mac_text by (simp add: linked_def)
  then show ?thesis
    using assms(1,2) unfolding loop
    by (simp add: net_dispatch_def recv_ota_available_def get_fields linked_def worker_free_def wifi_health_def)
qed

text \<open>The whole image arrives and the updater takes it.\<close>

definition delivered :: "round \<Rightarrow> bool" where
  "delivered r \<longleftrightarrow> 0 < rd_image_size r \<and> rd_image_size r \<le> length (rd_flash r) \<and> (rd_mapped r \<or> rd_copy r \<noteq> None \<and> rd_read r)
     \<and> rd_begins r \<and> rd_buffer r \<and> rd_ends r
     \<and> fst (flash_loop (rd_events r) (rd_start r) (int (rd_image_size r))) \<le> 0"

abbreviation master_image :: "round \<Rightarrow> u8 list" where
  "master_image r \<equiv> take (rd_image_size r) (rd_flash r)"

lemma served_shape:
  "rd_image_size r = 0 \<Longrightarrow> served r = FwNotFound"
  "delivered r \<Longrightarrow> served r = FwImage (master_image r)"
  "served r = FwImage img \<Longrightarrow> rd_image_size r \<noteq> 0 \<and> (rd_mapped r \<or> rd_read r \<longrightarrow> img = master_image r)"
  by (auto simp: served_def handleFwBin_def delivered_def split: if_splits option.splits)

text \<open>An update that ends has written at least the announced size.\<close>

lemma task_ends:
  assumes "slaveOtaTask e t0 evs = (out, busy, acts)" and "UpdateEnd \<in> set acts"
  shows "http_code e = 200 \<and> http_size e \<le> written_bytes acts"
proof -
  obtain rem b where fl: "flash_loop evs t0 (http_size e) = (rem, b)" by fastforce
  from flash_loop_written [OF fl] assms show ?thesis
    by (auto simp: slaveOtaTask_def slaveFlashFromUrl_def Let_def fl split: if_splits bool.splits)
qed

lemma installed_whole:
  assumes "slaveOtaTask (fetched r) t0 evs = (out, busy, acts)"
  shows "installed r acts old = old \<or> served r = FwImage (installed r acts old)"
proof (cases "UpdateEnd \<in> set acts")
  case True
  note ends = task_ends [OF assms this]
  show ?thesis
  proof (cases "served r")
    case (FwImage img)
    have "int (length img) \<le> written_bytes acts" using ends by (simp add: fetched_def FwImage)
    then have "take (nat (written_bytes acts)) img = img" by simp
    then show ?thesis by (simp only: installed_def FwImage fw_reply.case) simp
  qed (simp_all add: installed_def)
next
  case False
  then show ?thesis by (simp add: installed_def split: fw_reply.split)
qed

lemma slave_round_image:
  "snd (fst (slave_round r cmd s)) = snd s \<or> served r = FwImage (snd (fst (slave_round r cmd s)))"
proof -
  obtain sl b where n: "networkLoop (rd_receives r) (rd_master_ip r) cmd (fst s) = (sl, b)" by fastforce
  obtain out busy acts where t: "slaveOtaTask (fetched r) (rd_start r) (rd_events r) = (out, busy, acts)" by (cases "slaveOtaTask (fetched r) (rd_start r) (rd_events r)")
  show ?thesis
    using installed_whole [OF t, of "snd s"] by (cases out) (auto simp: slave_round_def n t)
qed

lemma fleet_round_image:
  assumes "fleet_round r (sm, sl, img) = ((sm1, sl1, img1), restarted)"
  shows "img1 = img \<or> served r = FwImage img1"
proof (cases "broadcastHeartbeat (rd_sends r)")
  case None
  with assms show ?thesis by (simp add: fleet_round_def)
next
  case (Some pkt)
  obtain sm2 a where n: "networkLoop (rd_master r) (rd_slave_ip r) pkt sm = (sm2, a)" by fastforce
  show ?thesis
    using assms slave_round_image [of r "hd (commands a)" "(sl, img)"]
    by (cases "commands a") (auto simp: fleet_round_def Some n split: prod.splits)
qed

text \<open>A round of linked boards.\<close>

lemma linked_round:
  assumes "linked r"
  obtains cmd sm1 where "masterSendOtaToNode (rd_master r) (slave_mac r) = Some cmd"
    "fleet_round r (sm, sl, img) =
       (if outdated r then case slave_round r cmd (sl, img) of (sl1, restarted) \<Rightarrow> ((sm1, sl1), restarted) else ((sm1, sl, img), False))"
proof -
  obtain pkt where p: "broadcastHeartbeat (rd_sends r) = Some pkt"
    by (simp add: broadcastHeartbeat_def netTransmit_def Let_def)
  obtain sm1 a where n: "networkLoop (rd_master r) (rd_slave_ip r) pkt sm = (sm1, a)" by fastforce
  obtain cmd where "masterSendOtaToNode (rd_master r) (slave_mac r) = Some cmd" "commands a = (if outdated r then [cmd] else [])"
    using heartbeat_answered [OF assms p n] .
  then show ?thesis by (intro that [of cmd sm1]) (simp_all add: fleet_round_def p n)
qed

lemma slave_round_works:
  assumes "linked r" and "worker_free r sl" and "masterSendOtaToNode (rd_master r) (slave_mac r) = Some cmd"
  obtains sl1 where "slave_round r cmd (sl, img) =
     (case slaveOtaTask (fetched r) (rd_start r) (rd_events r) of
        (OtaRestart, busy, acts) \<Rightarrow> ((rd_boot r, installed r acts img), True)
      | (OtaIdle, busy, acts) \<Rightarrow> ((sl1\<lparr>OTA_IN_PROGRESS := busy\<rparr>, installed r acts img), False))"
proof -
  obtain sl1 b where n: "networkLoop (rd_receives r) (rd_master_ip r) cmd sl = (sl1, b)" by fastforce
  have "SpawnSlaveOta (rd_master_ip r) \<in> set b"
    using command_starts_worker [OF assms, of "rd_master_ip r"] by (simp add: n)
  then show ?thesis by (intro that [of sl1]) (simp add: slave_round_def n cong: prod.case_cong ota_outcome.case_cong)
qed

section \<open>Properties\<close>

text \<open>C35: A round brings an outdated slave the master's image. When the boards are linked, the slave's worker is
  free and the download is complete, the slave restarts with exactly the bytes of the master's
  running image; and a slave whose build is not older keeps its image and does not restart.\<close>
theorem round_installs_image:
  assumes "linked r"
  shows "(outdated r \<and> worker_free r sl \<and> delivered r \<longrightarrow>
      (\<exists>sm1. fleet_round r (sm, sl, img) = ((sm1, rd_boot r, master_image r), True)))
    \<and> (\<not> outdated r \<longrightarrow> (\<exists>sm1. fleet_round r (sm, sl, img) = ((sm1, sl, img), False)))"
proof (intro conjI impI)
  obtain cmd sm1 where cmd: "masterSendOtaToNode (rd_master r) (slave_mac r) = Some cmd"
    and round: "fleet_round r (sm, sl, img) =
       (if outdated r then case slave_round r cmd (sl, img) of (sl1, restarted) \<Rightarrow> ((sm1, sl1), restarted) else ((sm1, sl, img), False))"
    using linked_round [OF assms] .
  show "\<exists>sm1. fleet_round r (sm, sl, img) = ((sm1, sl, img), False)" if "\<not> outdated r" using that round by simp
  show "\<exists>sm1. fleet_round r (sm, sl, img) = ((sm1, rd_boot r, master_image r), True)"
    if "outdated r \<and> worker_free r sl \<and> delivered r"
  proof -
    from that have o: "outdated r" and w: "worker_free r sl" and d: "delivered r" by simp_all
    obtain sl1 where works: "slave_round r cmd (sl, img) =
     (case slaveOtaTask (fetched r) (rd_start r) (rd_events r) of
        (OtaRestart, busy, acts) \<Rightarrow> ((rd_boot r, installed r acts img), True)
      | (OtaIdle, busy, acts) \<Rightarrow> ((sl1\<lparr>OTA_IN_PROGRESS := busy\<rparr>, installed r acts img), False))"
      using slave_round_works [OF assms w cmd] .
    obtain rem b where fl: "flash_loop (rd_events r) (rd_start r) (int (rd_image_size r)) = (rem, b)" by fastforce
    have f: "fetched r = \<lparr>http_code = 200, http_size = int (rd_image_size r), update_begins = True, buffer_ok = True, update_ends = True\<rparr>"
      and sv: "served r = FwImage (master_image r)"
      using d served_shape(2) [OF d] by (simp_all add: fetched_def delivered_def)
    have task: "slaveOtaTask (fetched r) (rd_start r) (rd_events r) = (OtaRestart, True, UpdateBegin (int (rd_image_size r)) # b @ [UpdateEnd])"
      using d fl by (simp add: f slaveOtaTask_def slaveFlashFromUrl_def delivered_def)
    have "int (rd_image_size r) \<le> written_bytes b" using flash_loop_written [OF fl] d fl by (simp add: delivered_def)
    then have "installed r (UpdateBegin (int (rd_image_size r)) # b @ [UpdateEnd]) img = master_image r"
      using d by (simp add: installed_def sv delivered_def)
    then show ?thesis using o round by (simp add: works task)
  qed
qed

text \<open>C36: A slave never runs a part of an image. Whatever packets are lost, however the downloads break off and
  whatever the boards do, after any rounds the slave's image is its first one or the whole image that the
  master served in one of the rounds: its running image, unless the flash could be neither mapped nor
  read, when the code serves the block as it found it.\<close>
theorem image_never_partial:
  assumes "fleet_run rs (sm, sl, img) = ((sm1, sl1, img1), n)"
  shows "img1 = img \<or> (\<exists>r \<in> set rs. rd_image_size r \<noteq> 0 \<and> served r = FwImage img1
      \<and> (rd_mapped r \<or> rd_read r \<longrightarrow> img1 = master_image r))"
  using assms
proof (induction rs arbitrary: sm sl img n)
  case (Cons r rs)
  obtain sm2 sl2 img2 b where one: "fleet_round r (sm, sl, img) = ((sm2, sl2, img2), b)"
    by (cases "fleet_round r (sm, sl, img)") auto
  obtain s3 k where rest: "fleet_run rs (sm2, sl2, img2) = (s3, k)" by fastforce
  then have "fleet_run rs (sm2, sl2, img2) = ((sm1, sl1, img1), k)" using Cons.prems by (simp add: one)
  from Cons.IH [OF this] fleet_round_image [OF one] served_shape(3) show ?case by auto
qed simp

text \<open>Without an image the fleet restarts for ever. When the master does not know the size of its image it
  answers 404, which the slave takes for nothing to do: it restarts after every heartbeat with the
  image it had.\<close>
theorem missing_image_restarts:
  assumes "\<forall>r \<in> set rs. linked r \<and> outdated r \<and> rd_image_size r = 0 \<and> worker_free r (rd_boot r) \<and> worker_free r sl
      \<and> (\<forall>r' \<in> set rs. worker_free r (rd_boot r'))"
  shows "snd (fleet_run rs (sm, sl, img)) = length rs \<and> snd (snd (fst (fleet_run rs (sm, sl, img)))) = img"
  using assms
proof (induction rs arbitrary: sm sl)
  case (Cons r rs)
  then have r: "linked r" "outdated r" "rd_image_size r = 0" "worker_free r sl" by auto
  obtain cmd sm1 where cmd: "masterSendOtaToNode (rd_master r) (slave_mac r) = Some cmd"
    and round: "fleet_round r (sm, sl, img) =
       (if outdated r then case slave_round r cmd (sl, img) of (sl1, restarted) \<Rightarrow> ((sm1, sl1), restarted) else ((sm1, sl, img), False))"
    using linked_round [OF r(1)] .
  obtain sl1 where works: "slave_round r cmd (sl, img) =
     (case slaveOtaTask (fetched r) (rd_start r) (rd_events r) of
        (OtaRestart, busy, acts) \<Rightarrow> ((rd_boot r, installed r acts img), True)
      | (OtaIdle, busy, acts) \<Rightarrow> ((sl1\<lparr>OTA_IN_PROGRESS := busy\<rparr>, installed r acts img), False))"
    using slave_round_works [OF r(1,4) cmd] .
  have "slaveOtaTask (fetched r) (rd_start r) (rd_events r) = (OtaRestart, True, [])"
    using r(3) by (simp add: fetched_def served_shape(1) slaveOtaTask_def slaveFlashFromUrl_def)
  then have one: "fleet_round r (sm, sl, img) = ((sm1, rd_boot r, img), True)"
    using r(2,3) by (simp add: round works installed_def served_shape(1))
  have "snd (fleet_run rs (sm1, rd_boot r, img)) = length rs \<and> snd (snd (fst (fleet_run rs (sm1, rd_boot r, img)))) = img"
    using Cons.prems by (intro Cons.IH) auto
  then show ?case by (simp add: one case_prod_beta)
qed simp

text \<open>C37: The address of the image is not authenticated. A command is signed, but not the address it comes from,
  and it may come again within the window: whoever sends a copy of it has the slave fetch its
  firmware from the sender.\<close>
theorem command_source_unauthenticated:
  assumes "linked r" and "worker_free r sl" and "masterSendOtaToNode (rd_master r) (slave_mac r) = Some cmd"
  shows "\<forall>ip. SpawnSlaveOta ip \<in> set (snd (networkLoop (rd_receives r) ip cmd sl))"
  using command_starts_worker [OF assms] by blast

text \<open>A slave's warnings reach the master's logs. What a slave logs, received in time, is the newest entry of
  the master's ring with the slave's address before its text, cut to the ring's length, and goes
  into the error log exactly when it is a warning or an error.\<close>
theorem slave_log_reaches_master:
  assumes "sound_hmac em" and "hmac em = hmac es" and "NET_KEY em = NET_KEY es" and "forwardLog es level tag msg = Some pkt"
    and "fresh (netNowMs em) (netNowMs es)" and "IS_MASTER em" and "log_lock em" and "log_ring_ok (net_log sm)"
    and "txt = cstr 160 (''['' @ cstr 18 (net_own_mac es) @ ''] '' @ cstr 128 msg)"
  shows "log_contents (net_log (fst (networkLoop em ip pkt sm))) = last_n LOG_BUF_ENTRIES (log_contents (net_log sm)
        @ [make_entry (LOG_SEQUENCE (net_log sm) + 1) (net_millis em) (net_epoch em) level (cstr 16 tag) txt])
    \<and> (AppendErrorLog (cstr 16 tag) txt \<in> set (snd (networkLoop em ip pkt sm)) \<longleftrightarrow> level = CHR ''W'' \<or> level = CHR ''E'')"
proof -
  let ?body = "put_log_entry level tag msg (net_own_mac es)"
  let ?entry = "make_entry (LOG_SEQUENCE (net_log sm) + 1) (net_millis em) (net_epoch em) level (cstr 16 tag) txt"
  have "net_receive em pkt = Inr (NET_MSG_LOG_ENTRY, netNowMs es, ?body)"
    using assms(1-5) by (intro transmit_received) (simp_all add: forwardLog_def split: if_splits)
  note loop = loop_accepted [OF this, of ip sm]
  have len: "length ?body = 163" by (simp add: put_log_entry_def)
  have fields: "char_at (hd ?body) = level" "get_chars 1 16 ?body = cstr 16 tag" "get_chars 17 128 ?body = cstr 128 msg"
    "get_chars 145 18 ?body = cstr 18 (net_own_mac es)"
    by (simp_all add: put_log_entry_def get_fields get_chars_skip [of "[byte_of level]", simplified])
  have log: "net_log (fst (wifi_health em sm)) = net_log sm" by (simp add: wifi_health_def)
  have quiet: "AppendErrorLog a b \<notin> set (snd (wifi_health em sm))" for a b by (simp add: wifi_health_def)
  have ring: "log_ring_ok ((net_log sm)\<lparr>LOG_SEQUENCE := LOG_SEQUENCE (net_log sm) + 1\<rparr>)" using assms(8) by (simp add: log_ring_ok_def)
  have "net_dispatch em ip NET_MSG_LOG_ENTRY (netNowMs es) ?body (fst (wifi_health em sm)) =
    ((fst (wifi_health em sm))\<lparr>net_log := log_put ?entry ((net_log sm)\<lparr>LOG_SEQUENCE := LOG_SEQUENCE (net_log sm) + 1\<rparr>)\<rparr>,
     if level = CHR ''W'' \<or> level = CHR ''E'' then [AppendErrorLog (cstr 16 tag) txt] else [])"
    using assms(6,7) by (simp add: net_dispatch_def recv_log_entry_def len fields fields(2) [unfolded One_nat_def] assms(9) logDirect_def log Let_def)
  then show ?thesis using log_ring.contents_push [OF ring] quiet unfolding loop by auto
qed

text \<open>Inputs of the witnesses.\<close>

definition demo_round :: "nat \<Rightarrow> round" where
  "demo_round len = \<lparr>rd_master = demo_net True ''AA'' 2 1400, rd_sends = demo_net False ''BB'' 1 1000,
     rd_receives = demo_net False ''BB'' 1 1500, rd_slave_ip = 9, rd_master_ip = 8, rd_image_size = len, rd_flash = [1, 2, 3, 4],
     rd_mapped = True, rd_copy = None, rd_read = False, rd_begins = True, rd_buffer = True, rd_ends = True, rd_start = 0,
     rd_events = [Data 2 10, Quiet 15, Data 1 20], rd_boot = demo_node\<rparr>"

lemma demo_linked: "linked (demo_round n)" "outdated (demo_round n)" "worker_free (demo_round n) demo_node"
  by (simp_all add: linked_def outdated_def worker_free_def demo_round_def demo_net_def fresh_def demo_node_def cstr_def
      to_upper_def upper_char_def sound_hmac_def demo_hmac_def)

lemma demo_boot_node: "rd_boot (demo_round n) = demo_node"
  by (simp add: demo_round_def)

theorem round_installs_image_witness:
  "\<exists>sm1. fleet_round (demo_round 3) (demo_node, demo_node, [9]) = ((sm1, demo_node, [1, 2, 3]), True)"
proof -
  have "delivered (demo_round 3)" by (simp add: delivered_def demo_round_def)
  moreover have "master_image (demo_round 3) = [1, 2, 3]" by (simp add: demo_round_def)
  ultimately show ?thesis
    using round_installs_image [OF demo_linked(1), of 3 demo_node demo_node "[9]"] demo_linked by (simp add: demo_boot_node)
qed

theorem image_never_partial_witness:
  "snd (snd (fst (fleet_run [demo_round 3] (demo_node, demo_node, [9])))) = [9]
     \<or> snd (snd (fst (fleet_run [demo_round 3] (demo_node, demo_node, [9])))) = [1, 2, 3]"
proof -
  obtain sm sl img n where run: "fleet_run [demo_round 3] (demo_node, demo_node, [9]) = ((sm, sl, img), n)"
    by (cases "fleet_run [demo_round 3] (demo_node, demo_node, [9])") auto
  have "master_image (demo_round 3) = [1, 2, 3]" "rd_mapped (demo_round 3)" by (simp_all add: demo_round_def)
  with image_never_partial [OF run] show ?thesis unfolding run by auto
qed

theorem missing_image_restarts_witness:
  "snd (fleet_run [demo_round 0, demo_round 0] (demo_node, demo_node, [9])) = 2"
proof -
  have "rd_image_size (demo_round 0) = 0" by (simp add: demo_round_def)
  then have "\<forall>r \<in> set [demo_round 0, demo_round 0]. linked r \<and> outdated r \<and> rd_image_size r = 0 \<and> worker_free r (rd_boot r)
      \<and> worker_free r demo_node \<and> (\<forall>r' \<in> set [demo_round 0, demo_round 0]. worker_free r (rd_boot r'))"
    using demo_linked by (simp add: demo_boot_node)
  from missing_image_restarts [OF this, of demo_node "[9]"] show ?thesis by simp
qed

theorem command_source_unauthenticated_witness:
  "\<exists>cmd. \<forall>ip. SpawnSlaveOta ip \<in> set (snd (networkLoop (demo_net False ''BB'' 1 1500) ip cmd demo_node))"
proof -
  obtain cmd where "masterSendOtaToNode (rd_master (demo_round 3)) (slave_mac (demo_round 3)) = Some cmd"
    by (simp add: masterSendOtaToNode_def netTransmit_def Let_def)
  from command_source_unauthenticated [OF demo_linked(1) demo_linked(3) this] show ?thesis by (auto simp: demo_round_def)
qed

theorem slave_log_reaches_master_witness:
  "\<exists>pkt. AppendErrorLog ''coin'' ''[BB] jam'' \<in> set (snd (networkLoop (demo_net True ''AA'' 2 1400) 9 pkt demo_node))"
proof -
  obtain pkt where p: "forwardLog (demo_net False ''BB'' 1 1000) (CHR ''E'') ''coin'' ''jam'' = Some pkt"
    by (simp add: forwardLog_def isMaster_def demo_net_def to_upper_def upper_char_def netTransmit_def put_log_entry_def Let_def)
  have "log_ring_ok (net_log demo_node)" using log_ok_empty by (simp add: demo_node_def log_ok_def)
  moreover have "''[BB] jam'' = cstr 160 (''['' @ cstr 18 (net_own_mac (demo_net False ''BB'' 1 1000)) @ ''] '' @ cstr 128 ''jam'')"
    by (simp add: demo_net_def cstr_def)
  ultimately have "AppendErrorLog (cstr 16 ''coin'') ''[BB] jam'' \<in> set (snd (networkLoop (demo_net True ''AA'' 2 1400) 9 pkt demo_node))
      \<longleftrightarrow> CHR ''E'' = CHR ''W'' \<or> CHR ''E'' = CHR ''E''"
    by (intro slave_log_reaches_master [OF _ _ _ p, THEN conjunct2]) (simp_all add: demo_net_def sound_hmac_def demo_hmac_def fresh_def)
  then show ?thesis by (auto simp: cstr_def)
qed

end
