(* ===== verification/Board.thy ===== *)
theory Board
  imports AdminNodes Led Config
begin

text \<open>
  Small parts around the components: the sink for large replies (\<open>src/omada.cpp\<close>), the page of the
  acceptor's boot test (\<open>src/coin.cpp\<close>, \<open>src/web.cpp\<close>), the set-up portal with what a browser reads from
  its form (\<open>src/reprovision.cpp\<close>), and the web server's own parts: the embedded files, the options of a
  socket, its close after a reply (\<open>src/web.cpp\<close>).
\<close>

section \<open>The sink for large replies\<close>

record psram_sink =
  snk_buf :: "u8 list"
  snk_cap :: nat
  snk_oom :: bool

definition new_sink :: psram_sink where
  "new_sink = \<lparr>snk_buf = [], snk_cap = 0, snk_oom = False\<rparr>"

text \<open>\<open>grown\<close>: whether the buffer can be reallocated.\<close>

definition sink_write :: "bool \<Rightarrow> u8 list \<Rightarrow> psram_sink \<Rightarrow> psram_sink \<times> nat" where
  "sink_write grown p s =
     (let len = length (snk_buf s); n = length p in
      if len + n > snk_cap s \<and> \<not> grown then (s\<lparr>snk_oom := True\<rparr>, 0)
      else (s\<lparr>snk_cap := (if len + n > snk_cap s then len + n + 8192 else snk_cap s), snk_buf := snk_buf s @ p\<rparr>, n))"

fun sink_writes :: "(bool \<times> u8 list) list \<Rightarrow> psram_sink \<Rightarrow> psram_sink" where
  "sink_writes [] s = s"
| "sink_writes ((grown, p) # ps) s = sink_writes ps (fst (sink_write grown p s))"

section \<open>The page of the boot test\<close>

definition coinBootTestJson :: "boot_test \<Rightarrow> json" where
  "coinBootTestJson b = JObj
     [(''running'', JBool (BOOT_TEST_RUNNING b)), (''cycle'', JNum (BOOT_TEST_CYCLE b)), (''cyclesTotal'', JNum (BOOT_TEST_TOTAL b)),
      (''pulses'', JArr (map (\<lambda>(c, ms, us). JObj [(''cycle'', JNum c), (''ms'', JNum (uint ms)), (''us'', JNum (uint us))])
         (BOOT_TEST_PULSES b))),
      (''stuckLowCycles'', JArr (map JNum (stuckLowCycles b)))]"

text \<open>\<open>handleCoinBootTest\<close>: the status, and the page when it is no start.\<close>

definition handleCoinBootTest :: "http_method \<Rightarrow> string option \<Rightarrow> bool \<Rightarrow> boot_test \<Rightarrow> boot_test \<times> nat \<times> json" where
  "handleCoinBootTest m cycles selling b =
     (if m = HTTP_POST then
        (case coinBootTestStart (case cycles of None \<Rightarrow> 20 | Some v \<Rightarrow> atol v) selling b of
           (b1, False) \<Rightarrow> (b1, 409, JObj [(''error'', JStr ''coin session active or test already running'')])
         | (b1, True) \<Rightarrow> (b1, 200, JObj [(''ok'', JBool True)]))
      else (b, 200, coinBootTestJson b))"

text \<open>The cycles of a test: when the power went on, the pulses of the window, and the line at its end.\<close>

definition boot_cycle :: "int \<Rightarrow> u32 \<times> coin_pulse list \<times> bool \<Rightarrow> boot_test \<Rightarrow> boot_test" where
  "boot_cycle c x b =
     (case x of (us, ps, low) \<Rightarrow>
        coinBootTestTask (WindowEnd c low) (fold bootTestCapture ps (coinBootTestTask (PowerOn us) (coinBootTestTask (PowerOff c) b))))"

fun boot_cycles :: "int \<Rightarrow> (u32 \<times> coin_pulse list \<times> bool) list \<Rightarrow> boot_test \<Rightarrow> boot_test" where
  "boot_cycles c [] b = coinBootTestTask TestDone b"
| "boot_cycles c (x # xs) b = boot_cycles (c + 1) xs (boot_cycle c x b)"

section \<open>The set-up portal\<close>

definition provision_ssid :: "u8 \<Rightarrow> u8 \<Rightarrow> string" where
  "provision_ssid a b = cstr 24 (''EllaFi-Setup-'' @ to_upper (hex_byte a) @ to_upper (hex_byte b))"

datatype portal_page = PortalForm string | PortalSaved | PortalError string | PortalRedirect string

text \<open>\<open>parse\<close> and \<open>ser\<close> read and write the configuration; with the page comes whether the node restarts.\<close>

definition provision_server ::
  "(string \<Rightarrow> json option) \<Rightarrow> (json \<Rightarrow> string) \<Rightarrow> bool \<Rightarrow> string \<Rightarrow> http_method \<Rightarrow> string \<Rightarrow> (string \<times> string) list \<Rightarrow> fs \<Rightarrow> fs \<times> portal_page" where
  "provision_server parse ser opened ap_ip m path params fs =
     (if m = HTTP_GET \<and> path = ''/'' then
        (fs, PortalForm (provisionFormHtml (case parse (maskedConfigJson parse ser fs) of None \<Rightarrow> JNull | Some d \<Rightarrow> d)))
      else if m = HTTP_POST \<and> path = ''/save'' then
        (case handleProvisionSave parse ser opened params fs of
           (fs1, None) \<Rightarrow> (fs1, PortalSaved)
         | (fs1, Some err) \<Rightarrow> (fs1, PortalError err))
      else (fs, PortalRedirect (''http://'' @ ap_ip @ ''/'')))"

text \<open>The loop of \<open>enterSoftApProvisioning\<close> over what it sees, a phone and the clock: the colours of the light,
  and whether the window has closed.\<close>

fun softap_loop :: "u32 \<Rightarrow> u32 \<Rightarrow> (bool \<times> u32) list \<Rightarrow> rgb list \<times> bool" where
  "softap_loop start lastActive [] = ([], False)"
| "softap_loop start lastActive ((station, now) # obs) =
     (let light = (if station then (0, 0, 255) else (0, 0, if odd (unat (now div 400)) then 255 else 0)) in
      case softap_step start station now lastActive of
        (active, True) \<Rightarrow> ([light], True)
      | (active, False) \<Rightarrow> (case softap_loop start active obs of (ls, closed) \<Rightarrow> (light # ls, closed)))"

text \<open>What a browser reads from a form: the name and the value of every input, up to the next quote.\<close>

function form_inputs :: "string \<Rightarrow> (string \<times> string) list" where
  "form_inputs s =
     (if s = [] then []
      else if starts_with ''<input name=\"'' s then
        (let s1 = drop 13 s; name = takeWhile (\<lambda>c. c \<noteq> CHR 0x22) s1;
             s2 = drop (length name + 9) s1; v = takeWhile (\<lambda>c. c \<noteq> CHR 0x22) s2
         in (name, v) # form_inputs (drop (length v) s2))
      else form_inputs (tl s))"
  by pat_completeness auto
termination
proof (relation "measure length")
  fix s :: string and x xa xb xc
  assume "s \<noteq> []" "xa = takeWhile (\<lambda>c. c \<noteq> CHR 0x22) x" "x = drop 13 s" "xb = drop (length xa + 9) x"
  then show "(drop (length xc) xb, s) \<in> measure length" by simp
qed auto

declare form_inputs.simps [simp del]

section \<open>The web server\<close>

text \<open>The options of an accepted socket, set before the server's own callback runs: option and value.\<close>

definition keepaliveOpenFn :: "(int \<Rightarrow> int) option \<Rightarrow> int \<Rightarrow> (string \<times> int) list \<times> int" where
  "keepaliveOpenFn chained sockfd =
     ([(''SO_KEEPALIVE'', 1), (''TCP_KEEPIDLE'', 30), (''TCP_KEEPINTVL'', 5), (''TCP_KEEPCNT'', 3)],
      case chained of None \<Rightarrow> 0 | Some f \<Rightarrow> f sockfd)"

text \<open>Whether the middleware closes the socket of an answered request.\<close>

definition closed_after_reply :: "string \<Rightarrow> bool \<Rightarrow> bool" where
  "closed_after_reply path has_client \<longleftrightarrow> path \<noteq> ''/ws'' \<and> has_client"

text \<open>The embedded files and the brand files: status, type, cache control, content. \<open>embedded\<close> is the content
  of an embedded file; a file sent as a C string ends at its first NUL.\<close>

record asset =
  as_status :: nat
  as_type :: string
  as_cache :: string
  as_body :: string

definition c_text :: "string \<Rightarrow> string" where "c_text s = takeWhile (\<lambda>c. c \<noteq> CHR 0x00) s"

definition served_asset :: "fs \<Rightarrow> (string \<Rightarrow> string) \<Rightarrow> bool \<Rightarrow> string \<Rightarrow> asset option" where
  "served_asset fs embedded allocated path =
     (if path = ''/map.svg'' then
        Some (case fs ''/map.svg'' of
           None \<Rightarrow> \<lparr>as_status = 404, as_type = ''text/plain'', as_cache = ''no-store'', as_body = []\<rparr>
         | Some s \<Rightarrow> \<lparr>as_status = 200, as_type = ''image/svg+xml'', as_cache = ''no-store'', as_body = c_text s\<rparr>)
      else if path = ''/theme.css'' then
        Some \<lparr>as_status = 200, as_type = ''text/css'', as_cache = ''no-store'',
          as_body = (case fs ''/theme.css'' of None \<Rightarrow> [] | Some s \<Rightarrow> c_text s)\<rparr>
      else if path = ''/EllaFi.webp'' then
        Some \<lparr>as_status = 200, as_type = ''image/webp'', as_cache = ''max-age=86400'',
          as_body = (case fs ''/logo.webp'' of Some s \<Rightarrow> if allocated then s else embedded ''EllaFi.webp'' | None \<Rightarrow> embedded ''EllaFi.webp'')\<rparr>
      else if path = ''/config.json'' then
        Some \<lparr>as_status = 403, as_type = ''text/plain'', as_cache = [], as_body = ''Forbidden''\<rparr>
      else map_of (map (\<lambda>(p, t, cc, f). (p, \<lparr>as_status = 200, as_type = t, as_cache = cc, as_body = embedded f\<rparr>))
        [(''/favicon.ico'', ''image/x-icon'', ''max-age=86400'', ''favicon.ico''),
         (''/assets/insertcoinbg.mp3'', ''audio/mpeg'', ''max-age=86400'', ''insertcoinbg.mp3''),
         (''/assets/coin-received.mp3'', ''audio/mpeg'', ''max-age=86400'', ''coin-received.mp3'')]) path)"

definition handleSha256Js :: "(string \<Rightarrow> string) \<Rightarrow> asset" where
  "handleSha256Js embedded = \<lparr>as_status = 200, as_type = ''application/javascript'', as_cache = ''max-age=86400'',
     as_body = embedded ''sha256.min.js''\<rparr>"

definition handleAdminPage :: "(string \<Rightarrow> string) \<Rightarrow> asset" where
  "handleAdminPage embedded = \<lparr>as_status = 200, as_type = ''text/html'', as_cache = ''no-store'', as_body = embedded ''admin.html''\<rparr>"

definition handleJsPdf :: "(string \<Rightarrow> string) \<Rightarrow> asset" where
  "handleJsPdf embedded = \<lparr>as_status = 200, as_type = ''application/javascript'', as_cache = ''max-age=31536000, immutable'',
     as_body = embedded ''jspdf.umd.min.js''\<rparr>"

section \<open>Lemmas\<close>

lemma sink_writes_inv:
  "length (snk_buf s) \<le> snk_cap s \<Longrightarrow> length (snk_buf (sink_writes ps s)) \<le> snk_cap (sink_writes ps s)
     \<and> (snk_oom s \<longrightarrow> snk_oom (sink_writes ps s))
     \<and> (\<not> snk_oom (sink_writes ps s) \<longrightarrow> snk_buf (sink_writes ps s) = snk_buf s @ concat (map snd ps))"
proof (induction ps s rule: sink_writes.induct)
  case (2 grown p ps s)
  let ?s = "fst (sink_write grown p s)"
  have "length (snk_buf ?s) \<le> snk_cap ?s" using "2.prems" by (simp add: sink_write_def Let_def)
  note ih = "2.IH" [OF this]
  have "snk_oom s \<longrightarrow> snk_oom ?s" "snk_oom ?s \<or> snk_buf ?s = snk_buf s @ p" by (simp_all add: sink_write_def Let_def)
  with ih show ?case by auto
qed simp

lemma captures_keep: "BOOT_TEST_STUCK (fold bootTestCapture ps b) = BOOT_TEST_STUCK b \<and> BOOT_TEST_TOTAL (fold bootTestCapture ps b) = BOOT_TEST_TOTAL b
     \<and> BOOT_TEST_CYCLE (fold bootTestCapture ps b) = BOOT_TEST_CYCLE b"
  by (induction ps arbitrary: b) (simp_all add: bootTestCapture_def)

abbreviation line_low :: "u32 \<times> coin_pulse list \<times> bool \<Rightarrow> bool" where
  "line_low x \<equiv> snd (snd x)"

lemma boot_cycle_effect:
  "BOOT_TEST_STUCK (boot_cycle c x b) = (BOOT_TEST_STUCK b)[nat (c - 1) := line_low x]"
  "BOOT_TEST_TOTAL (boot_cycle c x b) = BOOT_TEST_TOTAL b"
  by (cases x; simp add: boot_cycle_def captures_keep)+

lemma boot_cycles_effect:
  "k + length xs \<le> length (BOOT_TEST_STUCK b) \<Longrightarrow>
     BOOT_TEST_STUCK (boot_cycles (int k + 1) xs b) =
       take k (BOOT_TEST_STUCK b) @ map line_low xs @ drop (k + length xs) (BOOT_TEST_STUCK b)
     \<and> BOOT_TEST_TOTAL (boot_cycles (int k + 1) xs b) = BOOT_TEST_TOTAL b \<and> \<not> BOOT_TEST_RUNNING (boot_cycles (int k + 1) xs b)"
proof (induction xs arbitrary: k b)
  case (Cons x xs)
  let ?b = "boot_cycle (int k + 1) x b"
  have stuck: "BOOT_TEST_STUCK ?b = (BOOT_TEST_STUCK b)[k := line_low x]" by (simp add: boot_cycle_effect)
  have "Suc k + length xs \<le> length (BOOT_TEST_STUCK ?b)" using Cons.prems by (simp add: stuck)
  note ih = Cons.IH [OF this]
  have "boot_cycles (int k + 1) (x # xs) b = boot_cycles (int (Suc k) + 1) xs ?b" by (simp add: add.commute)
  moreover have "take (Suc k) ((BOOT_TEST_STUCK b)[k := line_low x]) = take k (BOOT_TEST_STUCK b) @ [line_low x]"
    using Cons.prems by (simp add: take_Suc_conv_app_nth take_update_swap list_update_append)
  ultimately show ?case using ih by (simp only: stuck boot_cycle_effect(2)) simp
qed simp

lemma inputs_skip: "CHR ''<'' \<noteq> c \<Longrightarrow> form_inputs (c # s) = form_inputs s"
  by (subst form_inputs.simps) (simp add: starts_with_def)

lemma inputs_tag: "d \<noteq> CHR ''i'' \<Longrightarrow> form_inputs (CHR ''<'' # d # s) = form_inputs (d # s)"
  by (subst form_inputs.simps) (simp add: starts_with_def)

lemma inputs_text: "CHR ''<'' \<notin> set t \<Longrightarrow> form_inputs (t @ s) = form_inputs s"
  by (induction t) (simp_all add: inputs_skip)

lemma inputs_input:
  assumes "CHR 0x22 \<notin> set k" and "CHR ''<'' \<notin> set v"
  shows "form_inputs (''<input name=\"'' @ k @ ''\" value=\"'' @ v @ CHR 0x22 # rest)
    = (k, takeWhile (\<lambda>c. c \<noteq> CHR 0x22) v) # form_inputs rest"
proof -
  let ?P = "\<lambda>c. c \<noteq> CHR 0x22"
  let ?v = "takeWhile ?P v" and ?s1 = "k @ CHR 0x22 # '' value=\"'' @ v @ CHR 0x22 # rest" and ?s2 = "v @ CHR 0x22 # rest"
  have name: "takeWhile ?P ?s1 = k" using assms(1) by (subst takeWhile_append2) auto
  have s2: "drop (length k + 9) ?s1 = ?s2" by simp
  have val: "takeWhile ?P ?s2 = ?v" by (induction v) simp_all
  let ?t = "''<input name=\"'' @ ?s1"
  have t: "(?t = []) = False" "starts_with ''<input name=\"'' ?t = True" "drop 13 ?t = ?s1" by (simp_all add: starts_with_def)
  have "form_inputs ?t = (k, ?v) # form_inputs (drop (length ?v) ?s2)"
    by (subst form_inputs.simps) (simp only: t Let_def name s2 val if_True if_False)
  also have "drop (length ?v) ?s2 = dropWhile ?P v @ CHR 0x22 # rest"
    by (induction v) simp_all
  also have "form_inputs \<dots> = form_inputs rest"
  proof -
    have "CHR ''<'' \<notin> set (dropWhile ?P v)" using assms(2) set_dropWhileD by metis
    then show ?thesis by (simp add: inputs_text inputs_skip)
  qed
  finally show ?thesis by simp
qed

lemma softap_loop_Cons:
  "snd (softap_loop start l ((station, now) # obs)) \<longleftrightarrow>
     now - (if station then now else l) > PROVISION_IDLE_MILLIS \<or> now - start > PROVISION_MAX_MILLIS
     \<or> snd (softap_loop start (if station then now else l) obs)"
  by (simp add: softap_step_def Let_def split: prod.split bool.split)

section \<open>Properties\<close>

text \<open>The sink keeps the reply or says so. Whatever chunks come and whichever reallocations fail, the buffer
  is never overrun, and when no write was refused it holds exactly the chunks in order.\<close>
theorem sink_keeps_reply:
  "length (snk_buf (sink_writes ps new_sink)) \<le> snk_cap (sink_writes ps new_sink)
    \<and> (\<not> snk_oom (sink_writes ps new_sink) \<longrightarrow> snk_buf (sink_writes ps new_sink) = concat (map snd ps))"
  using sink_writes_inv [of new_sink ps] by (simp add: new_sink_def)

theorem sink_keeps_reply_witness:
  "snk_buf (sink_writes [(True, [1, 2]), (False, [3])] new_sink) = [1, 2, 3]"
proof -
  have "\<not> snk_oom (sink_writes [(True, [1, 2]), (False, [3])] new_sink)" by (simp add: sink_write_def new_sink_def)
  then show ?thesis using sink_keeps_reply [of "[(True, [1, 2]), (False, [3])]"] by simp
qed

text \<open>The boot test reports what it saw. After a test of 1 to 64 cycles the page shows that it is over, and as
  stuck exactly the cycles whose line was low at the end of their window, whatever pulses came.\<close>
theorem boot_test_reports:
  assumes "coinBootTestStart (int (length xs)) False b = (b1, True)" and "0 < length xs" and "length xs \<le> 64"
  shows "jget (coinBootTestJson (boot_cycles 1 xs b1)) ''running'' = JBool False
    \<and> jget (coinBootTestJson (boot_cycles 1 xs b1)) ''stuckLowCycles'' =
        JArr (map (\<lambda>c. JNum (int c + 1)) (filter (\<lambda>c. line_low (xs ! c)) [0..<length xs]))"
proof -
  have b1: "BOOT_TEST_STUCK b1 = replicate 64 False" "BOOT_TEST_TOTAL b1 = int (length xs)"
    using assms by (auto simp: coinBootTestStart_def split: if_splits)
  have "BOOT_TEST_STUCK (boot_cycles 1 xs b1) = map line_low xs @ drop (length xs) (replicate 64 False)"
    and total: "BOOT_TEST_TOTAL (boot_cycles 1 xs b1) = int (length xs)" and "\<not> BOOT_TEST_RUNNING (boot_cycles 1 xs b1)"
    using boot_cycles_effect [of 0 xs b1] assms(3) by (simp_all add: b1)
  moreover from this(1) have "c < length xs \<Longrightarrow> BOOT_TEST_STUCK (boot_cycles 1 xs b1) ! c = line_low (xs ! c)" for c
    by (simp add: nth_append)
  moreover have "nat (min (BOOT_TEST_TOTAL (boot_cycles 1 xs b1)) 64) = length xs" using assms(3) by (simp add: total)
  ultimately have "stuckLowCycles (boot_cycles 1 xs b1) = map (\<lambda>c. int c + 1) (filter (\<lambda>c. line_low (xs ! c)) [0..<length xs])"
    unfolding stuckLowCycles_def by (simp only:) (intro arg_cong [where f = "map _"] filter_cong refl, simp)
  with \<open>\<not> BOOT_TEST_RUNNING (boot_cycles 1 xs b1)\<close> show ?thesis by (simp add: coinBootTestJson_def jget_def comp_def)
qed

definition idle_test :: boot_test where
  "idle_test = \<lparr>BOOT_TEST_RUNNING = False, BOOT_TEST_CYCLE = 0, BOOT_TEST_TOTAL = 0, BOOT_TEST_POWERON_US = 0,
     BOOT_TEST_PULSES = [], BOOT_TEST_STUCK = []\<rparr>"

theorem boot_test_reports_witness:
  "jget (coinBootTestJson (boot_cycles 1 [(5, [], False), (9, [], True)] (fst (coinBootTestStart 2 False idle_test)))) ''stuckLowCycles''
     = JArr [JNum 2]"
proof -
  let ?xs = "[(5, [], False), (9, [], True)] :: (u32 \<times> coin_pulse list \<times> bool) list"
  have "coinBootTestStart (int (length ?xs)) False idle_test = (fst (coinBootTestStart 2 False idle_test), True)"
    by (simp add: coinBootTestStart_def idle_test_def)
  from boot_test_reports [OF this] show ?thesis by (simp add: upt_rec)
qed

text \<open>The set-up window closes. When the clock advances at least a millisecond with every pass, the window is
  closed within 15 minutes whether or not phones are connected, and with a phone at every pass it
  stays open until then.\<close>
theorem portal_window_closes:
  shows "\<forall>i < length obs. i \<le> unat (snd (obs ! i) - start) \<Longrightarrow> 900001 < length obs \<Longrightarrow> snd (softap_loop start start obs)"
    and "\<forall>(station, now) \<in> set obs. station \<and> now - start \<le> PROVISION_MAX_MILLIS \<Longrightarrow> \<not> snd (softap_loop start start obs)"
proof -
  have still: "\<not> snd (softap_loop start l os) \<Longrightarrow> \<forall>(station, now) \<in> set os. now - start \<le> PROVISION_MAX_MILLIS" for l os
  proof (induction os arbitrary: l)
    case (Cons x os)
    obtain station now where x: "x = (station, now)" by (cases x)
    from Cons.prems have "now - start \<le> PROVISION_MAX_MILLIS" "\<not> snd (softap_loop start (if station then now else l) os)"
      unfolding x softap_loop_Cons by (simp_all add: not_less)
    with Cons.IH show ?case by (simp add: x)
  qed simp
  show "snd (softap_loop start start obs)" if t: "\<forall>i < length obs. i \<le> unat (snd (obs ! i) - start)" and n: "900001 < length obs"
  proof (rule ccontr)
    assume "\<not> snd (softap_loop start start obs)"
    then have "snd (obs ! 900001) - start \<le> PROVISION_MAX_MILLIS" using still nth_mem [OF n] by fastforce
    then have "unat (snd (obs ! 900001) - start) \<le> 900000" by (simp add: word_le_nat_alt)
    moreover have "900001 \<le> unat (snd (obs ! 900001) - start)" using t n by blast
    ultimately show False by simp
  qed
  have "\<forall>(station, now) \<in> set os. station \<and> now - start \<le> PROVISION_MAX_MILLIS \<Longrightarrow> \<not> snd (softap_loop start l os)" for l os
  proof (induction os arbitrary: l)
    case (Cons x os)
    then show ?case by (cases x) (simp only: softap_loop_Cons, simp add: not_less)
  qed simp
  then show "\<forall>(station, now) \<in> set obs. station \<and> now - start \<le> PROVISION_MAX_MILLIS \<Longrightarrow> \<not> snd (softap_loop start start obs)" .
qed

theorem portal_window_closes_witness:
  "snd (softap_loop 5 5 (map (\<lambda>i. (True, 5 + word_of_nat i)) [0..<900002]))
    \<and> \<not> snd (softap_loop 5 5 [(True, 7), (True, 900005)])"
proof -
  let ?obs = "map (\<lambda>i. (True, 5 + word_of_nat i)) [0..<900002] :: (bool \<times> u32) list"
  have "i \<le> unat (snd (?obs ! i) - 5)" if "i < length ?obs" for i
    using that by (simp add: unat_of_nat)
  then have "snd (softap_loop 5 5 ?obs)" using portal_window_closes(1) [of ?obs 5] by simp
  moreover have "\<not> snd (softap_loop 5 5 [(True, 7), (True, 900005)])" by (rule portal_window_closes(2)) simp
  ultimately show ?thesis by blast
qed

text \<open>The form shows the configuration up to a quote. When keys have no quote and nothing has an angle bracket, a
  browser reads from the form every key with its value cut at the first quote: a value without one
  comes back whole, and saving the form as shown loses the rest of the others.\<close>
theorem form_shows_values_to_quote:
  assumes "\<forall>(k, v) \<in> set (form_fields masked). CHR 0x22 \<notin> set k \<and> CHR ''<'' \<notin> set k \<and> CHR ''<'' \<notin> set v"
  shows "form_inputs (provisionFormHtml masked) = map (\<lambda>(k, v). (k, takeWhile (\<lambda>c. c \<noteq> CHR 0x22) v)) (form_fields masked)"
proof -
  let ?row = "\<lambda>(k, v). ''<label>'' @ k @ ''</label><br>'' @ ''<input name=\"'' @ k @ ''\" value=\"'' @ v
         @ ''\" style='' @ [CHR 0x27] @ ''width:100%;margin-bottom:.7em'' @ [CHR 0x27] @ ''><br>''"
  have row: "form_inputs (?row (k, v) @ s) = (k, takeWhile (\<lambda>c. c \<noteq> CHR 0x22) v) # form_inputs s"
    if "CHR 0x22 \<notin> set k" "CHR ''<'' \<notin> set k" "CHR ''<'' \<notin> set v" for k v s
    using inputs_input [OF that(1,3), of "'' style='' @ [CHR 0x27] @ ''width:100%;margin-bottom:.7em'' @ [CHR 0x27] @ ''><br>'' @ s"]
    by (simp add: inputs_skip inputs_tag inputs_text [OF that(2)])
  have rows: "\<forall>(k, v) \<in> set fs. CHR 0x22 \<notin> set k \<and> CHR ''<'' \<notin> set k \<and> CHR ''<'' \<notin> set v \<Longrightarrow>
      form_inputs (concat (map ?row fs) @ s) = map (\<lambda>(k, v). (k, takeWhile (\<lambda>c. c \<noteq> CHR 0x22) v)) fs @ form_inputs s" for fs s
  proof (induction fs)
    case (Cons x fs)
    obtain k v where "x = (k, v)" by (cases x)
    with Cons row [of k v "concat (map ?row fs) @ s"] show ?case by simp
  qed simp
  have skip: "form_inputs (''</form></body></html>'') = []" "form_inputs [] = []"
    by (simp_all add: inputs_skip inputs_tag form_inputs.simps [of "[]"])
  show ?thesis
    using rows [OF assms] by (simp add: provisionFormHtml_def inputs_skip inputs_tag skip form_inputs.simps [of "[]"])
qed

theorem form_shows_values_to_quote_witness:
  "form_inputs (provisionFormHtml (JObj [(''a'', JStr [CHR ''x'', CHR 0x22, CHR ''y''])])) = [(''a'', ''x'')]"
proof -
  have "form_fields (JObj [(''a'', JStr [CHR ''x'', CHR 0x22, CHR ''y''])]) = [(''a'', [CHR ''x'', CHR 0x22, CHR ''y''])]"
    by (simp add: form_fields_def)
  with form_shows_values_to_quote [of "JObj [(''a'', JStr [CHR ''x'', CHR 0x22, CHR ''y''])]"] show ?thesis by simp
qed

end
