(* ===== verification/JsonCodec.thy ===== *)
theory JsonCodec
  imports JsonText
begin

text \<open>
  The JSON library as the components that write and read lines of a log use it: the locale
  \<open>json_codec\<close> says that a document that was written is read back, from one line. The reader of
  \<open>JsonText\<close> with a writer without blanks is an instance of it.
\<close>

section \<open>The contract\<close>

text \<open>Documents with printable texts, plain names and numbers of 64 bits.\<close>

primrec readable_json :: "json \<Rightarrow> bool" where
  "readable_json JNull = True"
| "readable_json (JBool b) = True"
| "readable_json (JNum n) = (- (2 ^ 63) \<le> n \<and> n < 2 ^ 64)"
| "readable_json (JStr s) = printable s"
| "readable_json (JArr xs) = list_all id (map readable_json xs)"
| "readable_json (JObj m) = list_all (\<lambda>kv. plain (fst kv) \<and> snd kv) (map (map_prod id readable_json) m)"

locale json_codec =
  fixes parse :: "string \<Rightarrow> json option" and ser :: "json \<Rightarrow> string"
  assumes parse_ser: "readable_json v \<Longrightarrow> parse (ser v) = Some v"
    and ser_one_line: "readable_json v \<Longrightarrow> CHR 0x0A \<notin> set (ser v)"
    and ser_trimmed: "readable_json v \<Longrightarrow> trim (ser v) = ser v"
    and ser_member: "readable_json (JObj m) \<Longrightarrow> m \<noteq> [] \<Longrightarrow> 5 \<le> length (ser (JObj m))"
begin

text \<open>Texts that are appended line by line are read line by line.\<close>

lemma parse_lines:
  "list_all readable_json docs \<Longrightarrow>
     List.map_filter parse (lines_of (concat (map (\<lambda>d. ser d @ NL) docs))) = docs"
  by (induction docs) (simp_all add: NL_def lines_of_line ser_one_line parse_ser map_filter_simps)

lemma lines_of_docs:
  "list_all readable_json docs \<Longrightarrow> lines_of (concat (map (\<lambda>d. ser d @ NL) docs)) = map ser docs"
  by (induction docs) (simp_all add: NL_def lines_of_line ser_one_line)

end

section \<open>A writer\<close>

text \<open>No blanks, names as they are, texts with the quote and the backslash escaped.\<close>

primrec show_json :: "json \<Rightarrow> string" where
  "show_json JNull = ''null''"
| "show_json (JBool b) = (if b then ''true'' else ''false'')"
| "show_json (JNum n) = dec_int n"
| "show_json (JStr s) = quoted (json_escape s)"
| "show_json (JArr xs) = array_text (map show_json xs)"
| "show_json (JObj m) = object_text (map (map_prod id show_json) m)"

lemma text_show: "readable_json v \<Longrightarrow> json_text (show_json v) v"
proof (induction v)
  case (JArr xs)
  then have "list_all2 json_text (map show_json xs) xs"
    by (simp add: list_all2_map1 list_all2_same list_all_iff)
  then show ?case by (simp add: text_array)
next
  case (JObj m)
  have "member_value (map_prod id show_json kv) kv" if "kv \<in> set m" for kv
    using JObj.IH [of kv "snd kv"] JObj.prems that by (auto simp: list_all_iff snds.simps)
  then have "list_all2 member_value (map (map_prod id show_json) m) m"
    by (simp add: list_all2_map1 list_all2_same)
  then show ?case by (simp add: text_object)
qed (auto simp: text_constant text_number intro: text_string encodes_json_escape)

text \<open>The first and the last character of a text are no blanks, and none is a line end.\<close>

definition one_line :: "string \<Rightarrow> bool" where
  "one_line t \<longleftrightarrow> (\<forall>c \<in> set t. 32 \<le> (of_char c :: nat))"

definition solid :: "string \<Rightarrow> bool" where
  "solid t \<longleftrightarrow> t \<noteq> [] \<and> one_line t \<and> \<not> is_space (hd t) \<and> \<not> is_space (last t)"

lemma one_line_simps [simp]:
  "one_line []" "one_line (c # t) \<longleftrightarrow> 32 \<le> (of_char c :: nat) \<and> one_line t" "one_line (s @ t) \<longleftrightarrow> one_line s \<and> one_line t"
  by (auto simp: one_line_def)

lemma one_line_commas: "list_all one_line ts \<Longrightarrow> one_line (join_commas ts)"
  by (induction ts rule: join_commas.induct) simp_all

lemma one_line_escape: "printable s \<Longrightarrow> one_line (json_escape s)"
  by (induction s) (simp_all add: json_escape_Cons printable_def, simp add: json_escape_def replace_char_def)

lemma one_line_plain: "plain s \<Longrightarrow> one_line s"
  by (simp add: plain_def one_line_def)

lemma solid_trim: "solid t \<Longrightarrow> trim t = t"
  by (cases t) (auto simp: solid_def trim_def dropWhile_eq_self_iff hd_append hd_rev)

lemma digit_no_blank: "is_digit c \<Longrightarrow> \<not> is_space c"
  by (auto simp: is_digit_def is_space_def less_eq_char_def)

lemma solid_dec: "solid (dec n)"
proof -
  have d: "dec n \<noteq> []" "list_all is_digit (dec n)" using dec_digits [of n] by simp_all
  then have "is_digit (hd (dec n))" "is_digit (last (dec n))" by (simp_all add: list_all_iff)
  with d plain_dec show ?thesis by (simp add: solid_def one_line_plain digit_no_blank)
qed

lemma solid_show: "readable_json v \<Longrightarrow> solid (show_json v)"
proof (induction v)
  case (JNum n)
  have "solid (CHR ''-'' # dec k)" for k
    using solid_dec [of k] by (simp add: solid_def is_space_def)
  then show ?case by (simp add: dec_int_def solid_dec)
next
  case (JStr s)
  then show ?case by (simp add: solid_def quoted_def QUOTE_def one_line_escape is_space_def)
next
  case (JArr xs)
  then have "list_all one_line (map show_json xs)" by (simp add: list_all_iff solid_def)
  then show ?case by (simp add: solid_def array_text_def one_line_commas is_space_def)
next
  case (JObj m)
  have "one_line (member_text (map_prod id show_json kv))" if "kv \<in> set m" for kv
    using JObj.IH [of kv "snd kv"] JObj.prems that
    by (auto simp: list_all_iff snds.simps solid_def member_text_def quoted_def QUOTE_def one_line_plain)
  then have "list_all one_line (map member_text (map (map_prod id show_json) m))"
    by (simp add: list_all_iff)
  then show ?case by (simp add: solid_def object_text_def one_line_commas is_space_def)
qed (simp_all add: solid_def is_space_def)

interpretation codec: json_codec read_json show_json
proof
  fix v :: json and m
  show "readable_json v \<Longrightarrow> read_json (show_json v) = Some v" by (intro read_json_text text_show)
  show "readable_json v \<Longrightarrow> CHR 0x0A \<notin> set (show_json v)"
    using solid_show [of v] by (auto simp: solid_def one_line_def)
  show "readable_json v \<Longrightarrow> trim (show_json v) = show_json v" by (intro solid_trim solid_show)
  show "readable_json (JObj m) \<Longrightarrow> m \<noteq> [] \<Longrightarrow> 5 \<le> length (show_json (JObj m))"
    using solid_show [of "snd (hd m)"]
    by (cases m; cases "tl m")
      (auto simp: object_text_def member_text_def quoted_def QUOTE_def solid_def Suc_le_eq)
qed

end
