(* ===== verification/SaleLog.thy ===== *)
theory SaleLog
  imports JsonCodec CoinSession Reports AdminPages
begin

text \<open>
  From the coins to the books: the sale lines that a settled coin session writes
  (\<open>src/coin.cpp\<close>, \<open>src/files.cpp\<close>), read back by the month totals of the money record
  (\<open>src/money_store.cpp\<close>) and by the sales report (\<open>src/web.cpp\<close>). The JSON library's writer and
  reader are the locale \<open>json_codec\<close>.
\<close>

section \<open>The sale lines\<close>

definition sale_doc :: "int \<Rightarrow> int \<Rightarrow> int \<Rightarrow> string \<Rightarrow> json" where
  "sale_doc t coins minutes mac =
     JObj ([(''ts'', JNum t), (''coins'', JNum coins), (''min'', JNum minutes)]
       @ (if mac = [] then [] else [(''node'', JStr mac)]))"

text \<open>The log calls of \<open>finalizeSession\<close>, each with the time at which it runs.\<close>

definition write_log :: "(json \<Rightarrow> string) \<Rightarrow> int \<Rightarrow> session_action \<Rightarrow> fs \<Rightarrow> fs" where
  "write_log ser now a =
     (case a of
        SaleLog coins minutes mac \<Rightarrow> appendSaleLog ser True now coins minutes mac
      | RefundLog mac coins minutes code \<Rightarrow> appendRefundLog ser True now mac coins minutes code
      | ActivityLog action mac coins remaining \<Rightarrow> appendActivityLog ser True now action mac coins remaining []
      | _ \<Rightarrow> id)"

definition write_logs :: "(json \<Rightarrow> string) \<Rightarrow> (int \<times> session_action) list \<Rightarrow> fs \<Rightarrow> fs" where
  "write_logs ser st = fold (\<lambda>(now, a). write_log ser now a) st"

fun sale_entry :: "int \<times> session_action \<Rightarrow> json option" where
  "sale_entry (t, SaleLog coins minutes mac) = Some (sale_doc t coins minutes mac)"
| "sale_entry _ = None"

definition history_text :: "fs \<Rightarrow> string" where
  "history_text fs = (case fs ''/vendo_history.json'' of None \<Rightarrow> [] | Some c \<Rightarrow> c)"

definition history :: "fs \<Rightarrow> string list" where "history fs = lines_of (history_text fs)"

text \<open>A log whose last line is ended.\<close>

definition complete_log :: "string \<Rightarrow> bool" where
  "complete_log c \<longleftrightarrow> c = [] \<or> last c = CHR 0x0A"

lemma lines_of_append: "complete_log c \<Longrightarrow> lines_of (c @ t) = lines_of c @ lines_of t"
proof (induction c)
  case (Cons x c)
  show ?case
  proof (cases "c = []")
    case False
    then have "lines_of (c @ t) = lines_of c @ lines_of t" using Cons by (simp add: complete_log_def)
    then show ?thesis using lines_of_nonempty [OF False] by (auto split: list.splits)
  qed (use Cons in \<open>simp add: complete_log_def\<close>)
qed (simp add: complete_log_def)

lemma write_log_history:
  "history_text (write_log ser t a fs)
     = history_text fs @ (case sale_entry (t, a) of None \<Rightarrow> [] | Some d \<Rightarrow> ser d @ NL)"
  by (cases a) (auto simp: write_log_def appendSaleLog_def appendRefundLog_def appendActivityLog_def
      append_file_def history_text_def sale_doc_def split: option.split)

lemma write_logs_history_text:
  "history_text (write_logs ser st fs)
     = history_text fs @ concat (map (\<lambda>d. ser d @ NL) (List.map_filter sale_entry st))"
  by (induction st arbitrary: fs)
    (auto simp: write_logs_def write_log_history map_filter_simps split: option.splits)

context json_codec
begin

lemma write_logs_history:
  assumes "complete_log (history_text fs)" and "list_all readable_json (List.map_filter sale_entry st)"
  shows "history (write_logs ser st fs) = history fs @ map ser (List.map_filter sale_entry st)"
  using assms by (simp add: history_def write_logs_history_text lines_of_append lines_of_docs)

end

section \<open>The month totals\<close>

text \<open>\<open>d[k] | 0\<close> of a line: a number that fits 32 bits.\<close>

definition int_field :: "string \<Rightarrow> json \<Rightarrow> int option" where
  "int_field k d = (case jget d k of JNum n \<Rightarrow> if - (2 ^ 31) \<le> n \<and> n < 2 ^ 31 then Some n else None | _ \<Rightarrow> None)"

definition read_sale :: "(string \<Rightarrow> json option) \<Rightarrow> string \<Rightarrow> sale_line option" where
  "read_sale parse line =
     map_option (\<lambda>d. sale_line.make (int_field ''ts'' d) (int_field ''coins'' d)) (parse line)"

definition month_income :: "(string \<Rightarrow> json option) \<Rightarrow> (int \<Rightarrow> string) \<Rightarrow> int \<Rightarrow> fs \<Rightarrow> (string \<times> int) list" where
  "month_income parse mo price fs = moneyVendoMonths (sale_income mo (read_sale parse) price) (history fs) []"

text \<open>A log call that leaves a good line: a time, a number of coins and an address that fit it.\<close>

fun sale_good :: "int \<times> session_action \<Rightarrow> bool" where
  "sale_good (t, SaleLog coins minutes mac) \<longleftrightarrow>
     0 < t \<and> t < 2 ^ 31 \<and> 0 < coins \<and> coins < 2 ^ 31 \<and> 0 \<le> minutes \<and> minutes < 2 ^ 63 \<and> printable mac"
| "sale_good _ \<longleftrightarrow> True"

lemma sale_good_readable: "list_all sale_good st \<Longrightarrow> list_all readable_json (List.map_filter sale_entry st)"
proof (induction st)
  case (Cons ta st)
  then show ?case by (cases ta rule: sale_good.cases) (simp_all add: map_filter_simps sale_doc_def)
qed (simp add: map_filter_simps)

text \<open>The coins of the sales that happened in a period.\<close>

definition sold_when :: "(int \<Rightarrow> bool) \<Rightarrow> (int \<times> session_action) list \<Rightarrow> int" where
  "sold_when P st = (\<Sum>(t, a)\<leftarrow>st. if P t then sold [a] else 0)"

lemma sold_when_all: "\<forall>t \<in> fst ` set st. P t \<Longrightarrow> sold_when P st = sold (map snd st)"
  by (induction st) (auto simp: sold_when_def)

lemma sold_when_none: "\<forall>t \<in> fst ` set st. \<not> P t \<Longrightarrow> sold_when P st = 0"
  by (induction st) (auto simp: sold_when_def)

context json_codec
begin

lemma sale_line_income:
  assumes "sale_good (t, SaleLog coins minutes mac)"
  shows "sale_income mo (read_sale parse) price (ser (sale_doc t coins minutes mac)) = Some (mo t, long32 (coins * price))"
proof -
  have r: "readable_json (sale_doc t coins minutes mac)" using assms by (simp add: sale_doc_def)
  then have "5 \<le> length (ser (sale_doc t coins minutes mac))" unfolding sale_doc_def by (rule ser_member) simp
  with assms show ?thesis
    by (simp add: sale_income_def read_sale_def parse_ser [OF r] sale_line.defs or_else_def)
      (simp add: sale_doc_def int_field_def)
qed

lemma month_income_sum:
  "omap_get 0 (month_income parse mo price fs) k = long32
       (\<Sum>(month, n)\<leftarrow>List.map_filter (sale_income mo (read_sale parse) price) (history fs). if month = k then n else 0)"
  using vendo_months [of "[]" k] by (simp add: month_income_def omap_get_def)

lemma map_filter_append: "List.map_filter f (xs @ ys) = List.map_filter f xs @ List.map_filter f ys"
  by (simp add: List.map_filter_def)

lemma income_of_sales:
  "list_all sale_good st \<Longrightarrow>
     long32 (b + (\<Sum>(month, n)\<leftarrow>List.map_filter (sale_income mo (read_sale parse) price) (map ser (List.map_filter sale_entry st)).
        if month = k then n else 0))
     = long32 (b + sold_when (\<lambda>t. mo t = k) st * price)"
proof (induction st arbitrary: b)
  case (Cons ta st)
  then show ?case
    by (cases ta rule: sale_good.cases)
      (simp_all add: map_filter_simps sale_line_income sold_when_def distrib_right Cons.IH [of "b + _", unfolded add.assoc])
qed (simp add: map_filter_simps sold_when_def)

lemma month_income_after:
  assumes "complete_log (history_text fs)" and "list_all sale_good st"
  shows "omap_get 0 (month_income parse mo price (write_logs ser st fs)) k
     = long32 (omap_get 0 (month_income parse mo price fs) k + sold_when (\<lambda>t. mo t = k) st * price)"
  using assms
  by (simp add: month_income_sum write_logs_history sale_good_readable map_filter_append income_of_sales)

end

section \<open>The sales report\<close>

context json_codec
begin

lemma json_lines_docs:
  assumes "parse_json (rp_omada e) = parse" and "list_all readable_json docs" and "list_all (\<lambda>d. \<exists>m. d = JObj m \<and> m \<noteq> []) docs"
  shows "json_lines e (map ser docs) = docs"
  using assms(2,3)
proof (induction docs)
  case (Cons d docs)
  then have "ser d \<noteq> []" using ser_member by fastforce
  with Cons show ?case by (simp add: json_lines_def map_filter_simps ser_trimmed assms(1) parse_ser)
qed (simp add: json_lines_def map_filter_simps)

lemma sale_entry_members: "list_all (\<lambda>d. \<exists>m. d = JObj m \<and> m \<noteq> []) (List.map_filter sale_entry st)"
proof (induction st)
  case (Cons ta st)
  then show ?case by (cases ta rule: sale_good.cases) (simp_all add: map_filter_simps sale_doc_def)
qed (simp add: map_filter_simps)

text \<open>What the report reads after the log calls.\<close>

lemma json_lines_after:
  assumes "parse_json (rp_omada e) = parse" and "complete_log (history_text fs)" and "list_all sale_good st"
  shows "json_lines e (history (write_logs ser st fs)) = json_lines e (history fs) @ List.map_filter sale_entry st"
proof -
  have "json_lines e (history fs @ xs) = json_lines e (history fs) @ json_lines e xs" for xs
    by (simp add: json_lines_def map_filter_append)
  with assms show ?thesis
    by (simp add: write_logs_history sale_good_readable json_lines_docs sale_entry_members)
qed

end

definition report_of :: "report_env \<Rightarrow> fs \<Rightarrow> vendo_totals" where
  "report_of e fs = (let e' = e\<lparr>vendo_history := history fs\<rparr> in vendo_report e' (localDayNum (rp_zone e) (rp_now e)))"

definition today_slot :: nat where "today_slot = DAYS - 1"

text \<open>The sale lines of a node.\<close>

definition sold_at :: "string \<Rightarrow> session_action list \<Rightarrow> int" where
  "sold_at node as = (\<Sum>a\<leftarrow>as. case a of SaleLog n m mac \<Rightarrow> if mac = node then n else 0 | _ \<Rightarrow> 0)"

definition sale_count :: "session_action list \<Rightarrow> int" where
  "sale_count as = (\<Sum>a\<leftarrow>as. case a of SaleLog n m mac \<Rightarrow> 1 | _ \<Rightarrow> 0)"

definition same_day :: "report_env \<Rightarrow> int \<Rightarrow> bool" where
  "same_day e t \<longleftrightarrow> localDayNum (rp_zone e) t = localDayNum (rp_zone e) (rp_now e)"

lemma on_day_sale:
  shows "0 < t \<Longrightarrow> t < 2 ^ 31 \<Longrightarrow> same_day e t \<Longrightarrow> on_day e (localDayNum (rp_zone e) (rp_now e)) today_slot (sale_doc t n m mac)"
    and "0 < n \<Longrightarrow> n < 2 ^ 31 \<Longrightarrow> int_or 0 (jget (sale_doc t n m mac) ''coins'') = n"
    and "str_or [] (jget (sale_doc t n m mac) ''node'') = mac"
  by (simp_all add: on_day_def line_day_def same_day_def today_slot_def sale_doc_def)

text \<open>The sums that a report takes over the new lines.\<close>

lemma new_lines_sums:
  assumes "list_all sale_good st" and "\<forall>t \<in> fst ` set st. same_day e t"
  defines "td \<equiv> localDayNum (rp_zone e) (rp_now e)"
  shows "(\<Sum>doc\<leftarrow>List.map_filter sale_entry st. if on_day e td today_slot doc then int_or 0 (jget doc ''coins'') else 0) = sold (map snd st)"
    and "(\<Sum>doc\<leftarrow>List.map_filter sale_entry st. if on_day e td today_slot doc then 1 else 0) = sale_count (map snd st)"
    and "(\<Sum>doc\<leftarrow>List.map_filter sale_entry st.
            if on_day e td today_slot doc \<and> str_or [] (jget doc ''node'') = n then int_or 0 (jget doc ''coins'') else 0) = sold_at n (map snd st)"
  using assms(1,2) unfolding td_def
proof (induction st)
  case Nil
  { case 1 show ?case by (simp add: map_filter_simps) next
    case 2 show ?case by (simp add: map_filter_simps sale_count_def) next
    case 3 show ?case by (simp add: map_filter_simps sold_at_def) }
next
  case (Cons ta st)
  { case 1 with Cons show ?case
      by (cases ta rule: sale_good.cases) (simp_all add: map_filter_simps on_day_sale)
  next
    case 2 with Cons show ?case
      by (cases ta rule: sale_good.cases) (simp_all add: map_filter_simps on_day_sale sale_count_def)
  next
    case 3 with Cons show ?case
      by (cases ta rule: sale_good.cases) (simp_all add: map_filter_simps on_day_sale sold_at_def) }
qed

context json_codec
begin

lemma report_after:
  assumes "parse_json (rp_omada e) = parse" and "complete_log (history_text fs)" and "list_all sale_good st"
    and "\<forall>t \<in> fst ` set st. same_day e t"
  shows "dayCoinTotals (report_of e (write_logs ser st fs)) ! today_slot = long32 (dayCoinTotals (report_of e fs) ! today_slot + sold (map snd st))"
    and "daySessTotals (report_of e (write_logs ser st fs)) ! today_slot = long32 (daySessTotals (report_of e fs) ! today_slot + sale_count (map snd st))"
    and "n \<noteq> [] \<Longrightarrow> omap_get (replicate DAYS 0) (nodeCoins (report_of e (write_logs ser st fs))) n ! today_slot
       = long32 (omap_get (replicate DAYS 0) (nodeCoins (report_of e fs)) n ! today_slot + sold_at n (map snd st))"
proof -
  have lines: "json_lines (e\<lparr>vendo_history := h\<rparr>) = json_lines e" "on_day (e\<lparr>vendo_history := h\<rparr>) = on_day e" for h
    by (simp_all add: json_lines_def on_day_def line_day_def fun_eq_iff cong: if_cong)
  have i: "today_slot < DAYS" by (simp add: today_slot_def)
  note after = json_lines_after [OF assms(1-3)]
  note new = new_lines_sums [OF assms(3,4)]
  note cells = vendo_report_cells [OF i]
  show "dayCoinTotals (report_of e (write_logs ser st fs)) ! today_slot = long32 (dayCoinTotals (report_of e fs) ! today_slot + sold (map snd st))"
    "daySessTotals (report_of e (write_logs ser st fs)) ! today_slot = long32 (daySessTotals (report_of e fs) ! today_slot + sale_count (map snd st))"
    "n \<noteq> [] \<Longrightarrow> omap_get (replicate DAYS 0) (nodeCoins (report_of e (write_logs ser st fs))) n ! today_slot
       = long32 (omap_get (replicate DAYS 0) (nodeCoins (report_of e fs)) n ! today_slot + sold_at n (map snd st))"
    by (simp_all add: report_of_def Let_def cells lines after new)
qed

end

section \<open>A settled session\<close>

definition counts_positive :: "phase \<Rightarrow> bool" where
  "counts_positive ph \<longleftrightarrow> (case phase_counts ph of None \<Rightarrow> True | Some nc \<Rightarrow> \<forall>x \<in> set nc. 0 < snd x)"

lemma set_omap_update: "set (omap_update k v m) \<subseteq> insert (k, v) (set m)"
  by (induction k v m rule: omap_update.induct) auto

lemma positive_add: "\<forall>x \<in> set nc. 0 < snd x \<Longrightarrow> \<forall>x \<in> set (omap_add mac (1 :: int) nc). 0 < snd x"
proof -
  assume nc: "\<forall>x \<in> set nc. 0 < snd x"
  then have "0 < omap_get 0 nc mac + 1"
    by (auto simp: omap_get_def split: option.split dest!: map_of_SomeD)
  with nc set_omap_update [of mac "omap_get 0 nc mac + 1" nc] show ?thesis unfolding omap_add_def by fastforce
qed

lemma positive_event:
  "session_event parse now ev ph s = (ph', s', a) \<Longrightarrow> counts_positive ph \<Longrightarrow> counts_positive ph'"
  by (induction parse now ev ph s rule: session_event.induct)
    (auto simp: counts_positive_def session_start_def session_coin_def dest: positive_add)

lemma positive_step: "sys_step parse y z \<Longrightarrow> counts_positive (phase y) \<Longrightarrow> counts_positive (phase z)"
proof (induction rule: sys_step.induct)
  case (receive y ev q' now ph' s' a)
  with positive_event [OF receive.hyps(3)] show ?case by simp
qed (auto simp: counts_positive_def session_timeout_def session_release_def split: phase.splits)

lemma reachable_positive: "CoinSession.reachable parse y \<Longrightarrow> counts_positive (phase y)"
  by (induction rule: CoinSession.reachable.induct) (simp add: counts_positive_def init_system_def, rule positive_step)

lemma deliver_settled: "deliver e coins sess Settled =
    (if fd_after e \<ge> 0 \<and> ws_alive e (fd_after e)
     then [WsSend (fd_after e) WsAuthenticated, PostRefreshCache, WsClose (fd_after e)] else [])"
  by (simp add: deliver_def)

lemma settled_actions:
  assumes "finalizeSession e False nc c s = (c', s', a)" and "settlement e nc c s = Settled"
  shows "\<exists>w m r sess. a = BroadcastEnd # ActivityLog w m (COIN_COUNT s) r # sale_logs (minutes_per_coin e) nc
    @ deliver e (COIN_COUNT s) sess Settled"
proof -
  let ?sess = "findByIp c (ip_render e (clientIpV4 (COIN_SESSION_SLOT s)))"
  obtain sess' r acts where st: "settle e (COIN_COUNT s) nc ?sess = (sess', r, acts)" by (metis prod_cases3)
  with assms(2) have r: "r = Settled" by (simp add: settlement_def)
  have "a = BroadcastEnd # acts @ deliver e (COIN_COUNT s) sess' Settled"
    using assms(1) st by (auto simp: finalizeSession_def Let_def r)
  moreover have "\<exists>w m q. acts = ActivityLog w m (COIN_COUNT s) q # sale_logs (minutes_per_coin e) nc"
    using st r by (auto simp: settle_def split: option.splits if_splits prod.splits)
  ultimately show ?thesis by auto
qed

lemma sale_logs_at: "distinct (map fst nc) \<Longrightarrow> sold_at n (sale_logs minutes nc) = omap_get 0 nc n"
proof (induction nc)
  case (Cons kv nc)
  moreover have "n \<notin> fst ` set nc \<Longrightarrow> sold_at n (sale_logs minutes nc) = 0"
    by (induction nc) (auto simp: sold_at_def sale_logs_def)
  ultimately show ?case
    by (cases kv) (auto simp: sold_at_def sale_logs_def omap_get_def)
qed (simp add: sold_at_def sale_logs_def omap_get_def)

lemma sale_logs_count: "sale_count (sale_logs minutes nc) = int (length nc)"
  by (induction nc) (auto simp: sale_count_def sale_logs_def)

lemma part_le_sum: "\<forall>x \<in> set nc. 0 < (snd x :: int) \<Longrightarrow> n \<in> snd ` set nc \<Longrightarrow> n \<le> sum_list (map snd nc)"
proof (induction nc)
  case (Cons kv nc)
  then have "0 \<le> sum_list (map snd nc)" by (intro sum_list_nonneg) force
  with Cons show ?case by (cases kv) force
qed simp

text \<open>What the log calls of a settled session amount to.\<close>

lemma settled_session:
  assumes "CoinSession.reachable ips y" and "phase y = Finalizing False nc"
    and "finalizeSession e False nc c (coin y) = (c', s', a)" and "settlement e nc c (coin y) = Settled"
  shows "sold a = COIN_COUNT (coin y)" and "sale_count a = int (length nc)" and "sold_at n a = omap_get 0 nc n"
    and "SaleLog k m mac \<in> set a \<Longrightarrow> 0 < k \<and> k \<le> COIN_COUNT (coin y) \<and> m = k * minutes_per_coin e \<and> mac \<in> fst ` set nc"
proof -
  from reachable_inv [OF assms(1)] assms(2)
  have nc: "omap_ok nc" "sum_list (map snd nc) = COIN_COUNT (coin y)" by (simp_all add: sys_inv_def)
  have pos: "\<forall>x \<in> set nc. 0 < snd x" using reachable_positive [OF assms(1)] by (simp add: assms(2) counts_positive_def)
  obtain w m' r sess where a: "a = BroadcastEnd # ActivityLog w m' (COIN_COUNT (coin y)) r # sale_logs (minutes_per_coin e) nc
    @ deliver e (COIN_COUNT (coin y)) sess Settled" using settled_actions [OF assms(3,4)] by blast
  show "sold a = COIN_COUNT (coin y)" using nc(2) by (simp add: a deliver_accounting)
  show "sale_count a = int (length nc)"
    using sale_logs_count [of "minutes_per_coin e" nc] by (simp add: a deliver_settled sale_count_def)
  show "sold_at n a = omap_get 0 nc n"
    using sale_logs_at [OF omap_ok_distinct [OF nc(1)], of n "minutes_per_coin e"] by (simp add: a deliver_settled sold_at_def)
  assume "SaleLog k m mac \<in> set a"
  then have "SaleLog k m mac \<in> set (sale_logs (minutes_per_coin e) nc)" by (auto simp: a deliver_settled split: if_splits)
  then have "(mac, k) \<in> set nc" "m = k * minutes_per_coin e" by (auto simp: sale_logs_def)
  with pos part_le_sum [OF pos, of k] nc(2)
  show "0 < k \<and> k \<le> COIN_COUNT (coin y) \<and> m = k * minutes_per_coin e \<and> mac \<in> fst ` set nc" by force
qed

lemma complete_logs: "complete_log (history_text fs) \<Longrightarrow> complete_log (history_text (write_logs ser st fs))"
proof (induction st arbitrary: fs)
  case (Cons ta st)
  have "complete_log (history_text (write_log ser (fst ta) (snd ta) fs))"
    using Cons.prems by (cases ta) (auto simp: write_log_history complete_log_def NL_def split: option.split)
  from Cons.IH [OF this] show ?case by (simp add: write_logs_def case_prod_unfold)
qed (simp add: write_logs_def)

lemma settled_sales_good:
  assumes "CoinSession.reachable ips y" and "phase y = Finalizing False nc"
    and "finalizeSession e False nc c (coin y) = (c', s', a)" and "settlement e nc c (coin y) = Settled"
    and "COIN_COUNT (coin y) < 2 ^ 31" and "0 \<le> minutes_per_coin e" and "minutes_per_coin e < 2 ^ 31"
    and "\<forall>mac \<in> fst ` set nc. printable mac"
    and "map snd st = a" and "\<forall>t \<in> fst ` set st. 0 < t \<and> t < 2 ^ 31"
  shows "list_all sale_good st"
  unfolding list_all_iff
proof
  fix ta
  assume ta: "ta \<in> set st"
  show "sale_good ta"
  proof (cases "\<exists>n m mac. snd ta = SaleLog n m mac")
    case True
    then obtain n m mac where l: "snd ta = SaleLog n m mac" by blast
    with ta have "SaleLog n m mac \<in> set a" by (force simp: assms(9) [symmetric])
    note s = settled_session(4) [OF assms(1-4) this]
    with assms(5) have n: "0 < n" "n < 2 ^ 31" by simp_all
    then have "n * minutes_per_coin e \<le> 2 ^ 31 * 2 ^ 31" using assms(6,7) by (intro mult_mono) simp_all
    with s n assms(6,8,10) ta l show ?thesis by (cases ta) auto
  next
    case False
    then show ?thesis by (cases ta rule: sale_good.cases) auto
  qed
qed

section \<open>Three readers of one log\<close>

text \<open>\<open>strftime\<close> with a year of four digits fills the seven characters of the code's buffer.\<close>

definition month_text :: "int \<Rightarrow> nat \<Rightarrow> string" where
  "month_text y m = dec_int y @ ''-'' @ pad2 m"

definition month_of :: "zone \<Rightarrow> int \<Rightarrow> string" where
  "month_of z t = (case gmdate ((t + offset z t) div 86400) of (y, m, d) \<Rightarrow> month_text y m)"

definition key_text :: "int \<Rightarrow> string" where
  "key_text mk = month_text (mk div 12) (nat (mk mod 12) + 1)"

lemma dec_int_inject: "dec_int i = dec_int j \<Longrightarrow> i = j"
proof -
  assume same: "dec_int i = dec_int j"
  have "Some (JNum i) = read_json (dec_int i)" by (rule read_json_text [OF text_number, symmetric])
  also have "\<dots> = Some (JNum j)" unfolding same by (rule read_json_text [OF text_number])
  finally show ?thesis by simp
qed

lemma pad2_digits: "m < 100 \<Longrightarrow> pad2 m = [char_of (48 + m div 10), char_of (48 + m mod 10)]"
proof (cases "m < 10")
  case False
  assume "m < 100"
  then have "m div 10 < 10" by (simp add: less_mult_imp_div_less)
  moreover obtain k where "m = Suc k" using False by (cases m) auto
  ultimately show ?thesis using False by (simp add: pad2_def dec_def)
next
  case True
  have "char_of (48 :: nat) = CHR ''0''" by code_simp
  with True show ?thesis by (simp add: pad2_def dec_def)
qed

lemma digit_inject: "a < 10 \<Longrightarrow> b < 10 \<Longrightarrow> char_of (48 + a) = (char_of (48 + b) :: char) \<Longrightarrow> a = (b :: nat)"
proof -
  assume ab: "a < 10" "b < 10" and same: "char_of (48 + a) = (char_of (48 + b) :: char)"
  have "(48 + a) mod 256 = of_char (char_of (48 + a) :: char)" by (simp only: of_char_of)
  also have "\<dots> = (48 + b) mod 256" unfolding same by (simp only: of_char_of)
  finally show "a = b" using ab by simp
qed

lemma pad2_inject:
  assumes "m < 100" and "k < 100" and "pad2 m = pad2 k"
  shows "m = k"
proof -
  have "m div 10 < 10" "k div 10 < 10" using assms(1,2) by (simp_all add: less_mult_imp_div_less)
  moreover have "char_of (48 + m div 10) = (char_of (48 + k div 10) :: char)" "char_of (48 + m mod 10) = (char_of (48 + k mod 10) :: char)"
    using assms(3) unfolding pad2_digits [OF assms(1)] pad2_digits [OF assms(2)] by (simp_all only: list.inject)
  ultimately have "m div 10 = k div 10" "m mod 10 = k mod 10" by (auto intro: digit_inject)
  then show ?thesis by (metis div_mult_mod_eq)
qed

lemma month_text_inject:
  assumes "1 \<le> m" "m \<le> 12" "1 \<le> k" "k \<le> 12"
  shows "month_text y m = month_text x k \<longleftrightarrow> y = x \<and> m = k"
proof
  assume "month_text y m = month_text x k"
  then have "dec_int y @ ''-'' @ pad2 m = dec_int x @ ''-'' @ pad2 k" by (simp add: month_text_def)
  moreover have "length (''-'' @ pad2 m) = length (''-'' @ pad2 k)" using assms by (simp add: pad2_digits)
  ultimately have "dec_int y = dec_int x \<and> ''-'' @ pad2 m = ''-'' @ pad2 k" by (metis append_eq_append_conv)
  with dec_int_inject pad2_inject [of m k] assms show "y = x \<and> m = k" by simp
qed simp

text \<open>The ledger's names and the reports' numbers of months are the same months.\<close>

lemma month_of_key:
  assumes "day_fits (localDayNum z t)"
  shows "month_of z t = key_text mk \<longleftrightarrow> month_key (localDayNum z t) = mk"
proof -
  obtain y m d where g: "gmdate ((t + offset z t) div 86400) = (y, m, d)" by (cases "gmdate ((t + offset z t) div 86400)")
  then have m: "1 \<le> m" "m \<le> 12" using gmdate_count(1) [OF g] by (simp_all add: valid_date_def)
  have "month_of z t = key_text mk \<longleftrightarrow> y = mk div 12 \<and> m = nat (mk mod 12) + 1"
    unfolding month_of_def key_text_def g prod.case by (rule month_text_inject) (use m in auto)
  also have "\<dots> \<longleftrightarrow> y * 12 + (int m - 1) = mk"
  proof
    assume "y = mk div 12 \<and> m = nat (mk mod 12) + 1"
    then show "y * 12 + (int m - 1) = mk" by simp
  next
    assume k: "y * 12 + (int m - 1) = mk"
    have "0 \<le> int m - 1" "int m - 1 < 12" using m by simp_all
    then have "mk div 12 = y" "mk mod 12 = int m - 1" unfolding k [symmetric] by simp_all
    then show "y = mk div 12 \<and> m = nat (mk mod 12) + 1" using m by simp
  qed
  finally show ?thesis using month_key_fits [OF assms] by (simp add: month_num_def localDayNum_div g)
qed

text \<open>A line that the ledger and the reports take alike: they differ in what they skip and in trimming.\<close>

definition reads_alike :: "(string \<Rightarrow> json option) \<Rightarrow> string \<Rightarrow> bool" where
  "reads_alike parse l \<longleftrightarrow> (if length l < 5 then None else parse l) = (if trim l = [] then None else parse (trim l))"

definition sale_shape :: "json \<Rightarrow> bool" where
  "sale_shape d \<longleftrightarrow> 0 < int_or 0 (jget d ''ts'') \<and> 0 \<le> int_or 0 (jget d ''coins'')"

definition sound_line :: "(string \<Rightarrow> json option) \<Rightarrow> string \<Rightarrow> bool" where
  "sound_line parse l \<longleftrightarrow> reads_alike parse l \<and> (\<forall>d. parse l = Some d \<longrightarrow> sale_shape d)"

lemma int_field_or: "or_else (int_field k d) 0 = int_or 0 (jget d k)"
  by (simp add: int_field_def or_else_def split: json.split)

text \<open>One line, as the ledger and as a report count it.\<close>

lemma line_counts_alike:
  assumes "sound_line parse l" and "parse_json (rp_omada r) = parse" and "\<forall>d \<in> set (json_lines r [l]). day_fits (line_day r d)"
  shows "(case sale_income (month_of (rp_zone r)) (read_sale parse) price l of None \<Rightarrow> 0 | Some (m, n) \<Rightarrow> if m = key_text mk then n else 0)
    = (case (if trim l = [] then None else parse_json (rp_omada r) (trim l)) of None \<Rightarrow> 0
        | Some d \<Rightarrow> if month_key (line_day r d) = mk then long32 (int_or 0 (jget d ''coins'') * price) else 0)"
proof -
  let ?doc = "if length l < 5 then None else parse l"
  have same: "(if trim l = [] then None else parse_json (rp_omada r) (trim l)) = ?doc"
    using assms by (simp add: sound_line_def reads_alike_def)
  show ?thesis
  proof (cases ?doc)
    case None
    then show ?thesis unfolding same by (auto simp: sale_income_def read_sale_def split: if_splits)
  next
    case (Some d)
    then have l: "\<not> length l < 5" "parse l = Some d" by (auto split: if_splits)
    with assms(1) have "0 < int_or 0 (jget d ''ts'')" "0 \<le> int_or 0 (jget d ''coins'')"
      by (auto simp: sound_line_def sale_shape_def)
    moreover have "trim l \<noteq> []" "parse_json (rp_omada r) (trim l) = Some d" using same Some by (auto split: if_splits)
    then have "day_fits (localDayNum (rp_zone r) (int_or 0 (jget d ''ts'')))"
      using assms(3) by (simp add: json_lines_def map_filter_simps line_day_def)
    ultimately show ?thesis unfolding same
      using l by (auto simp: sale_income_def read_sale_def sale_line.defs int_field_or month_of_key line_day_def)
  qed
qed

lemma lines_count_alike:
  assumes "\<forall>l \<in> set ls. sound_line parse l" and "parse_json (rp_omada r) = parse"
    and "\<forall>d \<in> set (json_lines r ls). day_fits (line_day r d)"
  shows "(\<Sum>(m, n)\<leftarrow>List.map_filter (sale_income (month_of (rp_zone r)) (read_sale parse) price) ls. if m = key_text mk then n else 0)
    = (\<Sum>d\<leftarrow>json_lines r ls. if month_key (line_day r d) = mk then long32 (int_or 0 (jget d ''coins'') * price) else 0)"
  using assms(1,3)
proof (induction ls)
  case (Cons l ls)
  then show ?case
    using line_counts_alike [where l = l and price = price and mk = mk, OF _ assms(2)]
    by (auto simp: map_filter_simps json_lines_def split: option.splits if_splits)
qed (simp add: json_lines_def map_filter_simps)

lemma sum_scaled:
  "long32 (b + (\<Sum>d\<leftarrow>ds. if P d then f d else 0) * price) = long32 (b + (\<Sum>d\<leftarrow>ds. if P d then long32 (f d * price) else 0))"
proof (induction ds arbitrary: b)
  case (Cons d ds)
  from Cons [of "b + f d * price"] Cons [of b] show ?case by (simp add: distrib_right add.assoc)
qed simp

text \<open>Every line that the code itself writes is such a line.\<close>

context json_codec
begin

lemma written_lines_sound:
  assumes "list_all sale_good st" and "l \<in> set (history (write_logs ser st Map.empty))"
  shows "sound_line parse l"
proof -
  have "history (write_logs ser st Map.empty) = map ser (List.map_filter sale_entry st)"
    by (subst write_logs_history) (simp_all add: sale_good_readable [OF assms(1)] history_def history_text_def complete_log_def)
  with assms(2) obtain ta d where ta: "ta \<in> set st" "sale_entry ta = Some d" "l = ser d"
    by (auto simp: List.map_filter_def)
  from ta(2) obtain t n m mac where e: "ta = (t, SaleLog n m mac)" "d = sale_doc t n m mac"
    by (cases ta rule: sale_entry.cases) auto
  from ta(1) assms(1) e have g: "sale_good (t, SaleLog n m mac)" by (auto simp: list_all_iff)
  then have r: "readable_json d" by (simp add: e sale_doc_def)
  then have "5 \<le> length (ser d)" unfolding e sale_doc_def by (rule ser_member) simp
  moreover from this have "ser d \<noteq> []" by auto
  moreover have "sale_shape d" using g by (simp add: e sale_doc_def sale_shape_def)
  ultimately show ?thesis
    by (simp add: ta(3) sound_line_def reads_alike_def ser_trimmed [OF r] parse_ser [OF r])
qed

end

section \<open>Properties\<close>

text \<open>C9: Every coin that bought time reaches the books once. When the controller grants the time of a
  session that the tasks can reach, the log calls of its settlement raise the income that the nightly
  rollup reads from the log by the session's coins times the price in the month of the sale and in
  no other month, whatever the log held before, and leave a log that ends with a line. The income is
  the code's 32-bit \<open>long\<close>: the equation is exact while the month's income stays below 2 ^ 31.\<close>
theorem settled_coins_reach_ledger:
  assumes "json_codec parse ser" and "complete_log (history_text fs)"
    and "CoinSession.reachable ips y" and "phase y = Finalizing False nc"
    and "finalizeSession e False nc c (coin y) = (c', s', a)" and "settlement e nc c (coin y) = Settled"
    and "COIN_COUNT (coin y) < 2 ^ 31" and "0 \<le> minutes_per_coin e" and "minutes_per_coin e < 2 ^ 31"
    and "\<forall>mac \<in> fst ` set nc. printable mac"
    and "map snd st = a" and "\<forall>t \<in> fst ` set st. 0 < t \<and> t < 2 ^ 31" and "\<forall>t \<in> fst ` set st. mo t = month"
  shows "omap_get 0 (month_income parse mo price (write_logs ser st fs)) k
      = long32 (omap_get 0 (month_income parse mo price fs) k + (if k = month then COIN_COUNT (coin y) * price else 0))
    \<and> complete_log (history_text (write_logs ser st fs))"
proof -
  have "sold_when (\<lambda>t. mo t = k) st = (if k = month then COIN_COUNT (coin y) else 0)"
    using assms(11,13) settled_session(1) [OF assms(3-6)]
    by (auto simp: sold_when_all sold_when_none)
  with json_codec.month_income_after [OF assms(1,2) settled_sales_good [OF assms(3-12)], of mo price k] complete_logs [OF assms(2)]
  show ?thesis by simp
qed

text \<open>C10: The sales report shows the session on the day it was sold: the day's coins grow by the
  session's coins, and each node's by the coins it took. The day's customers grow by the number of nodes
  that took coins, so one customer who used two slots is shown as two. The report is one of the day of the
  sale, and its cells are 32-bit.\<close>
theorem settled_coins_reach_report:
  assumes "json_codec parse ser" and "complete_log (history_text fs)"
    and "CoinSession.reachable ips y" and "phase y = Finalizing False nc"
    and "finalizeSession e False nc c (coin y) = (c', s', a)" and "settlement e nc c (coin y) = Settled"
    and "COIN_COUNT (coin y) < 2 ^ 31" and "0 \<le> minutes_per_coin e" and "minutes_per_coin e < 2 ^ 31"
    and "\<forall>mac \<in> fst ` set nc. printable mac"
    and "map snd st = a" and "\<forall>t \<in> fst ` set st. 0 < t \<and> t < 2 ^ 31"
    and "parse_json (rp_omada r) = parse" and "\<forall>t \<in> fst ` set st. same_day r t"
  defines "before \<equiv> report_of r fs" and "after \<equiv> report_of r (write_logs ser st fs)"
  shows "dayCoinTotals after ! today_slot = long32 (dayCoinTotals before ! today_slot + COIN_COUNT (coin y))
    \<and> daySessTotals after ! today_slot = long32 (daySessTotals before ! today_slot + int (length nc))
    \<and> (\<forall>n. n \<noteq> [] \<longrightarrow> omap_get (replicate DAYS 0) (nodeCoins after) n ! today_slot
          = long32 (omap_get (replicate DAYS 0) (nodeCoins before) n ! today_slot + omap_get 0 nc n))"
proof -
  note good = settled_sales_good [OF assms(3-12)]
  note rep = json_codec.report_after [OF assms(1,13,2) good assms(14), folded before_def after_def]
  show ?thesis using rep settled_session(1-3) [OF assms(3-6)] by (simp add: assms(11))
qed

text \<open>Inputs of the witnesses.\<close>

definition demo_sales :: "int \<Rightarrow> (int \<times> session_action) list" where
  "demo_sales t = map (Pair t) (snd (snd (finalizeSession (demo_settle True None) False [(''AA'', 1)] demo_cache (coin demo_finalizing))))"

lemma demo_settled:
  "phase demo_finalizing = Finalizing False [(''AA'', 1)]"
  "settlement (demo_settle True None) [(''AA'', 1)] demo_cache (coin demo_finalizing) = Settled"
  "COIN_COUNT (coin demo_finalizing) = 1" "minutes_per_coin (demo_settle True None) = 24" "printable ''AA''"
  "complete_log (history_text Map.empty)"
  by (simp_all add: demo_finalizing_def demo_coin_def demo_settle_def printable_def history_text_def complete_log_def) code_simp

theorem settled_coins_reach_ledger_witness:
  "omap_get 0 (month_income read_json (\<lambda>t. ''2023-11'') 5 (write_logs show_json (demo_sales 1700000000) Map.empty)) ''2023-11'' = 5"
proof -
  let ?f = "finalizeSession (demo_settle True None) False [(''AA'', 1)] demo_cache (coin demo_finalizing)"
  have f: "?f = (fst ?f, fst (snd ?f), snd (snd ?f))" by simp
  have st: "map snd (demo_sales 1700000000) = snd (snd ?f)" "\<forall>t \<in> fst ` set (demo_sales 1700000000). t = 1700000000"
    by (auto simp: demo_sales_def comp_def)
  have "month_income read_json (\<lambda>t. ''2023-11'') 5 Map.empty = []"
    by (simp add: month_income_def history_def history_text_def)
  with settled_coins_reach_ledger [OF codec.json_codec_axioms demo_settled(6) reachable_finalizing demo_settled(1) f demo_settled(2) _ _ _ _ st(1),
      of "\<lambda>t. ''2023-11''" "''2023-11''" 5 "''2023-11''"] demo_settled st(2)
  show ?thesis by (simp add: omap_get_def in_long_def)
qed

definition text_report :: report_env where
  "text_report = demo_report\<lparr>rp_omada := (rp_omada demo_report)\<lparr>parse_json := read_json\<rparr>\<rparr>"

theorem settled_coins_reach_report_witness:
  "dayCoinTotals (report_of text_report (write_logs show_json (demo_sales (rp_now demo_report)) Map.empty)) ! today_slot
     = 1"
proof -
  have zero: "dayCoinTotals (report_of text_report Map.empty) ! today_slot = 0"
    by (simp add: report_of_def Let_def vendo_report_cells today_slot_def history_def history_text_def json_lines_def map_filter_simps)
  let ?f = "finalizeSession (demo_settle True None) False [(''AA'', 1)] demo_cache (coin demo_finalizing)"
  let ?st = "demo_sales (rp_now demo_report)"
  have f: "?f = (fst ?f, fst (snd ?f), snd (snd ?f))" by simp
  have st: "map snd ?st = snd (snd ?f)" "\<forall>t \<in> fst ` set ?st. t = rp_now demo_report"
    by (auto simp: demo_sales_def comp_def)
  have now: "0 < rp_now demo_report \<and> rp_now demo_report < 2 ^ 31" by (simp add: demo_report_def)
  have r: "parse_json (rp_omada text_report) = read_json" "\<forall>t \<in> fst ` set ?st. same_day text_report t"
    using st(2) by (auto simp: text_report_def same_day_def)
  from settled_coins_reach_report [OF codec.json_codec_axioms demo_settled(6) reachable_finalizing demo_settled(1) f demo_settled(2) _ _ _ _ st(1) _ r]
    demo_settled st(2) now
  show ?thesis by (simp add: zero in_long_def)
qed

text \<open>C38: The books agree. The month's income that the nightly rollup takes from the sale log, the month chart of
  the sales report and the months of the income statement are three loops of their own over one file;
  they give the same pesos, as 32-bit sums, for every month of the chart and of the statement. The lines
  are those of days before 19 January 2038, where the month of a day is still the month of its date.\<close>
theorem ledger_agrees_with_reports:
  assumes "\<forall>l \<in> set (history fs). sound_line (parse_json (rp_omada r)) l"
    and "\<forall>d \<in> set (json_lines r (history fs)). day_fits (line_day r d)"
  defines "td \<equiv> localDayNum (rp_zone r) (rp_now r)"
    and "ledger \<equiv> omap_get 0 (month_income (parse_json (rp_omada r)) (month_of (rp_zone r)) (PESOS_PER_COIN r) fs)"
  shows "(\<forall>i<MONTHS. long32 (monthCoins (report_of r fs) ! i * PESOS_PER_COIN r) = ledger (key_text (month_key td - int (MONTHS - 1 - i))))
    \<and> (\<forall>k<3. statement_vendo (r\<lparr>vendo_history := history fs\<rparr>) (month_num td - 3) ! k = ledger (key_text (month_num td - 3 + int k)))"
proof -
  let ?e = "r\<lparr>vendo_history := history fs\<rparr>"
  have same: "json_lines ?e = json_lines r" "line_day ?e = line_day r"
    by (simp_all add: json_lines_def line_day_def fun_eq_iff cong: if_cong)
  have ledger: "ledger (key_text mk) = long32 (\<Sum>d\<leftarrow>json_lines r (history fs).
      if month_key (line_day r d) = mk then long32 (int_or 0 (jget d ''coins'') * PESOS_PER_COIN r) else 0)" for mk
    unfolding ledger_def month_income_def using vendo_months [of "[]" "key_text mk"]
    by (simp add: lines_count_alike [OF assms(1) refl assms(2)] omap_get_def)
  show ?thesis
    by (simp add: report_of_def Let_def vendo_report_month statement_vendo_cell same ledger sum_scaled [of 0, simplified] td_def cong: if_cong)
qed

theorem ledger_agrees_with_reports_witness:
  "long32 (monthCoins (report_of text_report (write_logs show_json (demo_sales 1728000000) Map.empty)) ! 11 * 5)
     = omap_get 0 (month_income read_json (month_of (rp_zone demo_report)) 5 (write_logs show_json (demo_sales 1728000000) Map.empty))
         (key_text (month_key 20000))"
proof -
  let ?f = "finalizeSession (demo_settle True None) False [(''AA'', 1)] demo_cache (coin demo_finalizing)"
  have f: "?f = (fst ?f, fst (snd ?f), snd (snd ?f))" by simp
  have st: "map snd (demo_sales 1728000000) = snd (snd ?f)" "\<forall>t \<in> fst ` set (demo_sales 1728000000). t = 1728000000"
    by (auto simp: demo_sales_def comp_def)
  have good: "list_all sale_good (demo_sales 1728000000)"
    by (rule settled_sales_good [OF reachable_finalizing demo_settled(1) f demo_settled(2) _ _ _ _ st(1)])
      (use demo_settled st(2) in simp_all)
  have lines: "json_lines text_report (history (write_logs show_json (demo_sales 1728000000) Map.empty)) = List.map_filter sale_entry (demo_sales 1728000000)"
    by (subst codec.json_lines_after [OF _ demo_settled(6) good])
      (simp_all add: text_report_def history_def history_text_def json_lines_def map_filter_simps)
  have "line_day text_report d = 20000" if "sale_entry (1728000000, a) = Some d" for a d
    using that demo_today(1) by (cases a) (auto simp: line_day_def sale_doc_def text_report_def demo_report_def)
  then have "\<forall>d \<in> set (List.map_filter sale_entry (demo_sales 1728000000)). line_day text_report d = 20000"
    by (auto simp: demo_sales_def List.map_filter_def)
  then have "\<forall>d \<in> set (json_lines text_report (history (write_logs show_json (demo_sales 1728000000) Map.empty))). day_fits (line_day text_report d)"
    by (simp add: lines day_fits_def)
  moreover from codec.written_lines_sound [OF good]
  have "\<forall>l \<in> set (history (write_logs show_json (demo_sales 1728000000) Map.empty)). sound_line (parse_json (rp_omada text_report)) l"
    by (simp add: text_report_def)
  moreover have "PESOS_PER_COIN text_report = 5" "rp_zone text_report = rp_zone demo_report" "parse_json (rp_omada text_report) = read_json"
    "rp_now text_report = rp_now demo_report"
    by (simp_all add: text_report_def) (simp add: demo_report_def)
  ultimately show ?thesis
    using ledger_agrees_with_reports [of "write_logs show_json (demo_sales 1728000000) Map.empty" text_report] demo_today(1) by simp
qed

end
