(* ===== verification/Refunds.thy ===== *)
theory Refunds
  imports SaleLog
begin

text \<open>
  The way of a refund: the code that a failed settlement gives to the customer (\<open>src/coin.cpp\<close>), its
  line in the refund log (\<open>src/files.cpp\<close>), the page that shows the log (\<open>src/web.cpp\<close>), and the purge
  at the next start. The purge looks for the time in the text of a line; the locale
  \<open>compact_codec\<close> adds to \<open>json_codec\<close> how the JSON library prints the first member.
\<close>

section \<open>Lines with a time\<close>

locale compact_codec = json_codec +
  assumes ser_ts: "readable_json (JObj ((''ts'', JNum n) # m)) \<Longrightarrow>
      \<exists>c rest. ser (JObj ((''ts'', JNum n) # m)) = CHR ''{'' # TS_KEY @ dec_int n @ c # rest \<and> \<not> is_digit c"

lemma decimal_dec: "\<not> is_digit c \<Longrightarrow> decimal (dec n @ c # rest) = int n"
proof -
  assume c: "\<not> is_digit c"
  have d: "list_all is_digit (dec n)" "dec n \<noteq> []" using dec_digits [of n] by simp_all
  then obtain x xs where x: "dec n = x # xs" "is_digit x" by (cases "dec n") auto
  have v: "digits_val (dec n @ c # rest) = digits_val (dec n)"
    using d(1) c by (simp add: digits_val_def list_all_iff takeWhile_append takeWhile_eq_all_conv [THEN iffD2])
  from x(2) have "\<not> is_space x" "x \<noteq> CHR ''-''" "x \<noteq> CHR ''+''"
    by (auto simp: is_digit_def is_space_def less_eq_char_def)
  then show ?thesis using v x(1) digits_val_dec [of n] by (simp add: decimal_def)
qed

lemma line_ts_text:
  assumes "0 \<le> n" and "n < 2 ^ 31" and "\<not> is_digit c"
  shows "line_ts (CHR ''{'' # TS_KEY @ dec_int n @ c # rest) = n"
proof -
  let ?l = "CHR ''{'' # TS_KEY @ dec_int n @ c # rest"
  have "index_of TS_KEY ?l = Some 1" by (simp add: TS_KEY_def starts_with_def)
  then have "line_ts ?l = atol (dec_int n @ c # rest)" by (simp add: line_ts_def TS_KEY_def)
  also have "\<dots> = n" using assms decimal_dec [of c "nat n" rest] by (simp add: atol_def dec_int_def)
  finally show ?thesis .
qed

context compact_codec
begin

lemma line_ts_ser:
  assumes "readable_json (JObj ((''ts'', JNum n) # m))" and "0 \<le> n" and "n < 2 ^ 31"
  shows "line_ts (ser (JObj ((''ts'', JNum n) # m))) = n"
  using ser_ts [OF assms(1)] line_ts_text [OF assms(2,3)] by auto

end

interpretation compact: compact_codec read_json show_json
proof
  fix n :: int and m
  show "\<exists>c rest. show_json (JObj ((''ts'', JNum n) # m)) = CHR ''{'' # TS_KEY @ dec_int n @ c # rest \<and> \<not> is_digit c"
    by (cases m) (simp_all add: object_text_def member_text_def quoted_def QUOTE_def TS_KEY_def is_digit_def less_eq_char_def)
qed

section \<open>The refund log\<close>

definition refund_doc :: "int \<Rightarrow> string \<Rightarrow> int \<Rightarrow> int \<Rightarrow> string \<Rightarrow> json" where
  "refund_doc t mac coins minutes code =
     JObj [(''ts'', JNum t), (''mac'', JStr mac), (''coins'', JNum coins), (''minutes'', JNum minutes), (''code'', JStr code)]"

definition refunds_text :: "fs \<Rightarrow> string" where
  "refunds_text fs = (case fs ''/refunds.log'' of None \<Rightarrow> [] | Some c \<Rightarrow> c)"

text \<open>The file as the page finds it when it can be opened.\<close>

definition log_of :: "string \<Rightarrow> fs \<Rightarrow> log_file" where
  "log_of path fs = (case fs path of None \<Rightarrow> NoFile | Some c \<Rightarrow> Lines (lines_of c))"

fun refund_entry :: "int \<times> session_action \<Rightarrow> json option" where
  "refund_entry (t, RefundLog mac coins minutes code) = Some (refund_doc t mac coins minutes code)"
| "refund_entry _ = None"

lemma write_log_refunds:
  "refunds_text (write_log ser t a fs)
     = refunds_text fs @ (case refund_entry (t, a) of None \<Rightarrow> [] | Some d \<Rightarrow> ser d @ NL)"
  by (cases a) (auto simp: write_log_def appendSaleLog_def appendRefundLog_def appendActivityLog_def
      append_file_def refunds_text_def refund_doc_def split: option.split)

lemma write_logs_refunds:
  "refunds_text (write_logs ser st fs)
     = refunds_text fs @ concat (map (\<lambda>d. ser d @ NL) (List.map_filter refund_entry st))"
  by (induction st arbitrary: fs)
    (auto simp: write_logs_def write_log_refunds map_filter_simps split: option.splits)

lemma entries_append: "complete_log c \<Longrightarrow> entries_of (c @ t) = entries_of c @ entries_of t"
  by (simp add: entries_of_def lines_of_append)

context json_codec
begin

lemma entries_of_line: "readable_json v \<Longrightarrow> ser v \<noteq> [] \<Longrightarrow> entries_of (ser v @ NL) = [ser v]"
  using lines_of_line [OF ser_one_line, of v "[]"] by (simp add: entries_of_def NL_def ser_trimmed)

end

text \<open>The page of the lines of a log.\<close>

definition refunds_shown :: "(string \<Rightarrow> json option) \<Rightarrow> string list \<Rightarrow> string" where
  "refunds_shown parse es = ''REFUNDS'' @ NL @ ''======='' @ NL @ concat (map refund_line (List.map_filter parse es))"

lemma page_entries:
  "fs path = Some c \<Longrightarrow> handleRefunds parse (log_of path fs) = Page 200 (refunds_shown parse (entries_of c))"
  by (simp add: handleRefunds_def log_of_def readable_def trimmed_lines_def entries_of_def refunds_shown_def)

lemma refunds_shown_append: "refunds_shown parse (es @ [l]) = refunds_shown parse es @ (case parse l of None \<Rightarrow> [] | Some d \<Rightarrow> refund_line d)"
  by (simp add: refunds_shown_def List.map_filter_def split: option.split)

text \<open>The purge at the start touches a file once, and each file alone.\<close>

lemma purge_elsewhere: "p \<noteq> path \<Longrightarrow> p \<noteq> tmpPath \<Longrightarrow> purgeOldLogEntries io now path age cap fs p = fs p"
  by (simp add: purgeOldLogEntries_def Let_def split: option.split)

lemma purge_here: "fs path = fs' path \<Longrightarrow> path \<noteq> tmpPath \<Longrightarrow>
    purgeOldLogEntries io now path age cap fs path = purgeOldLogEntries io now path age cap fs' path"
  by (simp add: purgeOldLogEntries_def Let_def split: option.split)

lemma setupLogs_refunds:
  assumes "fs ''/refunds.log'' = Some c" and "io ''/refunds.log'' = flash_ok"
  shows "\<exists>c'. setupLogs io now fs ''/refunds.log'' = Some c'
    \<and> entries_of c' = filter (\<lambda>l. \<not> too_old (now - 86400) l) (entries_of c)"
proof -
  have "setupLogs io now fs ''/refunds.log'' = purgeOldLogEntries (io ''/refunds.log'') now ''/refunds.log'' 86400 0 fs ''/refunds.log''"
    unfolding setupLogs_def by (simp add: purge_elsewhere) (rule purge_here, simp_all add: purge_elsewhere)
  moreover obtain c' where "purgeOldLogEntries flash_ok now ''/refunds.log'' 86400 0 fs = fs(tmpPath := None, ''/refunds.log'' \<mapsto> c')"
    "entries_of c' = purged (now - 86400) 0 (entries_of c)"
    using purge_entries_aux [where fs = fs and path = "''/refunds.log''" and content = c, OF assms(1), of now 86400 0] by auto
  ultimately show ?thesis by (simp add: purged_def Let_def assms(2))
qed

section \<open>A refunded session\<close>

lemma refund_code_plain: "plain (generateRefundCode rs)"
proof -
  have p: "plain refund_chars" "length refund_chars = 32" by (simp_all add: refund_chars_def)
  then have "refund_chars ! (unat r mod 32) \<in> set refund_chars" for r :: u32 by (intro nth_mem) simp
  with p(1) show ?thesis by (auto simp: generateRefundCode_def plain_def)
qed

lemma plain_printable: "plain s \<Longrightarrow> printable s"
  by (simp add: plain_def printable_def)

lemma refunded_actions:
  assumes "finalizeSession e False nc c s = (c', s', a)" and "settlement e nc c s = Failed msg d ERR_SUBTYPE_REFUNDABLE"
    and "client_connected e"
  shows "\<exists>x. a = [BroadcastEnd,
       RefundLog (clientMac x) (COIN_COUNT s) (COIN_COUNT s * minutes_per_coin e) (refund_code e),
       ActivityLog ''REFUND'' (clientMac x) (COIN_COUNT s) (- 1),
       WsSend (fd_after e) (WsError ERR_SUBTYPE_REFUNDABLE msg d (refund_code e)), WsClose (fd_after e)]
     \<and> fst (settle e (COIN_COUNT s) nc (findByIp c (ip_render e (clientIpV4 (COIN_SESSION_SLOT s))))) = Some x
     \<and> 0 < COIN_COUNT s"
proof -
  let ?sess = "findByIp c (ip_render e (clientIpV4 (COIN_SESSION_SLOT s)))"
  obtain sess' r acts where st: "settle e (COIN_COUNT s) nc ?sess = (sess', r, acts)" by (metis prod_cases3)
  with assms(2) have r: "r = Failed msg d ERR_SUBTYPE_REFUNDABLE" by (simp add: settlement_def)
  then have n: "0 < COIN_COUNT s" "?sess \<noteq> None" using settle_accounting(4) [OF st] by simp_all
  with settle_accounting(3) [OF st] obtain x where x: "sess' = Some x" by auto
  have "acts = []" using st r by (auto simp: settle_def split: option.splits if_splits prod.splits)
  then have "a = BroadcastEnd # deliver e (COIN_COUNT s) sess' r"
    using assms(1) st by (auto simp: finalizeSession_def Let_def)
  with assms(3) n st show ?thesis
    by (simp add: deliver_def client_connected_def r x)
qed

text \<open>The line that a refund leaves, and the log with it. \<open>t\<close> is the time of the log calls.\<close>

definition refund_of :: "settle_env \<Rightarrow> int \<Rightarrow> session_params \<Rightarrow> coin_state \<Rightarrow> json" where
  "refund_of e t x s = refund_doc t (clientMac x) (COIN_COUNT s) (COIN_COUNT s * minutes_per_coin e) (refund_code e)"

lemma refund_logged:
  assumes "json_codec parse ser" and "complete_log (refunds_text fs)"
    and "finalizeSession e False nc c s = (c', s', a)" and "settlement e nc c s = Failed msg d ERR_SUBTYPE_REFUNDABLE"
    and "client_connected e" and "refund_code e = generateRefundCode randoms"
    and "fst (settle e (COIN_COUNT s) nc (findByIp c (ip_render e (clientIpV4 (COIN_SESSION_SLOT s))))) = Some x"
    and "printable (clientMac x)" and "COIN_COUNT s < 2 ^ 31" and "COIN_COUNT s * minutes_per_coin e \<in> {0..<2 ^ 31}" and "0 < t" and "t < 2 ^ 31"
  shows "readable_json (refund_of e t x s)" and "parse (ser (refund_of e t x s)) = Some (refund_of e t x s)"
    and "\<exists>body. write_logs ser (map (Pair t) a) fs ''/refunds.log'' = Some body
      \<and> entries_of body = entries_of (refunds_text fs) @ [ser (refund_of e t x s)]"
proof -
  let ?doc = "refund_of e t x s" and ?fs = "write_logs ser (map (Pair t) a) fs"
  from refunded_actions [OF assms(3-5)] assms(7) have
    a: "a = [BroadcastEnd, RefundLog (clientMac x) (COIN_COUNT s) (COIN_COUNT s * minutes_per_coin e) (refund_code e),
       ActivityLog ''REFUND'' (clientMac x) (COIN_COUNT s) (- 1),
       WsSend (fd_after e) (WsError ERR_SUBTYPE_REFUNDABLE msg d (refund_code e)), WsClose (fd_after e)]"
    and n: "0 < COIN_COUNT s" by auto
  show r: "readable_json ?doc"
    using assms(6,8-12) n plain_printable [OF refund_code_plain] by (simp add: refund_of_def refund_doc_def)
  then have "5 \<le> length (ser ?doc)" unfolding refund_of_def refund_doc_def by (rule json_codec.ser_member [OF assms(1)]) simp
  then have ne: "ser ?doc \<noteq> []" by auto
  show "parse (ser ?doc) = Some ?doc" by (rule json_codec.parse_ser [OF assms(1) r])
  have "refunds_text ?fs = refunds_text fs @ ser ?doc @ NL" by (simp add: write_logs_refunds a map_filter_simps refund_of_def)
  moreover from this ne obtain body where body: "?fs ''/refunds.log'' = Some body"
    by (cases "?fs ''/refunds.log''") (auto simp: refunds_text_def)
  ultimately have "body = refunds_text fs @ ser ?doc @ NL" by (simp add: refunds_text_def)
  then have "entries_of body = entries_of (refunds_text fs) @ [ser ?doc]"
    using entries_append [OF assms(2)] json_codec.entries_of_line [OF assms(1) r ne] by simp
  with body show "\<exists>body. ?fs ''/refunds.log'' = Some body \<and> entries_of body = entries_of (refunds_text fs) @ [ser ?doc]" by blast
qed

lemma refund_line_of:
  assumes "0 < COIN_COUNT s" and "COIN_COUNT s < 2 ^ 31" and "COIN_COUNT s * minutes_per_coin e \<in> {0..<2 ^ 31}" and "0 < t" and "t < 2 ^ 31"
  shows "refund_line (refund_of e t x s) = formatTimestamp t @ ''  '' @ clientMac x @ ''  '' @ dec_int (COIN_COUNT s) @ '' coin(s)''
     @ '' / '' @ dec_int (COIN_COUNT s * minutes_per_coin e) @ '' min'' @ ''  Code: '' @ refund_code e @ NL"
  using assms by (simp add: refund_line_def refund_of_def refund_doc_def)

section \<open>Properties\<close>

text \<open>C11: The code in the customer's hand is on the operator's page. When the controller refuses the time and the
  customer is connected, the message to the customer carries the code that the last line of the refund page
  shows, with the address of the customer, the coins and their minutes; the lines before are kept.\<close>
theorem refund_code_on_page:
  assumes "json_codec parse ser" and "complete_log (refunds_text fs)"
    and "finalizeSession e False nc c s = (c', s', a)" and "settlement e nc c s = Failed msg d ERR_SUBTYPE_REFUNDABLE"
    and "client_connected e" and "refund_code e = generateRefundCode randoms"
    and "fst (settle e (COIN_COUNT s) nc (findByIp c (ip_render e (clientIpV4 (COIN_SESSION_SLOT s))))) = Some x"
    and "printable (clientMac x)" and "COIN_COUNT s < 2 ^ 31" and "COIN_COUNT s * minutes_per_coin e \<in> {0..<2 ^ 31}" and "0 < t" and "t < 2 ^ 31"
  shows "WsSend (fd_after e) (WsError ERR_SUBTYPE_REFUNDABLE msg d (refund_code e)) \<in> set a
    \<and> handleRefunds parse (log_of ''/refunds.log'' (write_logs ser (map (Pair t) a) fs))
        = Page 200 (refunds_shown parse (entries_of (refunds_text fs))
            @ formatTimestamp t @ ''  '' @ clientMac x @ ''  '' @ dec_int (COIN_COUNT s) @ '' coin(s)''
            @ '' / '' @ dec_int (COIN_COUNT s * minutes_per_coin e) @ '' min'' @ ''  Code: '' @ refund_code e @ NL)"
proof -
  from refunded_actions [OF assms(3-5)] have "WsSend (fd_after e) (WsError ERR_SUBTYPE_REFUNDABLE msg d (refund_code e)) \<in> set a"
    and n: "0 < COIN_COUNT s" by auto
  moreover obtain body where "write_logs ser (map (Pair t) a) fs ''/refunds.log'' = Some body"
    "entries_of body = entries_of (refunds_text fs) @ [ser (refund_of e t x s)]"
    using refund_logged(3) [OF assms] by blast
  ultimately show ?thesis
    using refund_logged(2) [OF assms] refund_line_of [OF n assms(9-12)] by (simp add: page_entries refunds_shown_append)
qed

text \<open>C39: A refund is forgotten by a restart a day later. The purge at the start keeps the line exactly when it is
  not older than 24 hours; after that the page no longer knows the code that the customer holds. The flash has
  room for the copy of this log; the purges of the others may go as they like.\<close>
theorem refund_kept_one_day:
  assumes "compact_codec parse ser" and "complete_log (refunds_text fs)"
    and "finalizeSession e False nc c s = (c', s', a)" and "settlement e nc c s = Failed msg d ERR_SUBTYPE_REFUNDABLE"
    and "client_connected e" and "refund_code e = generateRefundCode randoms"
    and "fst (settle e (COIN_COUNT s) nc (findByIp c (ip_render e (clientIpV4 (COIN_SESSION_SLOT s))))) = Some x"
    and "printable (clientMac x)" and "COIN_COUNT s < 2 ^ 31" and "COIN_COUNT s * minutes_per_coin e \<in> {0..<2 ^ 31}"
    and "NTP_EPOCH_MIN \<le> t" and "t < 2 ^ 31" and "io ''/refunds.log'' = flash_ok"
  shows "handleRefunds parse (log_of ''/refunds.log'' (setupLogs io now (write_logs ser (map (Pair t) a) fs)))
    = Page 200 (refunds_shown parse (filter (\<lambda>l. \<not> too_old (now - 86400) l) (entries_of (refunds_text fs)))
        @ (if now - 86400 \<le> t then refund_line (refund_of e t x s) else []))"
proof -
  have codec: "json_codec parse ser" using assms(1) by (simp add: compact_codec_def)
  have t: "0 < t" using assms(11) by simp
  note log = refund_logged [OF codec assms(2-10) t assms(12)]
  obtain body where body: "write_logs ser (map (Pair t) a) fs ''/refunds.log'' = Some body"
    "entries_of body = entries_of (refunds_text fs) @ [ser (refund_of e t x s)]" using log(3) by blast
  obtain c2 where c2: "setupLogs io now (write_logs ser (map (Pair t) a) fs) ''/refunds.log'' = Some c2"
    "entries_of c2 = filter (\<lambda>l. \<not> too_old (now - 86400) l) (entries_of body)"
    using setupLogs_refunds [where fs = "write_logs ser (map (Pair t) a) fs" and io = io, OF body(1) assms(13)] by blast
  have "line_ts (ser (refund_of e t x s)) = t"
    using compact_codec.line_ts_ser [OF assms(1) log(1) [unfolded refund_of_def refund_doc_def]] t assms(12)
    by (simp add: refund_of_def refund_doc_def)
  then have "too_old (now - 86400) (ser (refund_of e t x s)) \<longleftrightarrow> \<not> now - 86400 \<le> t" using assms(11) by (auto simp: too_old_def)
  then show ?thesis using body(2) c2 log(2) by (simp add: page_entries refunds_shown_append)
qed

text \<open>Inputs of the witnesses: the controller does not answer.\<close>

definition demo_refused :: settle_env where "demo_refused = demo_settle True (Some ''Auth: timeout'')"

definition demo_refused_session :: session_params where
  "demo_refused_session = the (findByIp demo_cache ''10.0.0.7'')"

lemma demo_refusal:
  "settlement demo_refused [(''AA'', 1)] demo_cache (coin demo_finalizing)
     = Failed ''Failed to connect to controller'' ''Auth: timeout'' ERR_SUBTYPE_REFUNDABLE"
  "client_connected demo_refused"
  "refund_code demo_refused = generateRefundCode [0, 1, 2, 24, 25, 26]"
  "fst (settle demo_refused (COIN_COUNT (coin demo_finalizing)) [(''AA'', 1)]
     (findByIp demo_cache (ip_render demo_refused (clientIpV4 (COIN_SESSION_SLOT (coin demo_finalizing)))))) = Some demo_refused_session"
  "clientMac demo_refused_session = ''CC''"
  by code_simp+

lemma demo_refund_facts:
  "printable ''CC''" "COIN_COUNT (coin demo_finalizing) = 1" "minutes_per_coin demo_refused = 24" "complete_log (refunds_text Map.empty)"
  "entries_of (refunds_text Map.empty) = []"
  by (simp_all add: printable_def demo_finalizing_def demo_coin_def demo_refused_def demo_settle_def refunds_text_def complete_log_def entries_of_def)

theorem refund_code_on_page_witness:
  "\<exists>a before. snd (snd (finalizeSession demo_refused False [(''AA'', 1)] demo_cache (coin demo_finalizing))) = a
     \<and> handleRefunds read_json (log_of ''/refunds.log'' (write_logs show_json (map (Pair 1754000000) a) Map.empty))
         = Page 200 (before @ ''  Code: '' @ generateRefundCode [0, 1, 2, 24, 25, 26] @ NL)"
proof -
  let ?f = "finalizeSession demo_refused False [(''AA'', 1)] demo_cache (coin demo_finalizing)"
  have f: "?f = (fst ?f, fst (snd ?f), snd (snd ?f))" by simp
  have bounds: "COIN_COUNT (coin demo_finalizing) < 2 ^ 31"
    "COIN_COUNT (coin demo_finalizing) * minutes_per_coin demo_refused \<in> {0..<2 ^ 31}" "printable (clientMac demo_refused_session)"
    by (simp_all add: demo_refund_facts demo_refusal(5))
  from refund_code_on_page [OF codec.json_codec_axioms demo_refund_facts(4) f demo_refusal(1-4) bounds(3,1,2), of 1754000000]
  have "handleRefunds read_json (log_of ''/refunds.log'' (write_logs show_json (map (Pair 1754000000) (snd (snd ?f))) Map.empty))
    = Page 200 ((refunds_shown read_json (entries_of (refunds_text Map.empty))
       @ formatTimestamp 1754000000 @ ''  '' @ clientMac demo_refused_session @ ''  '' @ dec_int (COIN_COUNT (coin demo_finalizing)) @ '' coin(s)''
       @ '' / '' @ dec_int (COIN_COUNT (coin demo_finalizing) * minutes_per_coin demo_refused) @ '' min'')
       @ ''  Code: '' @ generateRefundCode [0, 1, 2, 24, 25, 26] @ NL)"
    by (simp only: demo_refusal(3) append.assoc) simp
  then show ?thesis by blast
qed

theorem refund_kept_one_day_witness:
  "handleRefunds read_json (log_of ''/refunds.log'' (setupLogs (\<lambda>path. flash_ok) 1754100000 (write_logs show_json
     (map (Pair 1754000000) (snd (snd (finalizeSession demo_refused False [(''AA'', 1)] demo_cache (coin demo_finalizing))))) Map.empty)))
   = Page 200 (''REFUNDS'' @ NL @ ''======='' @ NL)"
proof -
  let ?f = "finalizeSession demo_refused False [(''AA'', 1)] demo_cache (coin demo_finalizing)"
  have f: "?f = (fst ?f, fst (snd ?f), snd (snd ?f))" by simp
  have bounds: "COIN_COUNT (coin demo_finalizing) < 2 ^ 31"
    "COIN_COUNT (coin demo_finalizing) * minutes_per_coin demo_refused \<in> {0..<2 ^ 31}" "printable (clientMac demo_refused_session)"
    by (simp_all add: demo_refund_facts demo_refusal(5))
  from refund_kept_one_day [OF compact.compact_codec_axioms demo_refund_facts(4) f demo_refusal(1-4) bounds(3,1,2), of 1754000000 "\<lambda>path. flash_ok" 1754100000]
  show ?thesis by (simp add: demo_refund_facts(5) refunds_shown_def map_filter_simps)
qed

end
