(* ===== verification/MoneyBackup.thy ===== *)
theory MoneyBackup
  imports JsonCodec Money
begin

text \<open>
  The money record as text (\<open>src/money_store.cpp\<close>): what is kept in NVS and what the admin's export
  gives (\<open>src/web.cpp\<close>), and how start-up and import read it. With the contract \<open>json_codec\<close> of the
  JSON library the record survives a restart, and an exported record can be restored.
\<close>

section \<open>The record as a document\<close>

definition group_json :: "money_group \<Rightarrow> json" where
  "group_json g = JObj [(''name'', JStr (mg_name g)), (''seller'', JStr (mg_seller g)), (''month'', JStr (mg_month g)),
     (''used'', JNum (mg_used g)), (''price'', JNum (mg_price g)), (''rate'', JNum (mg_rate g)),
     (''revenue'', JNum (mg_revenue g)), (''commission'', JNum (mg_commission g)), (''deleted'', JBool (mg_deleted g)),
     (''seen'', JNum (mg_seen g))]"

definition income_json :: "money_income \<Rightarrow> json" where
  "income_json i = JObj [(''vendo'', JNum (inc_vendo i)), (''voucher'', JNum (inc_voucher i))]"

definition time_member :: "string \<Rightarrow> int option \<Rightarrow> (string \<times> json) list" where
  "time_member k t = (case t of None \<Rightarrow> [] | Some n \<Rightarrow> [(k, JNum n)])"

definition money_json :: "money \<Rightarrow> json" where
  "money_json m = JObj ([(''v'', JNum 1), (''groups'', JObj (map (\<lambda>(i, g). (i, group_json g)) (money_groups m))),
     (''income'', JObj (map (\<lambda>(k, i). (k, income_json i)) (money_incomes m)))]
     @ time_member ''updated'' (money_updated m) @ time_member ''vendoMigrated'' (money_vendoMigrated m))"

definition moneyRecordJson :: "(json \<Rightarrow> string) \<Rightarrow> money \<Rightarrow> string" where
  "moneyRecordJson ser m = ser (money_json m)"

definition handleAdminMoney :: "(json \<Rightarrow> string) \<Rightarrow> money \<Rightarrow> http_reply" where
  "handleAdminMoney ser m = Reply 200 (moneyRecordJson ser m)"

text \<open>The dry run of the vendo migration, the GET of \<open>handleAdminMoneyMigrate\<close>: the months that
  \<open>moneyVendoMonths\<close> finds, and nothing written.\<close>

definition handleAdminMoneyMigrate_dry_run ::
  "(json \<Rightarrow> string) \<Rightarrow> int \<Rightarrow> (string \<times> int) list \<Rightarrow> money \<Rightarrow> http_reply" where
  "handleAdminMoneyMigrate_dry_run ser price months m =
     Reply 200 (ser (JObj [(''migrated'', JBool (moneyVendoMigrated m)), (''priceAssumption'', JNum price),
       (''months'', JObj (map (\<lambda>(month, n). (month, JNum n)) months))]))"

text \<open>The blob that a save writes; \<open>None\<close> without NVS.\<close>

definition saved_blob :: "(json \<Rightarrow> string) \<Rightarrow> bool \<Rightarrow> int \<Rightarrow> money \<Rightarrow> string option" where
  "saved_blob ser ready now m = (if ready then Some (moneyRecordJson ser (fst (moneyStoreSave ready now True m))) else None)"

section \<open>Reading it back\<close>

text \<open>A member that may be missing or of another type, with the default that follows it in the code.\<close>

fun text_field :: "json \<Rightarrow> string option" where
  "text_field (JStr s) = Some s"
| "text_field _ = None"

fun number_field :: "json \<Rightarrow> int option" where
  "number_field (JNum n) = (if - (2 ^ 31) \<le> n \<and> n < 2 ^ 31 then Some n else None)"
| "number_field _ = None"

fun flag_field :: "json \<Rightarrow> bool option" where
  "flag_field (JBool b) = Some b"
| "flag_field _ = None"

definition read_import_group :: "json \<Rightarrow> import_group" where
  "read_import_group s =
     \<lparr>ig_name = text_field (jget s ''name''), ig_seller = text_field (jget s ''seller''), ig_month = text_field (jget s ''month''),
      ig_used = number_field (jget s ''used''), ig_price = number_field (jget s ''price''), ig_rate = number_field (jget s ''rate''),
      ig_seen = number_field (jget s ''seen''), ig_deleted = flag_field (jget s ''deleted'')\<rparr>"

text \<open>A side of the income that is null is kept; one that is no number of 32 bits counts as 0.\<close>

definition read_side :: "json \<Rightarrow> int option" where
  "read_side v = (if is_null v then None else Some (as_int v))"

definition read_import_income :: "json \<Rightarrow> import_income" where
  "read_import_income s = \<lparr>ii_vendo = read_side (jget s ''vendo''), ii_voucher = read_side (jget s ''voucher'')\<rparr>"

definition read_import :: "json \<Rightarrow> import_doc" where
  "read_import d =
     \<lparr>in_groups = map (\<lambda>(i, s). (i, read_import_group s)) (members (jget d ''groups'')),
      in_income = map (\<lambda>(k, s). (k, read_import_income s)) (members (jget d ''income''))\<rparr>"

text \<open>The record in memory is the parsed document with the top-level shape made sure; its fields are
  what the code reads of it.\<close>

definition read_group :: "json \<Rightarrow> money_group" where
  "read_group g =
     \<lparr>mg_name = str_or [] (jget g ''name''), mg_seller = str_or [] (jget g ''seller''), mg_month = str_or [] (jget g ''month''),
      mg_used = int_or 0 (jget g ''used''), mg_price = int_or 0 (jget g ''price''), mg_rate = int_or 0 (jget g ''rate''),
      mg_revenue = int_or 0 (jget g ''revenue''), mg_commission = int_or 0 (jget g ''commission''),
      mg_deleted = bool_or False (jget g ''deleted''), mg_seen = int_or 0 (jget g ''seen'')\<rparr>"

definition read_income :: "json \<Rightarrow> money_income" where
  "read_income i = \<lparr>inc_vendo = int_or 0 (jget i ''vendo''), inc_voucher = int_or 0 (jget i ''voucher'')\<rparr>"

definition read_record :: "json \<Rightarrow> money" where
  "read_record d =
     \<lparr>money_groups = map (\<lambda>(i, g). (i, read_group g)) (members (jget d ''groups'')),
      money_incomes = map (\<lambda>(k, i). (k, read_income i)) (members (jget d ''income'')),
      money_updated = number_field (jget d ''updated''), money_vendoMigrated = number_field (jget d ''vendoMigrated'')\<rparr>"

definition parse_record :: "(string \<Rightarrow> json option) \<Rightarrow> string \<Rightarrow> money option" where
  "parse_record parse s = map_option read_record (parse s)"

section \<open>Records within bounds\<close>

abbreviation long_range :: "int set" where "long_range \<equiv> {- (2 ^ 31)..<2 ^ 31}"

definition group_bounds :: "money_group \<Rightarrow> bool" where
  "group_bounds g \<longleftrightarrow> printable (mg_name g) \<and> printable (mg_seller g) \<and> printable (mg_month g)
     \<and> {mg_used g, mg_price g, mg_rate g, mg_revenue g, mg_commission g, mg_seen g} \<subseteq> long_range"

definition income_bounds :: "money_income \<Rightarrow> bool" where
  "income_bounds i \<longleftrightarrow> {inc_vendo i, inc_voucher i} \<subseteq> long_range"

definition record_bounds :: "money \<Rightarrow> bool" where
  "record_bounds m \<longleftrightarrow> (\<forall>(i, g) \<in> set (money_groups m). plain i \<and> group_bounds g)
     \<and> (\<forall>(k, i) \<in> set (money_incomes m). plain k \<and> income_bounds i)
     \<and> pred_option (\<lambda>t. t \<in> long_range) (money_updated m) \<and> pred_option (\<lambda>t. t \<in> long_range) (money_vendoMigrated m)"

lemma read_group_json [simp]: "group_bounds g \<Longrightarrow> read_group (group_json g) = g"
  by (simp add: read_group_def group_json_def group_bounds_def)

lemma read_income_json [simp]: "income_bounds i \<Longrightarrow> read_income (income_json i) = i"
  by (simp add: read_income_def income_json_def income_bounds_def)

lemma readable_record: "record_bounds m \<Longrightarrow> readable_json (money_json m)"
  by (cases "money_updated m"; cases "money_vendoMigrated m")
    (auto simp: money_json_def record_bounds_def group_json_def group_bounds_def income_json_def income_bounds_def
      time_member_def list_all_iff)

lemma map_pairs_id: "(\<forall>(i, x) \<in> set xs. f (g x) = x) \<Longrightarrow> map ((\<lambda>(i, y). (i, f y)) \<circ> (\<lambda>(i, x). (i, g x))) xs = xs"
  by (rule map_idI) auto

lemma read_record_json: "record_bounds m \<Longrightarrow> read_record (money_json m) = m"
  by (cases m) (auto simp: read_record_def money_json_def record_bounds_def time_member_def jget_def
      intro!: map_pairs_id split: option.splits)

section \<open>Restoring into an empty record\<close>

definition exported_group :: "money_group \<Rightarrow> import_group" where
  "exported_group g = \<lparr>ig_name = Some (mg_name g), ig_seller = Some (mg_seller g), ig_month = Some (mg_month g),
     ig_used = Some (mg_used g), ig_price = Some (mg_price g), ig_rate = Some (mg_rate g), ig_seen = Some (mg_seen g),
     ig_deleted = Some (mg_deleted g)\<rparr>"

definition exported_income :: "money_income \<Rightarrow> import_income" where
  "exported_income i = \<lparr>ii_vendo = Some (inc_vendo i), ii_voucher = Some (inc_voucher i)\<rparr>"

lemma read_import_json:
  assumes "record_bounds m"
  shows "read_import (money_json m) = \<lparr>in_groups = map (\<lambda>(i, g). (i, exported_group g)) (money_groups m),
     in_income = map (\<lambda>(k, i). (k, exported_income i)) (money_incomes m)\<rparr>"
proof -
  have "read_import_group (group_json g) = exported_group g" if "group_bounds g" for g
    using that by (simp add: read_import_group_def group_json_def exported_group_def group_bounds_def)
  moreover have "read_import_income (income_json i) = exported_income i" if "income_bounds i" for i
    using that by (simp add: read_import_income_def income_json_def exported_income_def income_bounds_def read_side_def as_int_def)
  ultimately show ?thesis
    using assms by (auto simp: read_import_def money_json_def record_bounds_def jget_def)
qed

text \<open>Setting a new key puts it at the end.\<close>

lemma obj_set_new: "k \<notin> fst ` set m \<Longrightarrow> obj_set k v m = m @ [(k, v)]"
  by (induction k v m rule: obj_set.induct) auto

lemma obj_set_last: "k \<notin> fst ` set m \<Longrightarrow> obj_set k w (m @ [(k, v)]) = m @ [(k, w)]"
  by (induction m) auto

lemma import_new_group:
  assumes "i \<notin> fst ` set (money_groups m)" and "group_ok g"
  shows "import_group_entry (i, exported_group g) (m, n) = (m\<lparr>money_groups := money_groups m @ [(i, g)]\<rparr>, n + 1)"
proof -
  have "map_of (money_groups m) i = None" using assms(1) by (simp add: map_of_eq_None_iff)
  with assms show ?thesis
    by (cases g) (auto simp: import_group_entry_def already_counted_def upsert_import_def moneyUpsertGroup_def mark_deleted_def
        exported_group_def group_ok_def obj_set_new obj_set_last map_add_def Let_def)
qed

lemma import_new_groups:
  "distinct (map fst gs) \<Longrightarrow> \<forall>(i, g) \<in> set gs. group_ok g \<Longrightarrow> fst ` set gs \<inter> fst ` set (money_groups m) = {}
     \<Longrightarrow> \<exists>n'. fold import_group_entry (map (\<lambda>(i, g). (i, exported_group g)) gs) (m, n)
       = (m\<lparr>money_groups := money_groups m @ gs\<rparr>, n')"
proof (induction gs arbitrary: m n)
  case (Cons e gs)
  obtain i g where e: "e = (i, g)" by (cases e)
  let ?m = "m\<lparr>money_groups := money_groups m @ [(i, g)]\<rparr>"
  have "import_group_entry (i, exported_group g) (m, n) = (?m, n + 1)"
    using Cons.prems by (intro import_new_group) (auto simp: e)
  moreover have "fst ` set gs \<inter> fst ` set (money_groups ?m) = {}" using Cons.prems by (auto simp: e)
  with Cons.IH [of ?m "n + 1"] Cons.prems obtain n' where
    "fold import_group_entry (map (\<lambda>(i, g). (i, exported_group g)) gs) (?m, n + 1) = (?m\<lparr>money_groups := money_groups ?m @ gs\<rparr>, n')"
    by auto
  ultimately show ?case by (simp add: e)
qed simp

lemma import_new_incomes:
  "distinct (map fst is) \<Longrightarrow> fst ` set is \<inter> fst ` set (money_incomes m) = {}
     \<Longrightarrow> \<exists>n'. fold import_income_entry (map (\<lambda>(k, i). (k, exported_income i)) is) (m, n)
       = (m\<lparr>money_incomes := money_incomes m @ is\<rparr>, n')"
proof (induction "is" arbitrary: m n)
  case (Cons e "is")
  obtain k i where e: "e = (k, i)" by (cases e)
  let ?m = "m\<lparr>money_incomes := money_incomes m @ [(k, i)]\<rparr>"
  have "import_income_entry (k, exported_income i) (m, n) = (?m, n + 1)"
    using Cons.prems by (cases i) (auto simp: e import_income_entry_def exported_income_def moneySetIncome_def obj_set_new)
  moreover have "fst ` set is \<inter> fst ` set (money_incomes ?m) = {}" using Cons.prems by (auto simp: e)
  with Cons.IH [of ?m "n + 1"] Cons.prems obtain n' where
    "fold import_income_entry (map (\<lambda>(k, i). (k, exported_income i)) is) (?m, n + 1) = (?m\<lparr>money_incomes := money_incomes ?m @ is\<rparr>, n')"
    by auto
  ultimately show ?case by (simp add: e)
qed simp

section \<open>Importing a record into itself\<close>

lemma import_known_groups:
  "\<forall>(i, g) \<in> set gs. map_of (money_groups m) i = Some g
     \<Longrightarrow> fold import_group_entry (map (\<lambda>(i, g). (i, exported_group g)) gs) (m, n) = (m, n)"
  by (induction gs) (auto simp: import_group_entry_def already_counted_def exported_group_def)

lemma import_known_incomes:
  "\<forall>(k, i) \<in> set is. map_of (money_incomes m) k = Some i
     \<Longrightarrow> \<exists>n'. fold import_income_entry (map (\<lambda>(k, i). (k, exported_income i)) is) (m, n) = (m, n')"
  by (induction "is" arbitrary: n)
    (auto simp: import_income_entry_def exported_income_def moneySetIncome_def obj_set_same)

lemma moneyImport_export:
  assumes "json_codec parse ser" and "record_bounds x"
  shows "moneyImport ready now written (map_option read_import (parse (moneyRecordJson ser x))) m =
     (let (m1, n1) = fold import_group_entry (map (\<lambda>(i, g). (i, exported_group g)) (money_groups x)) (m, 0);
          (m2, n2) = fold import_income_entry (map (\<lambda>(k, i). (k, exported_income i)) (money_incomes x)) (m1, n1)
      in (fst (moneyStoreSave ready now written m2), Some n2))"
  using json_codec.parse_ser [OF assms(1) readable_record [OF assms(2)]] read_import_json [OF assms(2)]
  by (simp add: moneyRecordJson_def moneyImport_def)

section \<open>Properties\<close>

text \<open>The money record survives a restart: what a save writes is the record that the next start reads.\<close>
theorem record_survives_restart:
  assumes "json_codec parse ser" and "record_bounds m" and "now \<in> long_range"
  shows "moneyStoreBegin True (saved_blob ser True now m) (parse_record parse) = (fst (moneyStoreSave True now True m), True)"
proof -
  have "record_bounds (fst (moneyStoreSave True now True m))"
    using assms(2,3) by (simp add: moneyStoreSave_def record_bounds_def)
  then show ?thesis
    using json_codec.parse_ser [OF assms(1) readable_record]
    by (simp add: moneyStoreBegin_def saved_blob_def moneyRecordJson_def parse_record_def read_record_json)
qed

text \<open>C18: The export is a backup. The text that the admin downloads, imported into an empty record, restores every
  group of the ledger with its deletion mark and every month's income, in order; the mark that the old
  sales were migrated is not restored, so the migration can be applied again.\<close>
theorem backup_restores_record:
  assumes "json_codec parse ser" and "record_bounds m" and "ledger_ok m" and "obj_ok (money_incomes m)"
    and "handleAdminMoney ser m = Reply 200 backup"
    and "moneyImport ready now written (map_option read_import (parse backup)) empty_money = (m', touched)"
  shows "money_groups m' = money_groups m \<and> money_incomes m' = money_incomes m \<and> touched \<noteq> None \<and> \<not> moneyVendoMigrated m'"
proof -
  have b: "backup = moneyRecordJson ser m" using assms(5) by (simp add: handleAdminMoney_def)
  have g: "distinct (map fst (money_groups m))" "\<forall>(i, g) \<in> set (money_groups m). group_ok g"
    and i: "distinct (map fst (money_incomes m))"
    using assms(3,4) by (simp_all add: ledger_ok_def obj_ok_def all_values_def)
  obtain n1 where 1: "fold import_group_entry (map (\<lambda>(i, g). (i, exported_group g)) (money_groups m)) (empty_money, 0)
      = (empty_money\<lparr>money_groups := money_groups m\<rparr>, n1)"
    using import_new_groups [OF g, of empty_money 0] by (auto simp: empty_money_def)
  obtain n2 where 2: "fold import_income_entry (map (\<lambda>(k, i). (k, exported_income i)) (money_incomes m)) (empty_money\<lparr>money_groups := money_groups m\<rparr>, n1)
      = (empty_money\<lparr>money_groups := money_groups m, money_incomes := money_incomes m\<rparr>, n2)"
    using import_new_incomes [OF i, of "empty_money\<lparr>money_groups := money_groups m\<rparr>" n1] by (auto simp: empty_money_def)
  from assms(6) [unfolded b moneyImport_export [OF assms(1,2)] 1 2 Let_def prod.case]
  show ?thesis by (auto simp: moneyStoreSave_def moneyVendoMigrated_def empty_money_def)
qed

text \<open>An import of the record's own export changes nothing but the time of the last save.\<close>
theorem reimport_changes_nothing:
  assumes "json_codec parse ser" and "record_bounds m" and "ledger_ok m" and "obj_ok (money_incomes m)"
    and "moneyImport ready now written (map_option read_import (parse (moneyRecordJson ser m))) m = (m', touched)"
  shows "m' = m\<lparr>money_updated := (if ready then Some now else money_updated m)\<rparr>"
proof -
  have g: "\<forall>(i, g) \<in> set (money_groups m). map_of (money_groups m) i = Some g"
    and i: "\<forall>(k, i) \<in> set (money_incomes m). map_of (money_incomes m) k = Some i"
    using assms(3,4) by (auto simp: ledger_ok_def obj_ok_def intro: map_of_is_SomeI)
  obtain n where n: "fold import_income_entry (map (\<lambda>(k, i). (k, exported_income i)) (money_incomes m)) (m, 0) = (m, n)"
    using import_known_incomes [OF i] by blast
  from assms(5) [unfolded moneyImport_export [OF assms(1,2)] import_known_groups [OF g] Let_def prod.case n]
  show ?thesis by (auto simp: moneyStoreSave_def)
qed

text \<open>Applied after a restore, the migration replaces the restored income of every month that the sale log
  still has by what the log still has.\<close>
theorem restored_record_migrates_again:
  assumes "\<not> moneyVendoMigrated m'" and "distinct (map fst months)" and "(k, n) \<in> set months"
  shows "inc_vendo (stored_income k (fst (handleAdminMoneyMigrate ready now written months m'))) = n"
proof -
  have step: "stored_income j (fst (moneyImport ready now written (Some (vendo_only month v)) x))
      = (if j = month then (stored_income j x)\<lparr>inc_vendo := v\<rparr> else stored_income j x)" for j month v x
    by (simp add: moneyImport_def vendo_only_def import_income_entry_def)
  have "distinct (map fst months) \<Longrightarrow> stored_income k (fold (\<lambda>(month, v) m. fst (moneyImport ready now written (Some (vendo_only month v)) m)) months x)
      = (case map_of months k of None \<Rightarrow> stored_income k x | Some v \<Rightarrow> (stored_income k x)\<lparr>inc_vendo := v\<rparr>)" for x
    by (induction months arbitrary: x) (auto simp: step map_of_eq_None_iff image_iff split: option.split)
  moreover have "stored_income k (moneyMarkVendoMigrated now x) = stored_income k x" for x
    by (simp add: moneyMarkVendoMigrated_def stored_income_def)
  moreover have "map_of months k = Some n" using assms(2,3) by simp
  ultimately show ?thesis using assms(1,2) by (simp add: handleAdminMoneyMigrate_def)
qed

text \<open>Inputs of the witnesses: one live and one deleted group.\<close>

definition demo_record :: money where
  "demo_record = (moneySetIncome ''2025-07'' 30 5 (mark_deleted ''g2''
     (moneyUpsertGroup ''g2'' ''B'' ''Ana'' ''2025-06'' 2 5 20 100 (moneyUpsertGroup ''g1'' ''A'' ''Sari'' ''2025-07'' 3 5 20 200 empty_money))))
     \<lparr>money_vendoMigrated := Some 1753000000\<rparr>"

lemma demo_record_ok: "record_bounds demo_record" "ledger_ok demo_record" "obj_ok (money_incomes demo_record)"
  "moneyVendoMigrated demo_record"
proof -
  show "ledger_ok demo_record"
    unfolding demo_record_def
    by (subst ledger_ok_groups [where m' = "moneySetIncome ''2025-07'' 30 5 (mark_deleted ''g2'' (moneyUpsertGroup ''g2'' ''B'' ''Ana'' ''2025-06'' 2 5 20 100
        (moneyUpsertGroup ''g1'' ''A'' ''Sari'' ''2025-07'' 3 5 20 200 empty_money)))"])
      (simp, intro ledger_income ledger_deleted ledger_upsert, simp add: ledger_ok_def empty_money_def obj_ok_def)
  show "record_bounds demo_record" "obj_ok (money_incomes demo_record)" "moneyVendoMigrated demo_record"
    by (simp_all add: demo_record_def moneySetIncome_def mark_deleted_def moneyUpsertGroup_def empty_money_def record_bounds_def
        group_bounds_def income_bounds_def printable_def obj_ok_def moneyVendoMigrated_def signed_divide_int_def in_long_def)
qed

theorem backup_restores_record_witness:
  "money_groups (fst (moneyImport True 1754000000 True (map_option read_import (read_json (moneyRecordJson show_json demo_record))) empty_money))
     = money_groups demo_record"
proof -
  let ?i = "moneyImport True 1754000000 True (map_option read_import (read_json (moneyRecordJson show_json demo_record))) empty_money"
  have "?i = (fst ?i, snd ?i)" by simp
  moreover have "handleAdminMoney show_json demo_record = Reply 200 (moneyRecordJson show_json demo_record)"
    by (simp add: handleAdminMoney_def)
  ultimately show ?thesis
    using backup_restores_record [OF codec.json_codec_axioms demo_record_ok(1-3)] by blast
qed

theorem record_survives_restart_witness:
  "fst (moneyStoreBegin True (saved_blob show_json True 1754000000 demo_record) (parse_record read_json))
     = demo_record\<lparr>money_updated := Some 1754000000\<rparr>"
  using record_survives_restart [OF codec.json_codec_axioms demo_record_ok(1), of 1754000000] by (simp add: moneyStoreSave_def)

theorem reimport_changes_nothing_witness:
  "fst (moneyImport True 1754000000 True (map_option read_import (read_json (moneyRecordJson show_json demo_record))) demo_record)
     = demo_record\<lparr>money_updated := Some 1754000000\<rparr>"
proof -
  let ?i = "moneyImport True 1754000000 True (map_option read_import (read_json (moneyRecordJson show_json demo_record))) demo_record"
  have "?i = (fst ?i, snd ?i)" by simp
  from reimport_changes_nothing [OF codec.json_codec_axioms demo_record_ok(1-3) this] show ?thesis by simp
qed

theorem restored_record_migrates_again_witness:
  "inc_vendo (stored_income ''2025-07'' (fst (handleAdminMoneyMigrate True 1754000000 True [(''2025-07'', 4)]
     (demo_record\<lparr>money_vendoMigrated := None\<rparr>)))) = 4"
  using restored_record_migrates_again [of "demo_record\<lparr>money_vendoMigrated := None\<rparr>" "[(''2025-07'', 4)]" "''2025-07''" 4]
  by (simp add: moneyVendoMigrated_def)

end
