(* ===== verification/SlotSpec.thy ===== *)
theory SlotSpec
  imports CoinSession
begin

text \<open>
  What the coin slot promises, as a machine of its own: it is free, claimed or taking coins, and at
  most one filled slot waits for its settlement. The interleaved tasks of \<open>CoinSession\<close> refine it: their
  steps, labelled with what they do to the slot, are its events, for every order of the steps. The
  accounts of all sessions together follow from the events.
\<close>

section \<open>Runs and refinement\<close>

text \<open>A run of a relation with labels; steps without a label are internal.\<close>

inductive run :: "('s \<Rightarrow> 'e option \<Rightarrow> 's \<Rightarrow> bool) \<Rightarrow> 's \<Rightarrow> 'e list \<Rightarrow> 's \<Rightarrow> bool" for step where
  run_nil: "run step s [] s"
| run_silent: "run step s tr t \<Longrightarrow> step t None u \<Longrightarrow> run step s tr u"
| run_event: "run step s tr t \<Longrightarrow> step t (Some ev) u \<Longrightarrow> run step s (tr @ [ev]) u"

text \<open>A specification acts on events, or refuses them.\<close>

fun perform :: "('e \<Rightarrow> 'a \<Rightarrow> 'a option) \<Rightarrow> 'e list \<Rightarrow> 'a \<Rightarrow> 'a option" where
  "perform act [] s = Some s"
| "perform act (ev # tr) s = (case act ev s of None \<Rightarrow> None | Some t \<Rightarrow> perform act tr t)"

lemma perform_append: "perform act (tr @ tr') s = (case perform act tr s of None \<Rightarrow> None | Some t \<Rightarrow> perform act tr' t)"
  by (induction tr arbitrary: s) (simp_all split: option.split)

locale trace_refinement =
  fixes step :: "'s \<Rightarrow> 'e option \<Rightarrow> 's \<Rightarrow> bool" and start :: 's and inv :: "'s \<Rightarrow> bool"
    and act :: "'e \<Rightarrow> 'a \<Rightarrow> 'a option" and spec_start :: 'a and view :: "'s \<Rightarrow> 'a"
  assumes inv_start: "inv start" and inv_step: "inv s \<Longrightarrow> step s l t \<Longrightarrow> inv t"
    and view_start: "view start = spec_start"
    and view_silent: "inv s \<Longrightarrow> step s None t \<Longrightarrow> view t = view s"
    and view_event: "inv s \<Longrightarrow> step s (Some ev) t \<Longrightarrow> act ev (view s) = Some (view t)"
begin

lemma run_inv: "run step start tr s \<Longrightarrow> inv s"
  by (induction s\<equiv>start tr s rule: run.induct) (auto simp: inv_start intro: inv_step)

theorem run_performed: "run step start tr s \<Longrightarrow> perform act tr spec_start = Some (view s)"
proof (induction s\<equiv>start tr s rule: run.induct)
  case run_nil
  then show ?case by (simp add: view_start)
next
  case (run_silent tr t u)
  then show ?case using view_silent [OF run_inv] by metis
next
  case (run_event tr t ev u)
  then show ?case using view_event [OF run_inv, of tr t ev u] by (simp add: perform_append)
qed

text \<open>Whatever the specification keeps, the program keeps.\<close>

lemma spec_invariant:
  assumes "\<And>tr a. perform act tr spec_start = Some a \<Longrightarrow> P tr a" and "run step start tr s"
  shows "P tr (view s)"
  using assms run_performed by blast

end

section \<open>The slot\<close>

datatype gate = Free | Claimed | Taking int

record slot =
  gate :: gate
  settling :: "int option"

datatype slot_event =
    Claim
  | Withdraw
  | Begin
  | Coin
  | Finish
  | Settle bool int int int  \<comment> \<open>ended by fraud, the coins, the sold and the refunded ones\<close>

definition free_slot :: slot where "free_slot = \<lparr>gate = Free, settling = None\<rparr>"

fun slot_act :: "slot_event \<Rightarrow> slot \<Rightarrow> slot option" where
  "slot_act Claim s = (if gate s = Free then Some (s\<lparr>gate := Claimed\<rparr>) else None)"
| "slot_act Withdraw s = (if gate s = Claimed then Some (s\<lparr>gate := Free\<rparr>) else None)"
| "slot_act Begin s = (if gate s = Claimed \<and> settling s = None then Some (s\<lparr>gate := Taking 0\<rparr>) else None)"
| "slot_act Coin s = (case gate s of Taking n \<Rightarrow> Some (s\<lparr>gate := Taking (n + 1)\<rparr>) | _ \<Rightarrow> None)"
| "slot_act Finish s = (case (gate s, settling s) of (Taking n, None) \<Rightarrow> Some \<lparr>gate = Free, settling = Some n\<rparr> | _ \<Rightarrow> None)"
| "slot_act (Settle fraud n sale refund) s =
     (if settling s = Some n \<and> (sale = 0 \<or> sale = n) \<and> (refund = 0 \<or> refund = n) \<and> (sale = 0 \<or> refund = 0)
         \<and> (fraud \<longrightarrow> sale = 0 \<and> refund = 0)
      then Some (s\<lparr>settling := None\<rparr>) else None)"

section \<open>The steps of the tasks with their labels\<close>

fun receive_label :: "coin_event \<Rightarrow> phase \<Rightarrow> slot_event option" where
  "receive_label (COIN_SESSION_START fd ip) Idle = Some Begin"
| "receive_label (COIN_SESSION_COIN mac) (Open nc) = Some Coin"
| "receive_label _ _ = None"

inductive slot_step :: "(string \<Rightarrow> u32 option) \<Rightarrow> system \<Rightarrow> slot_event option \<Rightarrow> system \<Rightarrow> bool" for parse where
  l_claim: "claim_cas (coin y) = Some s' \<Longrightarrow>
     slot_step parse y (Some Claim) (y\<lparr>coin := s', pending := (fd, ip) # pending y\<rparr>)"
| l_post: "(fd, ip) \<in> set (pending y) \<Longrightarrow> claim_post fd ip (queue y) (coin y) = (q', s', okay) \<Longrightarrow>
     slot_step parse y (if okay then None else Some Withdraw)
       (y\<lparr>coin := s', queue := q', pending := remove1 (fd, ip) (pending y)\<rparr>)"
| l_pulse: "\<not> is_start ev \<Longrightarrow>
     slot_step parse y None (y\<lparr>queue := q_post SESSION_QUEUE_SIZE ev (queue y)\<rparr>)"
| l_socket: "coinSessionUpdateSocket parse ip fd (coin y) = (s', okay) \<Longrightarrow>
     slot_step parse y None (y\<lparr>coin := s'\<rparr>)"
| l_receive: "phase y = Idle \<or> (\<exists>nc. phase y = Open nc) \<Longrightarrow> q_receive (queue y) = Some (ev, q') \<Longrightarrow>
     session_event parse now ev (phase y) (coin y) = (ph', s', a) \<Longrightarrow>
     slot_step parse y (receive_label ev (phase y)) (y\<lparr>coin := s', queue := q', phase := ph'\<rparr>)"
| l_timeout: "phase y = Open nc \<Longrightarrow> queue y = [] \<Longrightarrow>
     slot_step parse y None (y\<lparr>phase := session_timeout (phase y)\<rparr>)"
| l_release: "phase y = Closing f nc \<Longrightarrow> session_release (phase y) (coin y) = (ph', s', a) \<Longrightarrow>
     slot_step parse y (Some Finish) (y\<lparr>coin := s', phase := ph'\<rparr>)"
| l_finalize: "phase y = Finalizing f nc \<Longrightarrow> finalizeSession e f nc c (coin y) = (c', s', a) \<Longrightarrow>
     slot_step parse y (Some (Settle f (COIN_COUNT (coin y)) (sold a) (refunded a))) (y\<lparr>coin := s', phase := Idle\<rparr>)"

text \<open>The labels add nothing and hide nothing.\<close>

lemma slot_step_sys: "slot_step parse y l z \<Longrightarrow> sys_step parse y z"
proof (induction rule: slot_step.induct)
  case (l_timeout y nc)
  then show ?case by (rule sys_step.timeout)
qed (blast intro: sys_step.intros)+

lemma sys_step_slot: "sys_step parse y z \<Longrightarrow> \<exists>l. slot_step parse y l z"
proof (induction rule: sys_step.induct)
  case (claim_post fd ip y q' s' okay)
  then show ?case by (blast intro: l_post)
qed (blast intro: slot_step.intros)+

lemma reachable_run: "reachable parse y \<Longrightarrow> \<exists>tr. run (slot_step parse) init_system tr y"
proof (induction rule: reachable.induct)
  case reach_init
  show ?case by (blast intro: run_nil)
next
  case (reach_step y z)
  then obtain tr l where tr: "run (slot_step parse) init_system tr y" "slot_step parse y l z"
    using sys_step_slot by blast
  then show ?case by (cases l) (blast intro: run_silent run_event)+
qed

section \<open>The slot that a state of the tasks shows\<close>

definition slot_of :: "system \<Rightarrow> slot" where
  "slot_of y =
     \<lparr>gate = (case phase y of
          Open nc \<Rightarrow> Taking (COIN_COUNT (coin y)) | Closing f nc \<Rightarrow> Taking (COIN_COUNT (coin y))
        | _ \<Rightarrow> if COIN_INSERT_ACTIVE (coin y) then Claimed else Free),
      settling = (case phase y of Finalizing f nc \<Rightarrow> Some (COIN_COUNT (coin y)) | _ \<Rightarrow> None)\<rparr>"

lemma slot_of_queue [simp]: "slot_of (y\<lparr>queue := q\<rparr>) = slot_of y"
  by (cases "phase y") (simp_all add: slot_of_def)

lemma fraud_accounting: "finalizeSession e True nc c s = (c', s', a) \<Longrightarrow> sold a = 0 \<and> refunded a = 0"
  by (auto simp: finalizeSession_def Let_def)

lemma settle_label:
  assumes "finalizeSession e f nc c s = (c', s', a)" and "sum_list (map snd nc) = COIN_COUNT s"
  shows "(sold a = 0 \<or> sold a = COIN_COUNT s) \<and> (refunded a = 0 \<or> refunded a = COIN_COUNT s) \<and> (sold a = 0 \<or> refunded a = 0)
    \<and> (f \<longrightarrow> sold a = 0 \<and> refunded a = 0)"
proof (cases f)
  case True
  with assms(1) fraud_accounting show ?thesis by auto
next
  case False
  with assms finalize_accounting [of e nc c s c' s' a] show ?thesis by simp
qed

lemma silent_view: "slot_step parse y l z \<Longrightarrow> sys_inv y \<Longrightarrow> l = None \<Longrightarrow> slot_of z = slot_of y"
proof (induction rule: slot_step.induct)
  case (l_post fd ip y q' s' okay)
  then have "s' = coin y" using claim_post_cases [OF l_post.hyps(2)] by (auto split: if_splits)
  then show ?case by (cases "phase y") (simp_all add: slot_of_def)
next
  case (l_socket ip fd y s' okay)
  with coin_count_update_socket [OF l_socket.hyps] show ?case by (cases "phase y") (simp_all add: slot_of_def)
next
  case (l_receive y ev q' now ph' s' a)
  then show ?case by (cases ev; cases "phase y") (auto simp: slot_of_def)
next
  case (l_timeout y nc)
  then show ?case by (simp add: slot_of_def session_timeout_def)
qed simp_all

lemma event_view: "slot_step parse y l z \<Longrightarrow> sys_inv y \<Longrightarrow> l = Some ev \<Longrightarrow> slot_act ev (slot_of y) = Some (slot_of z)"
proof (induction rule: slot_step.induct)
  case (l_claim y s' fd ip)
  then show ?case
    by (cases "phase y") (auto simp: slot_of_def claim_cas_def sys_inv_def split: if_splits)
next
  case (l_post fd ip y q' s' okay)
  then have w: "\<not> okay" "ev = Withdraw" by (auto split: if_splits)
  with claim_post_cases [OF l_post.hyps(2)] have s': "s' = (coin y)\<lparr>COIN_INSERT_ACTIVE := False\<rparr>" by simp
  have "0 < length (pending y)" using l_post.hyps(1) by (cases "pending y") auto
  with l_post.prems(1) have "COIN_INSERT_ACTIVE (coin y)" "\<not> holds_slot (phase y)" by (auto simp: sys_inv_def split: if_splits)
  then show ?case by (cases "phase y") (simp_all add: slot_of_def w s')
next
  case (l_receive y ev' q' now ph' s' a)
  have q: "queue y = ev' # q'" using l_receive.hyps(2) by (auto simp: q_receive_def split: list.splits)
  from l_receive show ?case
    by (cases ev'; cases "phase y")
      (auto simp: slot_of_def sys_inv_def q session_start_def session_coin_def split: if_splits)
next
  case (l_release y f nc ph' s' a)
  then show ?case by (auto simp: slot_of_def session_release_def)
next
  case (l_finalize y f nc e c c' s' a)
  then have "sum_list (map snd nc) = COIN_COUNT (coin y)" by (simp add: sys_inv_def)
  with settle_label [OF l_finalize.hyps(2)] finalize_state [OF l_finalize.hyps(2)] l_finalize show ?case
    by (auto simp: slot_of_def)
qed simp_all

interpretation slot: trace_refinement "slot_step parse" init_system sys_inv slot_act free_slot slot_of for parse
proof
  fix y z :: system and l ev
  show "sys_inv init_system" by (rule sys_inv_init)
  show "sys_inv y \<Longrightarrow> slot_step parse y l z \<Longrightarrow> sys_inv z" using sys_inv_step slot_step_sys by blast
  show "slot_of init_system = free_slot" by (simp add: slot_of_def init_system_def free_slot_def)
  show "sys_inv y \<Longrightarrow> slot_step parse y None z \<Longrightarrow> slot_of z = slot_of y" using silent_view by blast
  show "sys_inv y \<Longrightarrow> slot_step parse y (Some ev) z \<Longrightarrow> slot_act ev (slot_of y) = Some (slot_of z)" using event_view by blast
qed

section \<open>The accounts of a history\<close>

fun taken_of :: "slot_event \<Rightarrow> int" where "taken_of Coin = 1" | "taken_of _ = 0"
fun sold_of :: "slot_event \<Rightarrow> int" where "sold_of (Settle f n s r) = s" | "sold_of _ = 0"
fun refunded_of :: "slot_event \<Rightarrow> int" where "refunded_of (Settle f n s r) = r" | "refunded_of _ = 0"
fun kept_of :: "slot_event \<Rightarrow> int" where "kept_of (Settle f n s r) = n - s - r" | "kept_of _ = 0"

definition tally :: "(slot_event \<Rightarrow> int) \<Rightarrow> slot_event list \<Rightarrow> int" where
  "tally f tr = sum_list (map f tr)"

text \<open>The coins that are in the slot: of the open session and of the one being settled.\<close>

definition held :: "slot \<Rightarrow> int" where
  "held s = (case gate s of Taking n \<Rightarrow> n | _ \<Rightarrow> 0) + (case settling s of Some n \<Rightarrow> n | None \<Rightarrow> 0)"

definition slot_sound :: "slot \<Rightarrow> bool" where
  "slot_sound s \<longleftrightarrow> (\<forall>n. gate s = Taking n \<longrightarrow> 0 \<le> n \<and> settling s = None) \<and> (\<forall>n. settling s = Some n \<longrightarrow> 0 \<le> n)"

lemma tally_append [simp]: "tally f [] = 0" "tally f (tr @ [ev]) = tally f tr + f ev"
  by (simp_all add: tally_def)

lemma act_accounts:
  "slot_act ev s = Some t \<Longrightarrow> slot_sound s \<Longrightarrow> slot_sound t
     \<and> taken_of ev = sold_of ev + refunded_of ev + kept_of ev + (held t - held s)
     \<and> 0 \<le> sold_of ev \<and> 0 \<le> refunded_of ev \<and> 0 \<le> kept_of ev"
  by (cases ev; cases "gate s"; cases "settling s") (auto simp: slot_sound_def held_def split: if_splits)

lemma spec_accounts:
  "perform slot_act tr free_slot = Some s \<Longrightarrow> slot_sound s
     \<and> tally taken_of tr = tally sold_of tr + tally refunded_of tr + tally kept_of tr + held s
     \<and> 0 \<le> tally sold_of tr \<and> 0 \<le> tally refunded_of tr \<and> 0 \<le> tally kept_of tr"
proof (induction tr arbitrary: s rule: rev_induct)
  case Nil
  then show ?case by (auto simp: free_slot_def slot_sound_def held_def)
next
  case (snoc ev tr)
  then obtain t where t: "perform slot_act tr free_slot = Some t" "slot_act ev t = Some s"
    by (auto simp: perform_append split: option.splits)
  with snoc.IH [OF t(1)] act_accounts [OF t(2)] show ?case by simp
qed

lemma held_view:
  "sys_inv y \<Longrightarrow> held (slot_of y) = (if holds_slot (phase y) \<or> (\<exists>f nc. phase y = Finalizing f nc) then COIN_COUNT (coin y) else 0)"
  by (cases "phase y") (auto simp: held_def slot_of_def)

section \<open>Properties\<close>

text \<open>C6: The tasks implement the slot. Every state that the interleaved tasks can reach has a history of slot
  events, given by what the steps do, that the slot's machine performs from the free slot, and it ends
  in the slot that the state shows: free, claimed or taking coins, with at most one settlement at a time.\<close>
theorem tasks_refine_slot:
  assumes "reachable parse y"
  shows "\<exists>tr. run (slot_step parse) init_system tr y \<and> perform slot_act tr free_slot = Some (slot_of y)"
  using reachable_run [OF assms] slot.run_performed by blast

text \<open>C7: The accounts of all sessions. In every history of the tasks, whatever the order of their steps, the coins taken are the
  coins sold, the coins refunded, the coins kept (by a fraud, or by a settlement that left no refund) and
  the coins still in the slot; so never more is sold and refunded than was taken.\<close>
theorem history_accounts:
  assumes "run (slot_step parse) init_system tr y"
  shows "tally taken_of tr = tally sold_of tr + tally refunded_of tr + tally kept_of tr
      + (if holds_slot (phase y) \<or> (\<exists>f nc. phase y = Finalizing f nc) then COIN_COUNT (coin y) else 0)
    \<and> tally sold_of tr + tally refunded_of tr \<le> tally taken_of tr"
proof -
  have inv: "sys_inv y" using slot.run_inv [OF assms] .
  note acc = spec_accounts [OF slot.run_performed [OF assms]]
  have "0 \<le> held (slot_of y)"
    using acc by (auto simp: slot_sound_def held_def split: gate.splits option.splits)
  with acc held_view [OF inv] show ?thesis by simp
qed

theorem tasks_refine_slot_witness:
  "\<exists>tr. perform slot_act tr free_slot = Some \<lparr>gate = Free, settling = Some 1\<rparr>"
proof -
  have "slot_of demo_finalizing = \<lparr>gate = Free, settling = Some 1\<rparr>"
    by (simp add: slot_of_def demo_finalizing_def demo_closing_def demo_coin_def)
  with tasks_refine_slot [OF reachable_finalizing] show ?thesis by auto
qed

theorem history_accounts_witness:
  "\<exists>tr. tally taken_of tr = tally sold_of tr + tally refunded_of tr + tally kept_of tr + 1"
proof -
  obtain tr where tr: "run (slot_step demo_parse) init_system tr demo_finalizing"
    using reachable_run [OF reachable_finalizing] by blast
  have "phase demo_finalizing = Finalizing False [(''AA'', 1)]" "COIN_COUNT (coin demo_finalizing) = 1"
    by (simp_all add: demo_finalizing_def demo_coin_def)
  moreover have "\<exists>f. \<not> f" by blast
  ultimately show ?thesis using history_accounts [OF tr] by auto
qed

end
