(* ===== verification/Resources.thy ===== *)
theory Resources
  imports Files
begin

text \<open>
  The two lines that \<open>logResources\<close> of \<open>src/main.cpp\<close> writes at start-up, when a resource gets tight and when
  the master goes out of service, with the counters of the failed-allocation hook. They must fit an
  entry of the log ring, which cuts a message at 127 characters.
\<close>

section \<open>The counters and the lines\<close>

record alloc_failures =
  ALLOC_FAIL_COUNT :: u32
  ALLOC_FAIL_LAST :: u32

text \<open>The hook may not allocate: it only counts.\<close>

definition count_failure :: "u32 \<Rightarrow> alloc_failures \<Rightarrow> alloc_failures" where
  "count_failure bytes s = s\<lparr>ALLOC_FAIL_COUNT := ALLOC_FAIL_COUNT s + 1, ALLOC_FAIL_LAST := bytes\<rparr>"

text \<open>What the platform answers. A queue that does not exist yet counts as empty, and so does a file system
  without a size.\<close>

record resource_readings =
  dramFree :: nat
  largest :: nat
  minHeap :: nat
  psram :: nat
  sockets :: nat
  max_open_sockets :: nat
  ws_waiting :: nat
  pulse_waiting :: "nat option"
  session_waiting :: "nat option"
  tlsInFlight :: int
  fs_total :: u32
  fs_used :: u32
  nvs_free :: nat
  nvs_total :: nat

definition resource_memory :: "string \<Rightarrow> alloc_failures \<Rightarrow> resource_readings \<Rightarrow> string" where
  "resource_memory ctx s r =
     ''RES '' @ ctx @ '' mem: dramFree='' @ dec (dramFree r) @ '' largest='' @ dec (largest r) @ '' minHeap='' @ dec (minHeap r)
     @ '' psram='' @ dec (psram r) @ '' allocFails='' @ dec (unat (ALLOC_FAIL_COUNT s)) @ ''(last='' @ dec (unat (ALLOC_FAIL_LAST s)) @ '')''"

definition waiting :: "nat option \<Rightarrow> nat" where
  "waiting q = (case q of None \<Rightarrow> 0 | Some n \<Rightarrow> n)"

text \<open>The difference is one of 32-bit sizes.\<close>

definition fs_free :: "resource_readings \<Rightarrow> u32" where
  "fs_free r = (if fs_total r \<noteq> 0 then fs_total r - fs_used r else 0)"

definition resource_io :: "string \<Rightarrow> resource_readings \<Rightarrow> string" where
  "resource_io ctx r =
     ''RES '' @ ctx @ '' io: sockets='' @ dec (sockets r) @ ''/'' @ dec (max_open_sockets r) @ '' wsq='' @ dec (ws_waiting r)
     @ '' pulseQ='' @ dec (waiting (pulse_waiting r)) @ '' sessQ='' @ dec (waiting (session_waiting r))
     @ '' tls='' @ dec_int (tlsInFlight r) @ '' fsFree='' @ dec (unat (fs_free r))
     @ '' nvsFree='' @ dec (nvs_free r) @ ''/'' @ dec (nvs_total r)"

definition logResources :: "string \<Rightarrow> alloc_failures \<Rightarrow> resource_readings \<Rightarrow> string list" where
  "logResources ctx s r = [resource_memory ctx s r, resource_io ctx r]"

section \<open>Lengths\<close>

lemma length_dec_fuel: "n < f \<Longrightarrow> n < 10 ^ Suc k \<Longrightarrow> length (dec_fuel f n) \<le> Suc k"
proof (induction f n arbitrary: k rule: dec_fuel.induct)
  case (2 f n)
  show ?case
  proof (cases "n < 10")
    case False
    then obtain j where j: "k = Suc j" using "2.prems"(2) by (cases k) auto
    have "n div 10 < f" "n div 10 < 10 ^ Suc j"
      using "2.prems" False j by (auto simp: less_mult_imp_div_less)
    with 2 False show ?thesis by (simp add: j)
  qed simp
qed simp

lemma length_dec: "n < 10 ^ Suc k \<Longrightarrow> length (dec n) \<le> Suc k"
  unfolding dec_def by (rule length_dec_fuel) simp_all

lemma dec_lengths:
  "n < 10 \<Longrightarrow> length (dec n) \<le> 1" "n < 100 \<Longrightarrow> length (dec n) \<le> 2" "n < 1000 \<Longrightarrow> length (dec n) \<le> 3"
  "n < 10000 \<Longrightarrow> length (dec n) \<le> 4" "n < 1000000 \<Longrightarrow> length (dec n) \<le> 6" "n < 100000000 \<Longrightarrow> length (dec n) \<le> 8"
  using length_dec [of n 0] length_dec [of n 1] length_dec [of n 2] length_dec [of n 3] length_dec [of n 5] length_dec [of n 7]
  by simp_all

lemma dec_word: "length (dec (unat (w :: u32))) \<le> 10"
  using length_dec [of "unat w" 9] unsigned_less [of w, where ?'a = nat] by simp

text \<open>The board: 512 KB of internal memory, PSRAM and flash of some MB, queues and sockets by the tens.\<close>

definition board_bounds :: "resource_readings \<Rightarrow> bool" where
  "board_bounds r \<longleftrightarrow> dramFree r < 1000000 \<and> largest r < 1000000 \<and> minHeap r < 1000000 \<and> psram r < 100000000
     \<and> sockets r < 100 \<and> max_open_sockets r < 100 \<and> ws_waiting r < 100 \<and> waiting (pulse_waiting r) < 1000
     \<and> waiting (session_waiting r) < 1000 \<and> 0 \<le> tlsInFlight r \<and> tlsInFlight r < 100
     \<and> nvs_free r < 10000 \<and> nvs_total r < 10000"

lemma memory_length:
  assumes "board_bounds r" and "length ctx \<le> 17"
  shows "length (resource_memory ctx s r) \<le> 126"
proof -
  have "length (dec (dramFree r)) \<le> 6" "length (dec (largest r)) \<le> 6" "length (dec (minHeap r)) \<le> 6" "length (dec (psram r)) \<le> 8"
    using assms(1) by (auto simp: board_bounds_def intro: dec_lengths)
  with dec_word [of "ALLOC_FAIL_COUNT s"] dec_word [of "ALLOC_FAIL_LAST s"] assms(2) show ?thesis
    by (simp add: resource_memory_def)
qed

lemma io_length:
  assumes "board_bounds r" and "length ctx \<le> 17"
  shows "length (resource_io ctx r) \<le> 126"
proof -
  have "nat (tlsInFlight r) < 100" using assms(1) by (simp add: board_bounds_def nat_less_iff)
  then have "length (dec (sockets r)) \<le> 2" "length (dec (max_open_sockets r)) \<le> 2" "length (dec (ws_waiting r)) \<le> 2"
    "length (dec (waiting (pulse_waiting r))) \<le> 3" "length (dec (waiting (session_waiting r))) \<le> 3"
    "length (dec (nat (tlsInFlight r))) \<le> 2" "length (dec (nvs_free r)) \<le> 4" "length (dec (nvs_total r)) \<le> 4"
    using assms(1) by (auto simp: board_bounds_def intro: dec_lengths)
  moreover have "dec_int (tlsInFlight r) = dec (nat (tlsInFlight r))" using assms(1) by (simp add: dec_int_def board_bounds_def)
  ultimately show ?thesis using assms(2) dec_word [of "fs_free r"] by (simp add: resource_io_def)
qed

section \<open>In the log\<close>

text \<open>Both lines as warnings of the same moment.\<close>

definition log_resources :: "(json \<Rightarrow> string) \<Rightarrow> u32 \<Rightarrow> int \<Rightarrow> string \<Rightarrow> alloc_failures \<Rightarrow> resource_readings \<Rightarrow> log_buffer \<times> fs \<Rightarrow> log_buffer \<times> fs" where
  "log_resources ser ms now ctx s r t =
     fold (\<lambda>line (b, fs). case logToBuffer ser True True False ms now (CHR ''W'') ''EllaFi'' line b fs of (b', fs', _) \<Rightarrow> (b', fs'))
       (logResources ctx s r) t"

definition resource_contexts :: "string list" where
  "resource_contexts = [''boot'', ''at OUT OF SERVICE'', ''TIGHT'']"

lemma dec_no_nul [simp]: "CHR 0x00 \<notin> set (dec n)" "CHR 0x00 \<notin> set (dec_int i)"
proof -
  have "CHR 0x00 \<notin> set (dec k)" for k
    using dec_digits(2) [of k] by (auto simp: list_all_iff is_digit_def less_eq_char_def)
  then show "CHR 0x00 \<notin> set (dec n)" "CHR 0x00 \<notin> set (dec_int i)" by (auto simp: dec_int_def)
qed

lemma resource_line:
  assumes "board_bounds r" and "ctx \<in> set resource_contexts" and "l \<in> set (logResources ctx s r)"
  shows "length l < 128" and "CHR 0x00 \<notin> set l"
proof -
  have c: "length ctx \<le> 17" "CHR 0x00 \<notin> set ctx" using assms(2) by (auto simp: resource_contexts_def)
  show "length l < 128" using memory_length [OF assms(1) c(1), of s] io_length [OF assms(1) c(1)] assms(3)
    by (auto simp: logResources_def)
  show "CHR 0x00 \<notin> set l" using c(2) assms(3) by (auto simp: logResources_def resource_memory_def resource_io_def)
qed

lemma warning_logged:
  assumes "length l < 128" and "CHR 0x00 \<notin> set l" and "log_ring_ok b"
    and "logToBuffer ser True True False ms now (CHR ''W'') ''EllaFi'' l b fs = (b', fs', f)"
  shows "log_ring_ok b'" and "map le_msg (log_contents b') = last_n LOG_BUF_ENTRIES (map le_msg (log_contents b) @ [l])"
proof -
  have "cstr 512 l = l" using assms(1,2) by (intro cstr_id) simp_all
  then have b': "b' = fold write_one [(ms, now, CHR ''W'', ''EllaFi'', l)] b"
    using assms(4) by (simp add: logToBuffer_def logCore_def)
  note w = writes_contents [OF assms(3), of "[(ms, now, CHR ''W'', ''EllaFi'', l)]"]
  show "log_ring_ok b'" unfolding b' using w by blast
  have "cstr 128 l = l" using assms(1,2) by (intro cstr_id) simp_all
  then show "map le_msg (log_contents b') = last_n LOG_BUF_ENTRIES (map le_msg (log_contents b) @ [l])"
    unfolding b' using w by (simp add: last_n_def drop_map make_entry_def)
qed

section \<open>Properties\<close>

text \<open>C40: The resource lines arrive complete. On a board within its bounds, whatever the counters of failed
  allocations, both lines of each of the three contexts fit an entry: the last two messages of the ring are the
  lines, none cut.\<close>
theorem resource_lines_complete:
  assumes "board_bounds r" and "ctx \<in> set resource_contexts" and "log_ring_ok b"
  shows "last_n 2 (map le_msg (log_contents (fst (log_resources ser ms now ctx s r (b, fs))))) = logResources ctx s r"
proof -
  let ?l1 = "resource_memory ctx s r" and ?l2 = "resource_io ctx r"
  have l: "length ?l1 < 128" "CHR 0x00 \<notin> set ?l1" "length ?l2 < 128" "CHR 0x00 \<notin> set ?l2"
    using resource_line [OF assms(1,2), of _ s] by (simp_all add: logResources_def)
  obtain b1 fs1 f1 where 1: "logToBuffer ser True True False ms now (CHR ''W'') ''EllaFi'' ?l1 b fs = (b1, fs1, f1)"
    by (metis prod_cases3)
  obtain b2 fs2 f2 where 2: "logToBuffer ser True True False ms now (CHR ''W'') ''EllaFi'' ?l2 b1 fs1 = (b2, fs2, f2)"
    by (metis prod_cases3)
  note w1 = warning_logged [OF l(1,2) assms(3) 1]
  note w2 = warning_logged [OF l(3,4) w1(1) 2]
  have "map le_msg (log_contents b2) = last_n LOG_BUF_ENTRIES (map le_msg (log_contents b) @ [?l1, ?l2])"
    using w1(2) w2(2) last_n_append_last_n [of LOG_BUF_ENTRIES "map le_msg (log_contents b) @ [?l1]" "[?l2]"] by simp
  also have "\<dots> = last_n (LOG_BUF_ENTRIES - 2) (map le_msg (log_contents b)) @ [?l1, ?l2]" by (simp add: last_n_suffix)
  finally have "last_n 2 (map le_msg (log_contents b2)) = [?l1, ?l2]" by (simp add: last_n_suffix) (simp add: last_n_def)
  then show ?thesis by (simp add: log_resources_def logResources_def 1 2)
qed

definition demo_resources :: resource_readings where
  "demo_resources = \<lparr>dramFree = 90000, largest = 40000, minHeap = 30000, psram = 8000000, sockets = 3, max_open_sockets = 12,
     ws_waiting = 0, pulse_waiting = Some 0, session_waiting = None, tlsInFlight = 1, fs_total = 3000000, fs_used = 1000000,
     nvs_free = 400, nvs_total = 630\<rparr>"

theorem resource_lines_complete_witness:
  "last_n 2 (map le_msg (log_contents (fst (log_resources (\<lambda>_. []) 0 0 ''at OUT OF SERVICE'' \<lparr>ALLOC_FAIL_COUNT = 4294967295, ALLOC_FAIL_LAST = 4294967295\<rparr>
     demo_resources (empty_log, Map.empty)))))
   = logResources ''at OUT OF SERVICE'' \<lparr>ALLOC_FAIL_COUNT = 4294967295, ALLOC_FAIL_LAST = 4294967295\<rparr> demo_resources"
proof -
  have "board_bounds demo_resources" by (simp add: board_bounds_def demo_resources_def waiting_def)
  moreover have "log_ring_ok empty_log" using log_ok_empty by (simp add: log_ok_def)
  ultimately show ?thesis by (intro resource_lines_complete) (simp_all add: resource_contexts_def)
qed

end
