(* ===== verification/Spec2Isabelle.thy ===== *)
theory Spec2Isabelle
  imports CoinPulse CoinSession Network SlaveOta LogBuffer Money Files Config OmadaApi Portal AdminAuth Led DevicePlane MainLoop Reports Updates AdminPages Vouchers AdminNodes CertBundle TlsClient JsonText Fleet Board JsonCodec SaleLog Refunds MoneyBackup SlotSpec Resources
begin

text \<open>
  A verification library of the EllaFi firmware (\<open>src/src/*.cpp\<close>) and of the TLS client that it
  carries with a patch (\<open>src/lib/WiFiClientSecure\<close>): a coin-operated WiFi hotspot
  on ESP32 boards. One board is the master: it serves the customer portal, talks to the Omada
  controller and settles coin sessions; the other boards are slaves that only own a coin
  acceptor. The same image runs on both.

  \<^bold>\<open>How the parts interact.\<close> A coin makes a pulse on a pin; the interrupt handler measures its width
  and queues it; the pulse task filters it and posts a coin event to the session task (on the
  master) or sends an authenticated UDP packet (on a slave), which the master turns back into a
  pulse. The session task owns the insertion window: it counts coins, times out, and settles with
  the controller, for the customer that claimed the slot through the portal's WebSocket. The
  controller client keeps one login session and a cache of client sessions; the portal reads and
  writes that cache, pauses and resumes sessions, and keeps the paused time in files. Sales,
  refunds and errors are appended to log files; a nightly job derives the money record from the
  controller's vouchers and the sale log.

  \<^bold>\<open>Theories and the code they model.\<close>
  \<^item> \<open>Prelude\<close>: word widths, C string buffers (\<open>strncpy\<close> into a char array), \<open>String\<close> operations
    (trim, toUpperCase, toInt, substring), decimal printing, 32-bit signed integers, folds; the locale \<open>recent_history\<close> of a
    ring that keeps its newest entries.
  \<^item> \<open>Containers\<close>: the ordered map of the standard library and JSON objects as association lists,
    32-bit sums in them, the FreeRTOS queue; locales \<open>std_map\<close> and \<open>bounded_queue\<close> with their interpretations.
  \<^item> \<open>SessionCache\<close> (\<open>omada.h\<close>): \<open>SessionParams\<close>, \<open>SessionCache\<close>. Invariant \<open>cache_ok\<close>.
  \<^item> \<open>CoinPulse\<close> (\<open>coin.cpp\<close>): interrupt handlers, boot test, one iteration of \<open>coinPulseTask\<close>.
  \<^item> \<open>CoinSession\<close> (\<open>coin.cpp\<close>): claim, events, settlement; the step relation \<open>sys_step\<close> interleaves
    the web handler, the pulse task and the session task at their atomic actions, with
    reachability and the invariant \<open>sys_inv\<close>.
  \<^item> \<open>Wire\<close>: little-endian fields and character arrays in packets, and reading them back.
  \<^item> \<open>Network\<close> (\<open>network.cpp\<close>): packet format, authentication, freshness, replay ring, one handler
    per message, one iteration of \<open>networkLoop\<close>.
  \<^item> \<open>SlaveOta\<close> (\<open>network.cpp\<close>): download and flash of an image by a slave.
  \<^item> \<open>LogBuffer\<close> (\<open>log_buffer.cpp\<close>): the ring of recent log entries.
  \<^item> \<open>Json\<close>: JSON values with the accessors of the JSON library that the code uses.
  \<^item> \<open>Money\<close> (\<open>money_store.cpp\<close>, money handlers of \<open>web.cpp\<close>): ledger, income, import, rollup.
  \<^item> \<open>Files\<close> (\<open>files.cpp\<close>): log files with purge, paused-session files, the log front end.
  \<^item> \<open>Config\<close> (\<open>files.cpp\<close>, \<open>reprovision.cpp\<close>): load, mask, merge and save; serial provisioning and
    the WiFi recovery portal.
  \<^item> \<open>OmadaApi\<close> (\<open>omada.cpp\<close>): credentials, requests and replies of every controller call, the cache
    refresh.
  \<^item> \<open>Portal\<close> (\<open>web.cpp\<close>): seeding of sessions, status, WebSocket requests, pause and resume jobs; the test coin
    composes \<open>CoinPulse\<close>.
  \<^item> \<open>AdminAuth\<close> (\<open>web.cpp\<close>): challenge, login, throttle, session cookie and gate of the admin.
  \<^item> \<open>Led\<close> (\<open>led.cpp\<close>): the light's task, which also switches the acceptor's power.
  \<^item> \<open>DevicePlane\<close> (\<open>omada_device.cpp\<close>): the device protocol's digests, its cipher against a reference
    definition of RC4, and the discovery beacon.
  \<^item> \<open>MainLoop\<close> (\<open>main.cpp\<close>): address set-up, waits for WiFi and clock, the order of \<open>setup()\<close>, the health
    ping and the timers of \<open>loop()\<close>.
  \<^item> \<open>Calendar\<close> and \<open>Reports\<close> (\<open>web.cpp\<close>): day numbers, and from them the sales report, the voucher day
    cache, the income statement and the leaderboard.
  \<^item> \<open>Updates\<close> (\<open>web.cpp\<close>): firmware and file system uploads, the release download.
  \<^item> \<open>AdminPages\<close> (\<open>web.cpp\<close>, \<open>web/admin.html\<close>): the logs as pages, the sockets, the history of resources.
  \<^item> \<open>Vouchers\<close> (\<open>web.cpp\<close>): the voucher desk. \<open>AdminNodes\<close> (\<open>web.cpp\<close>): aliases, node page, sellers,
    configuration, restarts, and the table of routes with its gate.
  \<^item> \<open>CertBundle\<close> (\<open>esp_crt_bundle.c\<close>) and \<open>TlsClient\<close> (\<open>ssl_client.cpp\<close>, \<open>WiFiClientSecure.cpp\<close>): the bundle
    of certificates in memory with its search; the connection, its descriptor, its loops and its
    clean-up, names and fingerprints.
  \<^item> \<open>Board\<close> (\<open>omada.cpp\<close>, \<open>coin.cpp\<close>, \<open>reprovision.cpp\<close>, \<open>web.cpp\<close>): the sink for large replies, the page of
    the boot test, the set-up portal, the embedded and brand files.
  \<^item> \<open>JsonText\<close>: the JSON texts that \<open>omada.cpp\<close> and \<open>web.cpp\<close> put together by hand, against a reader of
    JSON; composes \<open>Portal\<close> and \<open>OmadaApi\<close>.
  \<^item> \<open>Fleet\<close>: composes \<open>Network\<close>, \<open>SlaveOta\<close> and \<open>Updates\<close>: rounds of heartbeat, command, download and
    restart, and the image of a slave over them.
  \<^item> \<open>JsonCodec\<close>: the contract of the JSON library, the locale \<open>json_codec\<close>, with an instance.
  \<^item> \<open>SaleLog\<close>: composes \<open>CoinSession\<close>, \<open>Files\<close>, \<open>Money\<close>, \<open>Calendar\<close> and \<open>Reports\<close>: the sale lines of a
    settlement and what the ledger, the sales report and the income statement read from them.
  \<^item> \<open>Refunds\<close>: composes \<open>CoinSession\<close>, \<open>Files\<close> and \<open>AdminPages\<close>: a refund's code from the message to the
    customer through the log to the operator's page, and its purge; the locale \<open>compact_codec\<close>.
  \<^item> \<open>MoneyBackup\<close> (\<open>money_store.cpp\<close>, \<open>web.cpp\<close>): the money record as the text kept in NVS and exported by
    the admin, and its readers at start-up and in an import.
  \<^item> \<open>SlotSpec\<close>: the coin slot as an abstract machine, which the tasks of \<open>CoinSession\<close> refine; the locale
    \<open>trace_refinement\<close>.
  \<^item> \<open>Resources\<close> (\<open>main.cpp\<close>): the resource lines and the hook that counts failed allocations.
  \<^item> this theory: the properties that span the coin's way.

  \<^bold>\<open>State and effects.\<close> The globals a component owns are a record; an operation maps the state to the
  state and a list of actions (packets, WebSocket messages, log lines, restarts) in the order the
  code issues them. What an operation reads from the platform or from other tasks (clock, role,
  whether a lock was taken, an allocation succeeded, a file opened) is a record of its
  environment, so every failure branch of the code is a branch of the model. Machine integers are
  words of their C width: \<open>millis()\<close>, \<open>micros()\<close> and packet sizes are 32 bits, epoch times 64 bits,
  and subtraction wraps as it does there; the counts and pesos of the ledger and the reports, which the
  code sums and multiplies in a 32-bit \<open>long\<close>, are integers cut by \<open>long32\<close> at the places where the code
  stores them; counters whose overflow the code cannot reach are \<open>int\<close> or \<open>nat\<close>. Fixed char arrays are cut as \<open>strncpy\<close> cuts them.

  \<^bold>\<open>Build.\<close> \<open>src/omada.h\<close> defines \<open>TEST_MODE\<close>, so the model is the build with it: the address of the client is in
  a grant's request, a page's query and a frame may name another address, a frame may ask for a test coin, and
  the boot test and the stress endpoint have their routes.

  \<^bold>\<open>Parameters.\<close> HMAC-SHA256 (only its length is used), the HTTP exchange with the controller (a
  function from request to reply), the JSON reader and writer, \<open>localtime\<close> and the formatting of
  dates, the zone, \<open>IPAddress\<close> parsing and printing, the random sources, SHA-256, MD5 and RSA, the
  sort of the standard library, the updater and the flash (as what they answered), lwIP's sockets and
  mbedtls (as the list of what a loop sees). No theorem assumes more of them than its premises say.

  \<^bold>\<open>What the lemmas show.\<close> Invariants: \<open>cache_ok\<close>, \<open>sys_inv\<close>, \<open>seen_ok\<close>, \<open>ledger_ok\<close> and their preservation by
  every operation. Functional results: what a lookup returns after an upsert, what a purge keeps,
  what a rollup writes, what a merge of client lists holds, what a report sums, what a page shows.
  Equivalence and refinement: the cipher is RC4, day numbers count the days of the calendar, the
  resource history is the worst of every bucket, the interleaved tasks implement an abstract slot, and
  over all its histories the coins taken are those sold, refunded, kept and still in the slot. Safety over interleavings: one claim
  at a time, no coin credited twice by a repeated packet, no pulse credited outside the rules.
  The admin: only a fresh digest of the password logs in, only public routes answer without a
  login, uploads stay in their buffer. Round trips: packets, heartbeat bodies, pause and resume, the
  recovery form, the seller of a voucher group, the nickname of a node, the export of the money record. The books: a granted coin reaches the month
  of its sale once, and the three readers of the sale log agree. The clock: the nightly rollup starts once for each
  minute of 2:45 that the wall clock shows, which is twice in the night that summer time ends. Types: the status message is
  a JSON object with every announced member. The fleet: a complete round installs the master's
  image, and a slave never runs a part of one. The TLS client: a descriptor is closed once by each
  client that was given it, the bundle is found by its issuer, waits end. Error paths: what a failed
  settlement, a failed save, an error reply leave behind; some of these theorems state
  behaviour that looks unintended, and say so.

  \<^bold>\<open>Bounds.\<close> Loops are structural recursions over the data they read (the bytes of a stream, the
  lines of a file, the elements of a JSON array, the readings of a clock), or have a measure
  that falls (the walk over the years and months of the calendar, hexadecimal printing); decimal
  printing carries fuel that is one more than the number it prints, and a lemma shows that it is
  enough. The replay ring has 64 places and the theorem on replays
  allows fewer than 64 datagrams in between; the log page's theorem is for sequence numbers below
  \<open>2 ^ 31\<close>, where \<open>atoi\<close> reads them unchanged.

  The JSON reader carries the length of the text as fuel; that this is enough for every text the code
  writes is part of the lemmas on \<open>json_text\<close>.

  \<^bold>\<open>Not modelled.\<close> The reading of the board's counters, the calls that
  switch radio, DNS and tasks on and off; the web server, mbedtls and lwIP, UDP, flash and RTOS libraries; the scripts of the pages except the poll
  of the log page; the emulator, the tools and the board's drawings. Mutexes and atomics appear only
  as the grain of the steps.
\<close>

section \<open>From a slave's coin to the session\<close>

text \<open>C1: A coin dropped into a slave's acceptor reaches the customer. The packet that a slave sends
  for a coin, received by the master in time and not a replay, becomes a pulse; the master's
  pulse task, while the window is open, half a second after it opened and with no boot test running, turns that pulse into a coin event under the slave's MAC;
  and the session task counts the event: one more coin in total and one more for that node.\<close>
theorem slave_coin_counted:
  assumes "sound_hmac em" "hmac em = hmac es" "NET_KEY em = NET_KEY es"
    and "slaveSendCoinInserted es = Some pkt" and "fresh (netNowMs em) (netNowMs es)"
    and "IS_MASTER em" and "(cstr 18 (net_own_mac es), netNowMs es) \<notin> set (COIN_SEEN sm)"
    and "accepting ep" and "slot_ready_millis ep \<le> now_millis ep" and "is_master ep"
    and "\<not> BOOT_TEST_RUNNING (boot t)" and "cstr 18 (net_own_mac es) \<noteq> []" and "omap_ok nc"
    and q: "q = masterRecvCoinInserted (net_micros em) (cstr 18 (net_own_mac es))"
    and mac: "mac = cstr 18 (to_upper (cstr 18 (net_own_mac es)))"
    and ev: "session_event parse now (COIN_SESSION_COIN mac) (Open nc) c = (ph, c', a)"
  shows "PostPulse q \<in> set (snd (networkLoop em ip pkt sm))
     \<and> snd (coinPulseTask ep q t) = [PostCoin mac]
     \<and> COIN_COUNT c' = COIN_COUNT c + 1
     \<and> (\<exists>nc'. ph = Open nc' \<and> (\<forall>m. omap_get 0 nc' m = omap_get 0 nc m + (if m = mac then 1 else 0)))"
proof -
  have "net_receive em pkt = Inr (NET_MSG_COIN_INSERTED, netNowMs es, put_chars 18 (net_own_mac es))"
    using assms(1-5) by (intro transmit_received) (simp_all add: slaveSendCoinInserted_def)
  then have post: "PostPulse q \<in> set (snd (networkLoop em ip pkt sm))"
    unfolding q using assms(6,7) by (rule loop_coin_posted)
  have "source q = PULSE_NETWORK" "pulse_mac q = cstr 18 (net_own_mac es)"
    by (simp_all add: q masterRecvCoinInserted_def)
  then have "snd (coinPulseTask ep q t) = [PostCoin mac]"
    using assms(8-12) by (simp add: mac coinPulseTask_def too_narrow_def too_fast_def accept_pulse_def)
  moreover have "ph = Open (omap_add mac 1 nc)" "COIN_COUNT c' = COIN_COUNT c + 1"
    using ev by (auto simp: session_coin_def)
  ultimately show ?thesis using post assms(13) by (simp add: omap_get_add)
qed

theorem slave_coin_counted_witness:
  "PostPulse (masterRecvCoinInserted 20000000 ''BB'') \<in> set (snd (networkLoop (demo_net True ''AA'' 1 1400) 9 demo_coin_packet demo_node))
     \<and> snd (coinPulseTask demo_env (masterRecvCoinInserted 20000000 ''BB'') fresh_task) = [PostCoin ''BB'']
     \<and> COIN_COUNT (fst (snd (session_event demo_parse 0 (COIN_SESSION_COIN ''BB'') (Open []) demo_coin))) = COIN_COUNT demo_coin + 1"
proof -
  let ?em = "demo_net True ''AA'' 1 1400" and ?es = "demo_net False ''BB'' 1 1000"
  have f: "hmac ?em = hmac ?es" "NET_KEY ?em = NET_KEY ?es" "fresh (netNowMs ?em) (netNowMs ?es)"
    "IS_MASTER ?em" "net_own_mac ?es = ''BB''" "netNowMs ?es = 1000" "net_micros ?em = 20000000"
    by (simp_all add: demo_net_def fresh_def)
  have s: "slaveSendCoinInserted ?es = Some demo_coin_packet"
    using demo_coin_sent f by (simp add: slaveSendCoinInserted_def)
  have own: "cstr 18 ''BB'' = ''BB''" "to_upper ''BB'' = ''BB''"
    by (simp_all add: cstr_def to_upper_def upper_char_def)
  have n: "(''BB'', 1000) \<notin> set (COIN_SEEN demo_node)" by (simp add: demo_node_def)
  have w: "accepting demo_env" "slot_ready_millis demo_env \<le> now_millis demo_env" "is_master demo_env"
    "\<not> BOOT_TEST_RUNNING (boot fresh_task)" by (simp_all add: demo_defs)
  obtain ph c' a where ev: "session_event demo_parse 0 (COIN_SESSION_COIN ''BB'') (Open []) demo_coin = (ph, c', a)"
    by (metis prod_cases3)
  from slave_coin_counted [OF sound_demo f(1,2) s f(3,4) _ w _ _ refl refl, of demo_node "[]", unfolded f own, OF n _ _ ev]
  show ?thesis unfolding ev by (simp add: omap_ok_def)
qed

section \<open>From the coins to the controller\<close>

text \<open>\<open>finalizeSession\<close> with the controller's own commands for the parameters of \<open>settle\<close>.\<close>

definition controller_settle :: "omada_env \<Rightarrow> site \<Rightarrow> credentials \<Rightarrow> settle_env \<Rightarrow> settle_env" where
  "controller_settle oe st cr e = e\<lparr>now_epoch := om_epoch oe,
     extend_call := (\<lambda>s d. snd (extendOmadaClient oe st s d cr)),
     auth_call := (\<lambda>s d. snd (authenticateOmadaClient oe st s d cr))\<rparr>"

text \<open>C2: Paid time is granted, exactly. When the coins of a session are settled as sold, the
  controller has accepted a request for exactly coins times minutes per coin, as an extension
  when the session was still running and as a new grant otherwise; the customer's session in
  the cache now ends that much after its old end, or after now, and every coin is logged.\<close>
theorem paid_time_granted:
  assumes ok: "cache_ok c" and x: "findByIp c (ip_render e (clientIpV4 (COIN_SESSION_SLOT s))) = Some x"
    and mac: "clientMac x \<noteq> []"
    and fin: "finalizeSession (controller_settle oe st cr e) False nc c s = (c', s', a)"
    and sold: "settlement (controller_settle oe st cr e) nc c s = Settled"
    and sum: "sum_list (map snd nc) = COIN_COUNT s"
  shows "(\<exists>y. findByMac c' (clientMac x) = Some y
        \<and> sessionEndMillis y = (if session_active (om_epoch oe) x then sessionEndMillis x else om_epoch oe)
             + coin_millis (minutes_per_coin e) (COIN_COUNT s))
     \<and> sold a = COIN_COUNT s
     \<and> (\<exists>snap. (if session_active (om_epoch oe) x
          then command_result oe ''Extend'' (exchange oe (extend_request oe st snap x (coin_millis (minutes_per_coin e) (COIN_COUNT s))))
          else command_result oe ''Auth'' (exchange oe (auth_request oe st snap x (coin_millis (minutes_per_coin e) (COIN_COUNT s)))))
          = None)"
proof -
  let ?E = "controller_settle oe st cr e" and ?d = "coin_millis (minutes_per_coin e) (COIN_COUNT s)"
  have render: "ip_render ?E = ip_render e" "minutes_per_coin ?E = minutes_per_coin e" "now_epoch ?E = om_epoch oe"
    "extend_call ?E x ?d = snd (extendOmadaClient oe st x ?d cr)"
    "auth_call ?E x ?d = snd (authenticateOmadaClient oe st x ?d cr)"
    by (simp_all add: controller_settle_def)
  obtain sess' r acts where st: "settle ?E (COIN_COUNT s) nc (Some x) = (sess', r, acts)" by (metis prod_cases3)
  with sold x have r: "r = Settled" by (simp add: settlement_def render)
  obtain ce xe ee where E: "extendOmadaClient oe st x ?d cr = (ce, xe, ee)" by (metis prod_cases3)
  obtain ca xa ea where A: "authenticateOmadaClient oe st x ?d cr = (ca, xa, ea)" by (metis prod_cases3)
  have sess': "sess' = Some (if session_active (om_epoch oe) x then xe else xa)"
    and none: "(if session_active (om_epoch oe) x then ee else ea) = None"
    using st r by (auto simp: settle_def render E A split: if_splits option.splits)
  let ?y = "if session_active (om_epoch oe) x then xe else xa"
  from findByIp_SomeD [OF ok x] mac have f: "findByMac c (clientMac x) = Some x" by (simp add: findByMac_def)
  have "c' = modify_session (clientMac x) (\<lambda>_. ?y) c"
    using fin x st sess' by (auto simp: finalizeSession_def render Let_def)
  then have "findByMac c' (clientMac x) = Some ?y" using find_replaced [OF ok f] by simp
  moreover have "sessionEndMillis ?y = (if session_active (om_epoch oe) x then sessionEndMillis x else om_epoch oe) + ?d"
    using none extend_result [of oe st x ?d cr ce xe] auth_result [of oe st x ?d cr ca xa] E A by auto
  moreover have "\<exists>snap. (if session_active (om_epoch oe) x
      then command_result oe ''Extend'' (exchange oe (extend_request oe st snap x ?d))
      else command_result oe ''Auth'' (exchange oe (auth_request oe st snap x ?d))) = None"
    using none extend_asked [of oe st x ?d cr ce xe] auth_asked [of oe st x ?d cr ca xa] E A by (auto split: if_splits)
  moreover have "sold a = COIN_COUNT s" using finalize_accounting(1) [OF fin sum] sold by simp
  ultimately show ?thesis by blast
qed

theorem paid_time_granted_witness:
  "let e = controller_settle (om_env (demo_portal_env 1700000030000)) demo_site demo_credentials (demo_settle True None);
       r = finalizeSession e False [(''AA'', 1)] demo_active (coin demo_finalizing)
   in (\<exists>y. findByMac (fst r) ''AA'' = Some y \<and> sessionEndMillis y = 1700001530000) \<and> sold (snd (snd r)) = 1"
proof -
  let ?oe = "om_env (demo_portal_env 1700000030000)"
  let ?e = "controller_settle ?oe demo_site demo_credentials (demo_settle True None)"
  let ?r = "finalizeSession ?e False [(''AA'', 1)] demo_active (coin demo_finalizing)"
  have slot: "clientIpV4 (COIN_SESSION_SLOT (coin demo_finalizing)) = 7" and n: "COIN_COUNT (coin demo_finalizing) = 1"
    by (simp_all add: demo_finalizing_def demo_coin_def)
  have render: "ip_render (demo_settle True None) 7 = ''10.0.0.7''" "minutes_per_coin (demo_settle True None) = 24"
    by (simp_all add: demo_settle_def)
  have f: "findByIp demo_active (ip_render (demo_settle True None) (clientIpV4 (COIN_SESSION_SLOT (coin demo_finalizing))))
      = Some demo_active_session"
    unfolding slot render
    by (simp add: demo_active_def demo_active_session_def upsert_def upsert_key_def empty_cache_def drop_old_ip_def
        default_session_def modify_session_def findByIp_def Let_def)
  have act: "session_active (om_epoch ?oe) demo_active_session" "clientMac demo_active_session = ''AA''"
    "sessionEndMillis demo_active_session = 1700000090000"
    by (simp_all add: session_active_def demo_active_session_def demo_portal_env_def)
  have "extendOmadaClient ?oe demo_site demo_active_session d demo_credentials
      = (demo_credentials, demo_active_session\<lparr>sessionEndMillis := sessionEndMillis demo_active_session + d\<rparr>, None)" for d
    by (simp add: extendOmadaClient_def getCredentials_def demo_portal_env_def demo_omada_env_def
        demo_credentials_def command_result_def as_int_def)
  then have set: "settlement ?e [(''AA'', 1)] demo_active (coin demo_finalizing) = Settled"
    using f act slot render n by (simp add: settlement_def settle_def controller_settle_def)
  have "?r = (fst ?r, fst (snd ?r), snd (snd ?r))" by simp
  from paid_time_granted [OF cache_ok_demo_active f _ this set] act n show ?thesis
    by (auto simp: Let_def coin_millis_def render)
qed

end
